(* ===== verification/MD_Prelude.thy ===== *)
theory MD_Prelude
  imports Main "HOL-Library.AList" "HOL-Library.Char_ord" "HOL-Library.List_Lexorder"
    "HOL-Library.Product_Lexorder" "HOL-Library.Multiset" "HOL-Library.Signed_Division"
begin

text \<open>
  Shared vocabulary of the development.

  A Go map is an association list with distinct keys (\<open>gomap\<close>): reading is \<open>map_of\<close>,
  writing is \<open>AList.update\<close>, deleting is \<open>AList.delete\<close>. The order of the list stands for
  the order in which one \<open>range\<close> statement happens to visit the map; Go leaves that order
  open, so every theorem holds for every order.

  A context is the sequence of answers that successive calls of \<open>ctx.Err()\<close> give within one
  operation: \<open>ctx k\<close> is the answer to the \<open>k\<close>-th poll, \<open>None\<close> while the context is live.

  Go's integer division truncates toward zero: \<open>sdiv\<close> and \<open>smod\<close> of
  \<open>HOL-Library.Signed_Division\<close>.
\<close>

named_theorems gomap_simps "reading, writing and keeping distinct the keys of Go maps"
named_theorems result_simps "evaluation of sums used as Go results"

type_synonym ('k, 'v) gomap = "('k \<times> 'v) list"

definition gwf :: "('k, 'v) gomap \<Rightarrow> bool" where
  "gwf m \<longleftrightarrow> distinct (map fst m)"

definition ghas :: "('k, 'v) gomap \<Rightarrow> 'k \<Rightarrow> bool" where
  "ghas m k \<longleftrightarrow> map_of m k \<noteq> None"

text \<open>Reading a missing key gives the zero value of the element type.\<close>

definition gget :: "'v \<Rightarrow> ('k, 'v) gomap \<Rightarrow> 'k \<Rightarrow> 'v" where
  "gget z m k = (case map_of m k of None \<Rightarrow> z | Some v \<Rightarrow> v)"

text \<open>The first error met in a list of polls or steps.\<close>

fun first_error :: "'e option list \<Rightarrow> 'e option" where
  "first_error [] = None"
| "first_error (None # es) = first_error es"
| "first_error (Some e # es) = Some e"

section \<open>Go maps\<close>

lemma gwf_Nil [gomap_simps, simp]: "gwf []"
  by (simp add: gwf_def)

lemma gwf_update [gomap_simps, simp]: "gwf m \<Longrightarrow> gwf (AList.update k v m)"
  by (simp add: gwf_def distinct_update)

lemma gwf_delete [gomap_simps, simp]: "gwf m \<Longrightarrow> gwf (AList.delete k m)"
  by (simp add: gwf_def distinct_delete)

lemma gwf_filter [gomap_simps, simp]: "gwf m \<Longrightarrow> gwf (filter P m)"
  by (simp add: gwf_def distinct_map_filter)

lemma map_of_update [gomap_simps, simp]:
  "map_of (AList.update k v m) k' = (if k' = k then Some v else map_of m k')"
  by (simp add: AList.update_conv')

lemma map_of_delete [gomap_simps, simp]:
  "map_of (AList.delete k m) k' = (if k' = k then None else map_of m k')"
  by (simp add: AList.delete_conv')

lemma gwf_map_of: "gwf m \<Longrightarrow> map_of m k = Some v \<longleftrightarrow> (k, v) \<in> set m"
  by (simp add: gwf_def)

lemma map_of_filter_fst:
  "gwf m \<Longrightarrow> map_of (filter (\<lambda>(k, v). P k) m) k = (if P k then map_of m k else None)"
proof (induction m)
  case (Cons kv m)
  obtain k' v' where kv: "kv = (k', v')" by fastforce
  from Cons have "gwf m" by (simp add: gwf_def)
  with Cons.IH kv show ?case by auto
qed simp

lemma ghas_iff [gomap_simps]: "ghas m k \<longleftrightarrow> k \<in> fst ` set m"
  by (simp add: ghas_def map_of_eq_None_iff)

lemma ghas_update [gomap_simps, simp]: "ghas (AList.update k v m) k' \<longleftrightarrow> k' = k \<or> ghas m k'"
  by (simp add: ghas_def)

lemma gget_update [gomap_simps, simp]:
  "gget z (AList.update k v m) k' = (if k' = k then v else gget z m k')"
  by (simp add: gget_def)

lemma gwf_inj_on: "gwf m \<Longrightarrow> inj_on fst (set m)"
  by (simp add: gwf_def distinct_map)

lemma gwf_distinct: "gwf m \<Longrightarrow> distinct m"
  by (simp add: gwf_def distinct_map)

lemma set_update_cases: "p \<in> set (AList.update k v m) \<Longrightarrow> p = (k, v) \<or> p \<in> set m"
  by (induction m) (auto split: if_splits)

lemma length_update_new: "\<not> ghas m k \<Longrightarrow> length (AList.update k v m) = Suc (length m)"
  by (induction m) (auto simp: ghas_def split: if_splits)

lemma length_update_old: "ghas m k \<Longrightarrow> length (AList.update k v m) = length m"
  by (induction m) (auto simp: ghas_def split: if_splits)

lemma length_delete_has:
  "gwf m \<Longrightarrow> ghas m k \<Longrightarrow> Suc (length (AList.delete k m)) = length m"
proof (induction m)
  case (Cons kv m)
  obtain k' v' where kv: "kv = (k', v')" by fastforce
  from Cons.prems have wf: "gwf m" and notin: "k' \<notin> fst ` set m"
    by (auto simp: gwf_def kv)
  show ?case
  proof (cases "k = k'")
    case True
    with notin have "AList.delete k m = m"
      by (simp add: AList.delete_id)
    with True kv show ?thesis by simp
  next
    case False
    with Cons.prems kv have "ghas m k" by (simp add: ghas_def)
    with wf Cons.IH kv False show ?thesis by simp
  qed
qed (simp add: ghas_def)

section \<open>Results\<close>

lemma first_error_None [result_simps]: "first_error es = None \<longleftrightarrow> (\<forall>e \<in> set es. e = None)"
  by (induction es rule: first_error.induct) auto

lemma first_error_append:
  "first_error (xs @ ys) = (case first_error xs of None \<Rightarrow> first_error ys | Some e \<Rightarrow> Some e)"
  by (induction xs rule: first_error.induct) auto

lemma first_error_Some_mem: "first_error es = Some e \<Longrightarrow> Some e \<in> set es"
  by (induction es rule: first_error.induct) auto

section \<open>Sorting by a key\<close>

text \<open>
  \<open>slices.SortFunc\<close> is not stable. Where the keys are distinct that makes no difference:
  there is exactly one list with the given rows in ascending key order.
\<close>

lemma sort_key_unique:
  assumes "mset ys = mset xs" and "sorted (map f ys)" and "distinct (map f xs)"
  shows "ys = sort_key f xs"
proof -
  have "inj_on f (set xs)" using assms(3) by (simp add: distinct_map)
  with assms(1,2) show ?thesis
    by (intro sort_key_inj_key_eq [symmetric]) simp_all
qed

lemma sort_key_perm:
  assumes "mset xs = mset ys" and "distinct (map f xs)"
  shows "sort_key f xs = sort_key f ys"
proof (rule sort_key_unique [symmetric])
  show "mset (sort_key f ys) = mset xs" using assms(1) by simp
  show "sorted (map f (sort_key f ys))" by simp
  show "distinct (map f xs)" by (rule assms(2))
qed

lemma distinct_map_sort_key: "distinct (map f (sort_key g xs)) = distinct (map f xs)"
  by (rule mset_eq_imp_distinct_iff) (simp add: mset_map)

lemma strict_sorted_sort_key:
  "distinct (map f xs) \<Longrightarrow> sorted_wrt (<) (map f (sort_key f xs))"
  by (simp add: strict_sorted_iff distinct_map_sort_key)

end
