(* ===== verification/Go_Time.thy ===== *)
theory Go_Time
  imports MD_Prelude
begin

text \<open>
  The part of Go's \<open>time\<close> package the program uses. An instant is its number of nanoseconds
  since 1970-01-01 00:00:00 UTC; the location and the monotonic reading of a \<open>time.Time\<close>
  carry no information the program depends on (\<open>UTC()\<close> is the identity on instants, and
  every map key is taken after \<open>UTC()\<close>). A duration is a number of nanoseconds.

  Civil dates are the proleptic Gregorian calendar. \<open>year_of_day\<close> is the cycle-cutting
  computation of the \<open>time\<close> package; the lemmas show that it inverts the count of days
  before a year, and that the months partition the days.
\<close>

type_synonym time = int
type_synonym duration = int

abbreviation nanos :: int where "nanos \<equiv> 1000000000"
abbreviation day_seconds :: int where "day_seconds \<equiv> 86400"

definition Second :: duration where "Second = nanos"
definition Minute :: duration where "Minute = 60 * nanos"
definition Hour :: duration where "Hour = 3600 * nanos"

text \<open>The zero \<open>time.Time\<close> is January 1, year 1, 00:00:00 UTC.\<close>

definition zero_time :: time where
  "zero_time = -62135596800 * nanos"

definition IsZero :: "time \<Rightarrow> bool" where
  "IsZero t \<longleftrightarrow> t = zero_time"

definition Unix :: "time \<Rightarrow> int" where
  "Unix t = t div nanos"

definition of_Unix :: "int \<Rightarrow> time" where
  "of_Unix s = s * nanos"

definition of_UnixMilli :: "int \<Rightarrow> time" where
  "of_UnixMilli ms = ms * 1000000"

abbreviation max_int64 :: int where "max_int64 \<equiv> 9223372036854775807"
abbreviation min_int64 :: int where "min_int64 \<equiv> - 9223372036854775808"

text \<open>\<open>t.Sub(u)\<close> saturates at the ends of the 64-bit range.\<close>

definition time_Sub :: "time \<Rightarrow> time \<Rightarrow> duration" where
  "time_Sub t u = max min_int64 (min max_int64 (t - u))"

section \<open>Days, years and months\<close>

text \<open>Days are counted from January 1, year 1.\<close>

definition days_before_year :: "int \<Rightarrow> int" where
  "days_before_year y = 365 * (y - 1) + (y - 1) div 4 - (y - 1) div 100 + (y - 1) div 400"

definition is_leap :: "int \<Rightarrow> bool" where
  "is_leap y \<longleftrightarrow> y mod 4 = 0 \<and> (y mod 100 \<noteq> 0 \<or> y mod 400 = 0)"

definition year_of_day :: "int \<Rightarrow> int" where
  "year_of_day d =
     (let n400 = d div 146097; d1 = d mod 146097;
          n100 = d1 div 36524 - d1 div 36524 div 4; d2 = d1 - 36524 * n100;
          n4 = d2 div 1461; d3 = d2 - 1461 * n4;
          n1 = d3 div 365 - d3 div 365 div 4
      in 400 * n400 + 100 * n100 + 4 * n4 + n1 + 1)"

definition days_before_month :: "bool \<Rightarrow> int \<Rightarrow> int" where
  "days_before_month leap m =
     (if m \<le> 1 then 0 else if m = 2 then 31
      else (if leap then 1 else 0) +
        (if m = 3 then 59 else if m = 4 then 90 else if m = 5 then 120 else if m = 6 then 151
         else if m = 7 then 181 else if m = 8 then 212 else if m = 9 then 243
         else if m = 10 then 273 else if m = 11 then 304 else if m = 12 then 334 else 365))"

definition month_of_yday :: "bool \<Rightarrow> int \<Rightarrow> int" where
  "month_of_yday leap d =
     (let b = days_before_month leap in
      if d < b 2 then 1 else if d < b 3 then 2 else if d < b 4 then 3 else if d < b 5 then 4
      else if d < b 6 then 5 else if d < b 7 then 6 else if d < b 8 then 7
      else if d < b 9 then 8 else if d < b 10 then 9 else if d < b 11 then 10
      else if d < b 12 then 11 else 12)"

text \<open>1970-01-01 is day 719162.\<close>

definition day_of :: "time \<Rightarrow> int" where
  "day_of t = Unix t div day_seconds + 719162"

definition Year :: "time \<Rightarrow> int" where
  "Year t = year_of_day (day_of t)"

definition Month :: "time \<Rightarrow> int" where
  "Month t = month_of_yday (is_leap (Year t)) (day_of t - days_before_year (Year t))"

text \<open>
  \<open>time.Date(y, m, 1, 0, 0, 0, 0, time.UTC)\<close>: the month is counted from January of year 1,
  which normalises a month outside 1..12 the way \<open>time.Date\<close> does.
\<close>

definition month_first_day :: "int \<Rightarrow> int" where
  "month_first_day i =
     days_before_year (i div 12 + 1) + days_before_month (is_leap (i div 12 + 1)) (i mod 12 + 1)"

definition Date_first :: "int \<Rightarrow> int \<Rightarrow> time" where
  "Date_first y m = of_Unix ((month_first_day (12 * (y - 1) + (m - 1)) - 719162) * day_seconds)"

definition month_index :: "time \<Rightarrow> int" where
  "month_index t = 12 * (Year t - 1) + (Month t - 1)"

section \<open>Years\<close>

lemma quotient_bounds:
  fixes x n :: int
  assumes "0 < n"
  shows "n * (x div n) \<le> x" and "x < n * (x div n) + n"
  using assms mult_div_mod_eq [of n x] pos_mod_bound [of n x] pos_mod_sign [of n x] by linarith+

lemma div_pred:
  fixes y n :: int
  assumes "0 < n"
  shows "y div n = (y - 1) div n + (if n dvd y then 1 else 0)"
proof (cases "n dvd y")
  case True
  then obtain q where "y = n * q" by blast
  moreover have "(n * q - 1) div n = q - 1"
    using assms by (intro int_div_pos_eq [where r = "n - 1"]) (auto simp: algebra_simps)
  ultimately show ?thesis using assms by simp
next
  case False
  then have "y mod n \<noteq> 0" by (simp add: dvd_eq_mod_eq_0)
  then have "0 \<le> y mod n - 1" "y mod n - 1 < n"
    using assms pos_mod_sign [of n y] pos_mod_bound [of n y] by linarith+
  moreover have "y - 1 = n * (y div n) + (y mod n - 1)"
    using mult_div_mod_eq [of n y] by linarith
  ultimately have "(y - 1) div n = y div n" by (intro int_div_pos_eq)
  with False show ?thesis by simp
qed

lemma days_before_year_parts:
  fixes a b c e :: int
  assumes "0 \<le> b" "b \<le> 3" "0 \<le> c" "c \<le> 24" "0 \<le> e" "e \<le> 3"
  shows "days_before_year (400 * a + 100 * b + 4 * c + e + 1) = 146097 * a + 36524 * b + 1461 * c + 365 * e"
proof -
  let ?y = "400 * a + 100 * b + 4 * c + e"
  have "?y div 4 = 100 * a + 25 * b + c"
    by (rule int_div_pos_eq [where r = e]) (use assms in auto)
  moreover have "?y div 100 = 4 * a + b"
    by (rule int_div_pos_eq [where r = "4 * c + e"]) (use assms in auto)
  moreover have "?y div 400 = a"
    by (rule int_div_pos_eq [where r = "100 * b + 4 * c + e"]) (use assms in auto)
  ultimately show ?thesis by (simp add: days_before_year_def)
qed

lemma days_before_year_Suc:
  "days_before_year (y + 1) = days_before_year y + (if is_leap y then 366 else 365)"
proof -
  have imp: "400 dvd y \<Longrightarrow> 100 dvd y" "100 dvd y \<Longrightarrow> 4 dvd y"
    by (erule dvd_trans [rotated], simp)+
  have h: "days_before_year (y + 1) =
      365 * y + ((y - 1) div 4 + (if 4 dvd y then 1 else 0))
      - ((y - 1) div 100 + (if 100 dvd y then 1 else 0)) + ((y - 1) div 400 + (if 400 dvd y then 1 else 0))"
    unfolding days_before_year_def
    by (simp only: add_diff_cancel_right' div_pred [of 4 y, OF zero_less_numeral]
        div_pred [of 100 y, OF zero_less_numeral] div_pred [of 400 y, OF zero_less_numeral])
  have l: "is_leap y \<longleftrightarrow> 4 dvd y \<and> (\<not> 100 dvd y \<or> 400 dvd y)"
    by (simp add: is_leap_def dvd_eq_mod_eq_0)
  define q4 q100 q400 where "q4 = (y - 1) div 4" and "q100 = (y - 1) div 100" and "q400 = (y - 1) div 400"
  define p4 p100 p400 where "p4 \<longleftrightarrow> 4 dvd y" and "p100 \<longleftrightarrow> 100 dvd y" and "p400 \<longleftrightarrow> 400 dvd y"
  note folds = q4_def [symmetric] q100_def [symmetric] q400_def [symmetric]
    p4_def [symmetric] p100_def [symmetric] p400_def [symmetric]
  show ?thesis
    unfolding h l days_before_year_def [of y] folds
    using imp unfolding folds by (cases p4; cases p100; cases p400) simp_all
qed

text \<open>The cuts of the cycle computation are in range and recompose the day.\<close>

lemma cut_last: "0 \<le> q \<Longrightarrow> q \<le> 4 \<Longrightarrow> q - q div 4 = (if q = 4 then 3 else (q::int))"
  by presburger

lemma year_cuts:
  fixes d :: int
  defines "d1 \<equiv> d mod 146097"
  defines "b \<equiv> d1 div 36524 - d1 div 36524 div 4"
  defines "d2 \<equiv> d1 - 36524 * b"
  defines "c \<equiv> d2 div 1461"
  defines "d3 \<equiv> d2 - 1461 * c"
  defines "e \<equiv> d3 div 365 - d3 div 365 div 4"
  shows "0 \<le> b" "b \<le> 3" "0 \<le> c" "c \<le> 24" "0 \<le> e" "e \<le> 3"
    and "0 \<le> d3 - 365 * e" "d3 - 365 * e \<le> (if e = 3 \<and> (c < 24 \<or> b = 3) then 365 else 364)"
proof -
  have d1: "0 \<le> d1" "d1 < 146097" by (simp_all add: d1_def)
  note q1 = quotient_bounds [of 36524 d1, simplified]
  have q: "0 \<le> d1 div 36524" "d1 div 36524 \<le> 4" using d1 q1 by linarith+
  have b: "b = (if d1 div 36524 = 4 then 3 else d1 div 36524)"
    unfolding b_def by (rule cut_last [OF q])
  then show b03: "0 \<le> b" "b \<le> 3" using q by (auto split: if_splits)
  have d2: "0 \<le> d2" "d2 \<le> (if b = 3 then 36524 else 36523)"
    using b d1 q1 unfolding d2_def by (auto split: if_splits)
  note q2 = quotient_bounds [of 1461 d2, simplified, folded c_def]
  show c024: "0 \<le> c" "c \<le> 24" using d2 q2 by (auto split: if_splits)
  have d3: "0 \<le> d3" "d3 \<le> (if c < 24 \<or> b = 3 then 1460 else 1459)"
    using d2 c024 q2 unfolding d3_def by (auto split: if_splits)
  note q3 = quotient_bounds [of 365 d3, simplified]
  have q4: "0 \<le> d3 div 365" "d3 div 365 \<le> 4" using d3 q3 by (auto split: if_splits)
  have e: "e = (if d3 div 365 = 4 then 3 else d3 div 365)"
    unfolding e_def by (rule cut_last [OF q4])
  then show "0 \<le> e" "e \<le> 3" using q4 by (auto split: if_splits)
  show "0 \<le> d3 - 365 * e" "d3 - 365 * e \<le> (if e = 3 \<and> (c < 24 \<or> b = 3) then 365 else 364)"
    using e d3 q3 q4 by (auto split: if_splits)
qed

lemma is_leap_parts:
  fixes a b c e :: int
  assumes "0 \<le> b" "b \<le> 3" "0 \<le> c" "c \<le> 24" "0 \<le> e" "e \<le> 3"
  shows "is_leap (400 * a + 100 * b + 4 * c + e + 1) \<longleftrightarrow> e = 3 \<and> (c < 24 \<or> b = 3)"
proof -
  let ?y = "400 * a + 100 * b + 4 * c + e + 1"
  have m4: "?y mod 4 = (if e = 3 then 0 else e + 1)"
    by (rule int_mod_pos_eq [where q = "100 * a + 25 * b + c + (if e = 3 then 1 else 0)"])
      (use assms in auto)
  have m100: "?y mod 100 = (if e = 3 \<and> c = 24 then 0 else 4 * c + e + 1)"
    by (rule int_mod_pos_eq [where q = "4 * a + b + (if e = 3 \<and> c = 24 then 1 else 0)"])
      (use assms in auto)
  have m400: "?y mod 400 = (if e = 3 \<and> c = 24 \<and> b = 3 then 0 else 100 * b + 4 * c + e + 1)"
    by (rule int_mod_pos_eq [where q = "a + (if e = 3 \<and> c = 24 \<and> b = 3 then 1 else 0)"])
      (use assms in auto)
  from assms show ?thesis
    unfolding is_leap_def m4 m100 m400 by auto
qed

lemma year_of_day_bounds:
  shows "days_before_year (year_of_day d) \<le> d" (is ?lo)
    and "d < days_before_year (year_of_day d + 1)" (is ?hi)
proof -
  define a where "a = d div 146097"
  define d1 where "d1 = d mod 146097"
  define b where "b = d1 div 36524 - d1 div 36524 div 4"
  define d2 where "d2 = d1 - 36524 * b"
  define c where "c = d2 div 1461"
  define d3 where "d3 = d2 - 1461 * c"
  define e where "e = d3 div 365 - d3 div 365 div 4"
  note cuts = year_cuts [of d, folded d1_def, folded b_def, folded d2_def, folded c_def,
      folded d3_def, folded e_def]
  have y: "year_of_day d = 400 * a + 100 * b + 4 * c + e + 1"
    by (simp add: year_of_day_def Let_def a_def b_def c_def d1_def d2_def d3_def e_def)
  have d: "d = 146097 * a + 36524 * b + 1461 * c + d3"
  proof -
    have "146097 * a + d1 = d" unfolding a_def d1_def by (rule mult_div_mod_eq)
    then show ?thesis unfolding d2_def d3_def by linarith
  qed
  have start: "days_before_year (year_of_day d) = 146097 * a + 36524 * b + 1461 * c + 365 * e"
    unfolding y using cuts(1-6) by (rule days_before_year_parts)
  show ?lo using start d cuts(7) by simp
  have "is_leap (year_of_day d) \<longleftrightarrow> e = 3 \<and> (c < 24 \<or> b = 3)"
    unfolding y using cuts(1-6) by (rule is_leap_parts)
  then show ?hi
    using start d cuts(8) unfolding days_before_year_Suc by (auto split: if_splits)
qed

lemma days_before_year_mono: "y \<le> y' \<Longrightarrow> days_before_year y \<le> days_before_year y'"
proof (induction y' rule: int_ge_induct)
  case (step i)
  then show ?case by (auto simp: days_before_year_Suc)
qed simp

lemma year_of_day_unique:
  assumes "days_before_year y \<le> d" and "d < days_before_year (y + 1)"
  shows "year_of_day d = y"
proof -
  have "\<not> year_of_day d + 1 \<le> y"
    using days_before_year_mono [of "year_of_day d + 1" y] year_of_day_bounds [of d] assms by linarith
  moreover have "\<not> y + 1 \<le> year_of_day d"
    using days_before_year_mono [of "y + 1" "year_of_day d"] year_of_day_bounds [of d] assms by linarith
  ultimately show ?thesis by linarith
qed

lemma year_of_day_ge: "y \<le> year_of_day d \<longleftrightarrow> days_before_year y \<le> d"
  using days_before_year_mono [of y "year_of_day d"] year_of_day_bounds [of d]
    days_before_year_mono [of "year_of_day d + 1" y] by linarith

section \<open>Months\<close>

lemma days_before_month_vals:
  "days_before_month l 1 = 0" "days_before_month l 2 = 31"
  "days_before_month l 3 = 59 + of_bool l" "days_before_month l 4 = 90 + of_bool l"
  "days_before_month l 5 = 120 + of_bool l" "days_before_month l 6 = 151 + of_bool l"
  "days_before_month l 7 = 181 + of_bool l" "days_before_month l 8 = 212 + of_bool l"
  "days_before_month l 9 = 243 + of_bool l" "days_before_month l 10 = 273 + of_bool l"
  "days_before_month l 11 = 304 + of_bool l" "days_before_month l 12 = 334 + of_bool l"
  "days_before_month l 13 = 365 + of_bool l"
  by (simp_all add: days_before_month_def)

lemma month_cases:
  fixes m :: int
  assumes "1 \<le> m" "m \<le> 12"
  obtains "m = 1" | "m = 2" | "m = 3" | "m = 4" | "m = 5" | "m = 6" | "m = 7" | "m = 8"
    | "m = 9" | "m = 10" | "m = 11" | "m = 12"
proof -
  have "m = 1 \<or> m = 2 \<or> m = 3 \<or> m = 4 \<or> m = 5 \<or> m = 6 \<or> m = 7 \<or> m = 8 \<or> m = 9 \<or> m = 10
      \<or> m = 11 \<or> m = 12" using assms by presburger
  then show ?thesis using that by blast
qed

lemma month_of_yday_bounds:
  assumes "0 \<le> d" and "d < 365 + of_bool leap"
  shows "1 \<le> month_of_yday leap d" and "month_of_yday leap d \<le> 12"
    and "days_before_month leap (month_of_yday leap d) \<le> d"
    and "d < days_before_month leap (month_of_yday leap d + 1)"
  using assms unfolding month_of_yday_def Let_def
  by (simp_all add: days_before_month_vals split: if_split)

lemma days_before_month_less:
  "1 \<le> m \<Longrightarrow> m \<le> 12 \<Longrightarrow> days_before_month leap m < days_before_month leap (m + 1)"
  by (erule (1) month_cases) (simp_all add: days_before_month_vals)

lemma days_before_year_Suc_of_bool:
  "days_before_year (y + 1) = days_before_year y + (365 + of_bool (is_leap y))"
  by (simp add: days_before_year_Suc)

text \<open>The month after December is January of the next year.\<close>

lemma month_first_day_Suc:
  "month_first_day (i + 1) =
     days_before_year (i div 12 + 1) + days_before_month (is_leap (i div 12 + 1)) (i mod 12 + 2)"
proof (cases "i mod 12 = 11")
  case True
  with mult_div_mod_eq [of 12 i] have "12 * (i div 12) + 11 = i" by (simp only:)
  then have i: "i + 1 = 12 * (i div 12 + 1) + 0" by (simp add: algebra_simps)
  have "(i + 1) div 12 = i div 12 + 1" by (rule int_div_pos_eq [OF i]) simp_all
  moreover have "(i + 1) mod 12 = 0" by (rule int_mod_pos_eq [OF i]) simp_all
  ultimately have "month_first_day (i + 1) = days_before_year (i div 12 + 1 + 1)"
    by (simp add: month_first_day_def days_before_month_vals add.assoc)
  with True show ?thesis
    unfolding days_before_year_Suc_of_bool by (simp add: days_before_month_vals)
next
  case False
  then have r: "0 \<le> i mod 12 + 1" "i mod 12 + 1 < 12"
    using pos_mod_sign [of 12 i] pos_mod_bound [of 12 i] by linarith+
  have i: "i + 1 = 12 * (i div 12) + (i mod 12 + 1)"
    using mult_div_mod_eq [of 12 i] by linarith
  have "(i + 1) div 12 = i div 12" by (rule int_div_pos_eq [OF i r])
  moreover have "(i + 1) mod 12 = i mod 12 + 1" by (rule int_mod_pos_eq [OF i r])
  ultimately show ?thesis by (simp add: month_first_day_def add.commute)
qed

lemma month_first_day_less: "month_first_day i < month_first_day (i + 1)"
proof -
  have "1 \<le> i mod 12 + 1" "i mod 12 + 1 \<le> 12"
    using pos_mod_sign [of 12 i] pos_mod_bound [of 12 i] by linarith+
  from days_before_month_less [OF this, of "is_leap (i div 12 + 1)"] show ?thesis
    unfolding month_first_day_Suc month_first_day_def [of i] by (simp add: add.assoc)
qed

lemma yday_bounds:
  shows "0 \<le> day_of t - days_before_year (Year t)"
    and "day_of t - days_before_year (Year t) < 365 + of_bool (is_leap (Year t))"
  using year_of_day_bounds [of "day_of t"] days_before_year_Suc_of_bool [of "Year t"]
  unfolding Year_def by linarith+

lemma month_index_parts:
  shows "month_index t div 12 + 1 = Year t" and "month_index t mod 12 + 1 = Month t"
    and "1 \<le> Month t" and "Month t \<le> 12"
proof -
  show m: "1 \<le> Month t" "Month t \<le> 12"
    unfolding Month_def by (rule month_of_yday_bounds [OF yday_bounds])+
  have "(12 * (Year t - 1) + (Month t - 1)) div 12 = Year t - 1"
    using m by (intro int_div_pos_eq [where r = "Month t - 1"]) auto
  moreover have "(12 * (Year t - 1) + (Month t - 1)) mod 12 = Month t - 1"
    using m by (intro int_mod_pos_eq [where q = "Year t - 1"]) auto
  ultimately show "month_index t div 12 + 1 = Year t" "month_index t mod 12 + 1 = Month t"
    unfolding month_index_def by simp_all
qed

lemma month_index_bounds:
  shows "month_first_day (month_index t) \<le> day_of t"
    and "day_of t < month_first_day (month_index t + 1)"
proof -
  note b = month_of_yday_bounds(3,4) [OF yday_bounds, folded Month_def]
  show "month_first_day (month_index t) \<le> day_of t"
    using b(1) [of t] unfolding month_first_day_def month_index_parts by linarith
  have "month_index t mod 12 + 2 = Month t + 1"
    using month_index_parts(2) [of t] by linarith
  then have "days_before_month l (month_index t mod 12 + 2) = days_before_month l (Month t + 1)" for l
    by (rule arg_cong)
  then show "day_of t < month_first_day (month_index t + 1)"
    using b(2) [of t] by (simp only: month_first_day_Suc month_index_parts)
qed

end
