(* ===== verification/MD_Errors.thy ===== *)
theory MD_Errors
  imports Go_Time
begin

text \<open>
  Error values. The sentinel errors of \<open>src/internal/application/errors.go\<close> and of
  \<open>src/internal/domain/timeframe.go\<close> are constructors; an error built by \<open>fmt.Errorf\<close>
  with \<open>%w\<close> verbs keeps the wrapped errors in order; \<open>errors.Join\<close> of non-nil errors is a
  wrapper with no message of its own. \<open>errors_Is\<close> is \<open>errors.Is\<close> on these values.
\<close>

datatype app_error =
    ErrInvalidParameter | ErrInvalidFilter | ErrInvalidStatus | ErrUnsupportedWindow
  | ErrInvalidInterval | ErrInvalidRange | ErrRequestTooLarge | ErrRangeOutOfRetention
  | ErrSymbolNotFound | ErrDataNotReady | ErrServiceOverloaded | ErrUpstreamUnavailable
  | ErrRequestTimeout | ErrUpstream | ErrInvalidUpstreamData | ErrUpstreamAttemptLimit
  | ErrIncompleteData | ErrInternal | ErrUnsupportedOperation

definition Code :: "app_error \<Rightarrow> string" where
  "Code e = (case e of
     ErrInvalidParameter \<Rightarrow> ''invalid_parameter''
   | ErrInvalidFilter \<Rightarrow> ''invalid_filter''
   | ErrInvalidStatus \<Rightarrow> ''invalid_status''
   | ErrUnsupportedWindow \<Rightarrow> ''unsupported_window''
   | ErrInvalidInterval \<Rightarrow> ''invalid_interval''
   | ErrInvalidRange \<Rightarrow> ''invalid_range''
   | ErrRequestTooLarge \<Rightarrow> ''request_too_large''
   | ErrRangeOutOfRetention \<Rightarrow> ''range_out_of_retention''
   | ErrSymbolNotFound \<Rightarrow> ''symbol_not_found''
   | ErrDataNotReady \<Rightarrow> ''data_not_ready''
   | ErrServiceOverloaded \<Rightarrow> ''service_overloaded''
   | ErrUpstreamUnavailable \<Rightarrow> ''upstream_unavailable''
   | ErrRequestTimeout \<Rightarrow> ''request_timeout''
   | ErrUpstream \<Rightarrow> ''upstream_error''
   | ErrInvalidUpstreamData \<Rightarrow> ''invalid_upstream_data''
   | ErrUpstreamAttemptLimit \<Rightarrow> ''upstream_attempt_limit''
   | ErrIncompleteData \<Rightarrow> ''incomplete_data''
   | ErrInternal \<Rightarrow> ''internal_error''
   | ErrUnsupportedOperation \<Rightarrow> ''unsupported_operation'')"

datatype dom_error =
    ErrInvalidTimeframe | ErrUnknownCalendar | ErrInvalidBoundary | ErrTimeOverflow
  | Domain_ErrInvalidRange | ErrSlotLimit

text \<open>
  \<open>Plain\<close> is an error made by \<open>errors.New\<close> or by \<open>fmt.Errorf\<close> without a \<open>%w\<close> verb.
  \<open>Deferral\<close> is an \<open>application.RefreshDeferral\<close>: its reason, its next eligible time, and
  the error it unwraps to. \<open>Net\<close> is an error of the network or of a stream: the sentinels the program tests
  for, a DNS failure with its two flags, and any other error with a \<open>Timeout\<close> method.
\<close>

datatype net_error = EOF | ErrUnexpectedEOF | ECONNRESET | ECONNREFUSED | EPIPE | DNSError bool bool | NetError bool

datatype error =
    App app_error
  | Dom dom_error
  | Canceled
  | DeadlineExceeded
  | Plain string
  | Wrapped string "error list"
  | Deferral string time error
  | Net net_error

type_synonym 'a result = "error + 'a"
type_synonym ctx = "nat \<Rightarrow> error option"

fun errors_Is :: "error \<Rightarrow> error \<Rightarrow> bool" where
  "errors_Is (Wrapped m es) target \<longleftrightarrow>
     Wrapped m es = target \<or> list_ex (\<lambda>e. errors_Is e target) es"
| "errors_Is (Deferral r t e) target \<longleftrightarrow> Deferral r t e = target \<or> errors_Is e target"
| "errors_Is e target \<longleftrightarrow> e = target"

text \<open>\<open>errors.Join\<close> drops nil errors and is nil when none is left.\<close>

definition errors_Join :: "error option list \<Rightarrow> error option" where
  "errors_Join es =
     (case List.map_filter (\<lambda>e. e) es of [] \<Rightarrow> None | e # rest \<Rightarrow> Some (Wrapped [] (e # rest)))"

text \<open>A context that is never cancelled.\<close>

definition background :: ctx where
  "background = (\<lambda>_. None)"

lemma background_poll [simp, result_simps]: "background k = None"
  by (simp add: background_def)

lemma errors_Is_refl [simp, result_simps]: "errors_Is e e"
  by (cases e) auto

lemma errors_Join_Is:
  assumes "errors_Join es = Some j" and "Some e \<in> set es"
  shows "errors_Is j e"
proof -
  have mem: "e \<in> set (List.map_filter (\<lambda>e. e) es)"
    using assms(2) by (force simp: List.map_filter_def)
  moreover obtain es' where "j = Wrapped [] es'" and "es' = List.map_filter (\<lambda>e. e) es"
    using assms(1) by (auto simp: errors_Join_def split: list.splits)
  ultimately show ?thesis 
    using errors_Is_refl [of e] by (simp only: errors_Is.simps list_ex_iff) blast
qed

lemma errors_Join_None: "errors_Join es = None \<longleftrightarrow> (\<forall>e \<in> set es. e = None)"
proof -
  have "List.map_filter (\<lambda>e. e) es = [] \<longleftrightarrow> (\<forall>e \<in> set es. e = None)"
    by (auto simp: List.map_filter_def filter_empty_conv)
  then show ?thesis by (auto simp: errors_Join_def split: list.splits)
qed

text \<open>Stable codes identify the application errors.\<close>

lemma Code_inject: "Code e = Code e' \<longleftrightarrow> e = e'"
  by (cases e; cases e') (simp_all add: Code_def)

end
