(* ===== verification/Market_Types.thy ===== *)
theory Market_Types
  imports MD_Errors
begin

text \<open>
  The market data types of \<open>src/internal/domain/market.go\<close>. Exchanges, markets, statuses and
  contract kinds are strings with a validity check, as in the source. The type parameter
  \<open>'d\<close> stands for \<open>decimal.Decimal\<close> of the shopspring/decimal package, which is not part of
  the repository; a Go pointer is an \<open>option\<close>.
\<close>

type_synonym Exchange = string
type_synonym Market = string
type_synonym InstrumentStatus = string
type_synonym ContractType = string
type_synonym Timeframe = string

definition ExchangeBinance :: Exchange where "ExchangeBinance = ''binance''"
definition ExchangeBybit :: Exchange where "ExchangeBybit = ''bybit''"

definition Exchange_Valid :: "Exchange \<Rightarrow> bool" where
  "Exchange_Valid e \<longleftrightarrow> e = ExchangeBinance \<or> e = ExchangeBybit"

definition MarketSpot :: Market where "MarketSpot = ''spot''"
definition MarketLinear :: Market where "MarketLinear = ''linear''"

definition Market_Valid :: "Market \<Rightarrow> bool" where
  "Market_Valid m \<longleftrightarrow> m = MarketSpot \<or> m = MarketLinear"

definition InstrumentStatusUnknown :: InstrumentStatus where "InstrumentStatusUnknown = ''unknown''"
definition InstrumentStatusPreLaunch :: InstrumentStatus where "InstrumentStatusPreLaunch = ''pre_launch''"
definition InstrumentStatusTrading :: InstrumentStatus where "InstrumentStatusTrading = ''trading''"
definition InstrumentStatusHalted :: InstrumentStatus where "InstrumentStatusHalted = ''halted''"
definition InstrumentStatusCancelOnly :: InstrumentStatus where "InstrumentStatusCancelOnly = ''cancel_only''"
definition InstrumentStatusSettling :: InstrumentStatus where "InstrumentStatusSettling = ''settling''"
definition InstrumentStatusClosed :: InstrumentStatus where "InstrumentStatusClosed = ''closed''"

definition InstrumentStatus_Valid :: "InstrumentStatus \<Rightarrow> bool" where
  "InstrumentStatus_Valid s \<longleftrightarrow>
     s \<in> set [InstrumentStatusUnknown, InstrumentStatusPreLaunch, InstrumentStatusTrading,
       InstrumentStatusHalted, InstrumentStatusCancelOnly, InstrumentStatusSettling,
       InstrumentStatusClosed]"

definition ContractTypeUnknown :: ContractType where "ContractTypeUnknown = ''''"
definition ContractTypePerpetual :: ContractType where "ContractTypePerpetual = ''perpetual''"
definition ContractTypeExpiry :: ContractType where "ContractTypeExpiry = ''expiry''"

record 'd Instrument =
  inst_ContractType :: ContractType
  inst_Exchange :: Exchange
  inst_Market :: Market
  inst_Symbol :: string
  inst_BaseAsset :: string
  inst_QuoteAsset :: string
  inst_Status :: InstrumentStatus
  inst_PriceTick :: 'd
  inst_QtyStep :: 'd
  inst_MinQty :: "'d option"
  inst_MaxQty :: "'d option"
  inst_MinNotional :: "'d option"
  inst_FundingInterval :: "duration option"
  inst_DelistingTime :: "time option"
  inst_UpdatedAt :: time

record 'd Ticker =
  tick_Exchange :: Exchange
  tick_Market :: Market
  tick_Symbol :: string
  tick_LastPrice :: 'd
  tick_BidPrice :: "'d option"
  tick_BidSize :: "'d option"
  tick_AskPrice :: "'d option"
  tick_AskSize :: "'d option"
  tick_FundingRate :: "'d option"
  tick_NextFundingAt :: "time option"
  tick_FetchedAt :: time

record 'd MarketStats =
  ms_Exchange :: Exchange
  ms_Market :: Market
  ms_Symbol :: string
  ms_Window :: duration
  ms_High :: 'd
  ms_Low :: 'd
  ms_Volume :: 'd
  ms_Turnover :: 'd
  ms_PriceChange :: "'d option"
  ms_TradeCount :: "int option"
  ms_FetchedAt :: time

record 'd Kline =
  k_Exchange :: Exchange
  k_Market :: Market
  k_Symbol :: string
  k_Interval :: Timeframe
  k_OpenTime :: time
  k_CloseTime :: time
  k_Open :: 'd
  k_High :: 'd
  k_Low :: 'd
  k_Close :: 'd
  k_Volume :: 'd
  k_Turnover :: 'd
  k_TradesCount :: "int option"
  k_FetchedAt :: time

text \<open>\<open>application.Scope\<close> of \<open>src/internal/application/contracts.go\<close>.\<close>

record Scope =
  sc_Exchange :: Exchange
  sc_Market :: Market

lemmas exchange_names [simp] = ExchangeBinance_def ExchangeBybit_def
lemmas market_names [simp] = MarketSpot_def MarketLinear_def

end
