(* ===== verification/Snapshot_Select.thy ===== *)
theory Snapshot_Select
  imports Market_Types
begin

text \<open>
  Shared use-case contracts: snapshot filters and their selection from a client query
  (\<open>src/internal/application/contracts.go\<close>, \<open>snapshot.go\<close>) and the refresh loop
  (\<open>refresh.go\<close>).

  A Go string is a list of bytes. \<open>decode_runes\<close> is the decoding that \<open>utf8.ValidString\<close>
  and \<open>range\<close> over a string share: \<open>None\<close> for an invalid encoding, the code points
  otherwise. \<open>encode_rune\<close> is the encoding it is checked against.
\<close>

section \<open>Runes\<close>

definition cont_byte :: "nat \<Rightarrow> bool" where
  "cont_byte b \<longleftrightarrow> 128 \<le> b \<and> b \<le> 191"

text \<open>The second byte of a sequence has a narrower range after \<open>E0\<close>, \<open>ED\<close>, \<open>F0\<close> and \<open>F4\<close>.\<close>

definition second3 :: "nat \<Rightarrow> nat \<Rightarrow> bool" where
  "second3 a b \<longleftrightarrow> cont_byte b \<and> (a = 224 \<longrightarrow> 160 \<le> b) \<and> (a = 237 \<longrightarrow> b \<le> 159)"

definition second4 :: "nat \<Rightarrow> nat \<Rightarrow> bool" where
  "second4 a b \<longleftrightarrow> cont_byte b \<and> (a = 240 \<longrightarrow> 144 \<le> b) \<and> (a = 244 \<longrightarrow> b \<le> 143)"

fun decode_runes :: "nat list \<Rightarrow> nat list option" where
  "decode_runes [] = Some []"
| "decode_runes (a # bs) =
     (if a < 128 then map_option (Cons a) (decode_runes bs)
      else if 194 \<le> a \<and> a \<le> 223 then
        (case bs of
           b # cs \<Rightarrow> if cont_byte b
             then map_option (Cons ((a - 192) * 64 + (b - 128))) (decode_runes cs) else None
         | _ \<Rightarrow> None)
      else if 224 \<le> a \<and> a \<le> 239 then
        (case bs of
           b # c # ds \<Rightarrow> if second3 a b \<and> cont_byte c
             then map_option (Cons ((a - 224) * 4096 + (b - 128) * 64 + (c - 128))) (decode_runes ds)
             else None
         | _ \<Rightarrow> None)
      else if 240 \<le> a \<and> a \<le> 244 then
        (case bs of
           b # c # d # es \<Rightarrow> if second4 a b \<and> cont_byte c \<and> cont_byte d
             then map_option (Cons ((a - 240) * 262144 + (b - 128) * 4096 + (c - 128) * 64 + (d - 128)))
               (decode_runes es) else None
         | _ \<Rightarrow> None)
      else None)"

definition bytes :: "string \<Rightarrow> nat list" where
  "bytes s = map of_char s"

definition ValidString :: "string \<Rightarrow> bool" where
  "ValidString s \<longleftrightarrow> decode_runes (bytes s) \<noteq> None"

definition runes :: "string \<Rightarrow> nat list" where
  "runes s = (case decode_runes (bytes s) of None \<Rightarrow> [] | Some rs \<Rightarrow> rs)"

text \<open>\<open>unicode.IsSpace\<close>: the White_Space property.\<close>

definition IsSpace :: "nat \<Rightarrow> bool" where
  "IsSpace r \<longleftrightarrow> 9 \<le> r \<and> r \<le> 13 \<or> r \<in> {32, 133, 160, 5760, 8232, 8233, 8239, 8287, 12288}
     \<or> 8192 \<le> r \<and> r \<le> 8202"

text \<open>\<open>unicode.IsControl\<close>: the category Cc.\<close>

definition IsControl :: "nat \<Rightarrow> bool" where
  "IsControl r \<longleftrightarrow> r \<le> 31 \<or> 127 \<le> r \<and> r \<le> 159"

section \<open>Filters\<close>

record SnapshotFilter =
  f_Scopes :: "Scope list"
  f_Symbol :: "string option"

record ExchangeCapabilities =
  MarketStatsWithTicker :: bool
  MarketStatsWindows :: "duration list"

record SnapshotQuery =
  sq_Exchange :: string
  sq_Market :: string
  sq_Symbol :: string

text \<open>Every caller discards the filter that accompanies an error.\<close>

definition SelectSnapshot :: "Scope list \<Rightarrow> SnapshotQuery \<Rightarrow> SnapshotFilter result" where
  "SelectSnapshot scopes query =
     (if sq_Exchange query \<noteq> '''' \<and> \<not> Exchange_Valid (sq_Exchange query)
      then Inl (App ErrInvalidFilter)
      else if sq_Market query \<noteq> '''' \<and> \<not> Market_Valid (sq_Market query)
      then Inl (App ErrInvalidFilter)
      else
        let selected = filter (\<lambda>scope.
              (sq_Exchange query = '''' \<or> sq_Exchange query = sc_Exchange scope) \<and>
              (sq_Market query = '''' \<or> sq_Market query = sc_Market scope)) scopes
        in if selected = [] then Inl (App ErrInvalidFilter)
           else if sq_Symbol query \<noteq> '''' then
             (if length (sq_Symbol query) > 128 \<or> \<not> ValidString (sq_Symbol query)
              then Inl (App ErrInvalidFilter)
              else if list_ex (\<lambda>r. IsSpace r \<or> IsControl r) (runes (sq_Symbol query))
              then Inl (App ErrInvalidFilter)
              else Inr \<lparr>f_Scopes = selected, f_Symbol = Some (sq_Symbol query)\<rparr>)
           else Inr \<lparr>f_Scopes = selected, f_Symbol = None\<rparr>)"

section \<open>Refresh\<close>

record RefreshEvent =
  ev_Scope :: Scope
  ev_Window :: duration
  ev_FetchedAt :: time
  ev_Size :: nat
  ev_Error :: "error option"

text \<open>\<open>errors.As\<close> searches the tree of wrapped errors in depth-first order.\<close>

fun DeferredRefresh :: "error \<Rightarrow> error option" where
  "DeferredRefresh (Deferral r t e) = Some (Deferral r t e)"
| "DeferredRefresh (Wrapped m es) =
     (case List.map_filter (\<lambda>e. e) (map DeferredRefresh es) of [] \<Rightarrow> None | d # _ \<Rightarrow> Some d)"
| "DeferredRefresh _ = None"

definition DeferredRefresh_nil :: "error option \<Rightarrow> error option" where
  "DeferredRefresh_nil err = (case err of None \<Rightarrow> None | Some e \<Rightarrow> DeferredRefresh e)"

text \<open>
  The refresh loop runs until its context ends. \<open>run n\<close> is the outcome of the \<open>n\<close>-th cycle,
  \<open>ctx k\<close> the \<open>k\<close>-th poll of the context; the result is the error the loop returns.
\<close>

partial_function (option) RunRefresh :: "ctx \<Rightarrow> (nat \<Rightarrow> error option) \<Rightarrow> nat \<Rightarrow> nat \<Rightarrow> error option option"
  where
  "RunRefresh ctx run n k =
     (if ctx k \<noteq> None then Some (ctx (k + 1))
      else if run n \<noteq> None then
        (if ctx (k + 1) \<noteq> None then Some (ctx (k + 2)) else RunRefresh ctx run (n + 1) (k + 2))
      else RunRefresh ctx run (n + 1) (k + 1))"

section \<open>The decoder accepts exactly the encodings of Unicode scalar values\<close>

definition scalar_value :: "nat \<Rightarrow> bool" where
  "scalar_value r \<longleftrightarrow> r \<le> 1114111 \<and> \<not> (55296 \<le> r \<and> r \<le> 57343)"

definition encode_rune :: "nat \<Rightarrow> nat list" where
  "encode_rune r =
     (if r < 128 then [r]
      else if r < 2048 then [192 + r div 64, 128 + r mod 64]
      else if r < 65536 then [224 + r div 4096, 128 + r div 64 mod 64, 128 + r mod 64]
      else [240 + r div 262144, 128 + r div 4096 mod 64, 128 + r div 64 mod 64, 128 + r mod 64])"

lemma split64: "\<exists>x y. r = x * 64 + y \<and> y < (64::nat)"
  by (intro exI [of _ "r div 64"] exI [of _ "r mod 64"]) simp

lemma split64_3: "\<exists>x y z. r = x * 4096 + y * 64 + z \<and> y < 64 \<and> z < (64::nat)"
proof -
  obtain p z where p: "r = p * 64 + z" "z < 64" using split64 by blast
  obtain x y where "p = x * 64 + y" "y < 64" using split64 by blast
  with p have "r = x * 4096 + y * 64 + z \<and> y < 64 \<and> z < 64" by simp
  then show ?thesis by blast
qed

lemma split64_4: "\<exists>w x y z. r = w * 262144 + x * 4096 + y * 64 + z \<and> x < 64 \<and> y < 64 \<and> z < (64::nat)"
proof -
  obtain p y z where p: "r = p * 4096 + y * 64 + z" "y < 64" "z < 64" using split64_3 by blast
  obtain w x where "p = w * 64 + x" "x < 64" using split64 by blast
  with p have "r = w * 262144 + x * 4096 + y * 64 + z \<and> x < 64 \<and> y < 64 \<and> z < 64" by simp
  then show ?thesis by blast
qed

lemma digits64:
  fixes x y :: nat
  assumes "y < 64"
  shows "(x * 64 + y) div 64 = x" and "(x * 64 + y) mod 64 = y"
  using assms by simp_all

lemma digits64_3:
  fixes x y z :: nat
  assumes "y < 64" "z < 64"
  defines "r \<equiv> x * 4096 + y * 64 + z"
  shows "r div 4096 = x" and "r div 64 = x * 64 + y" and "r mod 64 = z"
proof -
  have r: "r = (x * 64 + y) * 64 + z" by (simp add: r_def)
  show d: "r div 64 = x * 64 + y" "r mod 64 = z" unfolding r by (rule digits64 [OF assms(2)])+
  have "r div 4096 = r div 64 div 64" by (simp add: div_mult2_eq [symmetric])
  then show "r div 4096 = x" using d(1) digits64 [of y x] assms by simp
qed

lemma digits64_4:
  fixes w x y z :: nat
  assumes "x < 64" "y < 64" "z < 64"
  defines "r \<equiv> w * 262144 + x * 4096 + y * 64 + z"
  shows "r div 262144 = w" and "r div 4096 = w * 64 + x" and "r div 64 = (w * 64 + x) * 64 + y"
    and "r mod 64 = z"
proof -
  have r: "r = (w * 64 + x) * 4096 + y * 64 + z" by (simp add: r_def)
  show d: "r div 4096 = w * 64 + x" "r div 64 = (w * 64 + x) * 64 + y" "r mod 64 = z"
    unfolding r by (rule digits64_3 [OF assms(2,3)])+
  have "r div 262144 = r div 4096 div 64" by (simp add: div_mult2_eq [symmetric])
  then show "r div 262144 = w" using d(1) digits64 [of x w] assms by simp
qed

lemma encode_rune_1: "r < 128 \<Longrightarrow> encode_rune r = [r]"
  by (simp add: encode_rune_def)

lemma encode_rune_2:
  assumes "2 \<le> x" "x \<le> 31" "y < 64"
  shows "encode_rune (x * 64 + y) = [192 + x, 128 + y]"
  using assms unfolding encode_rune_def digits64 [OF assms(3)] by simp

lemma encode_rune_3:
  assumes "x \<le> 15" "y < 64" "z < 64" "x = 0 \<longrightarrow> 32 \<le> y"
  shows "encode_rune (x * 4096 + y * 64 + z) = [224 + x, 128 + y, 128 + z]"
proof -
  have "2048 \<le> x * 4096 + y * 64 + z" "x * 4096 + y * 64 + z < 65536"
    using assms by (cases "x = 0"; simp)+
  then show ?thesis
    unfolding encode_rune_def digits64_3 [OF assms(2,3)] digits64 [OF assms(2)] by simp
qed

lemma encode_rune_4:
  assumes "w \<le> 4" "x < 64" "y < 64" "z < 64" "w = 0 \<longrightarrow> 16 \<le> x"
  shows "encode_rune (w * 262144 + x * 4096 + y * 64 + z) = [240 + w, 128 + x, 128 + y, 128 + z]"
proof -
  have "65536 \<le> w * 262144 + x * 4096 + y * 64 + z"
    using assms by (cases "w = 0"; simp)
  then show ?thesis
    unfolding encode_rune_def digits64_4 [OF assms(2,3,4)] digits64 [OF assms(2)] digits64 [OF assms(3)]
    by simp
qed

lemmas byte_ranges = cont_byte_def second3_def second4_def scalar_value_def

lemma decode_encode_rune:
  assumes "scalar_value r"
  shows "decode_runes (encode_rune r @ bs) = map_option (Cons r) (decode_runes bs)"
proof -
  consider "r < 128" | "128 \<le> r" "r < 2048" | "2048 \<le> r" "r < 65536" | "65536 \<le> r" by linarith
  then show ?thesis
  proof cases
    case 1
    then show ?thesis by (simp add: encode_rune_1)
  next
    case 2
    obtain x y where r: "r = x * 64 + y" "y < 64" using split64 by blast
    with 2 have "2 \<le> x" "x \<le> 31" by linarith+
    with r show ?thesis by (simp add: encode_rune_2 byte_ranges)
  next
    case 3
    obtain x y z where r: "r = x * 4096 + y * 64 + z" "y < 64" "z < 64" using split64_3 by blast
    with 3 have x: "x \<le> 15" "x = 0 \<longrightarrow> 32 \<le> y" by auto
    moreover have "x = 13 \<longrightarrow> y \<le> 31" using assms r by (auto simp: scalar_value_def)
    ultimately have "second3 (224 + x) (128 + y)" using r by (auto simp: byte_ranges)
    with r x show ?thesis by (simp add: encode_rune_3 cont_byte_def)
  next
    case 4
    obtain w x y z where r: "r = w * 262144 + x * 4096 + y * 64 + z" "x < 64" "y < 64" "z < 64"
      using split64_4 by blast
    have w: "w \<le> 4" "w = 0 \<longrightarrow> 16 \<le> x" "w = 4 \<longrightarrow> x \<le> 15"
      using assms r 4 by (auto simp: scalar_value_def)
    then have "second4 (240 + w) (128 + x)" using r by (auto simp: byte_ranges)
    with r w show ?thesis by (simp add: encode_rune_4 cont_byte_def)
  qed
qed

lemma decode_runes_concat:
  "\<forall>r \<in> set rs. scalar_value r \<Longrightarrow> decode_runes (concat (map encode_rune rs)) = Some rs"
  by (induction rs) (simp_all add: decode_encode_rune)

lemma offset_byte: "(k::nat) \<le> b \<Longrightarrow> \<exists>y. b = k + y"
  by (rule le_Suc_ex)

lemma encode_decoded_2:
  assumes "194 \<le> a" "a \<le> 223" "cont_byte b"
  shows "encode_rune ((a - 192) * 64 + (b - 128)) = [a, b] \<and> scalar_value ((a - 192) * 64 + (b - 128))"
proof -
  obtain x y where x: "a = 192 + x" "b = 128 + y"
    using offset_byte [of 192 a] offset_byte [of 128 b] assms by (auto simp: cont_byte_def)
  with assms show ?thesis by (simp add: encode_rune_2 byte_ranges)
qed

lemma encode_decoded_3:
  assumes "224 \<le> a" "a \<le> 239" "second3 a b" "cont_byte c"
  shows "encode_rune ((a - 224) * 4096 + (b - 128) * 64 + (c - 128)) = [a, b, c]
    \<and> scalar_value ((a - 224) * 4096 + (b - 128) * 64 + (c - 128))"
proof -
  obtain x y z where x: "a = 224 + x" "b = 128 + y" "c = 128 + z"
    using offset_byte [of 224 a] offset_byte [of 128 b] offset_byte [of 128 c] assms
    by (auto simp: byte_ranges)
  with assms have r: "x \<le> 15" "y < 64" "z < 64" "x = 0 \<longrightarrow> 32 \<le> y" "x = 13 \<longrightarrow> y \<le> 31"
    by (auto simp: byte_ranges)
  then have "scalar_value (x * 4096 + y * 64 + z)"
    by (cases "x = 13") (auto simp: scalar_value_def)
  with x r show ?thesis by (simp add: encode_rune_3)
qed

lemma encode_decoded_4:
  assumes "240 \<le> a" "a \<le> 244" "second4 a b" "cont_byte c" "cont_byte d"
  shows "encode_rune ((a - 240) * 262144 + (b - 128) * 4096 + (c - 128) * 64 + (d - 128)) = [a, b, c, d]
    \<and> scalar_value ((a - 240) * 262144 + (b - 128) * 4096 + (c - 128) * 64 + (d - 128))"
proof -
  obtain w x y z where x: "a = 240 + w" "b = 128 + x" "c = 128 + y" "d = 128 + z"
    using offset_byte [of 240 a] offset_byte [of 128 b] offset_byte [of 128 c] offset_byte [of 128 d]
      assms by (auto simp: byte_ranges)
  with assms have r: "w \<le> 4" "x < 64" "y < 64" "z < 64" "w = 0 \<longrightarrow> 16 \<le> x" "w = 4 \<longrightarrow> x \<le> 15"
    by (auto simp: byte_ranges)
  then have "scalar_value (w * 262144 + x * 4096 + y * 64 + z)"
    by (cases "w = 4"; cases "w = 0") (auto simp: scalar_value_def)
  with x r show ?thesis by (simp add: encode_rune_4)
qed

lemma decode_runes_Some:
  "decode_runes bs = Some rs \<Longrightarrow> bs = concat (map encode_rune rs) \<and> (\<forall>r \<in> set rs. scalar_value r)"
proof (induction bs arbitrary: rs rule: decode_runes.induct)
  case 1
  then show ?case by simp
next
  case (2 a bs)
  consider "a < 128" | "194 \<le> a" "a \<le> 223" | "224 \<le> a" "a \<le> 239" | "240 \<le> a" "a \<le> 244"
    using "2.prems" by (auto split: if_splits)
  then show ?case
  proof cases
    case 1
    with "2.prems" "2.IH"(1) show ?thesis
      by (auto simp: encode_rune_1 scalar_value_def)
  next
    case 2
    with "2.prems" obtain b cs rs' where bs: "bs = b # cs" "cont_byte b" "decode_runes cs = Some rs'"
      "rs = ((a - 192) * 64 + (b - 128)) # rs'" by (auto split: list.splits if_splits)
    with 2 "2.IH"(2) [of b cs rs'] encode_decoded_2 [of a b] show ?thesis by simp
  next
    case 3
    with "2.prems" obtain b c ds rs' where bs: "bs = b # c # ds" "second3 a b" "cont_byte c"
      "decode_runes ds = Some rs'" "rs = ((a - 224) * 4096 + (b - 128) * 64 + (c - 128)) # rs'"
      by (auto split: list.splits if_splits)
    with 3 "2.IH"(3) [of b "c # ds" c ds rs'] encode_decoded_3 [of a b c] show ?thesis by simp
  next
    case 4
    with "2.prems" obtain b c d es rs' where bs: "bs = b # c # d # es" "second4 a b" "cont_byte c"
      "cont_byte d" "decode_runes es = Some rs'"
      "rs = ((a - 240) * 262144 + (b - 128) * 4096 + (c - 128) * 64 + (d - 128)) # rs'"
      by (auto split: list.splits if_splits)
    with 4 "2.IH"(4) [of b "c # d # es" c "d # es" d es rs'] encode_decoded_4 [of a b c d]
    show ?thesis by simp
  qed
qed

lemma decode_runes_iff:
  "decode_runes bs = Some rs \<longleftrightarrow> bs = concat (map encode_rune rs) \<and> (\<forall>r \<in> set rs. scalar_value r)"
  using decode_runes_Some decode_runes_concat by blast

section \<open>Selection\<close>

definition scope_matches :: "SnapshotQuery \<Rightarrow> Scope \<Rightarrow> bool" where
  "scope_matches q s \<longleftrightarrow> (sq_Exchange q = '''' \<or> sq_Exchange q = sc_Exchange s) \<and>
     (sq_Market q = '''' \<or> sq_Market q = sc_Market s)"

text \<open>Evaluation of the rune classes over binary integers.\<close>

lemma IsSpace_code [code]:
  "IsSpace r = (let i = int r in 9 \<le> i \<and> i \<le> 13
     \<or> i \<in> {32, 133, 160, 5760, 8232, 8233, 8239, 8287, 12288} \<or> 8192 \<le> i \<and> i \<le> 8202)"
  by (auto simp: IsSpace_def Let_def)

lemma IsControl_code [code]: "IsControl r = (let i = int r in i \<le> 31 \<or> 127 \<le> i \<and> i \<le> 159)"
  by (auto simp: IsControl_def Let_def)

text \<open>A symbol the selection accepts: a short encoding of visible code points.\<close>

definition clean_symbol :: "string \<Rightarrow> bool" where
  "clean_symbol s \<longleftrightarrow> s \<noteq> '''' \<and> length s \<le> 128 \<and>
     (\<exists>rs. bytes s = concat (map encode_rune rs) \<and>
       (\<forall>r \<in> set rs. scalar_value r \<and> \<not> IsSpace r \<and> \<not> IsControl r))"

lemma clean_symbol_iff:
  "clean_symbol s \<longleftrightarrow> s \<noteq> '''' \<and> length s \<le> 128 \<and> ValidString s
     \<and> \<not> list_ex (\<lambda>r. IsSpace r \<or> IsControl r) (runes s)"
proof (cases "decode_runes (bytes s)")
  case None
  then have "\<not> clean_symbol s"
    using decode_runes_concat by (fastforce simp: clean_symbol_def)
  with None show ?thesis by (simp add: ValidString_def)
next
  case (Some rs)
  then have rs: "bytes s = concat (map encode_rune rs)" "\<forall>r \<in> set rs. scalar_value r"
    by (simp_all add: decode_runes_iff)
  have "rs' = rs" if "bytes s = concat (map encode_rune rs')" "\<forall>r \<in> set rs'. scalar_value r" for rs'
    using that Some decode_runes_concat [of rs'] by simp
  then show ?thesis
    using rs Some by (auto simp: clean_symbol_def ValidString_def runes_def list_ex_iff)
qed

lemma SelectSnapshot_Inr:
  "SelectSnapshot scopes q = Inr f \<longleftrightarrow>
     (sq_Exchange q = '''' \<or> Exchange_Valid (sq_Exchange q)) \<and>
     (sq_Market q = '''' \<or> Market_Valid (sq_Market q)) \<and>
     filter (scope_matches q) scopes \<noteq> [] \<and>
     (sq_Symbol q = '''' \<or> clean_symbol (sq_Symbol q)) \<and>
     f = \<lparr>f_Scopes = filter (scope_matches q) scopes,
          f_Symbol = (if sq_Symbol q = '''' then None else Some (sq_Symbol q))\<rparr>"
proof -
  have sel: "(\<lambda>scope. (sq_Exchange q = '''' \<or> sq_Exchange q = sc_Exchange scope) \<and>
      (sq_Market q = '''' \<or> sq_Market q = sc_Market scope)) = scope_matches q"
    by (simp add: fun_eq_iff scope_matches_def)
  show ?thesis
    unfolding SelectSnapshot_def Let_def sel by (auto simp: clean_symbol_iff)
qed

lemma SelectSnapshot_error: "SelectSnapshot scopes q = Inl e \<Longrightarrow> e = App ErrInvalidFilter"
  by (auto simp: SelectSnapshot_def Let_def split: if_splits)

lemma SelectSnapshot_scopes:
  assumes "SelectSnapshot scopes q = Inr f"
  shows "f_Scopes f = filter (scope_matches q) scopes"
  using assms by (simp add: SelectSnapshot_Inr)

text \<open>
  \<open>SelectSnapshot\<close> accepts a query exactly when its exchange and market are absent or
  known, at least one configured scope matches, and its symbol is absent or the UTF-8
  encoding, of at most 128 bytes, of code points that are neither spaces nor controls. The
  filter then selects the matching configured scopes, never none, and everything else fails
  with \<open>ErrInvalidFilter\<close>.
\<close>

theorem SelectSnapshot_accepts_iff:
  "(case SelectSnapshot scopes q of
      Inr f \<Rightarrow> f_Scopes f \<noteq> [] \<and> set (f_Scopes f) = {s \<in> set scopes. scope_matches q s}
        \<and> f_Symbol f = (if sq_Symbol q = '''' then None else Some (sq_Symbol q))
    | Inl e \<Rightarrow> e = App ErrInvalidFilter)
   \<and> (isl (SelectSnapshot scopes q) \<longleftrightarrow>
        \<not> ((sq_Exchange q = '''' \<or> Exchange_Valid (sq_Exchange q))
          \<and> (sq_Market q = '''' \<or> Market_Valid (sq_Market q))
          \<and> (\<exists>s \<in> set scopes. scope_matches q s)
          \<and> (sq_Symbol q = '''' \<or> clean_symbol (sq_Symbol q))))"
proof (cases "SelectSnapshot scopes q")
  case (Inl e)
  then have "\<not> (\<exists>f. SelectSnapshot scopes q = Inr f)" by simp
  then have "\<not> ((sq_Exchange q = '''' \<or> Exchange_Valid (sq_Exchange q)) \<and>
      (sq_Market q = '''' \<or> Market_Valid (sq_Market q)) \<and> filter (scope_matches q) scopes \<noteq> [] \<and>
      (sq_Symbol q = '''' \<or> clean_symbol (sq_Symbol q)))"
    unfolding SelectSnapshot_Inr by blast
  with Inl SelectSnapshot_error [OF Inl] show ?thesis by (simp add: filter_empty_conv)
next
  case (Inr f)
  then have f: "SelectSnapshot scopes q = Inr f" .
  then show ?thesis
    unfolding f using f [unfolded SelectSnapshot_Inr] by (auto simp: filter_empty_conv)
qed

section \<open>The refresh loop\<close>

text \<open>Once a context has ended it stays ended, with the same error.\<close>

definition context_law :: "ctx \<Rightarrow> bool" where
  "context_law ctx \<longleftrightarrow> (\<forall>k e. ctx k = Some e \<longrightarrow> ctx (k + 1) = Some e)"

lemma context_law_later: "context_law ctx \<Longrightarrow> ctx k = Some e \<Longrightarrow> k \<le> k' \<Longrightarrow> ctx k' = Some e"
proof -
  assume "context_law ctx" "ctx k = Some e" "k \<le> k'"
  from this(3,2) show ?thesis
    by (induction k' rule: dec_induct) (use \<open>context_law ctx\<close> in \<open>auto simp: context_law_def\<close>)
qed

lemma RunRefresh_returns:
  assumes "context_law ctx" and "ctx K = Some e"
  shows "RunRefresh ctx run n k = Some (Some e)"
proof (induction "K - k" arbitrary: n k rule: less_induct)
  case less
  have later: "ctx k' = Some e" if "K \<le> k'" for k' using assms that by (rule context_law_later)
  have same: "ctx k' = Some e' \<Longrightarrow> e' = e" for k' e'
    using assms later context_law_later [OF assms(1), of k' e' K] by (cases "K \<le> k'") auto
  show ?case
  proof (cases "ctx k")
    case None
    then have "\<not> K \<le> k" using later by force
    then have IH: "RunRefresh ctx run n' (k + 1) = Some (Some e)"
        "RunRefresh ctx run n' (k + 2) = Some (Some e)" for n'
      using less.hyps by simp_all
    show ?thesis
    proof (cases "ctx (k + 1)")
      case None': None
      with None IH show ?thesis by (subst RunRefresh.simps) simp
    next
      case (Some e')
      with assms(1) have "ctx (k + 1 + 1) = Some e'" unfolding context_law_def by blast
      with same have "ctx (k + 2) = Some e" by simp
      with None Some IH show ?thesis by (subst RunRefresh.simps) simp
    qed
  next
    case (Some e')
    with assms(1) have "ctx (k + 1) = Some e'" unfolding context_law_def by blast
    with Some same show ?thesis by (subst RunRefresh.simps) auto
  qed
qed

lemma RunRefresh_result:
  assumes "RunRefresh ctx run n k = Some r"
  shows "\<exists>k'. ctx k' \<noteq> None"
proof (rule RunRefresh.raw_induct [where P = "\<lambda>ctx run n k r. \<exists>k'. ctx k' \<noteq> None", OF _ assms])
  fix f ctx run n k r
  assume IH: "\<And>ctx run n k r. f ctx run n k = Some r \<Longrightarrow> \<exists>k'. ctx k' \<noteq> None"
    and eq: "(if ctx k \<noteq> None then Some (ctx (k + 1))
      else if run n \<noteq> None then
        (if ctx (k + 1) \<noteq> None then Some (ctx (k + 2)) else f ctx run (n + 1) (k + 2))
      else f ctx run (n + 1) (k + 1)) = Some r"
  show "\<exists>k'. ctx k' \<noteq> None"
    using eq IH by (metis (no_types, lifting))
qed

text \<open>
  The refresh loop stops exactly when its context ends: with a context that ends, however
  the cycles turn out, the loop returns the context's error; with a context that never ends
  no sequence of cycle failures makes it return.
\<close>

theorem RunRefresh_stops_with_context:
  assumes "context_law ctx"
  shows "RunRefresh ctx run n k = Some r \<longleftrightarrow> (\<exists>K e. ctx K = Some e \<and> r = Some e)"
  using RunRefresh_returns [OF assms, of _ _ run n k] RunRefresh_result [of ctx run n k r]
  by (metis not_None_eq option.inject)

theorem RunRefresh_stops_with_context_witness:
  "context_law (\<lambda>k. if k < 5 then None else Some Canceled)
    \<and> RunRefresh (\<lambda>k. if k < 5 then None else Some Canceled) (\<lambda>_. Some (App ErrUpstream)) 0 0
      = Some (Some Canceled)"
proof -
  let ?ctx = "\<lambda>k::nat. if k < 5 then None else Some Canceled"
  have law: "context_law ?ctx" by (simp add: context_law_def)
  have "\<exists>K e. ?ctx K = Some e \<and> Some Canceled = Some e" by (intro exI [of _ 5]) simp
  with law RunRefresh_stops_with_context [OF law, of "\<lambda>_. Some (App ErrUpstream)" 0 0 "Some Canceled"]
  show ?thesis by blast
qed

end
