(* ===== verification/Snapshot_Store.thy ===== *)
theory Snapshot_Store
  imports Snapshot_Select
begin

text \<open>
  The in-memory snapshot repositories: \<open>src/internal/infrastructure/storage/memory/copy.go\<close>,
  \<open>instrument.go\<close>, \<open>ticker.go\<close> and \<open>market_stats.go\<close>.

  \<open>cp\<close> stands for \<open>decimal.Decimal.Copy\<close>. A mutating operation returns the repository and an
  error; a reading operation returns a result. The lock only delimits the atomic step and is
  not represented. The three repositories stage a batch and walk snapshots in the same way;
  \<open>stage_rows\<close> and \<open>visited_rows\<close> are these two loops, and every repository passes its own
  row check, copy and filter. The locale \<open>snapshot_store\<close> is their common contract.
\<close>

section \<open>Copies\<close>

definition validateScope :: "Scope \<Rightarrow> error option" where
  "validateScope scope =
     (if \<not> Exchange_Valid (sc_Exchange scope) \<or> \<not> Market_Valid (sc_Market scope)
      then Some (App ErrInvalidFilter) else None)"

definition copyPointer :: "'a option \<Rightarrow> 'a option" where
  "copyPointer v = (case v of None \<Rightarrow> None | Some x \<Rightarrow> Some x)"

definition copyDecimal :: "('d \<Rightarrow> 'd) \<Rightarrow> 'd option \<Rightarrow> 'd option" where
  "copyDecimal cp v = (case v of None \<Rightarrow> None | Some x \<Rightarrow> Some (cp x))"

definition copyInstrument :: "('d \<Rightarrow> 'd) \<Rightarrow> 'd Instrument \<Rightarrow> 'd Instrument" where
  "copyInstrument cp row = row\<lparr>
     inst_PriceTick := cp (inst_PriceTick row),
     inst_QtyStep := cp (inst_QtyStep row),
     inst_MinQty := copyDecimal cp (inst_MinQty row),
     inst_MaxQty := copyDecimal cp (inst_MaxQty row),
     inst_MinNotional := copyDecimal cp (inst_MinNotional row),
     inst_FundingInterval := copyPointer (inst_FundingInterval row),
     inst_DelistingTime := copyPointer (inst_DelistingTime row)\<rparr>"

definition copyTicker :: "('d \<Rightarrow> 'd) \<Rightarrow> 'd Ticker \<Rightarrow> 'd Ticker" where
  "copyTicker cp row = row\<lparr>
     tick_LastPrice := cp (tick_LastPrice row),
     tick_BidPrice := copyDecimal cp (tick_BidPrice row),
     tick_BidSize := copyDecimal cp (tick_BidSize row),
     tick_AskPrice := copyDecimal cp (tick_AskPrice row),
     tick_AskSize := copyDecimal cp (tick_AskSize row),
     tick_FundingRate := copyDecimal cp (tick_FundingRate row),
     tick_NextFundingAt := copyPointer (tick_NextFundingAt row)\<rparr>"

definition copyMarketStats :: "('d \<Rightarrow> 'd) \<Rightarrow> 'd MarketStats \<Rightarrow> 'd MarketStats" where
  "copyMarketStats cp row = row\<lparr>
     ms_High := cp (ms_High row),
     ms_Low := cp (ms_Low row),
     ms_Volume := cp (ms_Volume row),
     ms_Turnover := cp (ms_Turnover row),
     ms_PriceChange := copyDecimal cp (ms_PriceChange row),
     ms_TradeCount := copyPointer (ms_TradeCount row)\<rparr>"

definition copyKline :: "('d \<Rightarrow> 'd) \<Rightarrow> 'd Kline \<Rightarrow> 'd Kline" where
  "copyKline cp row = row\<lparr>
     k_Open := cp (k_Open row),
     k_High := cp (k_High row),
     k_Low := cp (k_Low row),
     k_Close := cp (k_Close row),
     k_Volume := cp (k_Volume row),
     k_Turnover := cp (k_Turnover row),
     k_TradesCount := copyPointer (k_TradesCount row)\<rparr>"

section \<open>The shared loops\<close>

definition row_mismatch :: error where
  "row_mismatch = Wrapped ''snapshot row does not match scope or has an empty symbol''
     [App ErrInvalidUpstreamData]"

definition row_duplicate :: error where
  "row_duplicate = Wrapped ''duplicate snapshot symbol'' [App ErrInvalidUpstreamData]"

text \<open>
  \<open>for _, row := range rows\<close> of \<open>ReplaceSnapshot\<close>: poll the context, check the row, refuse a
  duplicate, store the copy. \<open>k\<close> counts the polls made so far.
\<close>

fun stage_rows :: "ctx \<Rightarrow> nat \<Rightarrow> ('r \<Rightarrow> bool) \<Rightarrow> ('r \<Rightarrow> string) \<Rightarrow> ('r \<Rightarrow> 'r) \<Rightarrow> 'r list
    \<Rightarrow> (string, 'r) gomap \<Rightarrow> (string, 'r) gomap result" where
  "stage_rows ctx k mismatch symb own [] staged = Inr staged"
| "stage_rows ctx k mismatch symb own (row # rows) staged =
     (case ctx k of
        Some e \<Rightarrow> Inl e
      | None \<Rightarrow>
          if mismatch row then Inl row_mismatch
          else if ghas staged (symb row) then Inl row_duplicate
          else stage_rows ctx (k + 1) mismatch symb own rows
                 (AList.update (symb row) (own row) staged))"

text \<open>The rows that \<open>List\<close> visits: each selected snapshot once, in the order of the filter.\<close>

fun visited_rows :: "('k, (string, 'r) gomap) gomap \<Rightarrow> ('s \<Rightarrow> 'k) \<Rightarrow> 's list \<Rightarrow> 's list \<Rightarrow> 'r list" where
  "visited_rows snaps key [] seen = []"
| "visited_rows snaps key (s # ss) seen =
     (if s \<in> set seen then visited_rows snaps key ss seen
      else map snd (gget [] snaps (key s)) @ visited_rows snaps key ss (s # seen))"

text \<open>\<open>if err := ctx.Err()\<close> once per visited row, after the poll at the head of \<open>List\<close>.\<close>

definition visit_polls :: "ctx \<Rightarrow> 'r list \<Rightarrow> error option" where
  "visit_polls ctx rows = first_error (map ctx [1..<1 + length rows])"

section \<open>Instruments\<close>

record instrument_Filter =
  if_Snapshot :: SnapshotFilter
  if_Status :: "InstrumentStatus option"

record 'd instrumentRepository =
  ir_snapshots :: "(Scope, (string, 'd Instrument) gomap) gomap"

definition NewInstrumentRepository :: "'d instrumentRepository" where
  "NewInstrumentRepository = \<lparr>ir_snapshots = []\<rparr>"

definition inst_ReplaceSnapshot :: "('d \<Rightarrow> 'd) \<Rightarrow> ctx \<Rightarrow> 'd instrumentRepository \<Rightarrow> Scope
    \<Rightarrow> 'd Instrument list \<Rightarrow> 'd instrumentRepository \<times> error option" where
  "inst_ReplaceSnapshot cp ctx r scope rows =
     (case ctx 0 of
        Some e \<Rightarrow> (r, Some e)
      | None \<Rightarrow>
        (case validateScope scope of
           Some e \<Rightarrow> (r, Some e)
         | None \<Rightarrow>
           (case stage_rows ctx 1
               (\<lambda>row. inst_Exchange row \<noteq> sc_Exchange scope \<or> inst_Market row \<noteq> sc_Market scope
                 \<or> inst_Symbol row = '''')
               inst_Symbol (copyInstrument cp) rows [] of
              Inl e \<Rightarrow> (r, Some e)
            | Inr next \<Rightarrow>
              (case ctx (1 + length rows) of
                 Some e \<Rightarrow> (r, Some e)
               | None \<Rightarrow> (r\<lparr>ir_snapshots := AList.update scope next (ir_snapshots r)\<rparr>, None)))))"

definition inst_HasSnapshot :: "ctx \<Rightarrow> 'd instrumentRepository \<Rightarrow> Scope \<Rightarrow> bool result" where
  "inst_HasSnapshot ctx r scope =
     (case ctx 0 of Some e \<Rightarrow> Inl e | None \<Rightarrow> Inr (ghas (ir_snapshots r) scope))"

definition inst_List :: "('d \<Rightarrow> 'd) \<Rightarrow> ctx \<Rightarrow> 'd instrumentRepository \<Rightarrow> instrument_Filter
    \<Rightarrow> 'd Instrument list result" where
  "inst_List cp ctx r filt =
     (case ctx 0 of
        Some e \<Rightarrow> Inl e
      | None \<Rightarrow>
          if list_ex (\<lambda>scope. \<not> ghas (ir_snapshots r) scope) (f_Scopes (if_Snapshot filt))
          then Inl (App ErrDataNotReady)
          else
            let visited = visited_rows (ir_snapshots r) (\<lambda>s. s) (f_Scopes (if_Snapshot filt)) [];
                kept = filter (\<lambda>row.
                  (case f_Symbol (if_Snapshot filt) of None \<Rightarrow> True | Some s \<Rightarrow> inst_Symbol row = s) \<and>
                  (case if_Status filt of None \<Rightarrow> True | Some st \<Rightarrow> inst_Status row = st)) visited
            in (case visit_polls ctx visited of
                  Some e \<Rightarrow> Inl e
                | None \<Rightarrow> Inr (sort_key (\<lambda>row. (inst_Exchange row, inst_Market row, inst_Symbol row))
                    (map (copyInstrument cp) kept))))"

section \<open>Tickers\<close>

record 'd tickerRepository =
  tr_snapshots :: "(Scope, (string, 'd Ticker) gomap) gomap"

definition NewTickerRepository :: "'d tickerRepository" where
  "NewTickerRepository = \<lparr>tr_snapshots = []\<rparr>"

definition tick_ReplaceSnapshot :: "('d \<Rightarrow> 'd) \<Rightarrow> ctx \<Rightarrow> 'd tickerRepository \<Rightarrow> Scope
    \<Rightarrow> 'd Ticker list \<Rightarrow> 'd tickerRepository \<times> error option" where
  "tick_ReplaceSnapshot cp ctx r scope rows =
     (case ctx 0 of
        Some e \<Rightarrow> (r, Some e)
      | None \<Rightarrow>
        (case validateScope scope of
           Some e \<Rightarrow> (r, Some e)
         | None \<Rightarrow>
           (case stage_rows ctx 1
               (\<lambda>row. tick_Exchange row \<noteq> sc_Exchange scope \<or> tick_Market row \<noteq> sc_Market scope
                 \<or> tick_Symbol row = '''')
               tick_Symbol (copyTicker cp) rows [] of
              Inl e \<Rightarrow> (r, Some e)
            | Inr next \<Rightarrow>
              (case ctx (1 + length rows) of
                 Some e \<Rightarrow> (r, Some e)
               | None \<Rightarrow> (r\<lparr>tr_snapshots := AList.update scope next (tr_snapshots r)\<rparr>, None)))))"

definition tick_HasSnapshot :: "ctx \<Rightarrow> 'd tickerRepository \<Rightarrow> Scope \<Rightarrow> bool result" where
  "tick_HasSnapshot ctx r scope =
     (case ctx 0 of Some e \<Rightarrow> Inl e | None \<Rightarrow> Inr (ghas (tr_snapshots r) scope))"

definition tick_List :: "('d \<Rightarrow> 'd) \<Rightarrow> ctx \<Rightarrow> 'd tickerRepository \<Rightarrow> SnapshotFilter
    \<Rightarrow> 'd Ticker list result" where
  "tick_List cp ctx r filt =
     (case ctx 0 of
        Some e \<Rightarrow> Inl e
      | None \<Rightarrow>
          if list_ex (\<lambda>scope. \<not> ghas (tr_snapshots r) scope) (f_Scopes filt)
          then Inl (App ErrDataNotReady)
          else
            let visited = visited_rows (tr_snapshots r) (\<lambda>s. s) (f_Scopes filt) [];
                kept = filter (\<lambda>row.
                  case f_Symbol filt of None \<Rightarrow> True | Some s \<Rightarrow> tick_Symbol row = s) visited
            in (case visit_polls ctx visited of
                  Some e \<Rightarrow> Inl e
                | None \<Rightarrow> Inr (sort_key (\<lambda>row. (tick_Exchange row, tick_Market row, tick_Symbol row))
                    (map (copyTicker cp) kept))))"

text \<open>\<open>None\<close> for \<open>found = false\<close>.\<close>

definition tick_Get :: "('d \<Rightarrow> 'd) \<Rightarrow> ctx \<Rightarrow> 'd tickerRepository \<Rightarrow> Scope \<Rightarrow> string
    \<Rightarrow> 'd Ticker option result" where
  "tick_Get cp ctx r scope symbol =
     (case ctx 0 of
        Some e \<Rightarrow> Inl e
      | None \<Rightarrow>
        (case map_of (tr_snapshots r) scope of
           None \<Rightarrow> Inl (App ErrDataNotReady)
         | Some rows \<Rightarrow> Inr (map_option (copyTicker cp) (map_of rows symbol))))"

section \<open>Market statistics\<close>

record stats_Filter =
  sf_Snapshot :: SnapshotFilter
  sf_Window :: duration

record 'd marketstatsRepository =
  mr_snapshots :: "(Scope \<times> duration, (string, 'd MarketStats) gomap) gomap"

definition NewMarketStatsRepository :: "'d marketstatsRepository" where
  "NewMarketStatsRepository = \<lparr>mr_snapshots = []\<rparr>"

definition stats_ReplaceSnapshot :: "('d \<Rightarrow> 'd) \<Rightarrow> ctx \<Rightarrow> 'd marketstatsRepository \<Rightarrow> Scope
    \<Rightarrow> duration \<Rightarrow> 'd MarketStats list \<Rightarrow> 'd marketstatsRepository \<times> error option" where
  "stats_ReplaceSnapshot cp ctx r scope window rows =
     (case ctx 0 of
        Some e \<Rightarrow> (r, Some e)
      | None \<Rightarrow>
        (case validateScope scope of
           Some e \<Rightarrow> (r, Some e)
         | None \<Rightarrow>
           if window \<le> 0 then (r, Some (App ErrUnsupportedWindow))
           else
           (case stage_rows ctx 1
               (\<lambda>row. ms_Exchange row \<noteq> sc_Exchange scope \<or> ms_Market row \<noteq> sc_Market scope
                 \<or> ms_Symbol row = '''' \<or> ms_Window row \<noteq> window)
               ms_Symbol (copyMarketStats cp) rows [] of
              Inl e \<Rightarrow> (r, Some e)
            | Inr next \<Rightarrow>
              (case ctx (1 + length rows) of
                 Some e \<Rightarrow> (r, Some e)
               | None \<Rightarrow>
                   (r\<lparr>mr_snapshots := AList.update (scope, window) next (mr_snapshots r)\<rparr>, None)))))"

definition stats_HasSnapshot :: "ctx \<Rightarrow> 'd marketstatsRepository \<Rightarrow> Scope \<Rightarrow> duration \<Rightarrow> bool result" where
  "stats_HasSnapshot ctx r scope window =
     (case ctx 0 of Some e \<Rightarrow> Inl e | None \<Rightarrow> Inr (ghas (mr_snapshots r) (scope, window)))"

definition stats_List :: "('d \<Rightarrow> 'd) \<Rightarrow> ctx \<Rightarrow> 'd marketstatsRepository \<Rightarrow> stats_Filter
    \<Rightarrow> 'd MarketStats list result" where
  "stats_List cp ctx r filt =
     (case ctx 0 of
        Some e \<Rightarrow> Inl e
      | None \<Rightarrow>
          if list_ex (\<lambda>scope. \<not> ghas (mr_snapshots r) (scope, sf_Window filt)) (f_Scopes (sf_Snapshot filt))
          then Inl (App ErrDataNotReady)
          else
            let visited = visited_rows (mr_snapshots r) (\<lambda>s. (s, sf_Window filt))
                  (f_Scopes (sf_Snapshot filt)) [];
                kept = filter (\<lambda>row.
                  case f_Symbol (sf_Snapshot filt) of None \<Rightarrow> True | Some s \<Rightarrow> ms_Symbol row = s) visited
            in (case visit_polls ctx visited of
                  Some e \<Rightarrow> Inl e
                | None \<Rightarrow> Inr (sort_key (\<lambda>row. (ms_Exchange row, ms_Market row, ms_Symbol row))
                    (map (copyMarketStats cp) kept))))"

definition stats_Get :: "('d \<Rightarrow> 'd) \<Rightarrow> ctx \<Rightarrow> 'd marketstatsRepository \<Rightarrow> Scope \<Rightarrow> string
    \<Rightarrow> duration \<Rightarrow> 'd MarketStats option result" where
  "stats_Get cp ctx r scope symbol window =
     (case ctx 0 of
        Some e \<Rightarrow> Inl e
      | None \<Rightarrow>
        (case map_of (mr_snapshots r) (scope, window) of
           None \<Rightarrow> Inl (App ErrDataNotReady)
         | Some rows \<Rightarrow> Inr (map_option (copyMarketStats cp) (map_of rows symbol))))"

section \<open>The common contract\<close>

text \<open>
  \<open>view st k\<close> is what a repository publishes under a key: nothing before the first successful
  replacement, a finite map from symbols to rows afterwards. A replacement succeeds or fails
  independently of what is stored, publishes the whole batch or changes nothing.
\<close>

locale snapshot_store =
  fixes view :: "'st \<Rightarrow> 'key \<Rightarrow> (string \<rightharpoonup> 'row) option"
    and replace :: "ctx \<Rightarrow> 'st \<Rightarrow> 'key \<Rightarrow> 'row list \<Rightarrow> 'st \<times> error option"
    and outcome :: "ctx \<Rightarrow> 'key \<Rightarrow> 'row list \<Rightarrow> error option"
    and symb :: "'row \<Rightarrow> string"
    and own :: "'row \<Rightarrow> 'row"
  assumes replace_outcome: "snd (replace ctx st k rows) = outcome ctx k rows"
    and replace_error: "outcome ctx k rows = Some e \<Longrightarrow> fst (replace ctx st k rows) = st"
    and replace_view: "outcome ctx k rows = None \<Longrightarrow>
      view (fst (replace ctx st k rows)) = (view st)(k \<mapsto> map_of (map (\<lambda>r. (symb r, own r)) rows))"
begin

text \<open>After any sequence of replacements a key shows its last successful one.\<close>

lemma last_publication:
  "view (foldl (\<lambda>st (ctx, k, rows). fst (replace ctx st k rows)) st ops) k =
     (case rev (filter (\<lambda>(ctx, k', rows). k' = k \<and> outcome ctx k' rows = None) ops) of
        [] \<Rightarrow> view st k
      | (_, _, rows) # _ \<Rightarrow> Some (map_of (map (\<lambda>r. (symb r, own r)) rows)))"
proof (induction ops rule: rev_induct)
  case Nil
  then show ?case by simp
next
  case (snoc op ops)
  obtain ctx k' rows where op: "op = (ctx, k', rows)" by (cases op) auto
  let ?st = "foldl (\<lambda>st (ctx, k, rows). fst (replace ctx st k rows)) st ops"
  show ?case
  proof (cases "outcome ctx k' rows")
    case None
    with replace_view [OF None, of ?st] snoc op show ?thesis by auto
  next
    case (Some e)
    with replace_error [OF Some, of ?st] snoc op show ?thesis by simp
  qed
qed

lemma failed_replacements_keep_everything:
  assumes "\<forall>(ctx, k, rows) \<in> set ops. outcome ctx k rows \<noteq> None"
  shows "foldl (\<lambda>st (ctx, k, rows). fst (replace ctx st k rows)) st ops = st"
  using assms
proof (induction ops)
  case (Cons op ops)
  obtain ctx k rows where op: "op = (ctx, k, rows)" by (cases op) auto
  with Cons obtain e where "outcome ctx k rows = Some e" by auto
  with replace_error Cons op show ?case by simp
qed simp

end

section \<open>Facts about the loops\<close>

lemma update_new: "\<not> ghas m k \<Longrightarrow> AList.update k v m = m @ [(k, v)]"
  by (induction m) (auto simp: ghas_def split: if_splits)

lemma ghas_append: "ghas (m @ m') k \<longleftrightarrow> ghas m k \<or> ghas m' k"
  by (auto simp: ghas_iff)

lemma ghas_Cons: "ghas ((k', v) # m) k \<longleftrightarrow> k = k' \<or> ghas m k"
  by (auto simp: ghas_iff)

lemma ghas_Nil [simp]: "\<not> ghas [] k"
  by (simp add: ghas_def)

lemma stage_rows_Inr:
  "stage_rows ctx k mismatch symb own rows staged = Inr out \<longleftrightarrow>
     (\<forall>i < length rows. ctx (k + i) = None)
   \<and> (\<forall>r \<in> set rows. \<not> mismatch r \<and> \<not> ghas staged (symb r)) \<and> distinct (map symb rows)
   \<and> out = staged @ map (\<lambda>r. (symb r, own r)) rows"
proof (induction rows arbitrary: k staged)
  case Nil
  then show ?case by auto
next
  case (Cons row rows)
  have all: "(\<forall>i < length (row # rows). ctx (k + i) = None) \<longleftrightarrow>
      ctx k = None \<and> (\<forall>i < length rows. ctx (k + 1 + i) = None)"
    by (auto simp: less_Suc_eq_0_disj)
  show ?case
  proof (cases "ctx k = None \<and> \<not> mismatch row \<and> \<not> ghas staged (symb row)")
    case True
    then have step: "stage_rows ctx k mismatch symb own (row # rows) staged =
        stage_rows ctx (k + 1) mismatch symb own rows (staged @ [(symb row, own row)])"
      by (simp add: update_new)
    show ?thesis
      unfolding step Cons.IH all using True by (auto simp: ghas_append ghas_Cons image_iff)
  next
    case False
    then have "\<nexists>out. stage_rows ctx k mismatch symb own (row # rows) staged = Inr out"
      by (auto split: option.splits)
    with False show ?thesis unfolding all by auto
  qed
qed

lemma stage_rows_empty:
  "stage_rows ctx k mismatch symb own rows [] = Inr out \<longleftrightarrow>
     (\<forall>i < length rows. ctx (k + i) = None) \<and> (\<forall>r \<in> set rows. \<not> mismatch r)
   \<and> distinct (map symb rows) \<and> out = map (\<lambda>r. (symb r, own r)) rows"
  by (auto simp: stage_rows_Inr)

lemma stage_rows_error:
  "stage_rows ctx k mismatch symb own rows staged = Inl e \<Longrightarrow>
     e = row_mismatch \<or> e = row_duplicate \<or> (\<exists>i. ctx i = Some e)"
proof (induction rows arbitrary: k staged)
  case (Cons row rows)
  then show ?case by (auto split: option.splits if_splits)
qed simp

lemma set_visited_rows:
  "set (visited_rows snaps key ss seen) = {r. \<exists>s \<in> set ss - set seen. r \<in> snd ` set (gget [] snaps (key s))}"
  by (induction ss arbitrary: seen) auto

lemma visit_polls_None: "visit_polls ctx rows = None \<longleftrightarrow> (\<forall>i < length rows. ctx (Suc i) = None)"
proof -
  have "[1..<1 + length rows] = map Suc [0..<length rows]" by (simp add: map_Suc_upt)
  then show ?thesis by (simp only: visit_polls_def first_error_None) auto
qed

lemma stage_rows_Inl:
  assumes "stage_rows ctx k mismatch symb own rows [] = Inl e"
  shows "\<not> ((\<forall>i < length rows. ctx (k + i) = None) \<and> (\<forall>r \<in> set rows. \<not> mismatch r)
    \<and> distinct (map symb rows))"
  using stage_rows_empty [of ctx k mismatch symb own rows] assms by (metis sum.distinct(1))

lemma poll_range:
  fixes n :: nat
  shows "(\<forall>i \<le> 1 + n. P i) \<longleftrightarrow> P 0 \<and> (\<forall>i < n. P (1 + i)) \<and> P (1 + n)"
proof -
  have "(\<forall>i \<le> Suc n. P i) \<longleftrightarrow> (\<forall>i < Suc (Suc n). P i)" by (simp add: less_Suc_eq_le)
  also have "\<dots> \<longleftrightarrow> P 0 \<and> (\<forall>i < n. P (Suc i)) \<and> P (Suc n)"
    by (subst All_less_Suc2, subst All_less_Suc) blast
  finally show ?thesis by simp
qed


text \<open>Every stored row fits its key and sits under its own symbol.\<close>

definition store_wf :: "('k \<Rightarrow> 'r \<Rightarrow> bool) \<Rightarrow> ('r \<Rightarrow> string) \<Rightarrow> ('k, (string, 'r) gomap) gomap \<Rightarrow> bool" where
  "store_wf fits symb snaps \<longleftrightarrow> gwf snaps \<and>
     (\<forall>(k, rows) \<in> set snaps. gwf rows \<and> (\<forall>(s, row) \<in> set rows. fits k row \<and> symb row = s))"

lemma store_wf_Nil [simp]: "store_wf fits symb []"
  by (simp add: store_wf_def)

lemma gwf_staged: "distinct (map symb rows) \<Longrightarrow> gwf (map (\<lambda>r. (symb r, own r)) rows)"
  by (simp add: gwf_def comp_def)

lemma store_wf_update:
  assumes "store_wf fits symb snaps" and "distinct (map symb rows)"
    and "\<forall>row \<in> set rows. fits k (own row) \<and> symb (own row) = symb row"
  shows "store_wf fits symb (AList.update k (map (\<lambda>r. (symb r, own r)) rows) snaps)"
  using assms unfolding store_wf_def by (auto simp: gwf_staged dest!: set_update_cases)

lemma store_wf_get:
  assumes "store_wf fits symb snaps"
  shows "gwf (gget [] snaps k) \<and> (\<forall>(s, row) \<in> set (gget [] snaps k). fits k row \<and> symb row = s)"
proof (cases "map_of snaps k")
  case None
  then show ?thesis by (simp add: gget_def gwf_def)
next
  case (Some rows)
  with assms map_of_SomeD [OF Some] show ?thesis by (auto simp: gget_def store_wf_def)
qed

lemma store_wf_rows:
  assumes "store_wf fits symb snaps" and "r \<in> snd ` set (gget [] snaps k)"
  shows "fits k r"
  using store_wf_get [OF assms(1), of k] assms(2) by auto

lemma store_wf_mem:
  assumes "store_wf fits symb snaps" and "map_of snaps k = Some rows"
  shows "r \<in> snd ` set rows \<longleftrightarrow> map_of rows (symb r) = Some r"
proof -
  have rows: "gwf rows" "\<forall>(s, row) \<in> set rows. symb row = s"
    using assms by (auto simp: store_wf_def dest!: map_of_SomeD)
  then have "r \<in> snd ` set rows \<longleftrightarrow> (symb r, r) \<in> set rows"
    by (auto simp: image_iff Bex_def)
  with rows(1) show ?thesis by (simp add: gwf_map_of)
qed

lemma filter_symbol:
  assumes "gwf rows" and "\<forall>(s, row) \<in> set rows. symb row = s"
  shows "filter (\<lambda>row. symb row = s) (map snd rows) = (case map_of rows s of None \<Rightarrow> [] | Some t \<Rightarrow> [t])"
  using assms
proof (induction rows)
  case (Cons kv rows)
  obtain k v where kv: "kv = (k, v)" by fastforce
  with Cons.prems have k: "symb v = k" "map_of rows k = None" "gwf rows"
    and rest: "\<forall>(s, row) \<in> set rows. symb row = s" by (auto simp: gwf_def map_of_eq_None_iff)
  from Cons.IH [OF k(3) rest] k kv show ?case by (auto split: option.splits)
qed simp

lemma visited_distinct:
  assumes wf: "store_wf fits symb snaps" and scope: "\<And>s row. fits (key s) row \<Longrightarrow> scope_of row = s"
  shows "distinct (map (\<lambda>r. (scope_of r, symb r)) (visited_rows snaps key ss seen))"
proof (induction ss arbitrary: seen)
  case (Cons s ss)
  have here: "scope_of r = s" if "r \<in> snd ` set (gget [] snaps (key s))" for s r
    using store_wf_rows [OF wf that] scope by blast
  have "\<forall>(k, row) \<in> set (gget [] snaps (key s)). symb row = k" and "gwf (gget [] snaps (key s))"
    using store_wf_get [OF wf, of "key s"] by auto
  then have "map symb (map snd (gget [] snaps (key s))) = map fst (gget [] snaps (key s))"
    and "distinct (map fst (gget [] snaps (key s)))" by (auto simp: gwf_def)
  then have own: "distinct (map symb (map snd (gget [] snaps (key s))))" by (simp only:)
  have "distinct (map (\<lambda>r. (scope_of r, symb r)) (map snd (gget [] snaps (key s))))"
    using own by (auto simp: distinct_map inj_on_def)
  moreover have "scope_of r \<noteq> s" if "r \<in> set (visited_rows snaps key ss (s # seen))" for r
    using that here by (auto simp: set_visited_rows)
  moreover have "scope_of r = s" if "r \<in> set (map snd (gget [] snaps (key s)))" for r
    using that by (intro here) simp
  ultimately show ?case
    using Cons.IH by (auto simp del: map_map)
qed simp



section \<open>Repositories that publish staged batches\<close>

text \<open>
  \<open>publish\<close> is the effect of \<open>ReplaceSnapshot\<close> on the snapshot map, with the checks made before
  the loop as \<open>pre\<close>. A repository whose \<open>ReplaceSnapshot\<close> publishes in this way satisfies the
  contract \<open>snapshot_store\<close> and keeps its rows well formed.
\<close>

definition publish :: "ctx \<Rightarrow> error option \<Rightarrow> ('r \<Rightarrow> bool) \<Rightarrow> ('r \<Rightarrow> string) \<Rightarrow> ('r \<Rightarrow> 'r) \<Rightarrow> 'k
    \<Rightarrow> 'r list \<Rightarrow> ('k, (string, 'r) gomap) gomap \<Rightarrow> ('k, (string, 'r) gomap) gomap \<times> error option" where
  "publish ctx pre fit symb own k rows snaps =
     (case ctx 0 of
        Some e \<Rightarrow> (snaps, Some e)
      | None \<Rightarrow>
        (case pre of
           Some e \<Rightarrow> (snaps, Some e)
         | None \<Rightarrow>
           (case stage_rows ctx 1 (\<lambda>r. \<not> fit r) symb own rows [] of
              Inl e \<Rightarrow> (snaps, Some e)
            | Inr next \<Rightarrow>
              (case ctx (1 + length rows) of
                 Some e \<Rightarrow> (snaps, Some e)
               | None \<Rightarrow> (AList.update k next snaps, None)))))"

lemma publish_fails: "snd (publish ctx pre fit symb own k rows snaps) = Some e \<Longrightarrow>
    fst (publish ctx pre fit symb own k rows snaps) = snaps"
  by (auto simp: publish_def split: option.splits sum.splits)

lemma publish_outcome:
  "snd (publish ctx pre fit symb own k rows snaps) = snd (publish ctx pre fit symb own k' rows snaps')"
  by (simp add: publish_def split: option.splits sum.splits)

lemma publish_ok:
  "snd (publish ctx pre fit symb own k rows snaps) = None \<longleftrightarrow>
     (\<forall>i \<le> 1 + length rows. ctx i = None) \<and> pre = None \<and> (\<forall>row \<in> set rows. fit row)
   \<and> distinct (map symb rows)"
  unfolding publish_def poll_range
  by (auto simp: stage_rows_empty dest: stage_rows_Inl split: option.splits sum.splits)

lemma publish_None:
  assumes "snd (publish ctx pre fit symb own k rows snaps) = None"
  shows "fst (publish ctx pre fit symb own k rows snaps) =
      AList.update k (map (\<lambda>r. (symb r, own r)) rows) snaps"
  using assms unfolding publish_def
  by (auto simp: stage_rows_empty dest: stage_rows_Inl split: option.splits sum.splits)

locale snapshot_repository =
  fixes snaps :: "'st \<Rightarrow> ('k, (string, 'row) gomap) gomap"
    and replace :: "ctx \<Rightarrow> 'st \<Rightarrow> 'k \<Rightarrow> 'row list \<Rightarrow> 'st \<times> error option"
    and pre :: "'k \<Rightarrow> error option"
    and fits :: "'k \<Rightarrow> 'row \<Rightarrow> bool"
    and symb :: "'row \<Rightarrow> string"
    and own :: "'row \<Rightarrow> 'row"
  assumes publishes_error: "snd (replace ctx st k rows) = snd (publish ctx (pre k) (fits k) symb own k rows (snaps st))"
    and publishes_snaps: "snaps (fst (replace ctx st k rows)) =
      fst (publish ctx (pre k) (fits k) symb own k rows (snaps st))"
    and failure_keeps_state: "snd (replace ctx st k rows) = Some e \<Longrightarrow> fst (replace ctx st k rows) = st"
    and own_symb: "symb (own row) = symb row"
    and own_fits: "fits k (own row) = fits k row"
begin

definition view :: "'st \<Rightarrow> 'k \<Rightarrow> (string \<rightharpoonup> 'row) option" where
  "view st k = map_option map_of (map_of (snaps st) k)"

definition outcome :: "ctx \<Rightarrow> 'k \<Rightarrow> 'row list \<Rightarrow> error option" where
  "outcome ctx k rows = snd (publish ctx (pre k) (fits k) symb own k rows [])"

lemma wf_replace:
  assumes "store_wf fits symb (snaps st)"
  shows "store_wf fits symb (snaps (fst (replace ctx st k rows)))"
proof (cases "snd (replace ctx st k rows)")
  case None
  then show ?thesis unfolding publishes_error publishes_snaps
    by (auto simp: publish_None publish_ok own_symb own_fits intro!: store_wf_update assms)
next
  case (Some e)
  then show ?thesis using failure_keeps_state assms by simp
qed

lemma wf_run:
  "store_wf fits symb (snaps st) \<Longrightarrow>
   store_wf fits symb (snaps (foldl (\<lambda>st (ctx, k, rows). fst (replace ctx st k rows)) st ops))"
  by (induction ops arbitrary: st) (auto simp: wf_replace)

end

sublocale snapshot_repository \<subseteq> snapshot_store view replace outcome symb own
proof
  fix ctx st k rows e
  show *: "snd (replace ctx st k rows) = outcome ctx k rows" for ctx st k rows
    unfolding outcome_def publishes_error by (rule publish_outcome)
  show "outcome ctx k rows = Some e \<Longrightarrow> fst (replace ctx st k rows) = st"
    unfolding * [symmetric, where st = st] by (rule failure_keeps_state)
  assume "outcome ctx k rows = None"
  then have "snd (publish ctx (pre k) (fits k) symb own k rows (snaps st)) = None"
    by (simp add: * [symmetric, where st = st] publishes_error)
  then show "view (fst (replace ctx st k rows)) =
      (view st)(k \<mapsto> map_of (map (\<lambda>r. (symb r, own r)) rows))"
    by (simp add: view_def fun_eq_iff publishes_snaps publish_None)
qed

text \<open>What a listing of well-formed snapshots holds, and in which order.\<close>

lemma listing_exact:
  assumes wf: "store_wf fits symb snaps"
    and own: "\<And>row. order (own row) = order row"
    and order: "\<And>row row'. order row = order row' \<Longrightarrow> scope_of row = scope_of row' \<and> symb row = symb row'"
    and scope: "\<And>s row. fits (key s) row \<Longrightarrow> scope_of row = s"
    and ready: "\<forall>s \<in> set ss. ghas snaps (key s)"
    and out: "out = sort_key order (map own (filter keep (visited_rows snaps key ss [])))"
  shows "sorted_wrt (<) (map order out)"
    and "set out = own ` {row. keep row \<and>
      (\<exists>s \<in> set ss. \<exists>rows. map_of snaps (key s) = Some rows \<and> map_of rows (symb row) = Some row)}"
proof -
  let ?v = "visited_rows snaps key ss []"
  have "distinct (map (\<lambda>r. (scope_of r, symb r)) ?v)"
    by (rule visited_distinct [OF wf scope])
  then have "distinct (map order ?v)"
    unfolding distinct_map inj_on_def using order by blast
  then have "distinct (map order (filter keep ?v))" by (rule distinct_map_filter)
  moreover have "map order (map own (filter keep ?v)) = map order (filter keep ?v)"
    by (simp add: own comp_def)
  ultimately show "sorted_wrt (<) (map order out)"
    unfolding out by (intro strict_sorted_sort_key) (simp only:)
  have "row \<in> snd ` set (gget [] snaps (key s)) \<longleftrightarrow>
      (\<exists>rows. map_of snaps (key s) = Some rows \<and> map_of rows (symb row) = Some row)" if "s \<in> set ss" for s row
  proof -
    obtain rows where rows: "map_of snaps (key s) = Some rows"
      using ready \<open>s \<in> set ss\<close> by (auto simp: ghas_def)
    show ?thesis using store_wf_mem [OF wf rows, of row] rows by (simp add: gget_def)
  qed
  then have "set ?v = {row. \<exists>s \<in> set ss. \<exists>rows. map_of snaps (key s) = Some rows \<and> map_of rows (symb row) = Some row}"
    unfolding set_visited_rows by auto
  then show "set out = own ` {row. keep row \<and>
      (\<exists>s \<in> set ss. \<exists>rows. map_of snaps (key s) = Some rows \<and> map_of rows (symb row) = Some row)}"
    unfolding out by auto
qed


section \<open>The three repositories keep the contract\<close>

definition inst_fits :: "Scope \<Rightarrow> 'd Instrument \<Rightarrow> bool" where
  "inst_fits scope row \<longleftrightarrow> inst_Exchange row = sc_Exchange scope \<and> inst_Market row = sc_Market scope
     \<and> inst_Symbol row \<noteq> ''''"

definition tick_fits :: "Scope \<Rightarrow> 'd Ticker \<Rightarrow> bool" where
  "tick_fits scope row \<longleftrightarrow> tick_Exchange row = sc_Exchange scope \<and> tick_Market row = sc_Market scope
     \<and> tick_Symbol row \<noteq> ''''"

definition stats_fits :: "Scope \<times> duration \<Rightarrow> 'd MarketStats \<Rightarrow> bool" where
  "stats_fits key row \<longleftrightarrow> ms_Exchange row = sc_Exchange (fst key) \<and> ms_Market row = sc_Market (fst key)
     \<and> ms_Symbol row \<noteq> '''' \<and> ms_Window row = snd key"

definition stats_pre :: "Scope \<times> duration \<Rightarrow> error option" where
  "stats_pre key = (case validateScope (fst key) of Some e \<Rightarrow> Some e
     | None \<Rightarrow> if snd key \<le> 0 then Some (App ErrUnsupportedWindow) else None)"

lemma copyInstrument_keys [simp]:
  "inst_Exchange (copyInstrument cp row) = inst_Exchange row"
  "inst_Market (copyInstrument cp row) = inst_Market row"
  "inst_Symbol (copyInstrument cp row) = inst_Symbol row"
  "inst_Status (copyInstrument cp row) = inst_Status row"
  by (simp_all add: copyInstrument_def)

lemma copyTicker_keys [simp]:
  "tick_Exchange (copyTicker cp row) = tick_Exchange row"
  "tick_Market (copyTicker cp row) = tick_Market row"
  "tick_Symbol (copyTicker cp row) = tick_Symbol row"
  by (simp_all add: copyTicker_def)

lemma copyMarketStats_keys [simp]:
  "ms_Exchange (copyMarketStats cp row) = ms_Exchange row"
  "ms_Market (copyMarketStats cp row) = ms_Market row"
  "ms_Symbol (copyMarketStats cp row) = ms_Symbol row"
  "ms_Window (copyMarketStats cp row) = ms_Window row"
  by (simp_all add: copyMarketStats_def)

lemmas replace_splits = option.splits sum.splits if_splits

interpretation inst_store: snapshot_repository ir_snapshots "inst_ReplaceSnapshot cp" validateScope
  inst_fits inst_Symbol "copyInstrument cp" for cp :: "'d \<Rightarrow> 'd"
  by unfold_locales
    (auto simp: inst_ReplaceSnapshot_def publish_def inst_fits_def de_Morgan_conj split: replace_splits)

interpretation tick_store: snapshot_repository tr_snapshots "tick_ReplaceSnapshot cp" validateScope
  tick_fits tick_Symbol "copyTicker cp" for cp :: "'d \<Rightarrow> 'd"
  by unfold_locales
    (auto simp: tick_ReplaceSnapshot_def publish_def tick_fits_def de_Morgan_conj split: replace_splits)

interpretation stats_store: snapshot_repository mr_snapshots
  "\<lambda>ctx r key rows. stats_ReplaceSnapshot cp ctx r (fst key) (snd key) rows" stats_pre
  stats_fits ms_Symbol "copyMarketStats cp" for cp :: "'d \<Rightarrow> 'd"
  by unfold_locales
    (auto simp: stats_ReplaceSnapshot_def publish_def stats_fits_def stats_pre_def de_Morgan_conj
      split: replace_splits)


section \<open>Properties\<close>

text \<open>The repositories reached from the empty one by a sequence of replacements.\<close>

definition inst_run :: "('d \<Rightarrow> 'd) \<Rightarrow> (ctx \<times> Scope \<times> 'd Instrument list) list \<Rightarrow> 'd instrumentRepository" where
  "inst_run cp ops = foldl (\<lambda>r (ctx, s, rows). fst (inst_ReplaceSnapshot cp ctx r s rows))
     NewInstrumentRepository ops"

definition tick_run :: "('d \<Rightarrow> 'd) \<Rightarrow> (ctx \<times> Scope \<times> 'd Ticker list) list \<Rightarrow> 'd tickerRepository" where
  "tick_run cp ops = foldl (\<lambda>r (ctx, s, rows). fst (tick_ReplaceSnapshot cp ctx r s rows))
     NewTickerRepository ops"

definition stats_run :: "('d \<Rightarrow> 'd) \<Rightarrow> (ctx \<times> (Scope \<times> duration) \<times> 'd MarketStats list) list
    \<Rightarrow> 'd marketstatsRepository" where
  "stats_run cp ops = foldl (\<lambda>r (ctx, k, rows). fst (stats_ReplaceSnapshot cp ctx r (fst k) (snd k) rows))
     NewMarketStatsRepository ops"

text \<open>Concrete rows for the witnesses.\<close>

definition usdt_scope :: Scope where
  "usdt_scope = \<lparr>sc_Exchange = ExchangeBinance, sc_Market = MarketLinear\<rparr>"

definition usdt_row :: "string \<Rightarrow> int \<Rightarrow> int Instrument" where
  "usdt_row base tick = \<lparr>inst_ContractType = ContractTypePerpetual,
     inst_Exchange = ExchangeBinance, inst_Market = MarketLinear, inst_Symbol = base @ ''USDT'',
     inst_BaseAsset = base, inst_QuoteAsset = ''USDT'', inst_Status = InstrumentStatusTrading,
     inst_PriceTick = tick, inst_QtyStep = 1, inst_MinQty = None, inst_MaxQty = None,
     inst_MinNotional = None, inst_FundingInterval = None, inst_DelistingTime = None, inst_UpdatedAt = 0\<rparr>"

definition usdt_ticker :: "string \<Rightarrow> int \<Rightarrow> int Ticker" where
  "usdt_ticker base price = \<lparr>tick_Exchange = ExchangeBinance, tick_Market = MarketLinear,
     tick_Symbol = base @ ''USDT'', tick_LastPrice = price, tick_BidPrice = None, tick_BidSize = None,
     tick_AskPrice = None, tick_AskSize = None, tick_FundingRate = None, tick_NextFundingAt = None,
     tick_FetchedAt = 0\<rparr>"

text \<open>
  A snapshot repository is a register per scope: after any sequence of replacements starting
  from the empty repository, the rows stored for a scope are exactly the rows of the last
  successful replacement of that scope, whole and under their own symbols, and nothing if none
  succeeded. A replacement that fails (context, scope, foreign row, empty or repeated symbol)
  leaves no trace.
\<close>

theorem ReplaceSnapshot_last_publication:
  "map_option map_of (map_of (ir_snapshots (inst_run cp ops)) scope) =
     (case rev (filter (\<lambda>(ctx, s, rows). s = scope
         \<and> snd (inst_ReplaceSnapshot cp ctx NewInstrumentRepository s rows) = None) ops) of
        [] \<Rightarrow> None
      | (_, _, rows) # _ \<Rightarrow> Some (map_of (map (\<lambda>r. (inst_Symbol r, copyInstrument cp r)) rows)))"
  using inst_store.last_publication [of cp NewInstrumentRepository ops scope]
  unfolding inst_run_def inst_store.replace_outcome
  by (simp add: inst_store.view_def NewInstrumentRepository_def cong: list.case_cong)

text \<open>
  \<open>ReplaceSnapshot\<close> of instruments accepts a batch exactly when the context stays alive at every
  poll, the scope is supported, every row belongs to the scope under a non-empty symbol and no
  symbol is repeated; otherwise the repository is unchanged.
\<close>

theorem inst_ReplaceSnapshot_atomic:
  "(snd (inst_ReplaceSnapshot cp ctx r scope rows) = None \<longleftrightarrow>
      (\<forall>i \<le> 1 + length rows. ctx i = None)
    \<and> Exchange_Valid (sc_Exchange scope) \<and> Market_Valid (sc_Market scope)
    \<and> (\<forall>row \<in> set rows. inst_Exchange row = sc_Exchange scope \<and> inst_Market row = sc_Market scope
         \<and> inst_Symbol row \<noteq> '''')
    \<and> distinct (map inst_Symbol rows))
   \<and> fst (inst_ReplaceSnapshot cp ctx r scope rows) =
     (if snd (inst_ReplaceSnapshot cp ctx r scope rows) = None
      then r\<lparr>ir_snapshots := AList.update scope
        (map (\<lambda>row. (inst_Symbol row, copyInstrument cp row)) rows) (ir_snapshots r)\<rparr>
      else r)"
proof
  show "snd (inst_ReplaceSnapshot cp ctx r scope rows) = None \<longleftrightarrow>
      (\<forall>i \<le> 1 + length rows. ctx i = None)
    \<and> Exchange_Valid (sc_Exchange scope) \<and> Market_Valid (sc_Market scope)
    \<and> (\<forall>row \<in> set rows. inst_Exchange row = sc_Exchange scope \<and> inst_Market row = sc_Market scope
         \<and> inst_Symbol row \<noteq> '''')
    \<and> distinct (map inst_Symbol rows)"
    unfolding inst_store.publishes_error publish_ok validateScope_def inst_fits_def by auto
  show "fst (inst_ReplaceSnapshot cp ctx r scope rows) =
     (if snd (inst_ReplaceSnapshot cp ctx r scope rows) = None
      then r\<lparr>ir_snapshots := AList.update scope
        (map (\<lambda>row. (inst_Symbol row, copyInstrument cp row)) rows) (ir_snapshots r)\<rparr>
      else r)"
  proof (cases "snd (inst_ReplaceSnapshot cp ctx r scope rows)")
    case None
    then have "ir_snapshots (fst (inst_ReplaceSnapshot cp ctx r scope rows)) = AList.update scope
        (map (\<lambda>row. (inst_Symbol row, copyInstrument cp row)) rows) (ir_snapshots r)"
      by (simp add: inst_store.publishes_error inst_store.publishes_snaps publish_None)
    with None show ?thesis by simp
  next
    case (Some e)
    then show ?thesis by (simp add: inst_store.failure_keeps_state)
  qed
qed

theorem inst_ReplaceSnapshot_atomic_witness:
  "snd (inst_ReplaceSnapshot (\<lambda>d :: int. d) background NewInstrumentRepository usdt_scope [usdt_row ''BTC'' 1, usdt_row ''ETH'' 2]) = None
 \<and> snd (inst_ReplaceSnapshot (\<lambda>d :: int. d) background NewInstrumentRepository usdt_scope [usdt_row ''BTC'' 1, usdt_row ''BTC'' 2]) \<noteq> None"
proof
  show "snd (inst_ReplaceSnapshot (\<lambda>d :: int. d) background NewInstrumentRepository usdt_scope [usdt_row ''BTC'' 1, usdt_row ''ETH'' 2]) = None"
    by (rule iffD2 [OF conjunct1 [OF inst_ReplaceSnapshot_atomic]])
      (simp add: background_def usdt_scope_def usdt_row_def Exchange_Valid_def Market_Valid_def)
  show "snd (inst_ReplaceSnapshot (\<lambda>d :: int. d) background NewInstrumentRepository usdt_scope [usdt_row ''BTC'' 1, usdt_row ''BTC'' 2]) \<noteq> None"
    by code_simp
qed

text \<open>
  On a repository reached by replacements, \<open>List\<close> under a live context answers
  \<open>ErrDataNotReady\<close> exactly when a requested scope has no snapshot. Otherwise it returns the
  stored rows of the requested scopes that pass the symbol and status filters, each once, strictly
  ascending by exchange, market and symbol, however often a scope is repeated in the filter.
\<close>

theorem inst_List_exact:
  "case inst_List cp background (inst_run cp ops) filt of
     Inl e \<Rightarrow> e = App ErrDataNotReady \<and> (\<exists>s \<in> set (f_Scopes (if_Snapshot filt)). \<not> ghas (ir_snapshots (inst_run cp ops)) s)
   | Inr out \<Rightarrow> (\<forall>s \<in> set (f_Scopes (if_Snapshot filt)). ghas (ir_snapshots (inst_run cp ops)) s)
     \<and> sorted_wrt (<) (map (\<lambda>row. (inst_Exchange row, inst_Market row, inst_Symbol row)) out)
     \<and> set out = copyInstrument cp ` {row.
         (f_Symbol (if_Snapshot filt) = None \<or> f_Symbol (if_Snapshot filt) = Some (inst_Symbol row))
       \<and> (if_Status filt = None \<or> if_Status filt = Some (inst_Status row))
       \<and> (\<exists>s \<in> set (f_Scopes (if_Snapshot filt)). \<exists>rows.
            map_of (ir_snapshots (inst_run cp ops)) s = Some rows \<and> map_of rows (inst_Symbol row) = Some row)}"
proof (cases "\<forall>s \<in> set (f_Scopes (if_Snapshot filt)). ghas (ir_snapshots (inst_run cp ops)) s")
  case False
  then show ?thesis by (auto simp: inst_List_def background_def list_ex_iff)
next
  case True
  have wf: "store_wf inst_fits inst_Symbol (ir_snapshots (inst_run cp ops))"
    unfolding inst_run_def by (rule inst_store.wf_run) (simp add: NewInstrumentRepository_def)
  let ?order = "\<lambda>row :: 'd Instrument. (inst_Exchange row, inst_Market row, inst_Symbol row)"
  let ?keep = "\<lambda>row. (case f_Symbol (if_Snapshot filt) of None \<Rightarrow> True | Some s \<Rightarrow> inst_Symbol row = s) \<and>
      (case if_Status filt of None \<Rightarrow> True | Some st \<Rightarrow> inst_Status row = st)"
  define out where "out = sort_key ?order (map (copyInstrument cp)
      (filter ?keep (visited_rows (ir_snapshots (inst_run cp ops)) (\<lambda>s. s) (f_Scopes (if_Snapshot filt)) [])))"
  have res: "inst_List cp background (inst_run cp ops) filt = Inr out"
    using True by (simp add: out_def inst_List_def background_def list_ex_iff visit_polls_None Let_def option.case_eq_if)
  have exact: "sorted_wrt (<) (map ?order out)" "set out = copyInstrument cp ` {row. ?keep row \<and> (\<exists>s \<in> set (f_Scopes (if_Snapshot filt)). \<exists>rows.
       map_of (ir_snapshots (inst_run cp ops)) s = Some rows \<and> map_of rows (inst_Symbol row) = Some row)}"
    by (rule listing_exact [OF wf, where key = "\<lambda>s. s" and order = ?order,
          OF _ _ _ True, where scope_of = "\<lambda>row. \<lparr>sc_Exchange = inst_Exchange row, sc_Market = inst_Market row\<rparr>"];
        simp add: inst_fits_def out_def)+
  have keep: "?keep row \<longleftrightarrow>
      (f_Symbol (if_Snapshot filt) = None \<or> f_Symbol (if_Snapshot filt) = Some (inst_Symbol row))
    \<and> (if_Status filt = None \<or> if_Status filt = Some (inst_Status row))" for row
    by (auto split: option.splits)
  show ?thesis using True exact(1) exact(2) [unfolded keep conj_assoc] unfolding res by simp
qed


theorem inst_List_exact_witness:
  "case inst_List (\<lambda>d :: int. d) background
      (inst_run (\<lambda>d. d) [(background, usdt_scope, [usdt_row ''ETH'' 2, usdt_row ''BTC'' 1])])
      \<lparr>if_Snapshot = \<lparr>f_Scopes = [usdt_scope, usdt_scope], f_Symbol = None\<rparr>, if_Status = None\<rparr> of
     Inl e \<Rightarrow> False | Inr out \<Rightarrow> map inst_Symbol out = [''BTCUSDT'', ''ETHUSDT'']"
proof -
  have "inst_List (\<lambda>d :: int. d) background
      (inst_run (\<lambda>d. d) [(background, usdt_scope, [usdt_row ''ETH'' 2, usdt_row ''BTC'' 1])])
      \<lparr>if_Snapshot = \<lparr>f_Scopes = [usdt_scope, usdt_scope], f_Symbol = None\<rparr>, if_Status = None\<rparr> =
      Inr [usdt_row ''BTC'' 1, usdt_row ''ETH'' 2]" by code_simp
  with inst_List_exact [where cp = "\<lambda>d :: int. d" and ops =
      "[(background, usdt_scope, [usdt_row ''ETH'' 2, usdt_row ''BTC'' 1])]"
      and filt = "\<lparr>if_Snapshot = \<lparr>f_Scopes = [usdt_scope, usdt_scope], f_Symbol = None\<rparr>, if_Status = None\<rparr>"]
  show ?thesis by (simp add: usdt_row_def)
qed

text \<open>
  Point reads agree with listings: on a repository reached by replacements, listing one scope
  with a symbol filter under a live context gives exactly what \<open>Get\<close> gives for that symbol, as a
  list of at most one ticker, or the same not-ready error.
\<close>

theorem tick_List_Get:
  "tick_List cp background (tick_run cp ops) \<lparr>f_Scopes = [scope], f_Symbol = Some symbol\<rparr> =
     (case tick_Get cp background (tick_run cp ops) scope symbol of
        Inl e \<Rightarrow> Inl e
      | Inr None \<Rightarrow> Inr []
      | Inr (Some t) \<Rightarrow> Inr [t])"
proof (cases "map_of (tr_snapshots (tick_run cp ops)) scope")
  case None
  then show ?thesis by (simp add: tick_List_def tick_Get_def background_def ghas_def)
next
  case (Some rows)
  have "store_wf tick_fits tick_Symbol (tr_snapshots (tick_run cp ops))"
    unfolding tick_run_def by (rule tick_store.wf_run) (simp add: NewTickerRepository_def)
  from store_wf_get [OF this, of scope] Some
  have wf: "gwf rows" "\<forall>(s, row) \<in> set rows. tick_Symbol row = s" by (auto simp: gget_def)
  then have "filter (\<lambda>row. tick_Symbol row = symbol) (map snd rows) =
      (case map_of rows symbol of None \<Rightarrow> [] | Some t \<Rightarrow> [t])" by (rule filter_symbol)
  then show ?thesis using Some
    by (simp add: tick_List_def tick_Get_def background_def ghas_def gget_def visit_polls_None
        Let_def split: option.splits)
qed

text \<open>
  Statistics of different windows never mix: after any sequence of replacements, \<open>Get\<close> for a
  scope, symbol and window under a live context answers from the last successful replacement
  made for exactly that scope and window, and \<open>ErrDataNotReady\<close> when there is none.
\<close>

theorem stats_Get_last_publication:
  fixes cp :: "'d \<Rightarrow> 'd"
  shows "stats_Get cp background (stats_run cp ops) scope symbol window =
     (case rev (filter (\<lambda>(ctx, k, rows). k = (scope, window)
         \<and> snd (stats_ReplaceSnapshot cp ctx NewMarketStatsRepository (fst k) (snd k) rows) = None) ops) of
        [] \<Rightarrow> Inl (App ErrDataNotReady)
      | (_, _, rows) # _ \<Rightarrow> Inr (map_option (copyMarketStats cp)
          (map_of (map (\<lambda>r. (ms_Symbol r, copyMarketStats cp r)) rows) symbol)))"
proof -
  have "stats_Get cp background r scope symbol window =
      (case stats_store.view r (scope, window) of None \<Rightarrow> Inl (App ErrDataNotReady)
       | Some m \<Rightarrow> Inr (map_option (copyMarketStats cp) (m symbol)))" for r
    by (simp add: stats_Get_def background_def stats_store.view_def split: option.splits)
  moreover have "stats_store.view (NewMarketStatsRepository :: 'd marketstatsRepository) (scope, window) = None"
    by (simp add: stats_store.view_def NewMarketStatsRepository_def)
  ultimately show ?thesis
    using stats_store.last_publication [of cp NewMarketStatsRepository ops "(scope, window)"]
    unfolding stats_run_def stats_store.replace_outcome [of cp _ NewMarketStatsRepository]
    by (auto split: list.splits)
qed

end
