(* ===== verification/Timeframes.thy ===== *)
theory Timeframes
  imports Market_Types
begin

text \<open>
  Candle intervals and slot calendars: \<open>src/internal/domain/timeframe.go\<close>.

  The abstract view is \<open>slot_start c k\<close>, the opening instant of the \<open>k\<close>-th slot of a
  calendar: an arithmetic progression for the fixed intervals and the first instants of the
  months for \<open>1M\<close>. The locale \<open>slot_calendar\<close> states what \<open>Floor\<close>, \<open>Shift\<close> and
  \<open>CountSlots\<close> promise in terms of that numbering; the interpretation \<open>cal\<close> proves the
  promise for the code. The planner and the candle store rely on the facts of \<open>cal\<close> only.
\<close>

section \<open>Definitions\<close>

definition Timeframe1s :: Timeframe where "Timeframe1s = ''1s''"
definition Timeframe1m :: Timeframe where "Timeframe1m = ''1m''"
definition Timeframe3m :: Timeframe where "Timeframe3m = ''3m''"
definition Timeframe5m :: Timeframe where "Timeframe5m = ''5m''"
definition Timeframe15m :: Timeframe where "Timeframe15m = ''15m''"
definition Timeframe30m :: Timeframe where "Timeframe30m = ''30m''"
definition Timeframe1h :: Timeframe where "Timeframe1h = ''1h''"
definition Timeframe2h :: Timeframe where "Timeframe2h = ''2h''"
definition Timeframe4h :: Timeframe where "Timeframe4h = ''4h''"
definition Timeframe6h :: Timeframe where "Timeframe6h = ''6h''"
definition Timeframe8h :: Timeframe where "Timeframe8h = ''8h''"
definition Timeframe12h :: Timeframe where "Timeframe12h = ''12h''"
definition Timeframe1d :: Timeframe where "Timeframe1d = ''1d''"
definition Timeframe3d :: Timeframe where "Timeframe3d = ''3d''"
definition Timeframe1w :: Timeframe where "Timeframe1w = ''1w''"
definition Timeframe1M :: Timeframe where "Timeframe1M = ''1M''"

lemmas timeframe_names = Timeframe1s_def Timeframe1m_def Timeframe3m_def Timeframe5m_def
  Timeframe15m_def Timeframe30m_def Timeframe1h_def Timeframe2h_def Timeframe4h_def
  Timeframe6h_def Timeframe8h_def Timeframe12h_def Timeframe1d_def Timeframe3d_def
  Timeframe1w_def Timeframe1M_def

definition seconds :: "Timeframe \<Rightarrow> int" where
  "seconds t =
     (if t = Timeframe1s then 1
      else if t = Timeframe1m then 60
      else if t = Timeframe3m then 180
      else if t = Timeframe5m then 300
      else if t = Timeframe15m then 900
      else if t = Timeframe30m then 1800
      else if t = Timeframe1h then 3600
      else if t = Timeframe2h then 7200
      else if t = Timeframe4h then 14400
      else if t = Timeframe6h then 21600
      else if t = Timeframe8h then 28800
      else if t = Timeframe12h then 43200
      else if t = Timeframe1d then 86400
      else if t = Timeframe3d then 259200
      else if t = Timeframe1w then 604800
      else 0)"

definition Timeframe_Valid :: "Timeframe \<Rightarrow> bool" where
  "Timeframe_Valid t \<longleftrightarrow> t = Timeframe1M \<or> seconds t > 0"

definition ParseTimeframe :: "string \<Rightarrow> Timeframe result" where
  "ParseTimeframe value =
     (if \<not> Timeframe_Valid value then Inl (Dom ErrInvalidTimeframe) else Inr value)"

record Calendar =
  cal_interval :: Timeframe
  cal_anchor :: int

definition NewCalendar :: "Exchange \<Rightarrow> Market \<Rightarrow> Timeframe \<Rightarrow> Calendar result" where
  "NewCalendar exchange market interval =
     (if \<not> Timeframe_Valid interval then Inl (Dom ErrInvalidTimeframe)
      else if \<not> Exchange_Valid exchange \<or> \<not> Market_Valid market then Inl (Dom ErrUnknownCalendar)
      else
        let c = \<lparr>cal_interval = interval, cal_anchor = 0\<rparr> in
        if interval = Timeframe3d then
          (if exchange \<noteq> ExchangeBinance then Inl (Dom ErrUnknownCalendar)
           else Inr (c\<lparr>cal_anchor := 86400\<rparr>))
        else if interval = Timeframe1w then Inr (c\<lparr>cal_anchor := 4 * 86400\<rparr>)
        else Inr c)"

definition Floor :: "Calendar \<Rightarrow> time \<Rightarrow> time result" where
  "Floor c t =
     (if \<not> Timeframe_Valid (cal_interval c) then Inl (Dom ErrInvalidTimeframe)
      else if Year t < 1 \<or> Year t > 9999 then Inl (Dom ErrTimeOverflow)
      else if cal_interval c = Timeframe1M then Inr (Date_first (Year t) (Month t))
      else
        let secs = seconds (cal_interval c);
            r = (Unix t - cal_anchor c) smod secs;
            remainder = (if r < 0 then r + secs else r);
            res = of_Unix (Unix t - remainder)
        in if Year res < 1 then Inl (Dom ErrTimeOverflow) else Inr res)"

definition ValidateBoundary :: "Calendar \<Rightarrow> time \<Rightarrow> error option" where
  "ValidateBoundary c t =
     (case Floor c t of
        Inl e \<Rightarrow> Some e
      | Inr boundary \<Rightarrow> if boundary \<noteq> t then Some (Dom ErrInvalidBoundary) else None)"

definition minSeconds :: int where "minSeconds = -62135596800"
definition maxSeconds :: int where "maxSeconds = 253402300799"

definition Shift :: "Calendar \<Rightarrow> time \<Rightarrow> int \<Rightarrow> time result" where
  "Shift c boundary slots =
     (case ValidateBoundary c boundary of
        Some e \<Rightarrow> Inl e
      | None \<Rightarrow>
          if cal_interval c = Timeframe1M then
            let month = (Year boundary - 1) * 12 + (Month boundary - 1) in
            if slots < - month \<or> slots > 9999 * 12 - 1 - month then Inl (Dom ErrTimeOverflow)
            else
              let month' = month + slots
              in Inr (Date_first (month' sdiv 12 + 1) (month' smod 12 + 1))
          else
            let secs = seconds (cal_interval c); start = Unix boundary in
            if slots < (minSeconds - start) sdiv secs \<or> slots > (maxSeconds - start) sdiv secs
            then Inl (Dom ErrTimeOverflow)
            else Inr (of_Unix (start + slots * secs)))"

definition Next :: "Calendar \<Rightarrow> time \<Rightarrow> time result" where
  "Next c boundary = Shift c boundary 1"

definition CountSlots :: "Calendar \<Rightarrow> time \<Rightarrow> time \<Rightarrow> int \<Rightarrow> int result" where
  "CountSlots c from to limit =
     (case ValidateBoundary c from of
        Some e \<Rightarrow> Inl e
      | None \<Rightarrow>
        (case ValidateBoundary c to of
           Some e \<Rightarrow> Inl e
         | None \<Rightarrow>
             if limit < 0 \<or> from > to then Inl (Dom Domain_ErrInvalidRange)
             else
               let count = (if cal_interval c = Timeframe1M
                    then (Year to - Year from) * 12 + (Month to - Month from)
                    else (Unix to - Unix from) sdiv seconds (cal_interval c))
               in if count > limit then Inl (Dom ErrSlotLimit) else Inr count))"

definition HistoryCutoff :: "Calendar \<Rightarrow> time \<Rightarrow> int \<Rightarrow> time result" where
  "HistoryCutoff c now slots =
     (if slots \<le> 0 then Inl (Dom Domain_ErrInvalidRange)
      else (case Floor c now of Inl e \<Rightarrow> Inl e | Inr current \<Rightarrow> Shift c current (- slots)))"

section \<open>The abstract calendar\<close>

text \<open>
  The \<open>k\<close>-th slot of a calendar, the slot that contains an instant, and the instants of the
  supported years 1 to 9999.
\<close>

definition cal_wf :: "Calendar \<Rightarrow> bool" where
  "cal_wf c \<longleftrightarrow> Timeframe_Valid (cal_interval c)"

definition slot_start :: "Calendar \<Rightarrow> int \<Rightarrow> time" where
  "slot_start c k =
     (if cal_interval c = Timeframe1M then of_Unix ((month_first_day k - 719162) * day_seconds)
      else of_Unix (cal_anchor c + k * seconds (cal_interval c)))"

definition slot_index :: "Calendar \<Rightarrow> time \<Rightarrow> int" where
  "slot_index c t =
     (if cal_interval c = Timeframe1M then month_index t
      else (Unix t - cal_anchor c) div seconds (cal_interval c))"

definition in_years :: "time \<Rightarrow> bool" where
  "in_years t \<longleftrightarrow> minSeconds * nanos \<le> t \<and> t < (maxSeconds + 1) * nanos"

locale slot_calendar =
  fixes wf :: "'c \<Rightarrow> bool"
    and start :: "'c \<Rightarrow> int \<Rightarrow> time"
    and index :: "'c \<Rightarrow> time \<Rightarrow> int"
    and supported :: "time \<Rightarrow> bool"
    and floor :: "'c \<Rightarrow> time \<Rightarrow> time result"
    and shift :: "'c \<Rightarrow> time \<Rightarrow> int \<Rightarrow> time result"
    and count :: "'c \<Rightarrow> time \<Rightarrow> time \<Rightarrow> int \<Rightarrow> int result"
    and validate :: "'c \<Rightarrow> time \<Rightarrow> error option"
  assumes start_step: "wf c \<Longrightarrow> start c k < start c (k + 1)"
    and start_index: "wf c \<Longrightarrow> start c (index c t) \<le> t"
    and index_next: "wf c \<Longrightarrow> t < start c (index c t + 1)"
    and supported_convex: "supported a \<Longrightarrow> supported b \<Longrightarrow> a \<le> t \<Longrightarrow> t \<le> b \<Longrightarrow> supported t"
    and floor_eq: "wf c \<Longrightarrow> floor c t =
      (if supported t \<and> supported (start c (index c t)) then Inr (start c (index c t))
       else Inl (Dom ErrTimeOverflow))"
    and validate_eq: "wf c \<Longrightarrow> validate c t =
      (case floor c t of Inl e \<Rightarrow> Some e
       | Inr b \<Rightarrow> if b \<noteq> t then Some (Dom ErrInvalidBoundary) else None)"
    and shift_start: "wf c \<Longrightarrow> supported (start c k) \<Longrightarrow> shift c (start c k) n =
      (if supported (start c (k + n)) then Inr (start c (k + n)) else Inl (Dom ErrTimeOverflow))"
    and shift_invalid: "wf c \<Longrightarrow> validate c t = Some e \<Longrightarrow> shift c t n = Inl e"
    and count_start: "wf c \<Longrightarrow> supported (start c i) \<Longrightarrow> supported (start c j) \<Longrightarrow>
      count c (start c i) (start c j) limit =
        (if limit < 0 \<or> j < i then Inl (Dom Domain_ErrInvalidRange)
         else if j - i > limit then Inl (Dom ErrSlotLimit) else Inr (j - i))"
    and count_invalid: "wf c \<Longrightarrow> validate c a = Some e \<or> validate c a = None \<and> validate c b = Some e
      \<Longrightarrow> count c a b limit = Inl e"
begin

lemma start_less_add: "wf c \<Longrightarrow> start c k < start c (k + int (Suc n))"
proof (induction n)
  case 0
  then show ?case using start_step by simp
next
  case (Suc n)
  have "start c (k + int (Suc n)) < start c (k + int (Suc n) + 1)"
    using Suc.prems by (rule start_step)
  with Suc show ?case by (simp add: algebra_simps)
qed

lemma start_less: "wf c \<Longrightarrow> i < j \<Longrightarrow> start c i < start c j"
proof -
  assume "wf c" "i < j"
  then obtain n where "j = i + int (Suc n)"
    by (metis add_diff_cancel_left' diff_add_cancel zero_less_imp_eq_int zless_iff_Suc_zadd)
  with \<open>wf c\<close> show ?thesis using start_less_add by simp
qed

lemma start_less_iff: "wf c \<Longrightarrow> start c i < start c j \<longleftrightarrow> i < j"
  using start_less by (metis less_asym' linorder_neqE)

lemma start_le_iff: "wf c \<Longrightarrow> start c i \<le> start c j \<longleftrightarrow> i \<le> j"
  using start_less_iff by (metis linorder_not_less)

lemma start_eq_iff: "wf c \<Longrightarrow> start c i = start c j \<longleftrightarrow> i = j"
  using start_le_iff by (metis order_antisym order_refl)

lemma index_unique: "wf c \<Longrightarrow> start c k \<le> t \<Longrightarrow> t < start c (k + 1) \<Longrightarrow> index c t = k"
proof -
  assume a: "wf c" "start c k \<le> t" "t < start c (k + 1)"
  have "start c (index c t) < start c (k + 1)" "start c k < start c (index c t + 1)"
    using a start_index [of c t] index_next [of c t] by linarith+
  with a(1) show ?thesis by (simp add: start_less_iff)
qed

lemma index_start: "wf c \<Longrightarrow> index c (start c k) = k"
  by (rule index_unique) (auto intro: start_step)

lemma index_le: "wf c \<Longrightarrow> k \<le> index c t \<longleftrightarrow> start c k \<le> t"
proof -
  assume wf: "wf c"
  have "start c k \<le> start c (index c t)" if "k \<le> index c t" using that wf by (simp add: start_le_iff)
  moreover have "start c k < start c (index c t + 1)" if "start c k \<le> t"
    using that index_next [OF wf, of t] by linarith
  ultimately show ?thesis using wf start_index [OF wf, of t]
    by (auto simp: start_less_iff)
qed

lemma index_mono: "wf c \<Longrightarrow> t \<le> t' \<Longrightarrow> index c t \<le> index c t'"
  using index_le start_index by (meson order_trans)

lemma validate_None:
  "wf c \<Longrightarrow> validate c t = None \<longleftrightarrow> supported t \<and> start c (index c t) = t"
  by (auto simp: validate_eq floor_eq split: if_splits)

lemma validate_start: "wf c \<Longrightarrow> validate c (start c k) = None \<longleftrightarrow> supported (start c k)"
  by (simp add: validate_None index_start)

lemma boundaryE:
  assumes "wf c" and "validate c t = None"
  obtains k where "t = start c k" and "supported (start c k)" and "k = index c t"
  using assms by (metis validate_None)

lemma shift_ok:
  assumes "wf c" and "shift c t n = Inr t'"
  obtains k where "t = start c k" and "t' = start c (k + n)" and "supported t" and "supported t'"
proof -
  have "validate c t = None"
    using assms shift_invalid by (metis not_None_eq sum.distinct(1))
  then obtain k where k: "t = start c k" "supported (start c k)"
    using assms(1) by (metis boundaryE)
  with assms shift_start [OF assms(1) k(2), of n] that [of k] show ?thesis
    by (auto split: if_splits)
qed

lemma shift_round_trip:
  assumes "wf c" and "shift c t n = Inr t'"
  shows "shift c t' (- n) = Inr t"
proof -
  from assms obtain k where "t = start c k" "t' = start c (k + n)" "supported t" "supported t'"
    by (rule shift_ok)
  with assms(1) shift_start [of c "k + n" "- n"] show ?thesis by simp
qed

lemma shift_add:
  assumes "wf c" and "shift c t m = Inr t'" and "shift c t' n = Inr t''"
  shows "shift c t (m + n) = Inr t''"
proof -
  from assms(1,2) obtain k where k: "t = start c k" "t' = start c (k + m)" "supported t"
    by (rule shift_ok)
  from assms(1,3) obtain l where l: "t' = start c l" "t'' = start c (l + n)" "supported t''"
    by (rule shift_ok)
  from k(2) l(1) assms(1) have "l = k + m" by (simp add: start_eq_iff)
  with k l assms(1) shift_start [of c k "m + n"] show ?thesis by (simp add: add.assoc)
qed

lemma count_ok:
  assumes "wf c" and "count c a b limit = Inr n"
  shows "0 \<le> n" and "n \<le> limit" and "shift c a n = Inr b"
    and "\<exists>k. a = start c k \<and> b = start c (k + n) \<and> supported a \<and> supported b"
proof -
  have "validate c a = None" "validate c b = None"
    using assms count_invalid by (metis not_None_eq sum.distinct(1))+
  then obtain i j where ij: "a = start c i" "b = start c j" "supported a" "supported b"
    using assms(1) by (metis boundaryE)
  with assms count_start [of c i j limit]
  have n: "n = j - i" "i \<le> j" "j - i \<le> limit" by (auto split: if_splits)
  then show "0 \<le> n" "n \<le> limit" by simp_all
  show "shift c a n = Inr b" using assms(1) ij n shift_start [of c i n] by simp
  show "\<exists>k. a = start c k \<and> b = start c (k + n) \<and> supported a \<and> supported b"
    using ij n by (intro exI [of _ i]) simp
qed

text \<open>The number of slot boundaries in a half-open range is the difference of the indices.\<close>

lemma boundaries_between:
  assumes "wf c"
  shows "{t. start c i \<le> t \<and> t < start c j \<and> (\<exists>k. t = start c k)} = start c ` {i..<j}"
  using assms by (auto simp: start_le_iff start_less_iff)

lemma card_boundaries_between:
  assumes "wf c"
  shows "card {t. start c i \<le> t \<and> t < start c j \<and> (\<exists>k. t = start c k)} = nat (j - i)"
proof -
  have "inj_on (start c) {i..<j}" using assms by (auto simp: inj_on_def start_eq_iff)
  then show ?thesis by (simp add: boundaries_between [OF assms] card_image)
qed

end

section \<open>The code implements the abstract calendar\<close>

lemma seconds_1M [simp]: "seconds Timeframe1M = 0"
  by (simp add: seconds_def timeframe_names)

lemma seconds_le_week: "seconds t \<le> 604800"
  by (simp add: seconds_def)

lemma cal_wf_seconds: "cal_wf c \<Longrightarrow> cal_interval c \<noteq> Timeframe1M \<Longrightarrow> 0 < seconds (cal_interval c)"
  by (simp add: cal_wf_def Timeframe_Valid_def)

lemma Unix_of_Unix [simp]: "Unix (of_Unix s) = s"
  by (simp add: Unix_def of_Unix_def)

lemma of_Unix_less: "of_Unix s < of_Unix s' \<longleftrightarrow> s < s'"
  by (simp add: of_Unix_def)

lemma of_Unix_le_iff: "of_Unix s \<le> t \<longleftrightarrow> s \<le> Unix t"
  using quotient_bounds [of nanos t] by (simp add: of_Unix_def Unix_def) linarith

lemma less_of_Unix_iff: "t < of_Unix s \<longleftrightarrow> Unix t < s"
  using of_Unix_le_iff [of s t] by linarith

lemma in_years_Unix: "in_years t \<longleftrightarrow> minSeconds \<le> Unix t \<and> Unix t \<le> maxSeconds"
  using of_Unix_le_iff [of minSeconds t] less_of_Unix_iff [of t "maxSeconds + 1"]
  by (auto simp: in_years_def of_Unix_def)

lemma day_of_ge: "day_of t \<ge> d \<longleftrightarrow> (d - 719162) * day_seconds \<le> Unix t"
  using quotient_bounds [of day_seconds "Unix t"] by (simp add: day_of_def) linarith

lemma Year_ge_1: "1 \<le> Year t \<longleftrightarrow> minSeconds \<le> Unix t"
  by (simp add: Year_def year_of_day_ge day_of_ge days_before_year_def minSeconds_def)

lemma Year_le_9999: "Year t \<le> 9999 \<longleftrightarrow> Unix t \<le> maxSeconds"
proof -
  have "10000 \<le> Year t \<longleftrightarrow> maxSeconds + 1 \<le> Unix t"
    by (simp add: Year_def year_of_day_ge day_of_ge days_before_year_def maxSeconds_def)
  then show ?thesis by linarith
qed

lemma in_years_Year: "in_years t \<longleftrightarrow> \<not> (Year t < 1 \<or> Year t > 9999)"
  using Year_ge_1 [of t] Year_le_9999 [of t] by (auto simp: in_years_Unix)

lemma slot_step: "cal_wf c \<Longrightarrow> slot_start c k < slot_start c (k + 1)"
  using month_first_day_less [of k] cal_wf_seconds [of c]
  by (auto simp: slot_start_def of_Unix_less algebra_simps)

lemma slot_start_index: "cal_wf c \<Longrightarrow> slot_start c (slot_index c t) \<le> t"
  using month_index_bounds(1) [of t] day_of_ge [of "month_first_day (month_index t)" t]
    quotient_bounds(1) [of "seconds (cal_interval c)" "Unix t - cal_anchor c"] cal_wf_seconds [of c]
  by (auto simp: slot_start_def slot_index_def of_Unix_le_iff algebra_simps)

lemma slot_index_next: "cal_wf c \<Longrightarrow> t < slot_start c (slot_index c t + 1)"
  using month_index_bounds(2) [of t] day_of_ge [of "month_first_day (month_index t + 1)" t]
    quotient_bounds(2) [of "seconds (cal_interval c)" "Unix t - cal_anchor c"] cal_wf_seconds [of c]
  by (auto simp: slot_start_def slot_index_def less_of_Unix_iff algebra_simps)

lemma smod_nonneg_fix:
  fixes a n :: int
  assumes "0 < n"
  shows "(if a smod n < 0 then a smod n + n else a smod n) = a mod n"
proof (cases "0 \<le> a")
  case True
  with assms have "a smod n = a mod n" by (intro smod_mod_positive) simp_all
  with assms show ?thesis by (simp add: not_less)
next
  case False
  with assms have s: "a smod n = - ((- a) mod n)" by (simp add: signed_modulo_int_def sgn_if)
  have "a mod n = (if (- a) mod n = 0 then 0 else n - (- a) mod n)"
    using zmod_zminus1_eq_if [of "- a" n] by simp
  moreover have "0 \<le> (- a) mod n" using assms by simp
  ultimately show ?thesis by (simp add: s)
qed

lemma sdiv_nonneg: "0 \<le> a \<Longrightarrow> 0 < n \<Longrightarrow> a sdiv n = a div (n::int)"
  by (cases "a = 0") (auto simp: signed_divide_int_def sgn_if)

lemma le_div_iff: "0 < n \<Longrightarrow> x \<le> a div n \<longleftrightarrow> x * n \<le> (a::int)"
proof
  assume "0 < n" "x \<le> a div n"
  then have "x * n \<le> a div n * n" by simp
  also have "\<dots> \<le> a" using quotient_bounds(1) [OF \<open>0 < n\<close>, of a] by (simp add: mult.commute)
  finally show "x * n \<le> a" .
next
  assume "0 < n" "x * n \<le> a"
  then show "x \<le> a div n" using zdiv_mono1 [of "x * n" a n] by simp
qed

lemma sdiv_nonpos: "a \<le> 0 \<Longrightarrow> 0 < n \<Longrightarrow> a sdiv n = - (- a div (n::int))"
  using sdiv_nonneg [of "- a" n] by simp

text \<open>The two guards of \<open>Shift\<close> on fixed intervals together mean that the target stays in range.\<close>

lemma shift_guard:
  fixes s n lo hi x :: int
  assumes "0 < n" and "lo \<le> s" and "s \<le> hi"
  shows "\<not> (x < (lo - s) sdiv n \<or> x > (hi - s) sdiv n) \<longleftrightarrow> lo \<le> s + x * n \<and> s + x * n \<le> hi"
proof -
  have lo: "(lo - s) sdiv n = - ((s - lo) div n)" using assms sdiv_nonpos [of "lo - s" n] by simp
  have hi: "(hi - s) sdiv n = (hi - s) div n" using assms by (intro sdiv_nonneg) simp_all
  have "x \<le> (hi - s) div n \<longleftrightarrow> x * n \<le> hi - s"
    using assms(1) by (rule le_div_iff)
  moreover have "- x \<le> (s - lo) div n \<longleftrightarrow> - x * n \<le> s - lo"
    using assms(1) by (rule le_div_iff)
  ultimately show ?thesis unfolding lo hi by linarith
qed

lemma Date_first_parts:
  "Date_first (k div 12 + 1) (k mod 12 + 1) = of_Unix ((month_first_day k - 719162) * day_seconds)"
  by (simp add: Date_first_def)

lemma Date_first_month: "Date_first (Year t) (Month t) = of_Unix ((month_first_day (month_index t) - 719162) * day_seconds)"
  by (simp add: Date_first_def month_index_def)

lemma month_first_day_0: "month_first_day 0 = 0"
  by (simp add: month_first_day_def days_before_year_def days_before_month_def)

lemma month_first_day_last: "month_first_day 119988 = 3652059"
  by (simp add: month_first_day_def days_before_year_def days_before_month_def)

lemma month_first_day_mono: "i \<le> j \<Longrightarrow> month_first_day i \<le> month_first_day j"
proof (induction j rule: int_ge_induct)
  case (step j)
  then show ?case using month_first_day_less [of j] by linarith
qed simp

text \<open>The months of the supported years are numbered 0 to 119987.\<close>

lemma in_years_month:
  "in_years (of_Unix ((month_first_day k - 719162) * day_seconds)) \<longleftrightarrow> 0 \<le> k \<and> k \<le> 119987"
proof -
  have "0 \<le> month_first_day k \<longleftrightarrow> 0 \<le> k"
    using month_first_day_mono [of 0 k] month_first_day_mono [of "k + 1" 0]
      month_first_day_less [of k] month_first_day_0 by linarith
  moreover have "month_first_day k < 3652059 \<longleftrightarrow> k < 119988"
    using month_first_day_mono [of 119988 k] month_first_day_mono [of "k + 1" 119988]
      month_first_day_less [of k] month_first_day_last by linarith
  ultimately show ?thesis
    by (auto simp: in_years_Unix minSeconds_def maxSeconds_def)
qed

lemma Floor_eq:
  assumes "cal_wf c"
  shows "Floor c t =
    (if in_years t \<and> in_years (slot_start c (slot_index c t)) then Inr (slot_start c (slot_index c t))
     else Inl (Dom ErrTimeOverflow))"
proof (cases "cal_interval c = Timeframe1M")
  case True
  have "in_years t \<Longrightarrow> in_years (slot_start c (slot_index c t))"
    using month_index_parts(3,4) [of t] True in_years_month [of "month_index t"]
    by (simp add: slot_start_def slot_index_def in_years_Year [of t] month_index_def)
  with assms True show ?thesis
    by (auto simp: Floor_def cal_wf_def in_years_Year [of t] Date_first_month slot_start_def slot_index_def)
next
  case False
  note secs = cal_wf_seconds [OF assms False]
  have res: "of_Unix (Unix t - (Unix t - cal_anchor c) mod seconds (cal_interval c))
      = slot_start c (slot_index c t)"
  proof -
    let ?x = "Unix t - cal_anchor c" and ?n = "seconds (cal_interval c)"
    have "Unix t - ?x mod ?n = cal_anchor c + (?x - ?x mod ?n)" by simp
    also have "\<dots> = cal_anchor c + ?x div ?n * ?n" by (simp only: minus_mod_eq_div_mult)
    finally show ?thesis using False by (simp add: slot_start_def slot_index_def)
  qed
  let ?b = "slot_start c (slot_index c t)"
  have "Unix ?b \<le> Unix t" using slot_start_index [OF assms, of t] by (simp add: Unix_def zdiv_mono1)
  then have "in_years t \<Longrightarrow> in_years ?b \<longleftrightarrow> \<not> Year ?b < 1"
    using Year_ge_1 [of ?b] by (auto simp: in_years_Unix)
  with assms False show ?thesis
    by (auto simp: Floor_def cal_wf_def in_years_Year [of t] Let_def smod_nonneg_fix [OF secs] res)
qed

lemma Unix_slot_start:
  "cal_interval c \<noteq> Timeframe1M \<Longrightarrow> Unix (slot_start c k) = cal_anchor c + k * seconds (cal_interval c)"
  by (simp add: slot_start_def)

lemma month_index_slot_start:
  assumes "cal_wf c" and "cal_interval c = Timeframe1M"
  shows "month_index (slot_start c k) = k"
proof -
  let ?i = "slot_index c (slot_start c k)"
  have "slot_start c ?i \<le> slot_start c k" "slot_start c k < slot_start c (?i + 1)"
    using slot_start_index [OF assms(1)] slot_index_next [OF assms(1)] by auto
  then have "month_first_day ?i \<le> month_first_day k" "month_first_day k < month_first_day (?i + 1)"
    using assms(2) by (simp_all add: slot_start_def of_Unix_less of_Unix_le_iff)
  then have "?i = k"
    using month_first_day_mono [of "k + 1" ?i] month_first_day_less [of k]
      month_first_day_mono [of "?i + 1" k] by linarith
  with assms(2) show ?thesis by (simp add: slot_index_def)
qed

lemma ValidateBoundary_start:
  assumes "cal_wf c" and "in_years (slot_start c k)"
  shows "ValidateBoundary c (slot_start c k) = None"
proof -
  have "slot_index c (slot_start c k) = k"
  proof (cases "cal_interval c = Timeframe1M")
    case True
    with month_index_slot_start [OF assms(1) True] show ?thesis by (simp add: slot_index_def)
  next
    case False
    with cal_wf_seconds [OF assms(1) False] show ?thesis
      by (simp add: slot_index_def Unix_slot_start)
  qed
  with assms show ?thesis by (simp add: ValidateBoundary_def Floor_eq)
qed

lemma Shift_start:
  assumes "cal_wf c" and "in_years (slot_start c k)"
  shows "Shift c (slot_start c k) n =
    (if in_years (slot_start c (k + n)) then Inr (slot_start c (k + n)) else Inl (Dom ErrTimeOverflow))"
proof (cases "cal_interval c = Timeframe1M")
  case True
  have k: "(Year (slot_start c k) - 1) * 12 + (Month (slot_start c k) - 1) = k"
    using month_index_slot_start [OF assms(1) True, of k] by (simp add: month_index_def)
  have range: "in_years (slot_start c j) \<longleftrightarrow> 0 \<le> j \<and> j \<le> 119987" for j
    by (simp only: slot_start_def in_years_month True simp_thms if_True)
  have date: "0 \<le> j \<Longrightarrow> Date_first (j sdiv 12 + 1) (j smod 12 + 1) = slot_start c j" for j
    using Date_first_parts [of j] True by (simp add: sdiv_nonneg smod_mod_positive slot_start_def)
  show ?thesis
    unfolding Shift_def Let_def k range
    using True date ValidateBoundary_start [OF assms] by auto
next
  case False
  note secs = cal_wf_seconds [OF assms(1) False]
  let ?s = "seconds (cal_interval c)"
  have "minSeconds \<le> cal_anchor c + k * ?s" "cal_anchor c + k * ?s \<le> maxSeconds"
    using assms(2) False by (simp_all add: in_years_Unix Unix_slot_start)
  note guard = shift_guard [OF secs this, of n]
  with False ValidateBoundary_start [OF assms] show ?thesis
    by (auto simp: Shift_def Let_def Unix_slot_start in_years_Unix slot_start_def distrib_right add.assoc)
qed

lemma month_difference:
  "12 * (y - 1) + (m - 1) = i \<Longrightarrow> 12 * (y' - 1) + (m' - 1) = j \<Longrightarrow>
    (y' - y) * 12 + (m' - m) = (j - i :: int)"
  by auto

lemma CountSlots_start:
  assumes "cal_wf c" and "in_years (slot_start c i)" and "in_years (slot_start c j)"
  shows "CountSlots c (slot_start c i) (slot_start c j) limit =
    (if limit < 0 \<or> j < i then Inl (Dom Domain_ErrInvalidRange)
     else if j - i > limit then Inl (Dom ErrSlotLimit) else Inr (j - i))"
proof -
  have less: "slot_start c j < slot_start c i \<longleftrightarrow> j < i" for i j
  proof (cases "cal_interval c = Timeframe1M")
    case True
    have "month_first_day j < month_first_day i \<longleftrightarrow> j < i"
      using month_first_day_mono [of "j + 1" i] month_first_day_less [of j]
        month_first_day_mono [of i j] by linarith
    with True show ?thesis by (simp add: slot_start_def of_Unix_less)
  next
    case False
    with cal_wf_seconds [OF assms(1) False] show ?thesis
      by (simp add: slot_start_def of_Unix_less)
  qed
  show ?thesis
  proof (cases "cal_interval c = Timeframe1M")
    case True
    have "(Year (slot_start c j) - Year (slot_start c i)) * 12
        + (Month (slot_start c j) - Month (slot_start c i)) = j - i"
      by (rule month_difference [OF month_index_slot_start [OF assms(1) True, of i, unfolded month_index_def]
          month_index_slot_start [OF assms(1) True, of j, unfolded month_index_def]])
    with True show ?thesis
      by (simp add: CountSlots_def ValidateBoundary_start assms less)
  next
    case False
    note secs = cal_wf_seconds [OF assms(1) False]
    have "(Unix (slot_start c j) - Unix (slot_start c i)) sdiv seconds (cal_interval c) = j - i"
      if "i \<le> j"
    proof -
      have "Unix (slot_start c j) - Unix (slot_start c i) = (j - i) * seconds (cal_interval c)"
        using False by (simp add: Unix_slot_start algebra_simps)
      with that secs show ?thesis by (simp add: sdiv_nonneg)
    qed
    with False show ?thesis
      by (simp add: CountSlots_def ValidateBoundary_start assms less)
  qed
qed

interpretation cal: slot_calendar cal_wf slot_start slot_index in_years Floor Shift CountSlots
  ValidateBoundary
proof unfold_locales
  fix c t a b e k n i j limit
  show "in_years a \<Longrightarrow> in_years b \<Longrightarrow> a \<le> t \<Longrightarrow> t \<le> b \<Longrightarrow> in_years t"
    by (simp add: in_years_def)
  show "ValidateBoundary c t =
      (case Floor c t of Inl e \<Rightarrow> Some e
       | Inr b \<Rightarrow> if b \<noteq> t then Some (Dom ErrInvalidBoundary) else None)"
    by (rule ValidateBoundary_def)
  show "ValidateBoundary c t = Some e \<Longrightarrow> Shift c t n = Inl e"
    by (simp add: Shift_def)
  show "ValidateBoundary c a = Some e \<or> ValidateBoundary c a = None \<and> ValidateBoundary c b = Some e
      \<Longrightarrow> CountSlots c a b limit = Inl e"
    by (auto simp: CountSlots_def)
qed (fact slot_step slot_start_index slot_index_next Floor_eq Shift_start CountSlots_start)+

section \<open>Properties of the calendar\<close>

lemma NewCalendar_wf: "NewCalendar e m i = Inr c \<Longrightarrow> cal_wf c"
  by (auto simp: NewCalendar_def cal_wf_def Let_def split: if_splits)

lemma NewCalendar_interval: "NewCalendar e m i = Inr c \<Longrightarrow> cal_interval c = i"
  by (auto simp: NewCalendar_def Let_def split: if_splits)

lemma NewCalendar_anchor: "NewCalendar e m i = Inr c \<Longrightarrow> 0 \<le> cal_anchor c \<and> cal_anchor c \<le> 345600"
  by (auto simp: NewCalendar_def Let_def split: if_splits)

lemma NewCalendar_valid:
  "NewCalendar e m i = Inr c \<Longrightarrow> Timeframe_Valid i \<and> Exchange_Valid e \<and> Market_Valid m"
  by (auto simp: NewCalendar_def split: if_splits)

lemma Next_start:
  assumes "cal_wf c" and "in_years (slot_start c k)"
  shows "Next c (slot_start c k) =
    (if in_years (slot_start c (k + 1)) then Inr (slot_start c (k + 1)) else Inl (Dom ErrTimeOverflow))"
  unfolding Next_def by (rule cal.shift_start [OF assms])

lemma Next_ok:
  assumes "cal_wf c" and "Next c t = Inr t'"
  obtains k where "t = slot_start c k" and "t' = slot_start c (k + 1)" and "in_years t" and "in_years t'"
  using cal.shift_ok [OF assms(1) assms(2) [unfolded Next_def]] by metis

lemma HistoryCutoff_start:
  assumes "cal_wf c" and "HistoryCutoff c now slots = Inr cutoff"
  shows "0 < slots" and "Floor c now = Inr (slot_start c (slot_index c now))"
    and "cutoff = slot_start c (slot_index c now - slots)"
    and "in_years (slot_start c (slot_index c now))" and "in_years cutoff"
proof -
  obtain current where cur: "Floor c now = Inr current" and sh: "Shift c current (- slots) = Inr cutoff"
    and "0 < slots"
    using assms(2) by (auto simp: HistoryCutoff_def split: if_splits sum.splits)
  then show "0 < slots" by simp
  have at: "current = slot_start c (slot_index c now)"
    using cur by (auto simp: cal.floor_eq [OF assms(1)] split: if_splits)
  then show "Floor c now = Inr (slot_start c (slot_index c now))" using cur by simp
  obtain k where k: "current = slot_start c k" "cutoff = slot_start c (k + - slots)"
      "in_years current" "in_years cutoff"
    using cal.shift_ok [OF assms(1) sh] .
  with at show "cutoff = slot_start c (slot_index c now - slots)"
    "in_years (slot_start c (slot_index c now))" "in_years cutoff"
    by (simp_all add: cal.start_eq_iff [OF assms(1)])
qed

lemma HistoryCutoff_card:
  assumes wf: "cal_wf c" and "HistoryCutoff c now slots = Inr cutoff"
  shows "card {t. cutoff \<le> t \<and> t \<le> now \<and> (\<exists>k. t = slot_start c k)} = nat (slots + 1)"
proof -
  let ?k = "slot_index c now"
  have "slot_start c j \<le> now \<longleftrightarrow> slot_start c j < slot_start c (?k + 1)" for j
    using cal.index_le [OF wf, of j now] by (simp add: cal.start_less_iff [OF wf])
  then have "{t. cutoff \<le> t \<and> t \<le> now \<and> (\<exists>j. t = slot_start c j)}
      = {t. slot_start c (?k - slots) \<le> t \<and> t < slot_start c (?k + 1) \<and> (\<exists>j. t = slot_start c j)}"
    using HistoryCutoff_start(3) [OF assms] by auto
  then show ?thesis
    using cal.card_boundaries_between [OF wf, of "?k - slots" "?k + 1"] by (simp add: algebra_simps)
qed

lemma finite_slots_between: "finite {t. a \<le> t \<and> t \<le> b \<and> (\<exists>k. t = slot_start c k)}"
  by (rule finite_subset [of _ "{a..b}"]) auto

lemma in_years_zero: "in_years zero_time"
  by (simp add: in_years_def zero_time_def minSeconds_def maxSeconds_def)

text \<open>
  C15. \<open>Floor\<close> of a calendar made by \<open>NewCalendar\<close> returns the latest slot boundary at or
  before the given instant: the result is itself a valid boundary, it is not after the
  instant, the next boundary is, and no other boundary at or before the instant is later.
\<close>

theorem Floor_latest_boundary:
  assumes "NewCalendar e m i = Inr c" and "Floor c t = Inr b"
  shows "ValidateBoundary c b = None \<and> b \<le> t \<and> (\<exists>k. b = slot_start c k \<and> t < slot_start c (k + 1))
    \<and> (\<forall>k. slot_start c k \<le> t \<longrightarrow> slot_start c k \<le> b)"
proof -
  have wf: "cal_wf c" using assms(1) by (rule NewCalendar_wf)
  have b: "b = slot_start c (slot_index c t)" "in_years b"
    using assms(2) by (auto simp: cal.floor_eq [OF wf] split: if_splits)
  have "slot_start c k \<le> b" if "slot_start c k \<le> t" for k
    using that by (simp add: b cal.start_le_iff [OF wf] cal.index_le [OF wf])
  with b cal.start_index [OF wf] cal.index_next [OF wf] cal.validate_start [OF wf]
  show ?thesis by metis
qed

theorem Floor_latest_boundary_witness:
  "\<exists>c b. NewCalendar ''binance'' ''spot'' ''3d'' = Inr c \<and> Floor c (of_Unix 1700000000) = Inr b
    \<and> b = of_Unix 1699920000 \<and> ValidateBoundary c b = None \<and> b \<le> of_Unix 1700000000"
proof -
  let ?c = "\<lparr>cal_interval = ''3d'', cal_anchor = 86400\<rparr>"
  have c: "NewCalendar ''binance'' ''spot'' ''3d'' = Inr ?c" by code_simp
  have b: "Floor ?c (of_Unix 1700000000) = Inr (of_Unix 1699920000)" by code_simp
  from Floor_latest_boundary [OF c b] c b show ?thesis by blast
qed

text \<open>
  \<open>Shift\<close> moves a boundary by a signed number of slots exactly: from the \<open>k\<close>-th boundary
  it reaches the \<open>(k + n)\<close>-th one whenever that lies in the supported years, reports a time
  overflow otherwise, and refuses every instant that is not a boundary.
\<close>

theorem Shift_refines_numbering:
  assumes "NewCalendar e m i = Inr c"
  shows "Shift c t n =
    (case ValidateBoundary c t of
       Some err \<Rightarrow> Inl err
     | None \<Rightarrow> if in_years (slot_start c (slot_index c t + n))
         then Inr (slot_start c (slot_index c t + n)) else Inl (Dom ErrTimeOverflow))"
proof (cases "ValidateBoundary c t")
  case None
  have wf: "cal_wf c" using assms by (rule NewCalendar_wf)
  then have t: "slot_start c (slot_index c t) = t" "in_years t"
    using None by (simp_all add: cal.validate_None)
  with cal.shift_start [OF wf, of "slot_index c t" n] None show ?thesis by simp
next
  case (Some err)
  then show ?thesis by (simp add: Shift_def)
qed

theorem Shift_refines_numbering_witness:
  "\<exists>c. NewCalendar ''bybit'' ''linear'' ''1M'' = Inr c
    \<and> Shift c (of_Unix 1709251200) 11 = Inr (slot_start c (slot_index c (of_Unix 1709251200) + 11))
    \<and> slot_start c (slot_index c (of_Unix 1709251200) + 11) = of_Unix 1738368000"
proof -
  let ?c = "\<lparr>cal_interval = ''1M'', cal_anchor = 0\<rparr>"
  have c: "NewCalendar ''bybit'' ''linear'' ''1M'' = Inr ?c" by code_simp
  have v: "ValidateBoundary ?c (of_Unix 1709251200) = None" by code_simp
  have s: "slot_start ?c (slot_index ?c (of_Unix 1709251200) + 11) = of_Unix 1738368000" by code_simp
  have y: "in_years (of_Unix 1738368000)" by code_simp
  from Shift_refines_numbering [OF c, of "of_Unix 1709251200" 11] v s y c show ?thesis by auto
qed

text \<open>
  C16. \<open>CountSlots\<close> and \<open>Shift\<close> are inverse: a successful count is within \<open>[0, limit]\<close>, is
  the number of boundaries in the half-open range, shifting the start by it reaches the end,
  and shifting the end back by it reaches the start.
\<close>

theorem CountSlots_Shift_inverse:
  assumes "NewCalendar e m i = Inr c" and "CountSlots c a b limit = Inr n"
  shows "0 \<le> n \<and> n \<le> limit \<and> Shift c a n = Inr b \<and> Shift c b (- n) = Inr a
    \<and> card {t. a \<le> t \<and> t < b \<and> (\<exists>k. t = slot_start c k)} = nat n"
proof -
  have wf: "cal_wf c" using assms(1) by (rule NewCalendar_wf)
  note ok = cal.count_ok [OF wf assms(2)]
  then obtain k where "a = slot_start c k" "b = slot_start c (k + n)" by blast
  with cal.card_boundaries_between [OF wf, of k "k + n"] ok(1,2,3) cal.shift_round_trip [OF wf ok(3)]
  show ?thesis by simp
qed

theorem CountSlots_Shift_inverse_witness:
  "\<exists>c. NewCalendar ''binance'' ''linear'' ''1w'' = Inr c
    \<and> CountSlots c (of_Unix 1704067200) (of_Unix 1706486400) 10 = Inr 4
    \<and> Shift c (of_Unix 1706486400) (- 4) = Inr (of_Unix 1704067200)"
proof -
  let ?c = "\<lparr>cal_interval = ''1w'', cal_anchor = 345600\<rparr>"
  have c: "NewCalendar ''binance'' ''linear'' ''1w'' = Inr ?c" by code_simp
  have n: "CountSlots ?c (of_Unix 1704067200) (of_Unix 1706486400) 10 = Inr 4" by code_simp
  from CountSlots_Shift_inverse [OF c n] c n show ?thesis by auto
qed

text \<open>
  \<open>HistoryCutoff\<close> keeps exactly the requested history: there are \<open>slots\<close> slot
  boundaries from the cutoff up to (and not including) the current slot's, so the current
  slot and \<open>slots\<close> earlier ones are retained.
\<close>

theorem HistoryCutoff_retains_slots:
  assumes "NewCalendar e m i = Inr c" and "HistoryCutoff c now slots = Inr cutoff"
  shows "0 < slots \<and> (\<exists>current. Floor c now = Inr current \<and> current \<le> now
    \<and> CountSlots c cutoff current slots = Inr slots
    \<and> card {t. cutoff \<le> t \<and> t \<le> now \<and> (\<exists>k. t = slot_start c k)} = nat (slots + 1))"
proof -
  have wf: "cal_wf c" using assms(1) by (rule NewCalendar_wf)
  note h = HistoryCutoff_start [OF wf assms(2)]
  have "CountSlots c cutoff (slot_start c (slot_index c now)) slots = Inr slots"
    using cal.count_start [OF wf, of "slot_index c now - slots" "slot_index c now" slots] h by simp
  with h HistoryCutoff_card [OF wf assms(2)] cal.start_index [OF wf, of now] show ?thesis by blast
qed

theorem HistoryCutoff_retains_slots_witness:
  "\<exists>c. NewCalendar ''bybit'' ''spot'' ''15m'' = Inr c
    \<and> HistoryCutoff c (of_Unix 1700000123) 3 = Inr (of_Unix 1699997400)
    \<and> card {t. of_Unix 1699997400 \<le> t \<and> t \<le> of_Unix 1700000123 \<and> (\<exists>k. t = slot_start c k)} = 4"
proof -
  let ?c = "\<lparr>cal_interval = ''15m'', cal_anchor = 0\<rparr>"
  have c: "NewCalendar ''bybit'' ''spot'' ''15m'' = Inr ?c" by code_simp
  have h: "HistoryCutoff ?c (of_Unix 1700000123) 3 = Inr (of_Unix 1699997400)" by code_simp
  from HistoryCutoff_retains_slots [OF c h] c h show ?thesis by auto
qed

text \<open>
  \<open>Shift\<close> on a fixed interval never leaves the 64-bit range: for every 64-bit slot count
  the differences of the guards fit, and once the guards pass so do the product and the sum
  that the code computes (which are exactly those of the result).
\<close>

theorem Shift_int64_safe:
  assumes "NewCalendar e m i = Inr c" and "i \<noteq> Timeframe1M" and "ValidateBoundary c b = None"
  shows "min_int64 \<le> minSeconds - Unix b \<and> maxSeconds - Unix b \<le> max_int64
    \<and> (\<forall>n r. Shift c b n = Inr r \<longrightarrow>
         min_int64 \<le> n * seconds i \<and> n * seconds i \<le> max_int64
       \<and> min_int64 \<le> Unix b + n * seconds i \<and> Unix b + n * seconds i \<le> max_int64
       \<and> Unix r = Unix b + n * seconds i)"
proof -
  have wf: "cal_wf c" and iv: "cal_interval c = i"
    using assms(1) by (auto dest: NewCalendar_wf NewCalendar_interval)
  have b: "in_years b" using assms(3) by (simp add: cal.validate_None [OF wf])
  have "min_int64 \<le> n * seconds i \<and> n * seconds i \<le> max_int64
       \<and> min_int64 \<le> Unix b + n * seconds i \<and> Unix b + n * seconds i \<le> max_int64
       \<and> Unix r = Unix b + n * seconds i" if sh: "Shift c b n = Inr r" for n r
  proof -
    have "Unix r = Unix b + n * seconds i"
      using sh assms(2,3) iv by (auto simp: Shift_def Let_def split: if_splits)
    moreover have "in_years r" using cal.shift_ok [OF wf sh] by blast
    ultimately show ?thesis
      using b by (auto simp: in_years_Unix minSeconds_def maxSeconds_def)
  qed
  with b show ?thesis by (auto simp: in_years_Unix minSeconds_def maxSeconds_def)
qed

theorem Shift_int64_safe_witness:
  "\<exists>c. NewCalendar ''binance'' ''spot'' ''1s'' = Inr c \<and> ValidateBoundary c (of_Unix 0) = None
    \<and> Shift c (of_Unix 0) 253402300799 = Inr (of_Unix 253402300799)
    \<and> 253402300799 * seconds ''1s'' \<le> max_int64"
proof -
  let ?c = "\<lparr>cal_interval = ''1s'', cal_anchor = 0\<rparr>"
  have c: "NewCalendar ''binance'' ''spot'' ''1s'' = Inr ?c" by code_simp
  have n: "''1s'' \<noteq> Timeframe1M" by code_simp
  have v: "ValidateBoundary ?c (of_Unix 0) = None" by code_simp
  have s: "Shift ?c (of_Unix 0) 253402300799 = Inr (of_Unix 253402300799)" by code_simp
  from Shift_int64_safe [OF c n v] c v s show ?thesis by blast
qed

end
