(* ===== verification/Kline_Store.thy ===== *)
theory Kline_Store
  imports Snapshot_Store Timeframes
begin

text \<open>
  The candle contracts of \<open>src/internal/application/kline/contracts.go\<close> and the in-memory candle
  repository of \<open>src/internal/infrastructure/storage/memory/kline.go\<close>.

  The repository is a map from series to a map from open times to stored rows, together with the
  retention watermarks. The clock field of the Go struct is read once per \<open>UpsertMany\<close>; here the
  value read is the argument \<open>now\<close>. Instants are compared by value, so \<open>UTC()\<close> is the identity.
  Go iterates maps in an unspecified order; the loops below follow the order of the association
  list, and the theorems describe results by key, where the order does not show.
\<close>

section \<open>Contracts\<close>

record Series =
  se_Scope :: Scope
  se_Symbol :: string
  se_Interval :: Timeframe

record Query =
  q_Series :: Series
  q_From :: time
  q_To :: time

record Request =
  rq_Query :: Query
  rq_Limit :: int

record 'd Stored =
  st_Candle :: "'d Kline"
  st_RequestStartedAt :: time

section \<open>Definitions\<close>

type_synonym candleScope = "Scope \<times> Timeframe"

record 'd storedCandle =
  sc_CloseTime :: time
  sc_FetchedAt :: time
  sc_RequestStartedAt :: time
  sc_Open :: 'd
  sc_High :: 'd
  sc_Low :: 'd
  sc_Close :: 'd
  sc_Volume :: 'd
  sc_Turnover :: 'd
  sc_TradesCount :: "int option"

definition candle :: "('d \<Rightarrow> 'd) \<Rightarrow> 'd storedCandle \<Rightarrow> Series \<Rightarrow> time \<Rightarrow> 'd Kline" where
  "candle cp row series open = copyKline cp \<lparr>
     k_Exchange = sc_Exchange (se_Scope series), k_Market = sc_Market (se_Scope series),
     k_Symbol = se_Symbol series, k_Interval = se_Interval series,
     k_OpenTime = open, k_CloseTime = sc_CloseTime row,
     k_Open = sc_Open row, k_High = sc_High row, k_Low = sc_Low row, k_Close = sc_Close row,
     k_Volume = sc_Volume row, k_Turnover = sc_Turnover row,
     k_TradesCount = sc_TradesCount row, k_FetchedAt = sc_FetchedAt row\<rparr>"

record 'd klineRepository =
  kr_series :: "(Series, (time, 'd storedCandle) gomap) gomap"
  kr_cutoffs :: "(candleScope, time) gomap"
  kr_historyCandles :: int

text \<open>\<open>has_clock\<close> is \<open>now != nil\<close>.\<close>

definition NewKlineRepository :: "int \<Rightarrow> bool \<Rightarrow> 'd klineRepository result" where
  "NewKlineRepository historyCandles has_clock =
     (if historyCandles \<le> 0 \<or> \<not> has_clock
      then Inl (Wrapped ''positive history size and clock are required'' [App ErrInvalidParameter])
      else Inr \<lparr>kr_series = [], kr_cutoffs = [], kr_historyCandles = historyCandles\<rparr>)"

definition seriesCalendar :: "Series \<Rightarrow> Calendar result" where
  "seriesCalendar series =
     (case validateScope (se_Scope series) of
        Some e \<Rightarrow> Inl e
      | None \<Rightarrow>
          if se_Symbol series = '''' then Inl (App ErrInvalidFilter)
          else (case NewCalendar (sc_Exchange (se_Scope series)) (sc_Market (se_Scope series)) (se_Interval series) of
                  Inl e \<Rightarrow> Inl (Wrapped ''series calendar'' [App ErrInvalidInterval, e])
                | Inr calendar \<Rightarrow> Inr calendar))"

definition GetRange :: "('d \<Rightarrow> 'd) \<Rightarrow> ctx \<Rightarrow> 'd klineRepository \<Rightarrow> Query \<Rightarrow> 'd Stored list result" where
  "GetRange cp ctx r query =
     (case ctx 0 of
        Some e \<Rightarrow> Inl e
      | None \<Rightarrow>
        (case seriesCalendar (q_Series query) of
           Inl e \<Rightarrow> Inl e
         | Inr calendar \<Rightarrow>
             if q_From query > q_To query then Inl (App ErrInvalidRange)
             else (case ValidateBoundary calendar (q_From query) of
                Some e \<Rightarrow> Inl (Wrapped ''range start'' [App ErrInvalidRange, e])
              | None \<Rightarrow>
                (case ValidateBoundary calendar (q_To query) of
                   Some e \<Rightarrow> Inl (Wrapped ''range end'' [App ErrInvalidRange, e])
                 | None \<Rightarrow>
                   (case ctx 1 of
                      Some e \<Rightarrow> Inl e
                    | None \<Rightarrow>
                      (let rows = gget [] (kr_series r) (q_Series query)
                       in (case first_error (map ctx [2..<2 + length rows]) of
                             Some e \<Rightarrow> Inl e
                           | None \<Rightarrow> Inr (sort_key (\<lambda>x. k_OpenTime (st_Candle x))
                               (map (\<lambda>(open, row). \<lparr>st_Candle = candle cp row (q_Series query) open,
                                       st_RequestStartedAt = sc_RequestStartedAt row\<rparr>)
                                 (filter (\<lambda>(open, row). \<not> open < q_From query \<and> open < q_To query) rows))))))))))"

definition replacesCandle :: "'d storedCandle \<Rightarrow> 'd storedCandle \<Rightarrow> bool" where
  "replacesCandle stored incoming =
     (if \<not> sc_RequestStartedAt stored < sc_CloseTime stored then False
      else if \<not> sc_RequestStartedAt incoming < sc_CloseTime incoming then True
      else sc_RequestStartedAt incoming > sc_RequestStartedAt stored
        \<or> (sc_RequestStartedAt incoming = sc_RequestStartedAt stored
           \<and> sc_FetchedAt incoming > sc_FetchedAt stored))"

definition prune :: "Series \<Rightarrow> time \<Rightarrow> 'd klineRepository \<Rightarrow> 'd klineRepository" where
  "prune series cutoff r =
     (let kept = filter (\<lambda>(open, row). \<not> open < cutoff) (gget [] (kr_series r) series)
      in r\<lparr>kr_series := (if kept = [] then AList.delete series (kr_series r)
                          else AList.update series kept (kr_series r))\<rparr>)"

definition row_series :: "'d Stored \<Rightarrow> Series" where
  "row_series row = \<lparr>
     se_Scope = \<lparr>sc_Exchange = k_Exchange (st_Candle row), sc_Market = k_Market (st_Candle row)\<rparr>,
     se_Symbol = k_Symbol (st_Candle row), se_Interval = k_Interval (st_Candle row)\<rparr>"

definition row_stored :: "('d \<Rightarrow> 'd) \<Rightarrow> 'd Stored \<Rightarrow> 'd storedCandle" where
  "row_stored cp row = (let c = copyKline cp (st_Candle row) in \<lparr>
     sc_CloseTime = k_CloseTime c, sc_FetchedAt = k_FetchedAt c,
     sc_RequestStartedAt = st_RequestStartedAt row,
     sc_Open = k_Open c, sc_High = k_High c, sc_Low = k_Low c, sc_Close = k_Close c,
     sc_Volume = k_Volume c, sc_Turnover = k_Turnover c, sc_TradesCount = k_TradesCount c\<rparr>)"

definition upstream_error :: "string \<Rightarrow> error" where
  "upstream_error msg = Wrapped msg [App ErrInvalidUpstreamData]"

text \<open>
  The staging loop of \<open>UpsertMany\<close>: \<open>k\<close> counts the context polls, \<open>pending\<close> and \<open>cutoffs\<close> are
  the local maps. No state of the repository is touched.
\<close>

fun stage_candles :: "('d \<Rightarrow> 'd) \<Rightarrow> ctx \<Rightarrow> nat \<Rightarrow> time \<Rightarrow> int \<Rightarrow> 'd Stored list
    \<Rightarrow> (Series, (time, 'd storedCandle) gomap) gomap \<Rightarrow> (candleScope, time) gomap
    \<Rightarrow> ((Series, (time, 'd storedCandle) gomap) gomap \<times> (candleScope, time) gomap) result" where
  "stage_candles cp ctx k now history [] pending cutoffs = Inr (pending, cutoffs)"
| "stage_candles cp ctx k now history (row # rows) pending cutoffs =
     (case ctx k of
        Some e \<Rightarrow> Inl e
      | None \<Rightarrow>
        (let series = row_series row; open = k_OpenTime (st_Candle row) in
         case seriesCalendar series of
           Inl e \<Rightarrow> Inl (Wrapped ''candle series'' [App ErrInvalidUpstreamData, e])
         | Inr calendar \<Rightarrow>
             if Next calendar open \<noteq> Inr (k_CloseTime (st_Candle row)) \<or> Unix open < 0
             then Inl (upstream_error ''invalid candle boundaries'')
             else if IsZero (st_RequestStartedAt row) \<or> IsZero (k_FetchedAt (st_Candle row))
               \<or> st_RequestStartedAt row > k_FetchedAt (st_Candle row)
             then Inl (upstream_error ''invalid candle request timestamps'')
             else if open > now then Inl (upstream_error ''future candle slot'')
             else
               (let scope = (se_Scope series, se_Interval series) in
                case (if ghas cutoffs scope then Inr cutoffs
                      else case HistoryCutoff calendar now history of
                             Inl e \<Rightarrow> Inl (Wrapped ''history cutoff'' [e])
                           | Inr cutoff \<Rightarrow> Inr (AList.update scope cutoff cutoffs)) of
                  Inl e \<Rightarrow> Inl e
                | Inr cutoffs' \<Rightarrow>
                    if ghas (gget [] pending series) open
                    then Inl (upstream_error ''duplicate candle key'')
                    else stage_candles cp ctx (k + 1) now history rows
                           (AList.update series
                             (AList.update open (row_stored cp row) (gget [] pending series)) pending)
                           cutoffs')))"

text \<open>\<open>for scope, cutoff := range cutoffs\<close>: watermarks only rise.\<close>

definition raise_cutoff :: "candleScope \<times> time \<Rightarrow> (candleScope, time) gomap \<Rightarrow> (candleScope, time) gomap" where
  "raise_cutoff sc applied =
     (case map_of applied (fst sc) of
        None \<Rightarrow> AList.update (fst sc) (snd sc) applied
      | Some a \<Rightarrow> if snd sc > a then AList.update (fst sc) (snd sc) applied else applied)"

definition merge_row :: "Series \<Rightarrow> time \<Rightarrow> time \<times> 'd storedCandle \<Rightarrow> 'd klineRepository \<Rightarrow> 'd klineRepository" where
  "merge_row series cutoff kv r =
     (let (open, row) = kv; rows = gget [] (kr_series r) series in
      if open < cutoff then r
      else (case map_of rows open of
              Some stored \<Rightarrow>
                if \<not> replacesCandle stored row then r
                else r\<lparr>kr_series := AList.update series (AList.update open row rows) (kr_series r)\<rparr>
            | None \<Rightarrow> r\<lparr>kr_series := AList.update series (AList.update open row rows) (kr_series r)\<rparr>))"

definition merge_series :: "Series \<times> (time, 'd storedCandle) gomap \<Rightarrow> 'd klineRepository \<Rightarrow> 'd klineRepository" where
  "merge_series si r =
     (let (series, incoming) = si;
          cutoff = gget zero_time (kr_cutoffs r) (se_Scope series, se_Interval series)
      in fold (merge_row series cutoff) incoming (prune series cutoff r))"

definition UpsertMany :: "('d \<Rightarrow> 'd) \<Rightarrow> ctx \<Rightarrow> time \<Rightarrow> 'd klineRepository \<Rightarrow> 'd Stored list
    \<Rightarrow> 'd klineRepository \<times> error option" where
  "UpsertMany cp ctx now r rows =
     (case ctx 0 of
        Some e \<Rightarrow> (r, Some e)
      | None \<Rightarrow>
          if rows = [] then (r, None)
          else (case stage_candles cp ctx 1 now (kr_historyCandles r) rows [] [] of
             Inl e \<Rightarrow> (r, Some e)
           | Inr (pending, cutoffs) \<Rightarrow>
             (case ctx (1 + length rows) of
                Some e \<Rightarrow> (r, Some e)
              | None \<Rightarrow>
                  (fold merge_series pending
                    (r\<lparr>kr_cutoffs := fold raise_cutoff cutoffs (kr_cutoffs r)\<rparr>), None))))"

text \<open>
  The loop of \<open>DeleteBefore\<close> runs under the write lock and polls the context before every series,
  so it may stop half way: the watermark and the series pruned so far stay.
\<close>

fun delete_loop :: "ctx \<Rightarrow> nat \<Rightarrow> candleScope \<Rightarrow> time \<Rightarrow> Series list \<Rightarrow> 'd klineRepository
    \<Rightarrow> 'd klineRepository \<times> error option" where
  "delete_loop ctx k key before [] r = (r, None)"
| "delete_loop ctx k key before (series # ss) r =
     (case ctx k of
        Some e \<Rightarrow> (r, Some e)
      | None \<Rightarrow> delete_loop ctx (k + 1) key before ss
          (if se_Scope series = fst key \<and> se_Interval series = snd key
           then prune series before r else r))"

definition DeleteBefore :: "ctx \<Rightarrow> 'd klineRepository \<Rightarrow> Scope \<Rightarrow> Timeframe \<Rightarrow> time
    \<Rightarrow> 'd klineRepository \<times> error option" where
  "DeleteBefore ctx r scope interval before =
     (case ctx 0 of
        Some e \<Rightarrow> (r, Some e)
      | None \<Rightarrow>
        (case validateScope scope of
           Some e \<Rightarrow> (r, Some e)
         | None \<Rightarrow>
           (case NewCalendar (sc_Exchange scope) (sc_Market scope) interval of
              Inl e \<Rightarrow> (r, Some (Wrapped ''cleanup calendar'' [App ErrInvalidInterval, e]))
            | Inr calendar \<Rightarrow>
              (case ValidateBoundary calendar before of
                 Some e \<Rightarrow> (r, Some (Wrapped ''cleanup cutoff'' [App ErrInvalidRange, e]))
               | None \<Rightarrow>
                 (case ctx 1 of
                    Some e \<Rightarrow> (r, Some e)
                  | None \<Rightarrow>
                    (let key = (scope, interval);
                         before' = (case map_of (kr_cutoffs r) key of
                            Some applied \<Rightarrow> if applied > before then applied else before
                          | None \<Rightarrow> before)
                     in delete_loop ctx 2 key before' (map fst (kr_series r))
                          (r\<lparr>kr_cutoffs := AList.update key before' (kr_cutoffs r)\<rparr>)))))))"

definition CandleCounts :: "ctx \<Rightarrow> 'd klineRepository \<Rightarrow> (Scope, nat) gomap result" where
  "CandleCounts ctx r =
     (case ctx 0 of
        Some e \<Rightarrow> Inl e
      | None \<Rightarrow>
        (case first_error (map ctx [1..<1 + length (kr_series r)]) of
           Some e \<Rightarrow> Inl e
         | None \<Rightarrow> Inr (fold (\<lambda>(series, rows) counts.
             AList.update (se_Scope series) (gget 0 counts (se_Scope series) + length rows) counts)
             (kr_series r) [])))"


section \<open>The abstract view\<close>

text \<open>
  A repository is seen as a partial function from series and open time to stored rows, with a
  watermark for some candle scopes.
\<close>

definition candle_at :: "'d klineRepository \<Rightarrow> Series \<Rightarrow> time \<Rightarrow> 'd storedCandle option" where
  "candle_at r series open = map_of (gget [] (kr_series r) series) open"

abbreviation series_scope :: "Series \<Rightarrow> candleScope" where
  "series_scope series \<equiv> (se_Scope series, se_Interval series)"

definition kr_wf :: "'d klineRepository \<Rightarrow> bool" where
  "kr_wf r \<longleftrightarrow> gwf (kr_series r) \<and> gwf (kr_cutoffs r) \<and>
     (\<forall>(series, rows) \<in> set (kr_series r). gwf rows \<and> rows \<noteq> [])"

definition final :: "'d storedCandle \<Rightarrow> bool" where
  "final row \<longleftrightarrow> sc_CloseTime row \<le> sc_RequestStartedAt row"

text \<open>
  The strength of the evidence for a row. Any final row is as good as any other; among
  intermediate rows the later request wins, then the later receipt.
\<close>

definition evidence :: "'d storedCandle \<Rightarrow> nat \<times> int \<times> int" where
  "evidence row = (if final row then (1, 0, 0) else (0, sc_RequestStartedAt row, sc_FetchedAt row))"

lemma replacesCandle_evidence: "replacesCandle stored incoming \<longleftrightarrow> evidence stored < evidence incoming"
  by (auto simp: replacesCandle_def evidence_def final_def less_prod_simp)

fun absorb :: "'d storedCandle option \<Rightarrow> 'd storedCandle option \<Rightarrow> 'd storedCandle option" where
  "absorb stored None = stored"
| "absorb None (Some row) = Some row"
| "absorb (Some stored) (Some row) = Some (if replacesCandle stored row then row else stored)"

section \<open>Facts about single steps\<close>

lemma kr_wf_rows: "kr_wf r \<Longrightarrow> gwf (gget [] (kr_series r) series)"
  by (cases "map_of (kr_series r) series") (auto simp: gget_def kr_wf_def dest!: map_of_SomeD)

lemma kr_wf_has: "kr_wf r \<Longrightarrow> ghas (kr_series r) series \<longleftrightarrow> (\<exists>open. candle_at r series open \<noteq> None)"
proof -
  assume wf: "kr_wf r"
  show ?thesis
  proof (cases "map_of (kr_series r) series")
    case None
    then show ?thesis by (simp add: ghas_def candle_at_def gget_def)
  next
    case (Some rows)
    with wf have "rows \<noteq> []" by (auto simp: kr_wf_def dest!: map_of_SomeD)
    then obtain k v rest where "rows = (k, v) # rest" by (cases rows) auto
    with Some show ?thesis by (auto simp: ghas_def candle_at_def gget_def intro: exI [of _ k])
  qed
qed

lemma candle_at_prune [simp]:
  "kr_wf r \<Longrightarrow> candle_at (prune series cutoff r) s t =
     (if s = series \<and> t < cutoff then None else candle_at r s t)"
proof -
  assume "kr_wf r"
  then have wf: "gwf (gget [] (kr_series r) series)" by (rule kr_wf_rows)
  let ?kept = "filter (\<lambda>(open, row). \<not> open < cutoff) (gget [] (kr_series r) series)"
  have kept: "map_of ?kept t = (if t < cutoff then None else candle_at r series t)" for t
    using map_of_filter_fst [OF wf, of "\<lambda>k. \<not> k < cutoff" t] by (simp add: candle_at_def)
  show ?thesis
  proof (cases "?kept = []")
    case True
    with kept [of t] show ?thesis
      by (auto simp: prune_def candle_at_def gget_def split: if_splits)
  next
    case False
    with kept [of t] show ?thesis
      by (simp add: prune_def Let_def) (auto simp: candle_at_def)
  qed
qed

lemma prune_cutoffs [simp]:
  "kr_cutoffs (prune series cutoff r) = kr_cutoffs r"
  "kr_historyCandles (prune series cutoff r) = kr_historyCandles r"
  by (simp_all add: prune_def Let_def)

lemma set_delete_cases: "p \<in> set (AList.delete k m) \<Longrightarrow> p \<in> set m"
  by (simp add: AList.delete_eq)

lemma kr_wf_prune [simp]: "kr_wf r \<Longrightarrow> kr_wf (prune series cutoff r)"
  using kr_wf_rows [of r series]
  by (auto simp: kr_wf_def prune_def Let_def dest!: set_update_cases set_delete_cases)

lemma candle_at_merge_row [simp]:
  "candle_at (merge_row series cutoff (t0, row) r) s t =
     (if s = series \<and> t = t0 \<and> \<not> t0 < cutoff then absorb (candle_at r s t) (Some row)
      else candle_at r s t)"
  by (cases "candle_at r series t0") (auto simp: merge_row_def candle_at_def Let_def split: option.splits)

lemma merge_row_cutoffs [simp]:
  "kr_cutoffs (merge_row series cutoff kv r) = kr_cutoffs r"
  "kr_historyCandles (merge_row series cutoff kv r) = kr_historyCandles r"
  by (auto simp: merge_row_def Let_def split: prod.splits option.splits)

lemma update_not_Nil [simp]: "AList.update k v m \<noteq> []"
  by (cases m) auto

lemma kr_wf_merge_row [simp]: "kr_wf r \<Longrightarrow> kr_wf (merge_row series cutoff kv r)"
  using kr_wf_rows [of r series]
  by (auto simp: kr_wf_def merge_row_def Let_def split: prod.splits option.splits dest!: set_update_cases)

lemma fold_merge_row_cutoffs [simp]:
  "kr_cutoffs (fold (merge_row series cutoff) incoming r) = kr_cutoffs r"
  "kr_historyCandles (fold (merge_row series cutoff) incoming r) = kr_historyCandles r"
  by (induction incoming arbitrary: r) simp_all

lemma kr_wf_fold_merge_row [simp]: "kr_wf r \<Longrightarrow> kr_wf (fold (merge_row series cutoff) incoming r)"
  by (induction incoming arbitrary: r) simp_all

lemma candle_at_fold_merge_row:
  "gwf incoming \<Longrightarrow> candle_at (fold (merge_row series cutoff) incoming r) s t =
     (if s = series \<and> \<not> t < cutoff then absorb (candle_at r s t) (map_of incoming t) else candle_at r s t)"
proof (induction incoming arbitrary: r)
  case (Cons kv incoming)
  obtain k v where kv: "kv = (k, v)" by fastforce
  with Cons.prems have "map_of incoming k = None" "gwf incoming"
    by (auto simp: gwf_def map_of_eq_None_iff)
  with Cons.IH kv show ?case by auto
qed simp

lemma candle_at_merge_series:
  "kr_wf r \<Longrightarrow> gwf incoming \<Longrightarrow> candle_at (merge_series (series, incoming) r) s t =
     (if s = series then
        (if t < gget zero_time (kr_cutoffs r) (series_scope series) then None
         else absorb (candle_at r s t) (map_of incoming t))
      else candle_at r s t)"
  by (simp add: merge_series_def Let_def candle_at_fold_merge_row)

lemma merge_series_cutoffs [simp]:
  "kr_cutoffs (merge_series si r) = kr_cutoffs r"
  "kr_historyCandles (merge_series si r) = kr_historyCandles r"
  by (simp_all add: merge_series_def Let_def split: prod.splits)

lemma kr_wf_merge_series [simp]: "kr_wf r \<Longrightarrow> kr_wf (merge_series si r)"
  by (simp add: merge_series_def Let_def split: prod.splits)

lemma fold_merge_series_cutoffs [simp]:
  "kr_cutoffs (fold merge_series pending r) = kr_cutoffs r"
  "kr_historyCandles (fold merge_series pending r) = kr_historyCandles r"
  by (induction pending arbitrary: r) simp_all

lemma kr_wf_fold_merge_series [simp]: "kr_wf r \<Longrightarrow> kr_wf (fold merge_series pending r)"
  by (induction pending arbitrary: r) simp_all

lemma candle_at_fold_merge_series:
  assumes "kr_wf r" and "gwf pending" and "\<forall>(series, incoming) \<in> set pending. gwf incoming"
  shows "candle_at (fold merge_series pending r) s t =
     (case map_of pending s of
        None \<Rightarrow> candle_at r s t
      | Some incoming \<Rightarrow>
          if t < gget zero_time (kr_cutoffs r) (series_scope s) then None
          else absorb (candle_at r s t) (map_of incoming t))"
  using assms
proof (induction pending arbitrary: r)
  case (Cons kv pending)
  obtain k v where kv: "kv = (k, v)" by fastforce
  with Cons.prems have step: "map_of pending k = None" "gwf pending" "gwf v"
    "\<forall>(series, incoming) \<in> set pending. gwf incoming"
    by (auto simp: gwf_def map_of_eq_None_iff)
  have "candle_at (fold merge_series (kv # pending) r) s t =
      (case map_of pending s of
        None \<Rightarrow> candle_at (merge_series (k, v) r) s t
      | Some incoming \<Rightarrow>
          if t < gget zero_time (kr_cutoffs r) (series_scope s) then None
          else absorb (candle_at (merge_series (k, v) r) s t) (map_of incoming t))"
    using Cons.IH [of "merge_series (k, v) r"] Cons.prems(1) step kv by (simp cong: option.case_cong)
  with step Cons.prems(1) kv show ?case
    by (auto simp: candle_at_merge_series split: option.splits)
qed simp

lemma map_of_raise_cutoff:
  "map_of (raise_cutoff (k0, c) applied) k =
     (if k = k0 then Some (case map_of applied k0 of None \<Rightarrow> c | Some a \<Rightarrow> max a c) else map_of applied k)"
  by (auto simp: raise_cutoff_def max_def split: option.splits)

lemma map_of_fold_raise_cutoff:
  "gwf cs \<Longrightarrow> map_of (fold raise_cutoff cs applied) k =
     (case map_of cs k of
        None \<Rightarrow> map_of applied k
      | Some c \<Rightarrow> Some (case map_of applied k of None \<Rightarrow> c | Some a \<Rightarrow> max a c))"
proof (induction cs arbitrary: applied)
  case (Cons kv cs)
  obtain k0 c where kv: "kv = (k0, c)" by fastforce
  with Cons.prems have "map_of cs k0 = None" "gwf cs" by (auto simp: gwf_def map_of_eq_None_iff)
  with Cons.IH kv show ?case by (auto simp: map_of_raise_cutoff split: option.splits)
qed simp

lemma gwf_fold_raise_cutoff [simp]: "gwf applied \<Longrightarrow> gwf (fold raise_cutoff cs applied)"
  by (induction cs arbitrary: applied) (auto simp: raise_cutoff_def split: option.splits)


section \<open>Staging a batch\<close>

definition candle_cutoff :: "time \<Rightarrow> int \<Rightarrow> candleScope \<Rightarrow> time result" where
  "candle_cutoff now history key =
     (case NewCalendar (sc_Exchange (fst key)) (sc_Market (fst key)) (snd key) of
        Inl e \<Rightarrow> Inl e | Inr calendar \<Rightarrow> HistoryCutoff calendar now history)"

abbreviation row_open :: "'d Stored \<Rightarrow> time" where
  "row_open row \<equiv> k_OpenTime (st_Candle row)"

abbreviation row_scope :: "'d Stored \<Rightarrow> candleScope" where
  "row_scope row \<equiv> series_scope (row_series row)"

text \<open>The row checks of \<open>UpsertMany\<close>, without the duplicate check.\<close>

definition admissible :: "time \<Rightarrow> int \<Rightarrow> 'd Stored \<Rightarrow> bool" where
  "admissible now history row \<longleftrightarrow>
     (\<exists>calendar. seriesCalendar (row_series row) = Inr calendar
        \<and> Next calendar (row_open row) = Inr (k_CloseTime (st_Candle row))
        \<and> (\<exists>cutoff. HistoryCutoff calendar now history = Inr cutoff))
   \<and> 0 \<le> Unix (row_open row) \<and> \<not> IsZero (st_RequestStartedAt row)
   \<and> \<not> IsZero (k_FetchedAt (st_Candle row))
   \<and> st_RequestStartedAt row \<le> k_FetchedAt (st_Candle row) \<and> row_open row \<le> now"

definition put_pending where
  "put_pending cp row pending = AList.update (row_series row)
     (AList.update (row_open row) (row_stored cp row) (gget [] pending (row_series row))) pending"

definition put_cutoff where
  "put_cutoff now history row cutoffs =
     (if ghas cutoffs (row_scope row) then cutoffs
      else AList.update (row_scope row) (projr (candle_cutoff now history (row_scope row))) cutoffs)"

lemma seriesCalendar_Inr:
  "seriesCalendar series = Inr calendar \<longleftrightarrow>
     validateScope (se_Scope series) = None \<and> se_Symbol series \<noteq> ''''
   \<and> NewCalendar (sc_Exchange (se_Scope series)) (sc_Market (se_Scope series)) (se_Interval series) = Inr calendar"
  by (auto simp: seriesCalendar_def split: option.splits sum.splits)

lemma candle_cutoff_calendar:
  "seriesCalendar series = Inr calendar \<Longrightarrow>
     candle_cutoff now history (series_scope series) = HistoryCutoff calendar now history"
  by (auto simp: seriesCalendar_Inr candle_cutoff_def)

lemma stage_candles_step:
  assumes known: "\<forall>key \<in> fst ` set cutoffs. \<exists>c. candle_cutoff now history key = Inr c"
  shows "stage_candles cp ctx k now history (row # rows) pending cutoffs =
     (if ctx k = None \<and> admissible now history row
         \<and> \<not> ghas (gget [] pending (row_series row)) (row_open row)
      then stage_candles cp ctx (k + 1) now history rows (put_pending cp row pending)
             (put_cutoff now history row cutoffs)
      else Inl (projl (stage_candles cp ctx k now history (row # rows) pending cutoffs)))"
proof (cases "ctx k = None")
  case False
  then show ?thesis by auto
next
  case poll: True
  show ?thesis
  proof (cases "seriesCalendar (row_series row)")
    case (Inl e)
    with poll show ?thesis by (simp add: admissible_def Let_def)
  next
    case (Inr calendar)
    note key = candle_cutoff_calendar [OF Inr, of now history]
    show ?thesis
    proof (cases "HistoryCutoff calendar now history")
      case (Inl e)
      with known key have "\<not> ghas cutoffs (row_scope row)" by (auto simp: ghas_iff)
      with Inl Inr poll show ?thesis by (simp add: admissible_def Let_def)
    next
      case cutoff: (Inr cutoff)
      with Inr poll key show ?thesis
        by (auto simp: admissible_def Let_def put_pending_def put_cutoff_def not_le not_less)
    qed
  qed
qed

lemma put_cutoff_known:
  assumes "\<forall>key \<in> fst ` set cutoffs. \<exists>c. candle_cutoff now history key = Inr c" and "admissible now history row"
  shows "\<forall>key \<in> fst ` set (put_cutoff now history row cutoffs). \<exists>c. candle_cutoff now history key = Inr c"
proof -
  from assms(2) obtain calendar c where "seriesCalendar (row_series row) = Inr calendar"
    "HistoryCutoff calendar now history = Inr c" by (auto simp: admissible_def)
  then have "candle_cutoff now history (row_scope row) = Inr c" by (simp add: candle_cutoff_calendar)
  with assms(1) show ?thesis 
    by (cases "ghas cutoffs (row_scope row)") (simp_all add: put_cutoff_def dom_update)
qed

lemma put_pending_has:
  "ghas (gget [] (put_pending cp row pending) s) t \<longleftrightarrow>
     s = row_series row \<and> t = row_open row \<or> ghas (gget [] pending s) t"
  by (auto simp: put_pending_def)

lemma stage_candles_Inr:
  assumes "\<forall>key \<in> fst ` set cutoffs. \<exists>c. candle_cutoff now history key = Inr c"
  shows "stage_candles cp ctx k now history rows pending cutoffs = Inr out \<longleftrightarrow>
     (\<forall>i < length rows. ctx (k + i) = None) \<and> (\<forall>row \<in> set rows. admissible now history row)
   \<and> (\<forall>row \<in> set rows. \<not> ghas (gget [] pending (row_series row)) (row_open row))
   \<and> distinct (map (\<lambda>row. (row_series row, row_open row)) rows)
   \<and> out = (fold (put_pending cp) rows pending, fold (put_cutoff now history) rows cutoffs)"
  using assms
proof (induction rows arbitrary: k pending cutoffs)
  case Nil
  then show ?case by auto
next
  case (Cons row rows)
  have all: "(\<forall>i < length (row # rows). ctx (k + i) = None) \<longleftrightarrow>
      ctx k = None \<and> (\<forall>i < length rows. ctx (k + 1 + i) = None)"
    by (auto simp: less_Suc_eq_0_disj)
  show ?case
  proof (cases "ctx k = None \<and> admissible now history row
         \<and> \<not> ghas (gget [] pending (row_series row)) (row_open row)")
    case True
    have IH: "stage_candles cp ctx (k + 1) now history rows (put_pending cp row pending)
             (put_cutoff now history row cutoffs) = Inr out \<longleftrightarrow>
     (\<forall>i < length rows. ctx (k + 1 + i) = None) \<and> (\<forall>row \<in> set rows. admissible now history row)
   \<and> (\<forall>row' \<in> set rows. \<not> ghas (gget [] (put_pending cp row pending) (row_series row')) (row_open row'))
   \<and> distinct (map (\<lambda>row. (row_series row, row_open row)) rows)
   \<and> out = (fold (put_pending cp) rows (put_pending cp row pending),
       fold (put_cutoff now history) rows (put_cutoff now history row cutoffs))"
      by (rule Cons.IH) (rule put_cutoff_known [OF Cons.prems], simp add: True)
    have step: "stage_candles cp ctx k now history (row # rows) pending cutoffs =
        stage_candles cp ctx (k + 1) now history rows (put_pending cp row pending)
             (put_cutoff now history row cutoffs)"
      using stage_candles_step [OF Cons.prems, of cp ctx k row rows pending] True by argo
    show ?thesis unfolding all step IH put_pending_has using True by (auto simp: image_iff)
  next
    case False
    then have "stage_candles cp ctx k now history (row # rows) pending cutoffs \<noteq> Inr out"
      using stage_candles_step [OF Cons.prems, of cp ctx k row rows pending] by (metis sum.distinct(1))
    with False show ?thesis unfolding all by auto
  qed
qed


definition batch :: "('d \<Rightarrow> 'd) \<Rightarrow> 'd Stored list \<Rightarrow> ((Series \<times> time) \<times> 'd storedCandle) list" where
  "batch cp rows = map (\<lambda>row. ((row_series row, row_open row), row_stored cp row)) rows"

lemma map_of_fold_put_pending:
  assumes "distinct (map (\<lambda>row. (row_series row, row_open row)) rows)"
    and "\<forall>row \<in> set rows. \<not> ghas (gget [] pending (row_series row)) (row_open row)"
  shows "map_of (gget [] (fold (put_pending cp) rows pending) s) t =
     (case map_of (batch cp rows) (s, t) of Some x \<Rightarrow> Some x | None \<Rightarrow> map_of (gget [] pending s) t)"
  using assms
proof (induction rows arbitrary: pending)
  case (Cons row rows)
  have new: "\<forall>row' \<in> set rows. \<not> ghas (gget [] (put_pending cp row pending) (row_series row')) (row_open row')"
    using Cons.prems by (auto simp: put_pending_has image_iff)
  have tail: "map_of (batch cp rows) (row_series row, row_open row) = None"
    using Cons.prems(1) by (auto simp: batch_def map_of_eq_None_iff image_iff)
  have "map_of (gget [] (put_pending cp row pending) s) t =
      (if s = row_series row \<and> t = row_open row then Some (row_stored cp row)
       else map_of (gget [] pending s) t)"
    by (auto simp: put_pending_def)
  with Cons.IH [OF _ new] Cons.prems(1) tail show ?case
    by (auto simp: batch_def split: option.splits)
qed (simp add: batch_def)

lemma fold_put_pending_has:
  "ghas (fold (put_pending cp) rows pending) s \<longleftrightarrow> ghas pending s \<or> s \<in> row_series ` set rows"
  by (induction rows arbitrary: pending) (auto simp: put_pending_def)

lemma fold_put_pending_wf:
  "gwf pending \<Longrightarrow> \<forall>(series, incoming) \<in> set pending. gwf incoming \<Longrightarrow>
     gwf (fold (put_pending cp) rows pending) \<and>
     (\<forall>(series, incoming) \<in> set (fold (put_pending cp) rows pending). gwf incoming)"
proof (induction rows arbitrary: pending)
  case (Cons row rows)
  have "gwf (gget [] pending (row_series row))"
    using Cons.prems(2)
    by (cases "map_of pending (row_series row)") (auto simp: gget_def dest!: map_of_SomeD)
  with Cons.prems have "gwf (put_pending cp row pending)"
    and "\<forall>(series, incoming) \<in> set (put_pending cp row pending). gwf incoming"
    by (auto simp: put_pending_def dest!: set_update_cases)
  then show ?case using Cons.IH by simp
qed simp

lemma map_of_fold_put_cutoff:
  "map_of (fold (put_cutoff now history) rows cutoffs) key =
     (case map_of cutoffs key of
        Some c \<Rightarrow> Some c
      | None \<Rightarrow> if key \<in> row_scope ` set rows then Some (projr (candle_cutoff now history key)) else None)"
proof (induction rows arbitrary: cutoffs)
  case (Cons row rows)
  show ?case unfolding fold_Cons comp_def Cons.IH
    by (cases "map_of cutoffs key"; cases "key = row_scope row")
      (auto simp: put_cutoff_def ghas_def)
qed (simp split: option.splits)

lemma gwf_fold_put_cutoff: "gwf cutoffs \<Longrightarrow> gwf (fold (put_cutoff now history) rows cutoffs)"
  by (induction rows arbitrary: cutoffs) (auto simp: put_cutoff_def)

section \<open>The effect of a merge\<close>

lemma UpsertMany_fails:
  "snd (UpsertMany cp ctx now r rows) = Some e \<Longrightarrow> fst (UpsertMany cp ctx now r rows) = r"
  by (auto simp: UpsertMany_def split: option.splits sum.splits prod.splits if_splits)

lemma UpsertMany_accepts:
  "snd (UpsertMany cp ctx now r rows) = None \<longleftrightarrow>
     (if rows = [] then ctx 0 = None
      else (\<forall>i \<le> 1 + length rows. ctx i = None)
        \<and> (\<forall>row \<in> set rows. admissible now (kr_historyCandles r) row)
        \<and> distinct (map (\<lambda>row. (row_series row, row_open row)) rows))"
proof (cases "stage_candles cp ctx 1 now (kr_historyCandles r) rows [] []")
  case (Inl e)
  with stage_candles_Inr [of "[]" now "kr_historyCandles r" cp ctx 1 rows "[]"]
  have "\<not> ((\<forall>i < length rows. ctx (1 + i) = None) \<and> (\<forall>row \<in> set rows. admissible now (kr_historyCandles r) row)
     \<and> distinct (map (\<lambda>row. (row_series row, row_open row)) rows))" by (auto simp: gget_def)
  with Inl show ?thesis unfolding poll_range by (auto simp: UpsertMany_def split: option.splits)
next
  case (Inr out)
  with stage_candles_Inr [of "[]" now "kr_historyCandles r" cp ctx 1 rows "[]" out]
  have "(\<forall>i < length rows. ctx (1 + i) = None) \<and> (\<forall>row \<in> set rows. admissible now (kr_historyCandles r) row)
     \<and> distinct (map (\<lambda>row. (row_series row, row_open row)) rows)" by simp
  with Inr show ?thesis unfolding poll_range by (auto simp: UpsertMany_def split: option.splits prod.splits)
qed

definition raised_mark :: "time \<Rightarrow> int \<Rightarrow> candleScope \<Rightarrow> time option \<Rightarrow> time" where
  "raised_mark now history key applied =
     (let c = projr (candle_cutoff now history key)
      in case applied of None \<Rightarrow> c | Some a \<Rightarrow> max a c)"

lemma UpsertMany_effect:
  assumes wf: "kr_wf r" and ok: "snd (UpsertMany cp ctx now r rows) = None"
  defines "r' \<equiv> fst (UpsertMany cp ctx now r rows)"
  shows "kr_wf r'"
    and "kr_historyCandles r' = kr_historyCandles r"
    and "map_of (kr_cutoffs r') key =
      (if key \<in> row_scope ` set rows
       then Some (raised_mark now (kr_historyCandles r) key (map_of (kr_cutoffs r) key))
       else map_of (kr_cutoffs r) key)"
    and "candle_at r' s t =
      (if s \<in> row_series ` set rows then
         (if t < raised_mark now (kr_historyCandles r) (series_scope s) (map_of (kr_cutoffs r) (series_scope s))
          then None else absorb (candle_at r s t) (map_of (batch cp rows) (s, t)))
       else candle_at r s t)"
proof -
  let ?h = "kr_historyCandles r"
  let ?p = "fold (put_pending cp) rows []" and ?c = "fold (put_cutoff now ?h) rows []"
  let ?r1 = "r\<lparr>kr_cutoffs := fold raise_cutoff ?c (kr_cutoffs r)\<rparr>"
  have rows: "rows \<noteq> [] \<Longrightarrow> stage_candles cp ctx 1 now ?h rows [] [] = Inr (?p, ?c)"
    and keys: "distinct (map (\<lambda>row. (row_series row, row_open row)) rows)"
    using ok stage_candles_Inr [of "[]" now ?h cp ctx 1 rows "[]"]
    unfolding UpsertMany_accepts poll_range by (auto simp: gget_def split: if_splits)
  have r': "r' = fold merge_series ?p ?r1"
    using ok rows by (cases "rows = []") (auto simp: r'_def UpsertMany_def split: option.splits)
  have cuts: "map_of (fold raise_cutoff ?c (kr_cutoffs r)) key =
      (if key \<in> row_scope ` set rows then Some (raised_mark now ?h key (map_of (kr_cutoffs r) key))
       else map_of (kr_cutoffs r) key)" for key
    using map_of_fold_raise_cutoff [OF gwf_fold_put_cutoff, of "[]" now ?h rows "kr_cutoffs r" key]
    by (auto simp: map_of_fold_put_cutoff raised_mark_def Let_def split: option.splits)
  have wf1: "kr_wf ?r1" using wf by (simp add: kr_wf_def)
  have pend: "gwf ?p" "\<forall>(series, incoming) \<in> set ?p. gwf incoming"
    using fold_put_pending_wf [of "[]" cp rows] by auto
  show "kr_wf r'" "kr_historyCandles r' = kr_historyCandles r" using wf1 by (simp_all add: r')
  show "map_of (kr_cutoffs r') key =
      (if key \<in> row_scope ` set rows then Some (raised_mark now ?h key (map_of (kr_cutoffs r) key))
       else map_of (kr_cutoffs r) key)" by (simp add: r' cuts)
  have same: "candle_at ?r1 s t = candle_at r s t" by (simp add: candle_at_def)
  have mark: "gget zero_time (kr_cutoffs ?r1) (series_scope s) =
      raised_mark now ?h (series_scope s) (map_of (kr_cutoffs r) (series_scope s))" if "s \<in> row_series ` set rows"
    using that by (auto simp: gget_def cuts)
  have inc: "map_of (gget [] ?p s) t = map_of (batch cp rows) (s, t)"
    using map_of_fold_put_pending [OF keys, of "[]" cp s t] by (auto simp: gget_def split: option.splits)
  have has: "map_of ?p s = None \<longleftrightarrow> s \<notin> row_series ` set rows"
    using fold_put_pending_has [of cp rows "[]" s] by (auto simp: ghas_def)
  show "candle_at r' s t =
      (if s \<in> row_series ` set rows then
         (if t < raised_mark now ?h (series_scope s) (map_of (kr_cutoffs r) (series_scope s))
          then None else absorb (candle_at r s t) (map_of (batch cp rows) (s, t)))
       else candle_at r s t)"
    unfolding r' candle_at_fold_merge_series [OF wf1 pend] same
    using has inc mark by (cases "map_of ?p s") (simp_all add: gget_def)
qed


section \<open>The effect of a cleanup\<close>

lemma delete_loop_effect:
  assumes "kr_wf r" and "delete_loop ctx k key before ss r = (r', e)"
  shows "kr_wf r' \<and> kr_cutoffs r' = kr_cutoffs r \<and> kr_historyCandles r' = kr_historyCandles r
    \<and> (\<forall>s t. candle_at r' s t = candle_at r s t
         \<or> candle_at r' s t = None \<and> t < before \<and> series_scope s = key)
    \<and> (e = None \<longrightarrow> (\<forall>s t. candle_at r' s t =
         (if s \<in> set ss \<and> series_scope s = key \<and> t < before then None else candle_at r s t)))"
  using assms
proof (induction ss arbitrary: k r)
  case (Cons s0 ss)
  define r1 where "r1 = (if se_Scope s0 = fst key \<and> se_Interval s0 = snd key then prune s0 before r else r)"
  have at: "candle_at r1 s t = (if s = s0 \<and> series_scope s = key \<and> t < before then None else candle_at r s t)" for s t
    using Cons.prems(1) by (auto simp: r1_def)
  have keep: "kr_wf r1" "kr_cutoffs r1 = kr_cutoffs r" "kr_historyCandles r1 = kr_historyCandles r"
    using Cons.prems(1) by (simp_all add: r1_def)
  show ?case
  proof (cases "ctx k")
    case None
    with Cons.prems have "delete_loop ctx (k + 1) key before ss r1 = (r', e)" by (simp add: r1_def)
    from Cons.IH [OF keep(1) this] show ?thesis unfolding at keep(2,3) by (auto split: if_splits)
  next
    case (Some err)
    with Cons.prems show ?thesis by auto
  qed
qed auto

definition delete_mark :: "'d klineRepository \<Rightarrow> candleScope \<Rightarrow> time \<Rightarrow> time" where
  "delete_mark r key before = (case map_of (kr_cutoffs r) key of Some a \<Rightarrow> max a before | None \<Rightarrow> before)"

text \<open>
  Either nothing happened and an error is reported, or the watermark was raised; then rows are
  removed only below it, and all of them are when no error is reported.
\<close>

lemma DeleteBefore_effect:
  assumes wf: "kr_wf r" and del: "DeleteBefore ctx r scope interval before = (r', e)"
  shows "r' = r \<and> e \<noteq> None
   \<or> kr_wf r' \<and> kr_historyCandles r' = kr_historyCandles r
     \<and> (\<exists>calendar. NewCalendar (sc_Exchange scope) (sc_Market scope) interval = Inr calendar
          \<and> ValidateBoundary calendar before = None)
     \<and> (\<forall>key. map_of (kr_cutoffs r') key =
          (if key = (scope, interval) then Some (delete_mark r key before) else map_of (kr_cutoffs r) key))
     \<and> (\<forall>s t. candle_at r' s t = candle_at r s t \<or> candle_at r' s t = None
          \<and> series_scope s = (scope, interval) \<and> t < delete_mark r (scope, interval) before)
     \<and> (e = None \<longrightarrow> (\<forall>s t. candle_at r' s t =
          (if series_scope s = (scope, interval) \<and> t < delete_mark r (scope, interval) before
           then None else candle_at r s t)))"
proof (cases "ctx 0 = None \<and> validateScope scope = None \<and> ctx 1 = None \<and>
    (\<exists>calendar. NewCalendar (sc_Exchange scope) (sc_Market scope) interval = Inr calendar
          \<and> ValidateBoundary calendar before = None)")
  case False
  with del show ?thesis by (auto simp: DeleteBefore_def split: option.splits sum.splits)
next
  case True
  let ?key = "(scope, interval)"
  let ?m = "delete_mark r ?key before"
  let ?r1 = "r\<lparr>kr_cutoffs := AList.update ?key ?m (kr_cutoffs r)\<rparr>"
  have mark: "(case map_of (kr_cutoffs r) ?key of
      Some applied \<Rightarrow> if applied > before then applied else before | None \<Rightarrow> before) = ?m"
    by (auto simp: delete_mark_def split: option.splits)
  have "delete_loop ctx 2 ?key ?m (map fst (kr_series r)) ?r1 = (r', e)"
    using True del unfolding DeleteBefore_def mark [symmetric] by (auto simp: Let_def)
  moreover have "kr_wf ?r1" using wf by (simp add: kr_wf_def)
  moreover have "candle_at ?r1 s t = candle_at r s t" for s t by (simp add: candle_at_def)
  moreover have "candle_at r s t = None" if "s \<notin> set (map fst (kr_series r))" for s t
    using that by (simp add: candle_at_def gget_def map_of_eq_None_iff [THEN iffD2] split: option.splits)
  ultimately show ?thesis using delete_loop_effect [of ?r1 ctx 2 ?key ?m "map fst (kr_series r)" r' e] True
    by (intro disjI2) auto
qed

section \<open>The contract of a candle repository\<close>

text \<open>
  The promises of \<open>kline.Repository\<close> about one operation: watermarks rise, a row gives way only to
  stronger evidence, rows vanish only below the watermark and none appears there.
\<close>

locale candle_repository =
  fixes inv :: "'st \<Rightarrow> bool"
    and at :: "'st \<Rightarrow> 's \<Rightarrow> time \<Rightarrow> 'row option"
    and mark :: "'st \<Rightarrow> 's \<Rightarrow> time option"
    and strength :: "'row \<Rightarrow> 'e :: linorder"
    and step :: "'op \<Rightarrow> 'st \<Rightarrow> 'st"
  assumes step_inv: "inv st \<Longrightarrow> inv (step op st)"
    and mark_rises: "inv st \<Longrightarrow> mark st s = Some a \<Longrightarrow> \<exists>b \<ge> a. mark (step op st) s = Some b"
    and row_replaced: "inv st \<Longrightarrow> at st s t = Some row \<Longrightarrow> at (step op st) s t = Some row' \<Longrightarrow>
      row' = row \<or> strength row < strength row'"
    and row_lost: "inv st \<Longrightarrow> at st s t = Some row \<Longrightarrow> at (step op st) s t = None \<Longrightarrow>
      \<exists>m. mark (step op st) s = Some m \<and> t < m"
    and row_new: "inv st \<Longrightarrow> at st s t = None \<Longrightarrow> at (step op st) s t = Some row \<Longrightarrow>
      mark (step op st) s = Some m \<Longrightarrow> m \<le> t"
begin

lemma run_inv: "inv st \<Longrightarrow> inv (fold step ops st)"
  by (induction ops arbitrary: st) (auto simp: step_inv)

lemma run_mark:
  assumes "inv st" and "mark st s = Some a"
  shows "\<exists>b \<ge> a. mark (fold step ops st) s = Some b"
  using assms
proof (induction ops arbitrary: st a)
  case (Cons op ops)
  from mark_rises [OF Cons.prems, of op] obtain b where "a \<le> b" "mark (step op st) s = Some b" by blast
  with Cons.IH [OF step_inv [OF Cons.prems(1)], of op b] show ?case by (auto intro: order_trans)
qed auto

text \<open>A slot below the watermark that is empty stays empty: no late write resurrects it.\<close>

lemma run_no_resurrection:
  assumes "inv st" and "mark st s = Some m" and "t < m" and "at st s t = None"
  shows "at (fold step ops st) s t = None"
  using assms
proof (induction ops arbitrary: st m)
  case (Cons op ops)
  from mark_rises [OF Cons.prems(1,2), of op] obtain b where b: "m \<le> b" "mark (step op st) s = Some b" by blast
  have "at (step op st) s t = None"
    using row_new [OF Cons.prems(1,4) _ b(2)] b Cons.prems(3) by fastforce
  with Cons.IH [OF step_inv [OF Cons.prems(1)] b(2)] b Cons.prems(3) show ?case by simp
qed simp

text \<open>A row either survives with evidence at least as strong or is lost for good below the watermark.\<close>

lemma run_row:
  assumes "inv st" and "at st s t = Some row"
  shows "case at (fold step ops st) s t of
      Some row' \<Rightarrow> row' = row \<or> strength row < strength row'
    | None \<Rightarrow> \<exists>m. mark (fold step ops st) s = Some m \<and> t < m"
  using assms
proof (induction ops arbitrary: st row)
  case (Cons op ops)
  note inv' = step_inv [OF Cons.prems(1), of op]
  show ?case
  proof (cases "at (step op st) s t")
    case None
    from row_lost [OF Cons.prems None] obtain m where m: "mark (step op st) s = Some m" "t < m" by blast
    from run_mark [OF inv' m(1), of ops] obtain b where "m \<le> b" "mark (fold step ops (step op st)) s = Some b" by blast
    with m(2) run_no_resurrection [OF inv' m None, of ops] show ?thesis by (auto intro: exI [of _ b])
  next
    case (Some row1)
    with row_replaced [OF Cons.prems Some] Cons.IH [OF inv' Some] show ?thesis
      by (auto split: option.splits)
  qed
qed auto

lemma run_strongest_fixed:
  assumes "inv st" and "at st s t = Some row" and "\<And>row'. \<not> strength row < strength row'"
  shows "at (fold step ops st) s t = Some row
    \<or> at (fold step ops st) s t = None \<and> (\<exists>m. mark (fold step ops st) s = Some m \<and> t < m)"
  using run_row [OF assms(1,2), of ops] assms(3) by (auto split: option.splits)

end

datatype 'd candle_op =
    Upsert ctx time "'d Stored list"
  | Delete ctx Scope Timeframe time

primrec candle_step :: "('d \<Rightarrow> 'd) \<Rightarrow> 'd candle_op \<Rightarrow> 'd klineRepository \<Rightarrow> 'd klineRepository" where
  "candle_step cp (Upsert ctx now rows) r = fst (UpsertMany cp ctx now r rows)"
| "candle_step cp (Delete ctx scope interval before) r = fst (DeleteBefore ctx r scope interval before)"

definition mark_of :: "'d klineRepository \<Rightarrow> Series \<Rightarrow> time option" where
  "mark_of r s = map_of (kr_cutoffs r) (series_scope s)"

lemma absorb_Some:
  "absorb old new = Some row \<Longrightarrow> old = Some row \<or> new = Some row \<and> (\<forall>st. old = Some st \<longrightarrow> evidence st < evidence row)"
  by (cases old; cases new) (auto simp: replacesCandle_evidence split: if_splits)

lemma absorb_None: "absorb old new = None \<longleftrightarrow> old = None \<and> new = None"
  by (cases old; cases new) auto


lemma upsert_cases:
  obtains (failed) "candle_step cp (Upsert ctx now rows) r = r"
  | (merged) "snd (UpsertMany cp ctx now r rows) = None"
      "candle_step cp (Upsert ctx now rows) r = fst (UpsertMany cp ctx now r rows)"
  using UpsertMany_fails by (cases "snd (UpsertMany cp ctx now r rows)") fastforce+

interpretation candles: candle_repository kr_wf candle_at mark_of evidence "candle_step cp"
  for cp :: "'d \<Rightarrow> 'd"
proof unfold_locales
  fix r :: "'d klineRepository" and op s t row row' a m
  assume wf: "kr_wf r"
  show "kr_wf (candle_step cp op r)"
  proof (cases op)
    case (Upsert ctx now rows)
    then show ?thesis using wf
      by (cases rule: upsert_cases [of cp ctx now rows r]) (simp_all add: UpsertMany_effect(1))
  next
    case (Delete ctx scope interval before)
    then show ?thesis using wf DeleteBefore_effect [OF wf surjective_pairing, of ctx scope interval before] by auto
  qed
  show "mark_of r s = Some a \<Longrightarrow> \<exists>b\<ge>a. mark_of (candle_step cp op r) s = Some b"
  proof (cases op)
    case (Upsert ctx now rows)
    assume "mark_of r s = Some a"
    then show ?thesis using wf Upsert
      by (cases rule: upsert_cases [of cp ctx now rows r])
        (auto simp: mark_of_def UpsertMany_effect(3) raised_mark_def Let_def)
  next
    case (Delete ctx scope interval before)
    assume "mark_of r s = Some a"
    then show ?thesis using wf Delete DeleteBefore_effect [OF wf surjective_pairing, of ctx scope interval before]
      by (auto simp: mark_of_def delete_mark_def)
  qed
  show "candle_at r s t = Some row \<Longrightarrow> candle_at (candle_step cp op r) s t = Some row' \<Longrightarrow>
      row' = row \<or> evidence row < evidence row'"
  proof (cases op)
    case (Upsert ctx now rows)
    assume "candle_at r s t = Some row" "candle_at (candle_step cp op r) s t = Some row'"
    then show ?thesis using wf Upsert
      by (cases rule: upsert_cases [of cp ctx now rows r])
        (auto simp: UpsertMany_effect(4) split: if_splits dest!: absorb_Some)
  next
    case (Delete ctx scope interval before)
    assume "candle_at r s t = Some row" "candle_at (candle_step cp op r) s t = Some row'"
    then show ?thesis using wf Delete DeleteBefore_effect [OF wf surjective_pairing, of ctx scope interval before]
      by (auto; metis option.distinct(1) option.inject)
  qed
  show "candle_at r s t = Some row \<Longrightarrow> candle_at (candle_step cp op r) s t = None \<Longrightarrow>
      \<exists>m. mark_of (candle_step cp op r) s = Some m \<and> t < m"
  proof (cases op)
    case (Upsert ctx now rows)
    assume "candle_at r s t = Some row" "candle_at (candle_step cp op r) s t = None"
    then show ?thesis using wf Upsert
      by (cases rule: upsert_cases [of cp ctx now rows r])
        (auto simp: UpsertMany_effect(3,4) mark_of_def absorb_None split: if_splits)
  next
    case (Delete ctx scope interval before)
    assume "candle_at r s t = Some row" "candle_at (candle_step cp op r) s t = None"
    then show ?thesis using wf Delete DeleteBefore_effect [OF wf surjective_pairing, of ctx scope interval before]
      by (auto simp: mark_of_def; metis option.distinct(1))
  qed
  show "candle_at r s t = None \<Longrightarrow> candle_at (candle_step cp op r) s t = Some row \<Longrightarrow>
      mark_of (candle_step cp op r) s = Some m \<Longrightarrow> m \<le> t"
  proof (cases op)
    case (Upsert ctx now rows)
    assume "candle_at r s t = None" "candle_at (candle_step cp op r) s t = Some row"
      "mark_of (candle_step cp op r) s = Some m"
    then show ?thesis using wf Upsert
      by (cases rule: upsert_cases [of cp ctx now rows r])
        (auto simp: UpsertMany_effect(3,4) mark_of_def split: if_splits)
  next
    case (Delete ctx scope interval before)
    assume "candle_at r s t = None" "candle_at (candle_step cp op r) s t = Some row"
    then show ?thesis using wf Delete DeleteBefore_effect [OF wf surjective_pairing, of ctx scope interval before]
      by (auto; metis option.distinct(1))
  qed
qed


section \<open>Well-formed rows\<close>

text \<open>
  What every stored row satisfies: its series is supported, it opens on a slot boundary not before
  1970 and not after \<open>horizon\<close>, closes at the next boundary and carries ordered timestamps.
\<close>

definition row_ok :: "time \<Rightarrow> Series \<Rightarrow> time \<Rightarrow> 'd storedCandle \<Rightarrow> bool" where
  "row_ok horizon series open row \<longleftrightarrow>
     (\<exists>calendar. seriesCalendar series = Inr calendar \<and> Next calendar open = Inr (sc_CloseTime row))
   \<and> 0 \<le> Unix open \<and> open \<le> horizon \<and> \<not> IsZero (sc_RequestStartedAt row)
   \<and> \<not> IsZero (sc_FetchedAt row) \<and> sc_RequestStartedAt row \<le> sc_FetchedAt row"

definition rows_ok :: "time \<Rightarrow> 'd klineRepository \<Rightarrow> bool" where
  "rows_ok horizon r \<longleftrightarrow> (\<forall>s t row. candle_at r s t = Some row \<longrightarrow> row_ok horizon s t row)"

primrec op_clock :: "time \<Rightarrow> 'd candle_op \<Rightarrow> bool" where
  "op_clock horizon (Upsert ctx now rows) \<longleftrightarrow> now \<le> horizon"
| "op_clock horizon (Delete ctx scope interval before) \<longleftrightarrow> True"

lemma batch_row_ok:
  assumes "map_of (batch cp rows) (s, t) = Some row" and "\<forall>row \<in> set rows. admissible now history row"
    and "now \<le> horizon"
  shows "row_ok horizon s t row"
proof -
  from assms(1) obtain x where x: "x \<in> set rows" "s = row_series x" "t = row_open x" "row = row_stored cp x"
    by (auto simp: batch_def dest!: map_of_SomeD)
  with assms(2,3) show ?thesis
    by (force simp: admissible_def row_ok_def row_stored_def Let_def copyKline_def)
qed

lemma UpsertMany_admissible:
  "snd (UpsertMany cp ctx now r rows) = None \<Longrightarrow> \<forall>row \<in> set rows. admissible now (kr_historyCandles r) row"
  by (simp add: UpsertMany_accepts split: if_splits)

lemma rows_ok_step:
  assumes "kr_wf r" and "rows_ok horizon r" and "op_clock horizon op"
  shows "rows_ok horizon (candle_step cp op r)"
proof (cases op)
  case (Upsert ctx now rows)
  show ?thesis
  proof (cases rule: upsert_cases [of cp ctx now rows r])
    case failed
    then show ?thesis using assms Upsert by simp
  next
    case merged
    have "row_ok horizon s t row" if "candle_at (candle_step cp op r) s t = Some row" for s t row
    proof (cases "candle_at r s t = Some row")
      case True
      then show ?thesis using assms(2) by (simp add: rows_ok_def)
    next
      case False
      with that merged Upsert have "map_of (batch cp rows) (s, t) = Some row"
        by (auto simp: UpsertMany_effect(4) [OF assms(1)] split: if_splits dest!: absorb_Some)
      then show ?thesis using UpsertMany_admissible [OF merged(1)] assms(3) Upsert by (auto intro: batch_row_ok)
    qed
    then show ?thesis by (simp add: rows_ok_def)
  qed
next
  case (Delete ctx scope interval before)
  with assms(2) DeleteBefore_effect [OF assms(1) surjective_pairing, of ctx scope interval before]
  show ?thesis by (auto simp: rows_ok_def; metis option.distinct(1))
qed

definition candle_run :: "('d \<Rightarrow> 'd) \<Rightarrow> int \<Rightarrow> 'd candle_op list \<Rightarrow> 'd klineRepository" where
  "candle_run cp history ops = fold (candle_step cp) ops
     \<lparr>kr_series = [], kr_cutoffs = [], kr_historyCandles = history\<rparr>"

lemma kr_wf_empty: "kr_wf \<lparr>kr_series = [], kr_cutoffs = [], kr_historyCandles = history\<rparr>"
  by (simp add: kr_wf_def)

lemma candle_run_wf [simp]: "kr_wf (candle_run cp history ops)"
  unfolding candle_run_def by (rule candles.run_inv) (rule kr_wf_empty)

lemma candle_run_snoc: "candle_run cp history (ops @ [op]) = candle_step cp op (candle_run cp history ops)"
  by (simp add: candle_run_def)

lemma candle_run_append: "candle_run cp history (ops @ later) = fold (candle_step cp) later (candle_run cp history ops)"
  by (simp add: candle_run_def)

lemma candle_step_history: "kr_wf r \<Longrightarrow> kr_historyCandles (candle_step cp op r) = kr_historyCandles r"
proof (cases op)
  case (Upsert ctx now rows)
  assume "kr_wf r"
  then show ?thesis using Upsert
    by (cases rule: upsert_cases [of cp ctx now rows r]) (simp_all add: UpsertMany_effect(2))
next
  case (Delete ctx scope interval before)
  assume "kr_wf r"
  then show ?thesis using Delete DeleteBefore_effect [OF _ surjective_pairing, of r ctx scope interval before] by auto
qed

lemma candle_run_history [simp]: "kr_historyCandles (candle_run cp history ops) = history"
  by (induction ops rule: rev_induct)
    (simp add: candle_run_def, simp add: candle_run_snoc candle_step_history)

lemma candle_run_rows_ok:
  "\<forall>op \<in> set ops. op_clock horizon op \<Longrightarrow> rows_ok horizon (candle_run cp history ops)"
proof (induction ops rule: rev_induct)
  case Nil
  then show ?case by (simp add: candle_run_def rows_ok_def candle_at_def gget_def)
next
  case (snoc op ops)
  then show ?case by (simp add: candle_run_snoc rows_ok_step)
qed


text \<open>The rows a successful \<open>GetRange\<close> returns.\<close>

definition range_rows :: "('d \<Rightarrow> 'd) \<Rightarrow> 'd klineRepository \<Rightarrow> Query \<Rightarrow> 'd Stored list" where
  "range_rows cp r query = sort_key (\<lambda>x. k_OpenTime (st_Candle x))
     (map (\<lambda>(open, row). \<lparr>st_Candle = candle cp row (q_Series query) open, st_RequestStartedAt = sc_RequestStartedAt row\<rparr>)
       (filter (\<lambda>(open, row). \<not> open < q_From query \<and> open < q_To query) (gget [] (kr_series r) (q_Series query))))"

lemma GetRange_Inr:
  "GetRange cp ctx r query = Inr out \<Longrightarrow> out = range_rows cp r query
     \<and> (\<exists>calendar. seriesCalendar (q_Series query) = Inr calendar)"
  by (auto simp: GetRange_def range_rows_def Let_def split: option.splits sum.splits if_splits)

lemma range_rows_sorted:
  assumes "kr_wf r"
  shows "sorted_wrt (<) (map (\<lambda>x. k_OpenTime (st_Candle x)) (range_rows cp r query))"
proof -
  let ?in = "filter (\<lambda>(t, row). \<not> t < q_From query \<and> t < q_To query) (gget [] (kr_series r) (q_Series query))"
  have "map (\<lambda>x. k_OpenTime (st_Candle x)) (map (\<lambda>(t, row). \<lparr>st_Candle = candle cp row (q_Series query) t,
      st_RequestStartedAt = sc_RequestStartedAt row\<rparr>) ?in) = map fst ?in" by (auto simp: candle_def copyKline_def)
  moreover have "distinct (map fst ?in)" using gwf_filter [OF kr_wf_rows [OF assms]] unfolding gwf_def .
  ultimately show ?thesis unfolding range_rows_def by (intro strict_sorted_sort_key) (simp only:)
qed

lemma range_rows_set:
  assumes "kr_wf r"
  shows "set (range_rows cp r query) = {\<lparr>st_Candle = candle cp row (q_Series query) t, st_RequestStartedAt = sc_RequestStartedAt row\<rparr>
    | t row. candle_at r (q_Series query) t = Some row \<and> q_From query \<le> t \<and> t < q_To query}"
  using kr_wf_rows [OF assms] unfolding range_rows_def by (force simp: candle_at_def gwf_map_of image_iff)

section \<open>Properties\<close>

text \<open>Concrete candles for the witnesses: one-minute slots of one series.\<close>

definition ex_series :: Series where
  "ex_series = \<lparr>se_Scope = \<lparr>sc_Exchange = ''binance'', sc_Market = ''linear''\<rparr>,
     se_Symbol = ''BTCUSDT'', se_Interval = ''1m''\<rparr>"

definition ex_open :: "int \<Rightarrow> time" where
  "ex_open slot = of_Unix (1700000040 + slot * 60)"

definition ex_row :: "int \<Rightarrow> time \<Rightarrow> int \<Rightarrow> int Stored" where
  "ex_row slot started price = \<lparr>st_Candle = \<lparr>
     k_Exchange = ''binance'', k_Market = ''linear'', k_Symbol = ''BTCUSDT'', k_Interval = ''1m'',
     k_OpenTime = ex_open slot, k_CloseTime = ex_open (slot + 1),
     k_Open = price, k_High = price, k_Low = price, k_Close = price, k_Volume = 1, k_Turnover = price,
     k_TradesCount = None, k_FetchedAt = started + 1\<rparr>, st_RequestStartedAt = started\<rparr>"

definition ex_ops :: "int candle_op list" where
  "ex_ops = [Upsert background (ex_open 1) [ex_row 0 (ex_open 1) 100, ex_row 1 (ex_open 1) 101]]"

text \<open>
  C17. \<open>UpsertMany\<close> accepts a non-empty batch exactly when the context stays alive at every poll, every
  row passes all row checks (supported series, slot boundaries, timestamps, no future slot, a
  representable history cutoff) and no slot occurs twice. A rejected batch changes nothing.
\<close>

theorem UpsertMany_all_or_nothing:
  "(snd (UpsertMany cp ctx now r rows) = None \<longleftrightarrow>
     (if rows = [] then ctx 0 = None
      else (\<forall>i \<le> 1 + length rows. ctx i = None)
        \<and> (\<forall>row \<in> set rows. admissible now (kr_historyCandles r) row)
        \<and> distinct (map (\<lambda>row. (row_series row, k_OpenTime (st_Candle row))) rows)))
   \<and> (snd (UpsertMany cp ctx now r rows) \<noteq> None \<longrightarrow> fst (UpsertMany cp ctx now r rows) = r)"
  using UpsertMany_accepts UpsertMany_fails by blast

theorem UpsertMany_all_or_nothing_witness:
  "snd (UpsertMany (\<lambda>d. d) background (ex_open 1) (candle_run (\<lambda>d. d) 5 ex_ops) [ex_row 0 (ex_open 1) 100]) = None
 \<and> fst (UpsertMany (\<lambda>d. d) background (ex_open 1) (candle_run (\<lambda>d. d) 5 ex_ops)
      [ex_row 0 (ex_open 1) 100, ex_row 2 (ex_open 1) 100]) = candle_run (\<lambda>d. d) 5 ex_ops"
proof -
  have "snd (UpsertMany (\<lambda>d. d) background (ex_open 1) (candle_run (\<lambda>d. d) 5 ex_ops)
      [ex_row 0 (ex_open 1) 100, ex_row 2 (ex_open 1) 100]) \<noteq> None" by code_simp
  moreover have "snd (UpsertMany (\<lambda>d. d) background (ex_open 1) (candle_run (\<lambda>d. d) 5 ex_ops)
      [ex_row 0 (ex_open 1) 100]) = None" by code_simp
  ultimately show ?thesis using UpsertMany_all_or_nothing by blast
qed

text \<open>
  C18. The merge, slot by slot, on a repository reached by any operations: in the series of the batch
  rows below the raised watermark are gone, a fresh slot takes the incoming row, an occupied slot
  takes it only on stronger evidence; every other series is untouched. The watermark of a scope of
  the batch becomes the later of the applied one and the history cutoff at the captured clock value.
\<close>

theorem UpsertMany_merges:
  assumes "r = candle_run cp history ops" and "UpsertMany cp ctx now r rows = (r', None)"
  shows "candle_at r' s t =
      (if s \<in> row_series ` set rows then
         (if t < the (mark_of r' s) then None
          else case (candle_at r s t, map_of (batch cp rows) (s, t)) of
              (old, None) \<Rightarrow> old
            | (None, Some row) \<Rightarrow> Some row
            | (Some stored, Some row) \<Rightarrow> Some (if evidence stored < evidence row then row else stored))
       else candle_at r s t)
   \<and> mark_of r' s =
      (if series_scope s \<in> row_scope ` set rows
       then Some (let c = projr (candle_cutoff now history (series_scope s))
                  in case mark_of r s of None \<Rightarrow> c | Some a \<Rightarrow> max a c)
       else mark_of r s)"
proof -
  have wf: "kr_wf r" and h: "kr_historyCandles r = history" by (simp_all add: assms(1))
  have ok: "snd (UpsertMany cp ctx now r rows) = None" and r': "r' = fst (UpsertMany cp ctx now r rows)"
    using assms(2) by simp_all
  have mark: "mark_of r' s =
      (if series_scope s \<in> row_scope ` set rows
       then Some (raised_mark now history (series_scope s) (mark_of r s)) else mark_of r s)"
    by (simp add: r' mark_of_def UpsertMany_effect(3) [OF wf ok] h)
  have "the (mark_of r' s) = raised_mark now history (series_scope s) (mark_of r s)" if "s \<in> row_series ` set rows"
    using that unfolding mark by auto
  then show ?thesis
    using mark unfolding r' UpsertMany_effect(4) [OF wf ok]
    by (auto simp: h mark_of_def raised_mark_def replacesCandle_evidence split: option.splits)
qed

theorem UpsertMany_merges_witness:
  "candle_at (fst (UpsertMany (\<lambda>d. d) background (ex_open 1) (candle_run (\<lambda>d. d) 5 ex_ops) [ex_row 1 (ex_open 1 + 5) 200]))
     ex_series (ex_open 1) = Some (row_stored (\<lambda>d. d) (ex_row 1 (ex_open 1 + 5) 200))"
proof -
  define r' where "r' = fst (UpsertMany (\<lambda>d. d) background (ex_open 1) (candle_run (\<lambda>d. d) 5 ex_ops) [ex_row 1 (ex_open 1 + 5) 200])"
  have "snd (UpsertMany (\<lambda>d. d) background (ex_open 1) (candle_run (\<lambda>d. d) 5 ex_ops) [ex_row 1 (ex_open 1 + 5) 200]) = None"
    by code_simp
  then have up: "UpsertMany (\<lambda>d. d) background (ex_open 1) (candle_run (\<lambda>d. d) 5 ex_ops) [ex_row 1 (ex_open 1 + 5) 200] = (r', None)"
    by (simp add: r'_def prod_eq_iff)
  have "\<not> ex_open 1 < the (mark_of r' ex_series)" unfolding r'_def by code_simp
  moreover have "ex_series \<in> row_series ` set [ex_row 1 (ex_open 1 + 5) 200]" by code_simp
  moreover have "candle_at (candle_run (\<lambda>d. d) 5 ex_ops) ex_series (ex_open 1) = Some (row_stored (\<lambda>d. d) (ex_row 1 (ex_open 1) 101))"
    by code_simp
  moreover have "map_of (batch (\<lambda>d. d) [ex_row 1 (ex_open 1 + 5) 200]) (ex_series, ex_open 1) =
      Some (row_stored (\<lambda>d. d) (ex_row 1 (ex_open 1 + 5) 200))" by code_simp
  moreover have "evidence (row_stored (\<lambda>d. d) (ex_row 1 (ex_open 1) 101)) < evidence (row_stored (\<lambda>d. d) (ex_row 1 (ex_open 1 + 5) 200))"
    by code_simp
  ultimately show ?thesis using UpsertMany_merges [OF refl up, of ex_series "ex_open 1"] by (simp add: r'_def)
qed

text \<open>
  C3. Final candles are immutable: once a row whose request started at or after its close time is
  stored, no later sequence of merges and cleanups changes it; it is either still there unchanged or
  was removed below the watermark of its scope.
\<close>

theorem final_candle_immutable:
  assumes "candle_at (candle_run cp history ops) s t = Some row"
    and "sc_CloseTime row \<le> sc_RequestStartedAt row"
  shows "candle_at (candle_run cp history (ops @ later)) s t = Some row
    \<or> candle_at (candle_run cp history (ops @ later)) s t = None
      \<and> (\<exists>m. mark_of (candle_run cp history (ops @ later)) s = Some m \<and> t < m)"
  unfolding candle_run_append
proof (rule candles.run_strongest_fixed [OF candle_run_wf assms(1)])
  fix row' :: "'a storedCandle"
  show "\<not> evidence row < evidence row'" using assms(2) by (auto simp: evidence_def final_def less_prod_simp)
qed

theorem final_candle_immutable_witness:
  "candle_at (candle_run (\<lambda>d. d) 5 (ex_ops @ [Upsert background (ex_open 3) [ex_row 0 (ex_open 3) 999]])) ex_series (ex_open 0) =
     Some (row_stored (\<lambda>d. d) (ex_row 0 (ex_open 1) 100))"
proof -
  have row: "candle_at (candle_run (\<lambda>d. d) 5 ex_ops) ex_series (ex_open 0) = Some (row_stored (\<lambda>d. d) (ex_row 0 (ex_open 1) 100))"
    by code_simp
  have fin: "sc_CloseTime (row_stored (\<lambda>d. d) (ex_row 0 (ex_open 1) 100)) \<le> sc_RequestStartedAt (row_stored (\<lambda>d. d) (ex_row 0 (ex_open 1) 100))"
    by code_simp
  have "candle_at (candle_run (\<lambda>d. d) 5 (ex_ops @ [Upsert background (ex_open 3) [ex_row 0 (ex_open 3) 999]]))
      ex_series (ex_open 0) \<noteq> None" by code_simp
  with final_candle_immutable [OF row fin, of "[Upsert background (ex_open 3) [ex_row 0 (ex_open 3) 999]]"]
  show ?thesis by simp
qed

text \<open>
  Evidence never weakens and retention is final: over any later operations a stored row is kept,
  superseded by strictly stronger evidence, or lost below the watermark; watermarks never fall; and an
  empty slot below the watermark stays empty, so a late write cannot resurrect a deleted candle.
\<close>

theorem candle_evidence_monotone:
  fixes cp history ops later s t
  defines "before \<equiv> candle_run cp history ops" and "after \<equiv> candle_run cp history (ops @ later)"
  shows "(\<forall>row. candle_at before s t = Some row \<longrightarrow>
       (case candle_at after s t of
          Some row' \<Rightarrow> row' = row \<or> evidence row < evidence row'
        | None \<Rightarrow> \<exists>m. mark_of after s = Some m \<and> t < m))
   \<and> (\<forall>m. mark_of before s = Some m \<longrightarrow> (\<exists>m' \<ge> m. mark_of after s = Some m'))
   \<and> (\<forall>m. mark_of before s = Some m \<and> t < m \<and> candle_at before s t = None \<longrightarrow> candle_at after s t = None)"
  unfolding before_def after_def candle_run_append
  using candles.run_row [where ops = later, OF candle_run_wf]
    candles.run_mark [where ops = later, OF candle_run_wf]
    candles.run_no_resurrection [where ops = later, OF candle_run_wf] by blast

theorem candle_evidence_monotone_witness:
  "candle_at (candle_run (\<lambda>d. d) 2 (ex_ops @ [Upsert background (ex_open 9) [ex_row 9 (ex_open 9) 1],
     Upsert background (ex_open 9) [ex_row 0 (ex_open 9) 100]])) ex_series (ex_open 0) = None"
proof -
  let ?ops = "ex_ops @ [Upsert background (ex_open 9) [ex_row 9 (ex_open 9) 1]]"
  have "mark_of (candle_run (\<lambda>d. d) 2 ?ops) ex_series = Some (ex_open 7)
      \<and> ex_open 0 < ex_open 7 \<and> candle_at (candle_run (\<lambda>d. d) 2 ?ops) ex_series (ex_open 0) = None" by code_simp
  with candle_evidence_monotone [of "\<lambda>d. d" 2 ?ops ex_series "ex_open 0" "[Upsert background (ex_open 9) [ex_row 0 (ex_open 9) 100]]"]
  show ?thesis by simp
qed

text \<open>
  Memory is bounded: if all clock readings so far are at most \<open>now\<close>, then after an accepted merge at
  \<open>now\<close> each series of the batch holds at most one row more than the configured history, and every row
  it holds opens on a slot boundary inside the retained window.
\<close>

theorem UpsertMany_bounded:
  assumes "r = candle_run cp history ops" and "\<forall>op \<in> set ops. op_clock now op"
    and "UpsertMany cp ctx now r rows = (r', None)" and "s \<in> row_series ` set rows"
  shows "int (length (gget [] (kr_series r') s)) \<le> history + 1"
proof -
  have ok: "snd (UpsertMany cp ctx now r rows) = None" and r': "r' = fst (UpsertMany cp ctx now r rows)"
    using assms(3) by simp_all
  have wf: "kr_wf r" and h: "kr_historyCandles r = history" by (simp_all add: assms(1))
  have "\<exists>c. seriesCalendar s = Inr c \<and> (\<exists>cut. HistoryCutoff c now history = Inr cut)"
    using UpsertMany_admissible [OF ok] assms(4) by (auto simp: admissible_def h)
  then obtain c cut where c: "seriesCalendar s = Inr c" and cut: "HistoryCutoff c now history = Inr cut" by blast
  have cwf: "cal_wf c" using c by (auto simp: seriesCalendar_Inr dest: NewCalendar_wf)
  have ok': "rows_ok now r'"
    using rows_ok_step [OF wf, of now "Upsert ctx now rows" cp] candle_run_rows_ok [OF assms(2)] assms(1) r'
    by simp
  have window: "cut \<le> t \<and> t \<le> now \<and> (\<exists>k. t = slot_start c k)" if "candle_at r' s t = Some row" for t row
  proof -
    from that have "\<not> t < raised_mark now history (series_scope s) (map_of (kr_cutoffs r) (series_scope s))"
      using assms(4) by (auto simp: r' UpsertMany_effect(4) [OF wf ok] h split: if_splits)
    then have "cut \<le> t" using cut
      by (auto simp: raised_mark_def candle_cutoff_calendar [OF c] Let_def split: option.splits)
    moreover have "Next c t = Inr (sc_CloseTime row)" and "t \<le> now"
      using ok' [unfolded rows_ok_def, rule_format, OF that] c by (auto simp: row_ok_def)
    then have "\<exists>k. t = slot_start c k" using Next_ok [OF cwf] by blast
    ultimately show ?thesis using \<open>t \<le> now\<close> by blast
  qed
  have g: "gwf (gget [] (kr_series r') s)" using UpsertMany_effect(1) [OF wf ok] r' by (simp add: kr_wf_rows)
  have "fst ` set (gget [] (kr_series r') s) \<subseteq> {t. cut \<le> t \<and> t \<le> now \<and> (\<exists>k. t = slot_start c k)}"
    using window g by (auto simp: candle_at_def gwf_map_of)
  then have "card (fst ` set (gget [] (kr_series r') s)) \<le> nat (history + 1)"
    using card_mono [OF finite_slots_between] by (subst HistoryCutoff_card [OF cwf cut, symmetric]) blast
  moreover have "card (fst ` set (gget [] (kr_series r') s)) = length (gget [] (kr_series r') s)"
    using g distinct_card [of "map fst (gget [] (kr_series r') s)"] by (simp add: gwf_def)
  ultimately show ?thesis using HistoryCutoff_start(1) [OF cwf cut] by linarith
qed

theorem UpsertMany_bounded_witness:
  "int (length (gget [] (kr_series (fst (UpsertMany (\<lambda>d. d) background (ex_open 4) (candle_run (\<lambda>d. d) 2 ex_ops)
     [ex_row 2 (ex_open 4) 1, ex_row 3 (ex_open 4) 2, ex_row 4 (ex_open 4) 3]))) ex_series)) \<le> 3"
proof -
  let ?up = "UpsertMany (\<lambda>d. d) background (ex_open 4) (candle_run (\<lambda>d. d) 2 ex_ops)
     [ex_row 2 (ex_open 4) 1, ex_row 3 (ex_open 4) 2, ex_row 4 (ex_open 4) 3]"
  have "snd ?up = None" by code_simp
  then have up: "?up = (fst ?up, None)" by (simp add: prod_eq_iff)
  have clock: "\<forall>op \<in> set ex_ops. op_clock (ex_open 4) op" by code_simp
  have mem: "ex_series \<in> row_series ` set [ex_row 2 (ex_open 4) 1, ex_row 3 (ex_open 4) 2, ex_row 4 (ex_open 4) 3]" by code_simp
  from UpsertMany_bounded [OF refl clock up mem] show ?thesis by simp
qed

text \<open>
  \<open>GetRange\<close> under a live context answers a valid query on any reached repository, with exactly the
  stored candles of the series that open in the half-open range, strictly ascending by open time, each
  rebuilt with the identity of its series and slot; gaps stay gaps.
\<close>

theorem GetRange_exact:
  assumes "r = candle_run cp history ops" and "seriesCalendar (q_Series query) = Inr calendar"
    and "ValidateBoundary calendar (q_From query) = None" and "ValidateBoundary calendar (q_To query) = None"
    and "q_From query \<le> q_To query"
  shows "\<exists>out. GetRange cp background r query = Inr out
    \<and> sorted_wrt (<) (map (\<lambda>x. k_OpenTime (st_Candle x)) out)
    \<and> set out = {\<lparr>st_Candle = candle cp row (q_Series query) t, st_RequestStartedAt = sc_RequestStartedAt row\<rparr>
        | t row. candle_at r (q_Series query) t = Some row \<and> q_From query \<le> t \<and> t < q_To query}"
proof -
  have "GetRange cp background r query = Inr (range_rows cp r query)"
    using assms(2-5) by (simp add: GetRange_def range_rows_def background_def first_error_None [THEN iffD2])
  moreover have wf: "kr_wf r" by (simp add: assms(1))
  ultimately show ?thesis using range_rows_sorted [OF wf, of cp query] range_rows_set [OF wf, of cp query] by blast
qed

theorem GetRange_exact_witness:
  "\<exists>out. GetRange (\<lambda>d. d) background (candle_run (\<lambda>d. d) 5 ex_ops)
       \<lparr>q_Series = ex_series, q_From = ex_open 0, q_To = ex_open 4\<rparr> = Inr out
    \<and> \<lparr>st_Candle = candle (\<lambda>d. d) (row_stored (\<lambda>d. d) (ex_row 1 (ex_open 1) 101)) ex_series (ex_open 1),
         st_RequestStartedAt = ex_open 1\<rparr> \<in> set out"
proof -
  let ?q = "\<lparr>q_Series = ex_series, q_From = ex_open 0, q_To = ex_open 4\<rparr>"
  have c: "seriesCalendar (q_Series ?q) = Inr \<lparr>cal_interval = ''1m'', cal_anchor = 0\<rparr>" by code_simp
  have b: "ValidateBoundary \<lparr>cal_interval = ''1m'', cal_anchor = 0\<rparr> (q_From ?q) = None"
    "ValidateBoundary \<lparr>cal_interval = ''1m'', cal_anchor = 0\<rparr> (q_To ?q) = None"
    "q_From ?q \<le> q_To ?q" by code_simp+
  have row: "candle_at (candle_run (\<lambda>d. d) 5 ex_ops) ex_series (ex_open 1) = Some (row_stored (\<lambda>d. d) (ex_row 1 (ex_open 1) 101))"
    "sc_RequestStartedAt (row_stored (\<lambda>d. d) (ex_row 1 (ex_open 1) 101)) = ex_open 1"
    "ex_open 0 \<le> ex_open 1" "ex_open 1 < ex_open 4" by code_simp+
  from GetRange_exact [OF refl c b, of "\<lambda>d. d" 5 ex_ops] row show ?thesis by auto metis
qed

text \<open>
  \<open>DeleteBefore\<close> on a reached repository either reports an error and changes nothing, or raises the
  watermark to the later of the applied and the requested cutoff. In the second case it removes rows
  only from the scope, only below that watermark, and all of them unless the context ended the loop.
\<close>

theorem DeleteBefore_removes:
  assumes "r = candle_run cp history ops" and "DeleteBefore ctx r scope interval before = (r', e)"
  shows "r' = r \<and> e \<noteq> None
   \<or> (\<exists>mark. before \<le> mark \<and> (\<forall>key. map_of (kr_cutoffs r') key =
          (if key = (scope, interval) then Some mark else map_of (kr_cutoffs r) key))
     \<and> (\<forall>s t. candle_at r' s t = candle_at r s t
          \<or> candle_at r' s t = None \<and> se_Scope s = scope \<and> se_Interval s = interval \<and> t < mark)
     \<and> (e = None \<longrightarrow> (\<forall>s t. se_Scope s = scope \<and> se_Interval s = interval \<and> t < mark
          \<longrightarrow> candle_at r' s t = None)))"
proof -
  have wf: "kr_wf r" by (simp add: assms(1))
  have "before \<le> delete_mark r (scope, interval) before" by (auto simp: delete_mark_def split: option.splits)
  with DeleteBefore_effect [OF wf assms(2)] show ?thesis
    by (elim disjE) (blast, intro disjI2 exI [of _ "delete_mark r (scope, interval) before"], auto)
qed

theorem DeleteBefore_removes_witness:
  "candle_at (fst (DeleteBefore background (candle_run (\<lambda>d. d) 5 ex_ops) (se_Scope ex_series) ''1m'' (ex_open 1))) ex_series (ex_open 0) = None"
proof -
  let ?del = "DeleteBefore background (candle_run (\<lambda>d. d) 5 ex_ops) (se_Scope ex_series) ''1m'' (ex_open 1)"
  have "snd ?del = None" by code_simp
  then have del: "?del = (fst ?del, None)" by (simp add: prod_eq_iff)
  have lt: "ex_open 0 < ex_open 1" and s: "se_Interval ex_series = ''1m''" by code_simp+
  from DeleteBefore_removes [OF refl del] obtain mark where "ex_open 1 \<le> mark"
    "\<forall>s t. se_Scope s = se_Scope ex_series \<and> se_Interval s = ''1m'' \<and> t < mark \<longrightarrow> candle_at (fst ?del) s t = None" by blast
  with lt s show ?thesis by auto
qed

lemma merged_slot:
  assumes wf: "kr_wf r" and up: "UpsertMany cp ctx now r rows = (r', None)"
    and above: "\<And>m. mark_of r' s = Some m \<Longrightarrow> m \<le> t"
  shows "candle_at r' s t = absorb (candle_at r s t) (map_of (batch cp rows) (s, t))"
proof -
  have ok: "snd (UpsertMany cp ctx now r rows) = None" and r': "r' = fst (UpsertMany cp ctx now r rows)"
    using up by simp_all
  show ?thesis
  proof (cases "s \<in> row_series ` set rows")
    case True
    then have "\<not> t < raised_mark now (kr_historyCandles r) (series_scope s) (map_of (kr_cutoffs r) (series_scope s))"
      using above by (auto simp: r' mark_of_def UpsertMany_effect(3) [OF wf ok])
    with True show ?thesis by (simp add: r' UpsertMany_effect(4) [OF wf ok])
  next
    case False
    then have "map_of (batch cp rows) (s, t) = None" by (auto simp: batch_def map_of_eq_None_iff)
    with False show ?thesis by (simp add: r' UpsertMany_effect(4) [OF wf ok])
  qed
qed

lemma absorb_commute:
  assumes "\<And>x y. a = Some x \<Longrightarrow> b = Some y \<Longrightarrow> evidence x \<noteq> evidence y"
  shows "absorb (absorb old a) b = absorb (absorb old b) a"
  using assms by (cases old; cases a; cases b) (auto simp: replacesCandle_evidence)

lemma mark_after:
  assumes "kr_wf r" and "UpsertMany cp ctx now r rows = (r', None)"
  shows "mark_of r' s = (if series_scope s \<in> row_scope ` set rows
    then Some (raised_mark now (kr_historyCandles r) (series_scope s) (mark_of r s)) else mark_of r s)"
    and "kr_wf r'" and "kr_historyCandles r' = kr_historyCandles r"
    and "mark_of r s = Some m \<Longrightarrow> \<exists>m' \<ge> m. mark_of r' s = Some m'"
  using UpsertMany_effect [OF assms(1), of cp ctx now rows] candles.mark_rises [OF assms(1), of s m cp "Upsert ctx now rows"] assms(2)
  by (simp_all add: mark_of_def)

text \<open>
  Concurrent fills converge: two batches accepted by a reached repository give the same watermarks
  in either order, and the same row in every slot not below the watermark, provided the two batches do
  not bring rows of equal evidence for that slot (where the row stored first is kept).
\<close>

theorem UpsertMany_converges:
  assumes "r = candle_run cp history ops"
    and "UpsertMany cp c1 now_a r a = (r_a, None)" and "UpsertMany cp c2 now_b r_a b = (r_ab, None)"
    and "UpsertMany cp c3 now_b r b = (r_b, None)" and "UpsertMany cp c4 now_a r_b a = (r_ba, None)"
  shows "mark_of r_ab s = mark_of r_ba s
    \<and> ((\<forall>m. mark_of r_ab s = Some m \<longrightarrow> m \<le> t)
        \<and> (\<forall>x y. map_of (batch cp a) (s, t) = Some x \<and> map_of (batch cp b) (s, t) = Some y \<longrightarrow> evidence x \<noteq> evidence y)
       \<longrightarrow> candle_at r_ab s t = candle_at r_ba s t)"
proof -
  have wf: "kr_wf r" by (simp add: assms(1))
  note A = mark_after [OF wf assms(2)] and B = mark_after [OF wf assms(4)]
  note AB = mark_after [OF A(2) assms(3)] and BA = mark_after [OF B(2) assms(5)]
  have marks: "mark_of r_ab s = mark_of r_ba s"
    unfolding AB(1) BA(1) A(1) B(1) A(3) B(3)
    by (simp add: raised_mark_def Let_def max.left_commute max.commute split: option.splits)
  have "candle_at r_ab s t = candle_at r_ba s t"
    if above: "\<And>m. mark_of r_ab s = Some m \<Longrightarrow> m \<le> t"
      and apart: "\<And>x y. map_of (batch cp a) (s, t) = Some x \<Longrightarrow> map_of (batch cp b) (s, t) = Some y \<Longrightarrow> evidence x \<noteq> evidence y"
  proof -
    have "m \<le> t" if "mark_of r_a s = Some m" for m using AB(4) [OF that] above by force
    from merged_slot [OF wf assms(2) this] merged_slot [OF A(2) assms(3) above]
    have ab: "candle_at r_ab s t = absorb (absorb (candle_at r s t) (map_of (batch cp a) (s, t))) (map_of (batch cp b) (s, t))"
      by simp
    have "m \<le> t" if "mark_of r_b s = Some m" for m using BA(4) [OF that] above marks by force
    from merged_slot [OF wf assms(4) this] merged_slot [OF B(2) assms(5)] above marks
    have ba: "candle_at r_ba s t = absorb (absorb (candle_at r s t) (map_of (batch cp b) (s, t))) (map_of (batch cp a) (s, t))"
      by simp
    show ?thesis unfolding ab ba by (rule absorb_commute) (rule apart)
  qed
  with marks show ?thesis by blast
qed

theorem UpsertMany_converges_witness:
  "\<exists>r_ab r_ba. candle_at r_ab ex_series (ex_open 0) = candle_at r_ba ex_series (ex_open 0)
    \<and> candle_at r_ab ex_series (ex_open 0) = Some (row_stored (\<lambda>d. d) (ex_row 0 (ex_open 1) 7))"
proof -
  let ?r = "candle_run (\<lambda>d. d) 5 [] :: int klineRepository"
  let ?a = "[ex_row 0 (ex_open 0) 3]" and ?b = "[ex_row 0 (ex_open 1) 7]"
  define ra where "ra = fst (UpsertMany (\<lambda>d. d) background (ex_open 0) ?r ?a)"
  define rb where "rb = fst (UpsertMany (\<lambda>d. d) background (ex_open 1) ?r ?b)"
  define rab where "rab = fst (UpsertMany (\<lambda>d. d) background (ex_open 1) ra ?b)"
  define rba where "rba = fst (UpsertMany (\<lambda>d. d) background (ex_open 0) rb ?a)"
  have "snd (UpsertMany (\<lambda>d. d) background (ex_open 0) ?r ?a) = None" by code_simp
  then have 1: "UpsertMany (\<lambda>d. d) background (ex_open 0) ?r ?a = (ra, None)" by (simp add: ra_def prod_eq_iff)
  have "snd (UpsertMany (\<lambda>d. d) background (ex_open 1) ?r ?b) = None" by code_simp
  then have 2: "UpsertMany (\<lambda>d. d) background (ex_open 1) ?r ?b = (rb, None)" by (simp add: rb_def prod_eq_iff)
  have "snd (UpsertMany (\<lambda>d. d) background (ex_open 1) ra ?b) = None" unfolding ra_def by code_simp
  then have 3: "UpsertMany (\<lambda>d. d) background (ex_open 1) ra ?b = (rab, None)" by (simp add: rab_def prod_eq_iff)
  have "snd (UpsertMany (\<lambda>d. d) background (ex_open 0) rb ?a) = None" unfolding rb_def by code_simp
  then have 4: "UpsertMany (\<lambda>d. d) background (ex_open 0) rb ?a = (rba, None)" by (simp add: rba_def prod_eq_iff)
  have "mark_of rab ex_series = Some (ex_open (- 4))" unfolding rab_def ra_def by code_simp
  moreover have "ex_open (- 4) \<le> ex_open 0" by code_simp
  moreover have "map_of (batch (\<lambda>d. d) ?a) (ex_series, ex_open 0) = Some (row_stored (\<lambda>d. d) (ex_row 0 (ex_open 0) 3))"
    "map_of (batch (\<lambda>d. d) ?b) (ex_series, ex_open 0) = Some (row_stored (\<lambda>d. d) (ex_row 0 (ex_open 1) 7))"
    "evidence (row_stored (\<lambda>d. d) (ex_row 0 (ex_open 0) 3)) \<noteq> evidence (row_stored (\<lambda>d. d) (ex_row 0 (ex_open 1) 7))"
    by code_simp+
  ultimately have "candle_at rab ex_series (ex_open 0) = candle_at rba ex_series (ex_open 0)"
    using UpsertMany_converges [OF refl 1 3 2 4, of ex_series "ex_open 0"] by auto
  moreover have "candle_at rab ex_series (ex_open 0) = Some (row_stored (\<lambda>d. d) (ex_row 0 (ex_open 1) 7))"
    unfolding rab_def ra_def by code_simp
  ultimately show ?thesis by blast
qed
end
