(* ===== verification/Kline_Planner.thy ===== *)
theory Kline_Planner
  imports Kline_Store
begin

text \<open>
  Planning the pages of a candle fill: \<open>src/internal/application/kline/fetch_planner.go\<close> and the
  refresh evidence of \<open>src/internal/application/kline/service.go\<close>.

  The loop of \<open>plan\<close> is shown to compute the greedy cover \<open>pages\<close> of the slots that still need data.
  What makes that cover right (pages inside the query, in order, disjoint, within the page limit,
  covering every required slot, as few as possible) is proved about \<open>pages\<close> and carried over.
\<close>

section \<open>Refresh evidence\<close>

record refresh_evidence =
  re_started :: time
  re_fetched :: time

type_synonym refreshes = "(time, refresh_evidence) gomap"

definition refreshes_accepts :: "refreshes \<Rightarrow> 'd Stored \<Rightarrow> time \<Rightarrow> bool" where
  "refreshes_accepts r row now =
     (case map_of r (k_OpenTime (st_Candle row)) of
        None \<Rightarrow> False
      | Some e \<Rightarrow> now < k_CloseTime (st_Candle row) \<and> \<not> st_RequestStartedAt row < re_started e \<and>
          (st_RequestStartedAt row \<noteq> re_started e \<or> \<not> k_FetchedAt (st_Candle row) < re_fetched e))"

definition merge_refresh :: "Query \<Rightarrow> time \<times> refresh_evidence \<Rightarrow> refreshes \<Rightarrow> refreshes" where
  "merge_refresh query oe r =
     (let (open, e) = oe in
      if \<not> open < q_From query \<and> open < q_To query then
        (case map_of r open of
           None \<Rightarrow> AList.update open e r
         | Some previous \<Rightarrow>
             if re_started e > re_started previous
               \<or> (re_started e = re_started previous \<and> re_fetched e > re_fetched previous)
             then AList.update open e r else r)
      else r)"

definition refreshes_merge :: "Query \<Rightarrow> refreshes \<Rightarrow> refreshes \<Rightarrow> refreshes" where
  "refreshes_merge query other r = fold (merge_refresh query) other r"

section \<open>The planner\<close>

record Planner =
  pl_scope :: Scope
  pl_supported :: "Timeframe list"
  pl_historyCandles :: int
  pl_pageLimit :: int

fun supported_calendars :: "Scope \<Rightarrow> Timeframe list \<Rightarrow> error option" where
  "supported_calendars scope [] = None"
| "supported_calendars scope (interval # rest) =
     (case NewCalendar (sc_Exchange scope) (sc_Market scope) interval of
        Inl e \<Rightarrow> Some (Wrapped ''supported calendar'' [App ErrInvalidParameter, e])
      | Inr _ \<Rightarrow> supported_calendars scope rest)"

definition NewPlanner :: "Scope \<Rightarrow> Timeframe list \<Rightarrow> int \<Rightarrow> int \<Rightarrow> Planner result" where
  "NewPlanner scope supported historyCandles pageLimit =
     (if \<not> Exchange_Valid (sc_Exchange scope) \<or> \<not> Market_Valid (sc_Market scope) \<or> supported = []
        \<or> historyCandles \<le> 0 \<or> pageLimit \<le> 0
      then Inl (App ErrInvalidParameter)
      else (case supported_calendars scope supported of
              Some e \<Rightarrow> Inl e
            | None \<Rightarrow> Inr \<lparr>pl_scope = scope, pl_supported = supported,
                pl_historyCandles = historyCandles, pl_pageLimit = pageLimit\<rparr>))"

text \<open>Shape of the range, then its size, then its depth.\<close>

definition validate_range :: "Planner \<Rightarrow> Calendar \<Rightarrow> Query \<Rightarrow> time \<Rightarrow> (Calendar \<times> int) result" where
  "validate_range p calendar query now =
     (let counted = CountSlots calendar (q_From query) (q_To query) (pl_historyCandles p) in
      if (case counted of Inl e \<Rightarrow> \<not> errors_Is e (Dom ErrSlotLimit) | Inr _ \<Rightarrow> False)
      then Inl (Wrapped ''query boundaries'' [App ErrInvalidRange, projl counted])
      else (case Floor calendar now of
         Inl e \<Rightarrow> Inl (Wrapped ''planning clock'' [App ErrInvalidRange, e])
       | Inr current \<Rightarrow>
         (case (if q_To query > current then
                  (case Next calendar current of
                     Inl e \<Rightarrow> Some (Wrapped ''current slot end'' [App ErrInvalidRange, e])
                   | Inr next \<Rightarrow>
                       if q_To query > next \<or> (q_From query > current \<and> q_From query \<noteq> q_To query)
                       then Some (App ErrInvalidRange) else None)
                else None) of
            Some e \<Rightarrow> Inl e
          | None \<Rightarrow>
            (case counted of
               Inl _ \<Rightarrow> Inl (App ErrRequestTooLarge)
             | Inr cnt \<Rightarrow>
               (case HistoryCutoff calendar now (pl_historyCandles p) of
                  Inl e \<Rightarrow> Inl (Wrapped ''history cutoff'' [App ErrInvalidRange, e])
                | Inr cutoff \<Rightarrow>
                    if q_From query < cutoff then Inl (App ErrRangeOutOfRetention)
                    else Inr (calendar, cnt))))))"

definition validate :: "Planner \<Rightarrow> Query \<Rightarrow> time \<Rightarrow> (Calendar \<times> int) result" where
  "validate p query now =
     (let series = q_Series query; scope = se_Scope series in
      if pl_historyCandles p \<le> 0 \<or> pl_pageLimit p \<le> 0 then Inl (App ErrInvalidParameter)
      else if scope \<noteq> pl_scope p \<or> se_Symbol series = '''' then Inl (App ErrInvalidFilter)
      else (case SelectSnapshot [pl_scope p] \<lparr>sq_Exchange = sc_Exchange scope,
               sq_Market = sc_Market scope, sq_Symbol = se_Symbol series\<rparr> of
         Inl e \<Rightarrow> Inl e
       | Inr _ \<Rightarrow>
           if \<not> Timeframe_Valid (se_Interval series) \<or> se_Interval series \<notin> set (pl_supported p)
           then Inl (App ErrInvalidInterval)
           else (case NewCalendar (sc_Exchange scope) (sc_Market scope) (se_Interval series) of
              Inl e \<Rightarrow> Inl (Wrapped ''query calendar'' [App ErrInvalidInterval, e])
            | Inr calendar \<Rightarrow>
                if Unix (q_From query) < 0 \<or> Unix (q_To query) < 0 \<or> q_From query > q_To query
                then Inl (App ErrInvalidRange)
                else validate_range p calendar query now)))"

definition Planner_Validate :: "Planner \<Rightarrow> Query \<Rightarrow> time \<Rightarrow> error option" where
  "Planner_Validate p query now = (case validate p query now of Inl e \<Rightarrow> Some e | Inr _ \<Rightarrow> None)"

definition internal_error :: "string \<Rightarrow> error" where
  "internal_error msg = Wrapped msg [App ErrInternal]"

fun final_loop :: "Query \<Rightarrow> Calendar \<Rightarrow> time \<Rightarrow> 'd Stored list \<Rightarrow> (time, bool) gomap \<Rightarrow> (time, bool) gomap result" where
  "final_loop query calendar now [] finals = Inr finals"
| "final_loop query calendar now (row # rows) finals =
     (let candle = st_Candle row; series = q_Series query in
      if k_Exchange candle \<noteq> sc_Exchange (se_Scope series) \<or> k_Market candle \<noteq> sc_Market (se_Scope series)
        \<or> k_Symbol candle \<noteq> se_Symbol series \<or> k_Interval candle \<noteq> se_Interval series
      then Inl (internal_error ''cached candle series mismatch'')
      else if k_OpenTime candle < q_From query \<or> \<not> k_OpenTime candle < q_To query
      then Inl (internal_error ''cached candle outside query'')
      else if Next calendar (k_OpenTime candle) \<noteq> Inr (k_CloseTime candle)
      then Inl (internal_error ''invalid cached candle boundaries'')
      else if IsZero (st_RequestStartedAt row) \<or> IsZero (k_FetchedAt candle)
        \<or> st_RequestStartedAt row > k_FetchedAt candle
      then Inl (internal_error ''invalid cached request timestamps'')
      else if ghas finals (k_OpenTime candle) then Inl (internal_error ''duplicate cached candle'')
      else final_loop query calendar now rows
        (AList.update (k_OpenTime candle)
          (\<not> now < k_CloseTime candle \<and> \<not> st_RequestStartedAt row < k_CloseTime candle) finals))"

definition finalSlots :: "Query \<Rightarrow> Calendar \<Rightarrow> int \<Rightarrow> 'd Stored list \<Rightarrow> time \<Rightarrow> (time, bool) gomap result" where
  "finalSlots query calendar cnt cached now =
     (if int (length cached) > cnt then Inl (internal_error ''too many cached rows'')
      else final_loop query calendar now cached [])"

definition mark_refreshed :: "refreshes \<Rightarrow> time \<Rightarrow> 'd Stored \<Rightarrow> (time, bool) gomap \<Rightarrow> (time, bool) gomap" where
  "mark_refreshed refreshed now row finals =
     (if refreshes_accepts refreshed row now
      then AList.update (k_OpenTime (st_Candle row)) True finals else finals)"

definition zero_Request :: Request where
  "zero_Request = \<lparr>rq_Query = \<lparr>q_Series = \<lparr>se_Scope = \<lparr>sc_Exchange = [], sc_Market = []\<rparr>,
     se_Symbol = [], se_Interval = []\<rparr>, q_From = zero_time, q_To = zero_time\<rparr>, rq_Limit = 0\<rparr>"

text \<open>
  The paging loop: \<open>left\<close> slots remain, \<open>slot\<close> is the loop counter, \<open>open\<close> the current slot.
\<close>

fun plan_loop :: "Planner \<Rightarrow> Query \<Rightarrow> Calendar \<Rightarrow> (time, bool) gomap \<Rightarrow> nat \<Rightarrow> int \<Rightarrow> time \<Rightarrow> int
    \<Rightarrow> Request \<Rightarrow> Request list \<Rightarrow> Request list result" where
  "plan_loop p query calendar finals 0 slot open start pending requests =
     Inr (if rq_Limit pending > 0 then requests @ [pending] else requests)"
| "plan_loop p query calendar finals (Suc left) slot open start pending requests =
     (case Next calendar open of
        Inl _ \<Rightarrow> Inl (Wrapped ''slot does not advance within query'' [App ErrInvalidRange])
      | Inr next \<Rightarrow>
          if \<not> next > open \<or> next > q_To query
          then Inl (Wrapped ''slot does not advance within query'' [App ErrInvalidRange])
          else if gget False finals open
          then plan_loop p query calendar finals left (slot + 1) next start pending requests
          else
            (let flush = rq_Limit pending > 0 \<and> slot - start \<ge> pl_pageLimit p;
                 requests' = (if flush then requests @ [pending] else requests);
                 pending' = (if flush then zero_Request else pending);
                 fresh = rq_Limit pending' = 0;
                 start' = (if fresh then slot else start);
                 query' = (if fresh then \<lparr>q_Series = q_Series query, q_From = open, q_To = zero_time\<rparr>
                           else rq_Query pending')
             in plan_loop p query calendar finals left (slot + 1) next start'
                  \<lparr>rq_Query = query'\<lparr>q_To := next\<rparr>, rq_Limit = slot - start' + 1\<rparr> requests'))"

definition plan :: "Planner \<Rightarrow> Query \<Rightarrow> 'd Stored list \<Rightarrow> time \<Rightarrow> refreshes \<Rightarrow> Request list result" where
  "plan p query cached now refreshed =
     (case validate p query now of
        Inl e \<Rightarrow> Inl e
      | Inr (calendar, cnt) \<Rightarrow>
        (case finalSlots query calendar cnt cached now of
           Inl e \<Rightarrow> Inl e
         | Inr finals \<Rightarrow>
             plan_loop p query calendar (fold (mark_refreshed refreshed now) cached finals)
               (nat cnt) 0 (q_From query) 0 zero_Request []))"

definition Plan :: "Planner \<Rightarrow> Query \<Rightarrow> 'd Stored list \<Rightarrow> time \<Rightarrow> Request list result" where
  "Plan p query cached now = plan p query cached now []"


section \<open>What a valid query looks like\<close>

lemma validate_calendar:
  assumes "validate p query now = Inr (c, n)"
  shows "NewCalendar (sc_Exchange (se_Scope (q_Series query))) (sc_Market (se_Scope (q_Series query)))
      (se_Interval (q_Series query)) = Inr c"
    and "validate_range p c query now = Inr (c, n)" and "0 < pl_pageLimit p"
    and "se_Scope (q_Series query) = pl_scope p" and "se_Symbol (q_Series query) \<noteq> ''''"
    and "0 \<le> Unix (q_From query)"
  using assms by (auto simp: validate_def validate_range_def Let_def split: if_splits sum.splits option.splits)

text \<open>
  The range is a block of \<open>n\<close> slots that starts no earlier than the history cutoff and ends with the
  current slot at the latest.
\<close>

lemma validate_slots:
  assumes "validate p query now = Inr (c, n)"
  obtains i where "cal_wf c" and "q_From query = slot_start c i" and "q_To query = slot_start c (i + n)"
    and "in_years (q_From query)" and "in_years (q_To query)" and "0 \<le> n" and "n \<le> pl_historyCandles p"
    and "HistoryCutoff c now (pl_historyCandles p) = Inr (slot_start c (slot_index c now - pl_historyCandles p))"
    and "slot_index c now - pl_historyCandles p \<le> i" and "i + n \<le> slot_index c now + 1"
proof -
  have wf: "cal_wf c" using validate_calendar(1) [OF assms] by (rule NewCalendar_wf)
  note range = validate_calendar(2) [OF assms]
  have cnt: "CountSlots c (q_From query) (q_To query) (pl_historyCandles p) = Inr n"
    using range by (auto simp: validate_range_def Let_def split: if_splits sum.splits option.splits)
  obtain current where cur: "Floor c now = Inr current"
    using range by (auto simp: validate_range_def Let_def split: if_splits sum.splits option.splits)
  obtain cutoff where cut: "HistoryCutoff c now (pl_historyCandles p) = Inr cutoff" "cutoff \<le> q_From query"
    using range by (auto simp: validate_range_def Let_def split: if_splits sum.splits option.splits)
  have to: "q_To query \<le> current \<or> (\<exists>next. Next c current = Inr next \<and> q_To query \<le> next)"
    using range cur by (auto simp: validate_range_def Let_def split: if_splits sum.splits option.splits)
  from cal.count_ok [OF wf cnt] obtain i where i: "q_From query = slot_start c i" "q_To query = slot_start c (i + n)"
    "in_years (q_From query)" "in_years (q_To query)" "0 \<le> n" "n \<le> pl_historyCandles p" by blast
  note h = HistoryCutoff_start [OF wf cut(1)]
  have start: "current = slot_start c (slot_index c now)" using h(2) cur by simp
  have "q_To query \<le> slot_start c (slot_index c now + 1)"
  proof (cases "q_To query \<le> current")
    case True
    then show ?thesis using start cal.start_step [OF wf, of "slot_index c now"] by simp
  next
    case False
    then show ?thesis using to Next_start [OF wf, of "slot_index c now"] h(4) start by (auto split: if_splits)
  qed
  then have "i + n \<le> slot_index c now + 1" by (simp add: i cal.start_le_iff [OF wf])
  moreover have "slot_index c now - pl_historyCandles p \<le> i"
    using cut(2) h(3) by (simp add: i cal.start_le_iff [OF wf])
  ultimately show thesis using that wf i cut(1) h(3) by blast
qed

section \<open>Greedy pages\<close>

text \<open>
  Pages as pairs of first and last slot number; \<open>cur\<close> is the open page.
\<close>

fun pages :: "int \<Rightarrow> int list \<Rightarrow> (int \<times> int) option \<Rightarrow> (int \<times> int) list" where
  "pages limit [] cur = (case cur of None \<Rightarrow> [] | Some page \<Rightarrow> [page])"
| "pages limit (k # ks) None = pages limit ks (Some (k, k))"
| "pages limit (k # ks) (Some (s, e)) =
     (if k - s \<ge> limit then (s, e) # pages limit ks (Some (k, k)) else pages limit ks (Some (s, k)))"

definition page_ok :: "int \<Rightarrow> int set \<Rightarrow> int \<times> int \<Rightarrow> bool" where
  "page_ok limit A pg \<longleftrightarrow> fst pg \<le> snd pg \<and> snd pg - fst pg < limit \<and> fst pg \<in> A \<and> snd pg \<in> A"

definition page_before :: "int \<Rightarrow> int \<times> int \<Rightarrow> int \<times> int \<Rightarrow> bool" where
  "page_before limit pg pg' \<longleftrightarrow> fst pg + limit \<le> fst pg' \<and> snd pg < fst pg'"

definition page_has :: "int \<times> int \<Rightarrow> int \<Rightarrow> bool" where
  "page_has pg k \<longleftrightarrow> fst pg \<le> k \<and> k \<le> snd pg"

lemma pages_open_ok:
  assumes "sorted_wrt (<) (e # ks)" and "page_ok limit A (s, e)" and "set ks \<subseteq> A" and "pg \<in> set (pages limit ks (Some (s, e)))"
  shows "page_ok limit A pg \<and> s \<le> fst pg"
  using assms
proof (induction ks arbitrary: s e)
  case (Cons k ks)
  have k: "page_ok limit A (k, k)" "sorted_wrt (<) (k # ks)" "s \<le> k" "e < k"
    using Cons.prems by (auto simp: page_ok_def)
  show ?case
  proof (cases "k - s \<ge> limit")
    case True
    then show ?thesis using Cons.IH [of k k] Cons.prems k by (auto simp: page_ok_def)
  next
    case False
    then show ?thesis using Cons.IH [of k s] Cons.prems k by (auto simp: page_ok_def)
  qed
qed auto

lemma pages_open_sorted:
  assumes "sorted_wrt (<) (e # ks)" and "page_ok limit UNIV (s, e)"
  shows "sorted_wrt (page_before limit) (pages limit ks (Some (s, e)))"
  using assms
proof (induction ks arbitrary: s e)
  case (Cons k ks)
  have k: "page_ok limit UNIV (k, k)" "sorted_wrt (<) (k # ks)" "e < k"
    using Cons.prems by (auto simp: page_ok_def)
  show ?case
  proof (cases "k - s \<ge> limit")
    case True
    have "\<forall>pg \<in> set (pages limit ks (Some (k, k))). k \<le> fst pg" using pages_open_ok [OF k(2,1)] by simp
    with True k Cons.IH [OF k(2,1)] show ?thesis by (auto simp: page_before_def)
  next
    case False
    then show ?thesis using Cons.IH [of k s] Cons.prems k by (auto simp: page_ok_def)
  qed
qed simp

lemma pages_open_has:
  assumes "sorted_wrt (<) (e # ks)" and "s \<le> e" and "s \<le> j \<and> j \<le> e \<or> j \<in> set ks"
  shows "\<exists>pg \<in> set (pages limit ks (Some (s, e))). page_has pg j"
  using assms
proof (induction ks arbitrary: s e)
  case (Cons k ks)
  have k: "sorted_wrt (<) (k # ks)" "e < k" "s \<le> k" using Cons.prems by auto
  show ?case
  proof (cases "k - s \<ge> limit")
    case True
    then show ?thesis using Cons.IH [of k k] Cons.prems k by (auto simp: page_has_def)
  next
    case False
    then show ?thesis using Cons.IH [of k s] Cons.prems k by (auto simp: page_has_def)
  qed
qed (auto simp: page_has_def)

lemma pages_open_Nil [simp]: "pages limit ks (Some pg) \<noteq> []"
  by (induction ks arbitrary: pg) (auto split: prod.splits if_splits)

lemma pages_cover:
  assumes "sorted_wrt (<) ks" and "0 < limit"
  shows "pages limit ks None = [] \<longleftrightarrow> ks = []"
    and "pg \<in> set (pages limit ks None) \<Longrightarrow> page_ok limit (set ks) pg"
    and "sorted_wrt (page_before limit) (pages limit ks None)"
    and "k \<in> set ks \<Longrightarrow> \<exists>pg \<in> set (pages limit ks None). page_has pg k"
proof -
  show "pages limit ks None = [] \<longleftrightarrow> ks = []" by (cases ks) auto
  show "pg \<in> set (pages limit ks None) \<Longrightarrow> page_ok limit (set ks) pg"
    using assms pages_open_ok [of "hd ks" "tl ks" limit "set ks" "hd ks" pg] by (cases ks) (auto simp: page_ok_def)
  show "sorted_wrt (page_before limit) (pages limit ks None)"
    using assms pages_open_sorted [of "hd ks" "tl ks" limit "hd ks"] by (cases ks) (auto simp: page_ok_def)
  show "k \<in> set ks \<Longrightarrow> \<exists>pg \<in> set (pages limit ks None). page_has pg k"
    using assms pages_open_has [of "hd ks" "tl ks" "hd ks" k limit] by (cases ks) auto
qed

text \<open>
  No set of windows of \<open>limit\<close> slots that covers the required slots is smaller: the first slots of
  the pages lie at least \<open>limit\<close> apart, so each window holds at most one of them.
\<close>

lemma pages_optimal:
  assumes "sorted_wrt (<) ks" and "0 < limit" and "\<forall>k \<in> set ks. \<exists>w \<in> set ws. w \<le> k \<and> k < w + limit"
  shows "length (pages limit ks None) \<le> length ws"
proof -
  let ?ps = "pages limit ks None" and ?starts = "map fst (pages limit ks None)"
  note cover = pages_cover [OF assms(1,2)]
  have far: "sorted_wrt (\<lambda>a a'. a + limit \<le> a') ?starts"
    unfolding sorted_wrt_map by (rule sorted_wrt_mono_rel [OF _ cover(3)]) (simp add: page_before_def)
  have "sorted_wrt (<) ?starts" by (rule sorted_wrt_mono_rel [OF _ far]) (use assms(2) in simp)
  then have dist: "distinct ?starts" by (simp add: strict_sorted_iff)
  have gap: "a = a' \<or> a + limit \<le> a' \<or> a' + limit \<le> a" if "a \<in> set ?starts" "a' \<in> set ?starts" for a a'
  proof -
    from that obtain i j where ij: "i < length ?starts" "j < length ?starts" "a = ?starts ! i" "a' = ?starts ! j"
      unfolding in_set_conv_nth by blast
    with sorted_wrt_nth_less [OF far, of i j] sorted_wrt_nth_less [OF far, of j i] show ?thesis
      by (cases i j rule: linorder_cases) auto
  qed
  have "\<forall>a \<in> set ?starts. \<exists>w. w \<in> set ws \<and> w \<le> a \<and> a < w + limit"
    using cover(2) assms(3) by (auto simp: page_ok_def)
  then obtain f where f: "\<And>a. a \<in> set ?starts \<Longrightarrow> f a \<in> set ws \<and> f a \<le> a \<and> a < f a + limit" by metis
  have "inj_on f (set ?starts)"
  proof (rule inj_onI)
    fix a a' assume "a \<in> set ?starts" "a' \<in> set ?starts" "f a = f a'"
    with f [of a] f [of a'] gap [of a a'] show "a = a'" by linarith
  qed
  then have "card (set ?starts) \<le> card (set ws)" using f by (intro card_inj_on_le [of f]) auto
  then show ?thesis using dist distinct_card [of ?starts] card_length [of ws] by simp
qed


section \<open>The loop computes the greedy pages\<close>

definition page_request :: "Query \<Rightarrow> Calendar \<Rightarrow> int \<Rightarrow> int \<times> int \<Rightarrow> Request" where
  "page_request query c i pg = \<lparr>rq_Query = \<lparr>q_Series = q_Series query,
     q_From = slot_start c (i + fst pg), q_To = slot_start c (i + snd pg + 1)\<rparr>,
     rq_Limit = snd pg - fst pg + 1\<rparr>"

text \<open>The slots of a range of \<open>n\<close> slots from slot \<open>i\<close> that are not final, by their offset.\<close>

definition required :: "Calendar \<Rightarrow> int \<Rightarrow> (time, bool) gomap \<Rightarrow> int \<Rightarrow> int \<Rightarrow> int list" where
  "required c i finals from n = filter (\<lambda>k. \<not> gget False finals (slot_start c (i + k))) [from..n - 1]"

definition open_page :: "Query \<Rightarrow> Calendar \<Rightarrow> int \<Rightarrow> int \<Rightarrow> Request \<Rightarrow> int \<Rightarrow> (int \<times> int) option \<Rightarrow> bool" where
  "open_page query c i slot pending start cur \<longleftrightarrow>
     (case cur of
        None \<Rightarrow> rq_Limit pending = 0
      | Some pg \<Rightarrow> pending = page_request query c i pg \<and> start = fst pg \<and> fst pg \<le> snd pg \<and> snd pg < slot)"

lemma in_years_between:
  assumes "cal_wf c" and "in_years (slot_start c i)" and "in_years (slot_start c (i + n))" and "0 \<le> k" and "k \<le> n"
  shows "in_years (slot_start c (i + k))"
  using assms by (intro cal.supported_convex [OF assms(2,3)]) (simp_all add: cal.start_le_iff)

lemma plan_loop_pages:
  assumes wf: "cal_wf c" and years: "in_years (slot_start c i)" "in_years (slot_start c (i + n))"
    and to: "q_To query = slot_start c (i + n)"
  shows "0 \<le> slot \<Longrightarrow> slot + int left = n \<Longrightarrow> open_page query c i slot pending start cur \<Longrightarrow>
    plan_loop p query c finals left slot (slot_start c (i + slot)) start pending requests =
      Inr (requests @ map (page_request query c i) (pages (pl_pageLimit p) (required c i finals slot n) cur))"
proof (induction left arbitrary: slot start pending requests cur)
  case 0
  then show ?case
    by (cases cur) (auto simp: open_page_def required_def page_request_def)
next
  case (Suc left)
  have idle: "open_page query c i (slot + 1) pending start cur"
    using Suc.prems(3) by (auto simp: open_page_def split: option.splits)
  have next_year: "in_years (slot_start c (i + slot))" "in_years (slot_start c (i + (slot + 1)))"
    using in_years_between [OF wf years] Suc.prems(1,2) by simp_all
  have next_slot: "Next c (slot_start c (i + slot)) = Inr (slot_start c (i + (slot + 1)))"
    using Next_start [OF wf next_year(1)] next_year(2) by (simp add: add.assoc)
  have order: "slot_start c (i + slot) < slot_start c (i + (slot + 1))"
    "\<not> slot_start c (i + (slot + 1)) > q_To query"
    using Suc.prems(1,2) by (simp_all add: to cal.start_less_iff [OF wf])
  have req: "required c i finals slot n =
      (if gget False finals (slot_start c (i + slot)) then required c i finals (slot + 1) n
       else slot # required c i finals (slot + 1) n)"
    using Suc.prems(2) by (simp add: required_def upto_rec1)
  note IH = Suc.IH [of "slot + 1"]
  show ?case
  proof (cases "gget False finals (slot_start c (i + slot))")
    case True
    then show ?thesis using IH [OF _ _ idle] Suc.prems by (simp add: next_slot order req)
  next
    case False
    have fresh: "open_page query c i (slot + 1) \<lparr>rq_Query = \<lparr>q_Series = q_Series query, q_From = slot_start c (i + slot),
        q_To = slot_start c (i + (slot + 1))\<rparr>, rq_Limit = slot - slot + 1\<rparr> slot (Some (slot, slot))"
      by (simp add: open_page_def page_request_def add.assoc)
    show ?thesis
    proof (cases cur)
      case None
      then have "rq_Limit pending = 0" using Suc.prems(3) by (simp add: open_page_def)
      then show ?thesis using IH [OF _ _ fresh] Suc.prems False None by (simp add: next_slot order req Let_def)
    next
      case (Some pg)
      obtain s e where pg: "pg = (s, e)" by fastforce
      with Some Suc.prems(3) have pend: "pending = page_request query c i (s, e)" "start = s" "s \<le> e" "e < slot"
        by (simp_all add: open_page_def)
      show ?thesis
      proof (cases "slot - s \<ge> pl_pageLimit p")
        case True
        then show ?thesis using IH [OF _ _ fresh] Suc.prems False Some pg pend
          by (simp add: next_slot order req Let_def zero_Request_def page_request_def)
      next
        case in_page: False
        have "open_page query c i (slot + 1) \<lparr>rq_Query = (rq_Query pending)\<lparr>q_To := slot_start c (i + (slot + 1))\<rparr>,
            rq_Limit = slot - s + 1\<rparr> s (Some (s, slot))"
          using pend by (simp add: open_page_def page_request_def add.assoc)
        from IH [OF _ _ this] show ?thesis using Suc.prems False Some pg pend in_page
          by (simp add: next_slot order req Let_def page_request_def)
      qed
    qed
  qed
qed


section \<open>Cached rows\<close>

definition settled :: "refreshes \<Rightarrow> time \<Rightarrow> 'd Stored \<Rightarrow> bool" where
  "settled refreshed now row \<longleftrightarrow>
     k_CloseTime (st_Candle row) \<le> now \<and> k_CloseTime (st_Candle row) \<le> st_RequestStartedAt row
   \<or> refreshes_accepts refreshed row now"

definition cached_ok :: "Query \<Rightarrow> Calendar \<Rightarrow> 'd Stored \<Rightarrow> bool" where
  "cached_ok query c row \<longleftrightarrow> row_series row = q_Series query
     \<and> q_From query \<le> row_open row \<and> row_open row < q_To query
     \<and> Next c (row_open row) = Inr (k_CloseTime (st_Candle row))
     \<and> \<not> IsZero (st_RequestStartedAt row) \<and> \<not> IsZero (k_FetchedAt (st_Candle row))
     \<and> st_RequestStartedAt row \<le> k_FetchedAt (st_Candle row)"

lemma row_series_eq:
  "row_series row = series \<longleftrightarrow> k_Exchange (st_Candle row) = sc_Exchange (se_Scope series)
     \<and> k_Market (st_Candle row) = sc_Market (se_Scope series) \<and> k_Symbol (st_Candle row) = se_Symbol series
     \<and> k_Interval (st_Candle row) = se_Interval series"
proof -
  obtain ex m sy iv where "series = \<lparr>se_Scope = \<lparr>sc_Exchange = ex, sc_Market = m\<rparr>, se_Symbol = sy, se_Interval = iv\<rparr>"
    by (metis (full_types) Series.cases Scope.cases old.unit.exhaust)
  then show ?thesis by (simp add: row_series_def)
qed

lemma final_loop_Inr:
  "final_loop query c now rows finals = Inr out \<longleftrightarrow>
     (\<forall>row \<in> set rows. cached_ok query c row \<and> \<not> ghas finals (row_open row)) \<and> distinct (map row_open rows)
   \<and> out = finals @ map (\<lambda>row. (row_open row,
        k_CloseTime (st_Candle row) \<le> now \<and> k_CloseTime (st_Candle row) \<le> st_RequestStartedAt row)) rows"
proof (induction rows arbitrary: finals)
  case (Cons row rows)
  show ?case
  proof (cases "cached_ok query c row \<and> \<not> ghas finals (row_open row)")
    case True
    then have "final_loop query c now (row # rows) finals = final_loop query c now rows (finals @ [(row_open row,
        k_CloseTime (st_Candle row) \<le> now \<and> k_CloseTime (st_Candle row) \<le> st_RequestStartedAt row)])"
      by (simp add: cached_ok_def row_series_eq update_new Let_def not_less)
    then show ?thesis using True by (auto simp: Cons.IH ghas_append ghas_Cons image_iff)
  next
    case False
    then have "\<nexists>out. final_loop query c now (row # rows) finals = Inr out"
      by (auto simp: cached_ok_def row_series_eq Let_def)
    with False show ?thesis by auto
  qed
qed auto

lemma finalSlots_Inr:
  "finalSlots query c n cached now = Inr out \<longleftrightarrow>
     int (length cached) \<le> n \<and> (\<forall>row \<in> set cached. cached_ok query c row) \<and> distinct (map row_open cached)
   \<and> out = map (\<lambda>row. (row_open row,
        k_CloseTime (st_Candle row) \<le> now \<and> k_CloseTime (st_Candle row) \<le> st_RequestStartedAt row)) cached"
  by (auto simp: finalSlots_def final_loop_Inr)

lemma fold_mark_refreshed:
  "gget False (fold (mark_refreshed refreshed now) rows finals) t \<longleftrightarrow>
     gget False finals t \<or> (\<exists>row \<in> set rows. row_open row = t \<and> refreshes_accepts refreshed row now)"
  by (induction rows arbitrary: finals) (auto simp: mark_refreshed_def)

lemma finals_settled:
  assumes "finalSlots query c n cached now = Inr finals"
  shows "gget False (fold (mark_refreshed refreshed now) cached finals) t \<longleftrightarrow>
    (\<exists>row \<in> set cached. row_open row = t \<and> settled refreshed now row)"
proof -
  from assms have d: "distinct (map row_open cached)" and out: "finals = map (\<lambda>row. (row_open row,
        k_CloseTime (st_Candle row) \<le> now \<and> k_CloseTime (st_Candle row) \<le> st_RequestStartedAt row)) cached"
    by (simp_all add: finalSlots_Inr)
  have "gwf finals" using d by (simp add: gwf_def out comp_def)
  then have "gget False finals t \<longleftrightarrow> (t, True) \<in> set finals"
    by (auto simp: gget_def gwf_map_of [symmetric] split: option.splits)
  also have "\<dots> \<longleftrightarrow> (\<exists>row \<in> set cached. row_open row = t
      \<and> k_CloseTime (st_Candle row) \<le> now \<and> k_CloseTime (st_Candle row) \<le> st_RequestStartedAt row)"
    by (auto simp: out image_iff)
  finally show ?thesis by (auto simp: fold_mark_refreshed settled_def)
qed

text \<open>The slots of the query for which no cached row settles the value.\<close>

definition unsettled :: "Query \<Rightarrow> Calendar \<Rightarrow> 'd Stored list \<Rightarrow> time \<Rightarrow> refreshes \<Rightarrow> time set" where
  "unsettled query c cached now refreshed = {t. q_From query \<le> t \<and> t < q_To query \<and> (\<exists>k. t = slot_start c k)
     \<and> \<not> (\<exists>row \<in> set cached. row_open row = t \<and> settled refreshed now row)}"

lemma plan_accepts:
  "(\<exists>reqs. plan p query cached now refreshed = Inr reqs) \<longleftrightarrow>
     (\<exists>c n. validate p query now = Inr (c, n) \<and> int (length cached) \<le> n
        \<and> (\<forall>row \<in> set cached. cached_ok query c row) \<and> distinct (map row_open cached))"
proof
  assume "\<exists>reqs. plan p query cached now refreshed = Inr reqs"
  then show "\<exists>c n. validate p query now = Inr (c, n) \<and> int (length cached) \<le> n
        \<and> (\<forall>row \<in> set cached. cached_ok query c row) \<and> distinct (map row_open cached)"
    by (auto simp: plan_def finalSlots_Inr split: sum.splits prod.splits)
next
  assume "\<exists>c n. validate p query now = Inr (c, n) \<and> int (length cached) \<le> n
        \<and> (\<forall>row \<in> set cached. cached_ok query c row) \<and> distinct (map row_open cached)"
  then obtain c n finals where v: "validate p query now = Inr (c, n)" and f: "finalSlots query c n cached now = Inr finals"
    using finalSlots_Inr by fast
  obtain i where i: "cal_wf c" "q_From query = slot_start c i" "q_To query = slot_start c (i + n)"
    "in_years (q_From query)" "in_years (q_To query)" "0 \<le> n" by (rule validate_slots [OF v])
  show "\<exists>reqs. plan p query cached now refreshed = Inr reqs"
    using plan_loop_pages [OF i(1), of i n query 0 "nat n" zero_Request 0 None p] i v f
    by (simp add: plan_def open_page_def zero_Request_def)
qed

lemma plan_pages:
  assumes v: "validate p query now = Inr (c, n)" and plan: "plan p query cached now refreshed = Inr reqs"
  obtains i ks where "cal_wf c"
    and "q_From query = slot_start c i" and "q_To query = slot_start c (i + n)"
    and "in_years (q_From query)" and "in_years (q_To query)" and "0 \<le> n"
    and "sorted_wrt (<) ks" and "set ks \<subseteq> {0..<n}"
    and "\<forall>t. t \<in> unsettled query c cached now refreshed \<longleftrightarrow> (\<exists>k \<in> set ks. t = slot_start c (i + k))"
    and "reqs = map (page_request query c i) (pages (pl_pageLimit p) ks None)"
proof -
  from assms obtain finals where f: "finalSlots query c n cached now = Inr finals"
    by (auto simp: plan_def split: sum.splits)
  obtain i where i: "cal_wf c" "q_From query = slot_start c i" "q_To query = slot_start c (i + n)"
    "in_years (q_From query)" "in_years (q_To query)" "0 \<le> n" by (rule validate_slots [OF v])
  let ?fin = "fold (mark_refreshed refreshed now) cached finals"
  let ?ks = "required c i ?fin 0 n"
  have "reqs = map (page_request query c i) (pages (pl_pageLimit p) ?ks None)"
    using plan plan_loop_pages [OF i(1), of i n query 0 "nat n" zero_Request 0 None p ?fin "[]"] i v f
    by (simp add: plan_def open_page_def zero_Request_def)
  moreover have "sorted_wrt (<) ?ks" unfolding required_def by (intro sorted_wrt_filter sorted_wrt_upto)
  moreover have "set ?ks \<subseteq> {0..<n}" by (auto simp: required_def)
  moreover have "t \<in> unsettled query c cached now refreshed \<longleftrightarrow> (\<exists>k \<in> set ?ks. t = slot_start c (i + k))" for t
  proof
    assume t: "t \<in> unsettled query c cached now refreshed"
    then obtain j where j: "t = slot_start c j" by (auto simp: unsettled_def)
    with t i have "i \<le> j" "j < i + n" by (simp_all add: unsettled_def cal.start_le_iff cal.start_less_iff)
    then have "j - i \<in> set ?ks" using t j by (simp add: required_def finals_settled [OF f] unsettled_def)
    with j show "\<exists>k \<in> set ?ks. t = slot_start c (i + k)" by (intro bexI [of _ "j - i"]) simp_all
  next
    assume "\<exists>k \<in> set ?ks. t = slot_start c (i + k)"
    then show "t \<in> unsettled query c cached now refreshed" using i
      by (auto simp: required_def finals_settled [OF f] unsettled_def cal.start_le_iff cal.start_less_iff)
  qed
  ultimately show thesis using that i by blast
qed


section \<open>Properties\<close>

text \<open>A planner, a query of four one-minute slots and one final cached row for the witnesses.\<close>

definition ex_planner :: Planner where
  "ex_planner = \<lparr>pl_scope = se_Scope ex_series, pl_supported = [''1m''], pl_historyCandles = 5, pl_pageLimit = 2\<rparr>"

definition ex_query :: Query where
  "ex_query = \<lparr>q_Series = ex_series, q_From = ex_open 0, q_To = ex_open 4\<rparr>"

definition ex_calendar :: Calendar where
  "ex_calendar = \<lparr>cal_interval = ''1m'', cal_anchor = 0\<rparr>"

lemma ex_validate: "validate ex_planner ex_query (ex_open 3 + 5) = Inr (ex_calendar, 4)"
  by code_simp

lemma ex_plan: "plan ex_planner ex_query [ex_row 1 (ex_open 2) 7] (ex_open 3 + 5) [] = Inr [
    \<lparr>rq_Query = \<lparr>q_Series = ex_series, q_From = ex_open 0, q_To = ex_open 1\<rparr>, rq_Limit = 1\<rparr>,
    \<lparr>rq_Query = \<lparr>q_Series = ex_series, q_From = ex_open 2, q_To = ex_open 4\<rparr>, rq_Limit = 2\<rparr>]"
  by code_simp

text \<open>
  A query passes validation only inside the served window: the range is a whole number of slots, at
  most the configured history, none opens before the history cutoff or before 1970, and none opens
  after the clock value used for planning.
\<close>

theorem validate_window:
  assumes "validate p query now = Inr (c, n)"
  shows "CountSlots c (q_From query) (q_To query) (pl_historyCandles p) = Inr n
    \<and> 0 \<le> n \<and> n \<le> pl_historyCandles p
    \<and> (\<exists>cutoff. HistoryCutoff c now (pl_historyCandles p) = Inr cutoff \<and> cutoff \<le> q_From query)
    \<and> (\<forall>k. q_From query \<le> slot_start c k \<and> slot_start c k < q_To query \<longrightarrow>
         slot_start c k \<le> now \<and> 0 \<le> Unix (slot_start c k))"
proof -
  obtain i where i: "cal_wf c" "q_From query = slot_start c i" "q_To query = slot_start c (i + n)"
    "in_years (q_From query)" "in_years (q_To query)" "0 \<le> n" "n \<le> pl_historyCandles p"
    "HistoryCutoff c now (pl_historyCandles p) = Inr (slot_start c (slot_index c now - pl_historyCandles p))"
    "slot_index c now - pl_historyCandles p \<le> i" "i + n \<le> slot_index c now + 1"
    by (rule validate_slots [OF assms])
  have "CountSlots c (q_From query) (q_To query) (pl_historyCandles p) = Inr n"
    using cal.count_start [OF i(1), of i "i + n"] i by simp
  moreover have "slot_start c k \<le> now \<and> 0 \<le> Unix (slot_start c k)"
    if "q_From query \<le> slot_start c k" "slot_start c k < q_To query" for k
  proof
    show "slot_start c k \<le> now" using that i by (simp add: cal.start_less_iff flip: cal.index_le)
    show "0 \<le> Unix (slot_start c k)"
      using validate_calendar(6) [OF assms] that(1) by (simp add: Unix_def)
  qed
  ultimately show ?thesis using i by (auto simp: cal.start_le_iff)
qed

theorem validate_window_witness:
  "CountSlots ex_calendar (q_From ex_query) (q_To ex_query) 5 = Inr 4
    \<and> (\<exists>cutoff. HistoryCutoff ex_calendar (ex_open 3 + 5) 5 = Inr cutoff \<and> cutoff \<le> ex_open 0)"
  using validate_window [OF ex_validate] by (simp add: ex_planner_def ex_query_def)

text \<open>
  C6. A plan covers exactly what is missing. Every page is a non-empty block of whole slots inside the
  query, its limit is its slot count and at most the page limit, and it starts and ends at a slot
  that needs data; pages are in ascending order without overlap; every slot of the query whose value
  is not settled by a cached row lies in a page; and there is no page when nothing is missing.
\<close>

theorem plan_covers_missing:
  assumes "validate p query now = Inr (c, n)" and "plan p query cached now refreshed = Inr reqs"
  shows "(\<forall>r \<in> set reqs. q_Series (rq_Query r) = q_Series query
       \<and> q_From query \<le> q_From (rq_Query r) \<and> q_To (rq_Query r) \<le> q_To query
       \<and> 1 \<le> rq_Limit r \<and> CountSlots c (q_From (rq_Query r)) (q_To (rq_Query r)) (pl_pageLimit p) = Inr (rq_Limit r)
       \<and> q_From (rq_Query r) \<in> unsettled query c cached now refreshed
       \<and> (\<exists>t \<in> unsettled query c cached now refreshed. Next c t = Inr (q_To (rq_Query r))))
    \<and> sorted_wrt (\<lambda>r r'. q_To (rq_Query r) \<le> q_From (rq_Query r')) reqs
    \<and> (\<forall>t \<in> unsettled query c cached now refreshed. \<exists>r \<in> set reqs. q_From (rq_Query r) \<le> t \<and> t < q_To (rq_Query r))
    \<and> (reqs = [] \<longleftrightarrow> unsettled query c cached now refreshed = {})"
proof -
  obtain i ks where i: "cal_wf c" "q_From query = slot_start c i" "q_To query = slot_start c (i + n)"
    "in_years (q_From query)" "in_years (q_To query)" "0 \<le> n"
    and ks: "sorted_wrt (<) ks" "set ks \<subseteq> {0..<n}"
    and need: "\<forall>t. t \<in> unsettled query c cached now refreshed \<longleftrightarrow> (\<exists>k \<in> set ks. t = slot_start c (i + k))"
    and reqs: "reqs = map (page_request query c i) (pages (pl_pageLimit p) ks None)"
    by (rule plan_pages [OF assms(1,2)])
  have limit: "0 < pl_pageLimit p" by (rule validate_calendar(3) [OF assms(1)])
  note cover = pages_cover [OF ks(1) limit]
  have years: "in_years (slot_start c (i + k))" if "0 \<le> k" "k \<le> n" for k
    using in_years_between [OF i(1) _ _ that] i by simp
  have each: "q_Series (rq_Query r) = q_Series query
       \<and> q_From query \<le> q_From (rq_Query r) \<and> q_To (rq_Query r) \<le> q_To query
       \<and> 1 \<le> rq_Limit r \<and> CountSlots c (q_From (rq_Query r)) (q_To (rq_Query r)) (pl_pageLimit p) = Inr (rq_Limit r)
       \<and> q_From (rq_Query r) \<in> unsettled query c cached now refreshed
       \<and> (\<exists>t \<in> unsettled query c cached now refreshed. Next c t = Inr (q_To (rq_Query r)))" if "r \<in> set reqs" for r
  proof -
    from that obtain a b where r: "r = page_request query c i (a, b)" and ok: "page_ok (pl_pageLimit p) (set ks) (a, b)"
      using cover(2) by (force simp: reqs)
    from ok ks(2) have ab: "a \<le> b" "b - a < pl_pageLimit p" "0 \<le> a" "b < n" "a \<in> set ks" "b \<in> set ks"
      by (auto simp: page_ok_def)
    have "CountSlots c (slot_start c (i + a)) (slot_start c (i + (b + 1))) (pl_pageLimit p) = Inr (b - a + 1)"
      using cal.count_start [OF i(1) years years, of a "b + 1"] ab by simp
    moreover have "Next c (slot_start c (i + b)) = Inr (slot_start c (i + (b + 1)))"
      using Next_start [OF i(1) years, of b] years [of "b + 1"] ab by (simp add: add.assoc)
    ultimately show ?thesis using ab need i
      by (auto simp: r page_request_def cal.start_le_iff add.assoc)
  qed
  have "sorted_wrt (\<lambda>pg pg'. q_To (rq_Query (page_request query c i pg)) \<le> q_From (rq_Query (page_request query c i pg')))
      (pages (pl_pageLimit p) ks None)"
    by (rule sorted_wrt_mono_rel [OF _ cover(3)]) (auto simp: page_before_def page_request_def cal.start_le_iff [OF i(1)])
  then have sorted: "sorted_wrt (\<lambda>r r'. q_To (rq_Query r) \<le> q_From (rq_Query r')) reqs"
    by (simp add: reqs sorted_wrt_map)
  have covered: "\<exists>r \<in> set reqs. q_From (rq_Query r) \<le> t \<and> t < q_To (rq_Query r)"
    if "t \<in> unsettled query c cached now refreshed" for t
    using that cover(4) by (fastforce simp: need reqs page_request_def page_has_def cal.start_le_iff [OF i(1)] cal.start_less_iff [OF i(1)])
  have "reqs = [] \<longleftrightarrow> unsettled query c cached now refreshed = {}"
    using cover(1) need by (cases ks) (auto simp: reqs)
  with each sorted covered show ?thesis by blast
qed

theorem plan_covers_missing_witness:
  "ex_open 0 \<in> unsettled ex_query ex_calendar [ex_row 1 (ex_open 2) 7] (ex_open 3 + 5) []
    \<and> ex_open 2 \<in> unsettled ex_query ex_calendar [ex_row 1 (ex_open 2) 7] (ex_open 3 + 5) []"
  using plan_covers_missing [OF ex_validate ex_plan] by simp

text \<open>
  C19. A plan uses the fewest pages: any set of windows of at most the page limit of consecutive slots
  that covers the missing slots has at least as many windows.
\<close>

theorem plan_minimal:
  assumes "validate p query now = Inr (c, n)" and "plan p query cached now refreshed = Inr reqs"
    and "\<forall>k. slot_start c k \<in> unsettled query c cached now refreshed \<longrightarrow>
      (\<exists>w \<in> set windows. w \<le> k \<and> k < w + pl_pageLimit p)"
  shows "length reqs \<le> length windows"
proof -
  obtain i ks where wf: "cal_wf c" and ks: "sorted_wrt (<) ks"
    and need: "\<forall>t. t \<in> unsettled query c cached now refreshed \<longleftrightarrow> (\<exists>k \<in> set ks. t = slot_start c (i + k))"
    and reqs: "reqs = map (page_request query c i) (pages (pl_pageLimit p) ks None)"
    by (rule plan_pages [OF assms(1,2)])
  have "\<forall>k \<in> set ks. \<exists>w \<in> set (map (\<lambda>w. w - i) windows). w \<le> k \<and> k < w + pl_pageLimit p"
  proof
    fix k assume "k \<in> set ks"
    with need assms(3) obtain w where "w \<in> set windows" "w \<le> i + k" "i + k < w + pl_pageLimit p" by blast
    then show "\<exists>w \<in> set (map (\<lambda>w. w - i) windows). w \<le> k \<and> k < w + pl_pageLimit p"
      by (intro bexI [of _ "w - i"]) auto
  qed
  from pages_optimal [OF ks validate_calendar(3) [OF assms(1)] this] show ?thesis by (simp add: reqs)
qed

theorem plan_minimal_witness:
  "\<exists>reqs. plan ex_planner ex_query [ex_row 1 (ex_open 2) 7] (ex_open 3 + 5) [] = Inr reqs \<and> length reqs \<le> 2"
proof -
  let ?need = "unsettled ex_query ex_calendar [ex_row 1 (ex_open 2) 7] (ex_open 3 + 5) []"
  have wf: "cal_wf ex_calendar" by code_simp
  have ends: "q_From ex_query = slot_start ex_calendar 28333334" "q_To ex_query = slot_start ex_calendar 28333338" by code_simp+
  have "\<exists>w \<in> set [28333334, 28333336]. w \<le> k \<and> k < w + pl_pageLimit ex_planner"
    if "slot_start ex_calendar k \<in> ?need" for k
  proof -
    from that have "28333334 \<le> k" "k < 28333338"
      by (auto simp: unsettled_def ends cal.start_le_iff [OF wf] cal.start_less_iff [OF wf])
    then show ?thesis by (auto simp: ex_planner_def)
  qed
  with plan_minimal [OF ex_validate ex_plan, of "[28333334, 28333336]"] ex_plan show ?thesis by auto
qed
end
