(* ===== verification/Kline_Fills.thy ===== *)
theory Kline_Fills
  imports Kline_Planner
begin

text \<open>
  Admission, sharing and completion of candle fills: the lock-protected state of
  \<open>src/internal/application/kline/service.go\<close> and the operations of
  \<open>src/internal/application/kline/fill.go\<close> on it.

  Fills and caller budgets are heap objects in Go, so they have addresses here: \<open>sv_heap\<close> and
  \<open>sv_budgets\<close>. Each critical section of \<open>Service.mu\<close> is one function; the step relation
  \<open>fill_step\<close> interleaves the sections of any number of callers and fills, with the program order
  of a caller (\<open>Get\<close>: join, wait, join again) kept in a phase per budget. Channels that are closed
  are counters of \<open>close\<close> calls, because a second \<open>close\<close> panics in Go.
\<close>

section \<open>State\<close>

record Settings =
  set_HistoryCandles :: int
  set_MaxCallers :: int
  set_MaxActiveFills :: int
  set_MaxActiveFillsPerExchange :: int
  set_MaxAttempts :: int
  set_FillTimeout :: duration

record Event =
  e_Scope :: Scope
  e_CacheRead :: bool
  e_CacheHit :: bool
  e_FillStarted :: bool
  e_SharedWait :: bool
  e_Attempts :: int
  e_Downloaded :: nat
  e_Completed :: bool
  e_Duration :: duration
  e_Symbol :: string
  e_Interval :: Timeframe
  e_Error :: "error option"

definition event :: "Scope \<Rightarrow> Event" where
  "event scope = \<lparr>e_Scope = scope, e_CacheRead = False, e_CacheHit = False, e_FillStarted = False,
     e_SharedWait = False, e_Attempts = 0, e_Downloaded = 0, e_Completed = False,
     e_Duration = 0, e_Symbol = [], e_Interval = [], e_Error = None\<rparr>"

type_synonym budget_ref = nat
type_synonym fill_ref = nat

record callerBudget =
  cb_remaining :: int
  cb_exhausted :: nat

record fill =
  fl_done :: nat
  fl_callers :: "budget_ref list"
  fl_refreshed :: refreshes
  fl_saved :: refreshes
  fl_err :: "error option"
  fl_attempts :: int

record Service =
  sv_settings :: Settings
  sv_stopped :: bool
  sv_fills :: "(Series, fill_ref) gomap"
  sv_active :: "(Exchange, int) gomap"
  sv_owned :: int
  sv_heap :: "(fill_ref, fill) gomap"
  sv_budgets :: "(budget_ref, callerBudget) gomap"
  sv_events :: "Event list"

definition contextError :: "error option \<Rightarrow> error option \<Rightarrow> error option" where
  "contextError ctx_err root_err = (case ctx_err of Some e \<Rightarrow> Some e | None \<Rightarrow> root_err)"

definition emit :: "Event \<Rightarrow> Service \<Rightarrow> Service" where
  "emit e s = s\<lparr>sv_events := sv_events s @ [e]\<rparr>"

definition the_fill :: "Service \<Rightarrow> fill_ref \<Rightarrow> fill" where
  "the_fill s f = the (map_of (sv_heap s) f)"

definition the_budget :: "Service \<Rightarrow> budget_ref \<Rightarrow> callerBudget" where
  "the_budget s b = the (map_of (sv_budgets s) b)"

definition set_fill :: "fill_ref \<Rightarrow> fill \<Rightarrow> Service \<Rightarrow> Service" where
  "set_fill f v s = s\<lparr>sv_heap := AList.update f v (sv_heap s)\<rparr>"

definition set_budget :: "budget_ref \<Rightarrow> callerBudget \<Rightarrow> Service \<Rightarrow> Service" where
  "set_budget b v s = s\<lparr>sv_budgets := AList.update b v (sv_budgets s)\<rparr>"

section \<open>Critical sections\<close>

text \<open>
  \<open>fresh\<close> is the address of the fill that is allocated when there is none to share; \<open>err\<close> is the
  value of \<open>contextError\<close> under the lock. The background goroutines started at the end are the
  steps \<open>attempt\<close> and \<open>complete\<close>.
\<close>

definition join :: "error option \<Rightarrow> Query \<Rightarrow> refreshes \<Rightarrow> budget_ref \<Rightarrow> fill_ref \<Rightarrow> Service
    \<Rightarrow> Service \<times> fill_ref result" where
  "join err query refreshed b fresh s =
     (let series = q_Series query; scope = se_Scope series; ex = sc_Exchange scope in
      if sv_stopped s then (s, Inl Canceled)
      else (case err of
         Some e \<Rightarrow> (s, Inl e)
       | None \<Rightarrow>
         (case map_of (sv_fills s) series of
            Some f \<Rightarrow>
              (let fill = the_fill s f; budget = the_budget s b in
               if fl_attempts fill > cb_remaining budget then (s, Inl (App ErrUpstreamAttemptLimit))
               else (emit ((event scope)\<lparr>e_SharedWait := True\<rparr>)
                       (set_fill f (fill\<lparr>fl_callers := List.insert b (fl_callers fill)\<rparr>)
                         (set_budget b (budget\<lparr>cb_remaining := cb_remaining budget - fl_attempts fill\<rparr>) s)),
                     Inr f))
          | None \<Rightarrow>
              if int (length (sv_fills s)) \<ge> set_MaxActiveFills (sv_settings s)
                \<or> gget 0 (sv_active s) ex \<ge> set_MaxActiveFillsPerExchange (sv_settings s)
              then (s, Inl (App ErrServiceOverloaded))
              else
                (let fill = \<lparr>fl_done = 0, fl_callers = [b], fl_refreshed = refreshed, fl_saved = [],
                       fl_err = None, fl_attempts = 0\<rparr>;
                     s1 = set_fill fresh fill s;
                     s2 = s1\<lparr>sv_fills := AList.update series fresh (sv_fills s1),
                            sv_active := AList.update ex (gget 0 (sv_active s1) ex + 1) (sv_active s1),
                            sv_owned := sv_owned s1 + 1\<rparr>
                 in (emit ((event scope)\<lparr>e_FillStarted := True\<rparr>) s2, Inr fresh)))))"

definition charge :: "fill_ref \<Rightarrow> budget_ref \<Rightarrow> Service \<Rightarrow> Service" where
  "charge f b s =
     (let budget = the_budget s b in
      if cb_remaining budget = 0
      then set_fill f ((the_fill s f)\<lparr>fl_callers := removeAll b (fl_callers (the_fill s f))\<rparr>)
             (set_budget b (budget\<lparr>cb_exhausted := cb_exhausted budget + 1\<rparr>) s)
      else set_budget b (budget\<lparr>cb_remaining := cb_remaining budget - 1\<rparr>) s)"

definition attempt :: "Query \<Rightarrow> fill_ref \<Rightarrow> Service \<Rightarrow> Service" where
  "attempt query f s =
     (let fill = the_fill s f;
          s1 = set_fill f (fill\<lparr>fl_attempts := fl_attempts fill + 1\<rparr>) s
      in emit ((event (se_Scope (q_Series query)))\<lparr>e_Attempts := 1\<rparr>) (fold (charge f) (fl_callers fill) s1))"

text \<open>The goroutine that receives the result of the shared call.\<close>

definition complete :: "Query \<Rightarrow> fill_ref \<Rightarrow> error option \<Rightarrow> Service \<Rightarrow> Service" where
  "complete query f err s =
     (let series = q_Series query; ex = sc_Exchange (se_Scope series);
          fill = the_fill s f;
          s1 = set_fill f (fill\<lparr>fl_err := err, fl_done := fl_done fill + 1\<rparr>) s
      in s1\<lparr>sv_fills := AList.delete series (sv_fills s1),
            sv_active := AList.update ex (gget 0 (sv_active s1) ex - 1) (sv_active s1),
            sv_owned := sv_owned s1 - 1\<rparr>)"

text \<open>The deferred section of \<open>wait\<close>.\<close>

definition leave :: "fill_ref \<Rightarrow> budget_ref \<Rightarrow> Service \<Rightarrow> Service" where
  "leave f b s = set_fill f ((the_fill s f)\<lparr>fl_callers := removeAll b (fl_callers (the_fill s f))\<rparr>) s"

text \<open>
  The outcomes of the \<open>select\<close> in \<open>wait\<close>: any ready case may be taken; \<open>ctx\<close> and \<open>root\<close> are the
  errors of the two contexts. The inner \<open>select\<close> prefers an exhausted budget.
\<close>

definition wait_outcome :: "error option \<Rightarrow> error option \<Rightarrow> callerBudget \<Rightarrow> fill \<Rightarrow> error option \<Rightarrow> bool" where
  "wait_outcome ctx root budget fill out \<longleftrightarrow>
     (ctx \<noteq> None \<and> out = ctx)
   \<or> (root \<noteq> None \<and> out = root)
   \<or> (cb_exhausted budget > 0 \<and> out = Some (App ErrUpstreamAttemptLimit))
   \<or> (fl_done fill > 0 \<and> out = (if cb_exhausted budget > 0 then Some (App ErrUpstreamAttemptLimit) else fl_err fill))"

definition Service_stop :: "Service \<Rightarrow> Service" where
  "Service_stop s = s\<lparr>sv_stopped := True\<rparr>"

section \<open>Interleaving\<close>

datatype phase = Absent | Running | Waiting fill_ref | Finished

definition initial :: "Settings \<Rightarrow> Service" where
  "initial settings = \<lparr>sv_settings = settings, sv_stopped = False, sv_fills = [], sv_active = [],
     sv_owned = 0, sv_heap = [], sv_budgets = [], sv_events = []\<rparr>"

text \<open>
  A caller that runs has checked \<open>budget.remaining\<close>; it leaves a wait either to return or, when the
  fill is done and its budget is not exhausted, to read and join again. Attempts and the completion
  belong to a fill that is still registered.
\<close>

inductive fill_step :: "Service \<times> (budget_ref \<Rightarrow> phase) \<Rightarrow> Service \<times> (budget_ref \<Rightarrow> phase) \<Rightarrow> bool" where
  step_start: "ph b = Absent \<Longrightarrow>
    fill_step (s, ph) (set_budget b \<lparr>cb_remaining = set_MaxAttempts (sv_settings s), cb_exhausted = 0\<rparr> s,
      ph(b := Running))"
| step_join: "ph b = Running \<Longrightarrow> cb_remaining (the_budget s b) \<noteq> 0 \<Longrightarrow> \<not> ghas (sv_heap s) fresh \<Longrightarrow>
    join err query refreshed b fresh s = (s', Inr f) \<Longrightarrow> fill_step (s, ph) (s', ph(b := Waiting f))"
| step_return: "ph b = Running \<Longrightarrow> fill_step (s, ph) (s, ph(b := Finished))"
| step_attempt: "map_of (sv_fills s) (q_Series query) = Some f \<Longrightarrow>
    fill_step (s, ph) (attempt query f s, ph)"
| step_complete: "map_of (sv_fills s) (q_Series query) = Some f \<Longrightarrow>
    fill_step (s, ph) (complete query f err s, ph)"
| step_leave: "ph b = Waiting f \<Longrightarrow> fill_step (s, ph) (leave f b s, ph(b := Finished))"
| step_again: "ph b = Waiting f \<Longrightarrow> fl_done (the_fill s f) > 0 \<Longrightarrow> cb_exhausted (the_budget s b) = 0 \<Longrightarrow>
    fill_step (s, ph) (leave f b s, ph(b := Running))"
| step_stop: "fill_step (s, ph) (Service_stop s, ph)"

inductive fill_reachable :: "Settings \<Rightarrow> Service \<times> (budget_ref \<Rightarrow> phase) \<Rightarrow> bool" for settings where
  reach_init: "fill_reachable settings (initial settings, \<lambda>_. Absent)"
| reach_step: "fill_reachable settings c \<Longrightarrow> fill_step c c' \<Longrightarrow> fill_reachable settings c'"


inductive_cases fill_stepE [consumes 1, case_names step_start step_join step_return step_attempt
    step_complete step_leave step_again step_stop]: "fill_step (s, ph) (s', ph')"

section \<open>Facts about the sections\<close>

lemmas section_defs = emit_def set_fill_def set_budget_def

lemma section_fields [simp]:
  "sv_fills (emit e s) = sv_fills s" "sv_fills (set_fill f v s) = sv_fills s" "sv_fills (set_budget b c s) = sv_fills s"
  "sv_heap (emit e s) = sv_heap s" "sv_heap (set_fill f v s) = AList.update f v (sv_heap s)" "sv_heap (set_budget b c s) = sv_heap s"
  "sv_budgets (emit e s) = sv_budgets s" "sv_budgets (set_fill f v s) = sv_budgets s"
  "sv_budgets (set_budget b c s) = AList.update b c (sv_budgets s)"
  "sv_active (emit e s) = sv_active s" "sv_active (set_fill f v s) = sv_active s" "sv_active (set_budget b c s) = sv_active s"
  "sv_settings (emit e s) = sv_settings s" "sv_settings (set_fill f v s) = sv_settings s" "sv_settings (set_budget b c s) = sv_settings s"
  "sv_stopped (emit e s) = sv_stopped s" "sv_stopped (set_fill f v s) = sv_stopped s" "sv_stopped (set_budget b c s) = sv_stopped s"
  "sv_owned (emit e s) = sv_owned s" "sv_owned (set_fill f v s) = sv_owned s" "sv_owned (set_budget b c s) = sv_owned s"
  by (simp_all add: section_defs)

definition charged :: "callerBudget \<Rightarrow> callerBudget" where
  "charged c = (if cb_remaining c = 0 then c\<lparr>cb_exhausted := cb_exhausted c + 1\<rparr>
     else c\<lparr>cb_remaining := cb_remaining c - 1\<rparr>)"

lemma charge_other [simp]:
  "sv_fills (charge f b s) = sv_fills s" "sv_active (charge f b s) = sv_active s"
  "sv_settings (charge f b s) = sv_settings s" "sv_stopped (charge f b s) = sv_stopped s"
  "sv_owned (charge f b s) = sv_owned s"
  by (simp_all add: charge_def Let_def)

lemma fold_charge_other [simp]:
  "sv_fills (fold (charge f) bs s) = sv_fills s" "sv_active (fold (charge f) bs s) = sv_active s"
  "sv_settings (fold (charge f) bs s) = sv_settings s" "sv_stopped (fold (charge f) bs s) = sv_stopped s"
  "sv_owned (fold (charge f) bs s) = sv_owned s"
  by (induction bs arbitrary: s) simp_all

lemma charge_effect:
  assumes "map_of (sv_heap s) f = Some v" and "map_of (sv_budgets s) b = Some c"
  shows "map_of (sv_budgets (charge f b s)) b' = (if b' = b then Some (charged c) else map_of (sv_budgets s) b')"
    and "map_of (sv_heap (charge f b s)) g = (if g = f then
      Some (if cb_remaining c = 0 then v\<lparr>fl_callers := removeAll b (fl_callers v)\<rparr> else v) else map_of (sv_heap s) g)"
  using assms by (auto simp: charge_def charged_def the_budget_def the_fill_def Let_def)

lemma fold_charge_effect:
  assumes "map_of (sv_heap s) f = Some v" and "distinct bs" and "\<forall>b \<in> set bs. ghas (sv_budgets s) b"
  shows "(\<forall>b. map_of (sv_budgets (fold (charge f) bs s)) b =
      (if b \<in> set bs then map_option charged (map_of (sv_budgets s) b) else map_of (sv_budgets s) b))
    \<and> (\<forall>g. map_of (sv_heap (fold (charge f) bs s)) g = (if g = f then
      Some (v\<lparr>fl_callers := filter (\<lambda>b. \<not> (b \<in> set bs \<and> cb_remaining (the_budget s b) = 0)) (fl_callers v)\<rparr>)
      else map_of (sv_heap s) g))"
  using assms
proof (induction bs arbitrary: s v)
  case (Cons b0 bs)
  note v = Cons.prems(1)
  obtain c where c: "map_of (sv_budgets s) b0 = Some c" using Cons.prems(3) by (auto simp: ghas_def)
  let ?v = "if cb_remaining c = 0 then v\<lparr>fl_callers := removeAll b0 (fl_callers v)\<rparr> else v"
  note eff = charge_effect [OF v c]
  have v': "map_of (sv_heap (charge f b0 s)) f = Some ?v" using eff(2) by simp
  have has: "\<forall>b \<in> set bs. ghas (sv_budgets (charge f b0 s)) b"
    using Cons.prems(3) eff(1) by (auto simp: ghas_def)
  have same: "the_budget (charge f b0 s) b = the_budget s b" if "b \<in> set bs" for b
    using that Cons.prems(2) eff(1) [of b] by (auto simp: the_budget_def)
  have c': "the_budget s b0 = c" using c by (simp add: the_budget_def)
  have "filter (\<lambda>b. \<not> (b \<in> set bs \<and> cb_remaining (the_budget (charge f b0 s) b) = 0)) xs =
      filter (\<lambda>b. \<not> (b \<in> set bs \<and> cb_remaining (the_budget s b) = 0)) xs" for xs
    by (rule filter_cong) (auto simp: same)
  moreover have "?v\<lparr>fl_callers := filter (\<lambda>b. \<not> (b \<in> set bs \<and> cb_remaining (the_budget s b) = 0)) (fl_callers ?v)\<rparr> =
      v\<lparr>fl_callers := filter (\<lambda>b. \<not> (b \<in> set (b0 # bs) \<and> cb_remaining (the_budget s b) = 0)) (fl_callers v)\<rparr>"
    using c' by (auto simp: removeAll_filter_not_eq intro!: arg_cong [where f = "\<lambda>x. v\<lparr>fl_callers := x\<rparr>"] filter_cong)
  ultimately show ?case using Cons.IH [OF v' _ has] Cons.prems(2) eff c by auto
qed simp


section \<open>Admission\<close>

abbreviation fill_exchange :: "Series \<Rightarrow> Exchange" where
  "fill_exchange series \<equiv> sc_Exchange (se_Scope series)"

definition fills_of :: "Exchange \<Rightarrow> Service \<Rightarrow> nat" where
  "fills_of ex s = length (filter (\<lambda>p. fill_exchange (fst p) = ex) (sv_fills s))"

definition admission_inv :: "Settings \<Rightarrow> Service \<Rightarrow> bool" where
  "admission_inv settings s \<longleftrightarrow>
     sv_settings s = settings \<and> gwf (sv_fills s) \<and> distinct (map snd (sv_fills s))
   \<and> (\<forall>p \<in> set (sv_fills s). \<exists>v. map_of (sv_heap s) (snd p) = Some v \<and> fl_done v = 0)
   \<and> (\<forall>f v. map_of (sv_heap s) f = Some v \<longrightarrow> fl_done v \<le> 1)
   \<and> (\<forall>ex. gget 0 (sv_active s) ex = int (fills_of ex s))
   \<and> sv_owned s = int (length (sv_fills s))
   \<and> int (length (sv_fills s)) \<le> set_MaxActiveFills settings
   \<and> (\<forall>ex. int (fills_of ex s) \<le> set_MaxActiveFillsPerExchange settings)"

lemma length_filter_delete:
  "gwf m \<Longrightarrow> map_of m k = Some v \<Longrightarrow>
     length (filter P m) = length (filter P (AList.delete k m)) + (if P (k, v) then 1 else 0)"
proof (induction m)
  case (Cons kv m)
  obtain k' v' where kv: "kv = (k', v')" by fastforce
  from Cons.prems have wf: "gwf m" and new: "k' \<notin> fst ` set m" by (auto simp: gwf_def kv)
  show ?case
  proof (cases "k = k'")
    case True
    with new have "AList.delete k m = m" by (simp add: AList.delete_id)
    with True Cons.prems kv show ?thesis by simp
  next
    case False
    with Cons wf kv show ?thesis by simp
  qed
qed simp

lemma admission_inv_upd:
  assumes "admission_inv settings s" and "sv_settings s' = sv_settings s" and "sv_fills s' = sv_fills s"
    and "sv_active s' = sv_active s" and "sv_owned s' = sv_owned s"
    and "\<And>f v'. map_of (sv_heap s') f = Some v' \<Longrightarrow> \<exists>v. map_of (sv_heap s) f = Some v \<and> fl_done v' = fl_done v"
    and "\<And>f. ghas (sv_heap s) f \<Longrightarrow> ghas (sv_heap s') f"
  shows "admission_inv settings s'"
  unfolding admission_inv_def
proof (intro conjI ballI allI impI)
  fix p assume "p \<in> set (sv_fills s')"
  with assms(1,3) obtain v where v: "map_of (sv_heap s) (snd p) = Some v" "fl_done v = 0"
    by (auto simp: admission_inv_def)
  with assms(7) [of "snd p"] obtain v' where "map_of (sv_heap s') (snd p) = Some v'" by (auto simp: ghas_def)
  with assms(6) [OF this] v show "\<exists>v. map_of (sv_heap s') (snd p) = Some v \<and> fl_done v = 0" by auto
next
  fix f v assume "map_of (sv_heap s') f = Some v"
  with assms(6) [OF this] assms(1) show "fl_done v \<le> 1" by (auto simp: admission_inv_def)
qed (use assms in \<open>auto simp: admission_inv_def fills_of_def\<close>)

lemma join_Inr:
  assumes "join err query refreshed b fresh s = (s', Inr f)"
  shows "\<not> sv_stopped s \<and> err = None
    \<and> (map_of (sv_fills s) (q_Series query) = Some f
        \<and> fl_attempts (the_fill s f) \<le> cb_remaining (the_budget s b)
        \<and> s' = emit ((event (se_Scope (q_Series query)))\<lparr>e_SharedWait := True\<rparr>)
            (set_fill f ((the_fill s f)\<lparr>fl_callers := List.insert b (fl_callers (the_fill s f))\<rparr>)
              (set_budget b ((the_budget s b)\<lparr>cb_remaining := cb_remaining (the_budget s b) - fl_attempts (the_fill s f)\<rparr>) s))
      \<or> map_of (sv_fills s) (q_Series query) = None \<and> f = fresh
        \<and> int (length (sv_fills s)) < set_MaxActiveFills (sv_settings s)
        \<and> gget 0 (sv_active s) (fill_exchange (q_Series query)) < set_MaxActiveFillsPerExchange (sv_settings s)
        \<and> sv_fills s' = sv_fills s @ [(q_Series query, fresh)]
        \<and> sv_heap s' = AList.update fresh \<lparr>fl_done = 0, fl_callers = [b], fl_refreshed = refreshed, fl_saved = [],
             fl_err = None, fl_attempts = 0\<rparr> (sv_heap s)
        \<and> sv_budgets s' = sv_budgets s \<and> sv_settings s' = sv_settings s \<and> sv_stopped s' = sv_stopped s
        \<and> sv_active s' = AList.update (fill_exchange (q_Series query))
            (gget 0 (sv_active s) (fill_exchange (q_Series query)) + 1) (sv_active s)
        \<and> sv_owned s' = sv_owned s + 1)"
  using assms by (auto simp: join_def Let_def update_new ghas_def split: if_splits option.splits)

lemma admission_join:
  assumes inv: "admission_inv settings s" and fresh: "\<not> ghas (sv_heap s) fresh"
    and join: "join err query refreshed b fresh s = (s', Inr f)"
  shows "admission_inv settings s'"
proof (cases "map_of (sv_fills s) (q_Series query)")
  case (Some g)
  with join_Inr [OF join] have fg: "f = g" and s': "s' = emit ((event (se_Scope (q_Series query)))\<lparr>e_SharedWait := True\<rparr>)
      (set_fill f ((the_fill s f)\<lparr>fl_callers := List.insert b (fl_callers (the_fill s f))\<rparr>)
        (set_budget b ((the_budget s b)\<lparr>cb_remaining := cb_remaining (the_budget s b) - fl_attempts (the_fill s f)\<rparr>) s))"
    by auto
  have "\<exists>v. map_of (sv_heap s) f = Some v"
    using inv Some fg map_of_SomeD [OF Some] by (force simp: admission_inv_def)
  then show ?thesis unfolding s'
    by (intro admission_inv_upd [OF inv]) (auto simp: the_fill_def split: if_splits)
next
  case None
  note j = join_Inr [OF join]
  let ?ex = "fill_exchange (q_Series query)"
  have fills: "sv_fills s' = sv_fills s @ [(q_Series query, fresh)]" and f: "f = fresh" using None j by auto
  have cnt: "fills_of ex s' = fills_of ex s + (if ex = ?ex then 1 else 0)" for ex
    by (simp add: fills_of_def fills)
  have heap: "map_of (sv_heap s') g = (if g = fresh then Some \<lparr>fl_done = 0, fl_callers = [b], fl_refreshed = refreshed,
      fl_saved = [], fl_err = None, fl_attempts = 0\<rparr> else map_of (sv_heap s) g)" for g
    using None j by auto
  have old: "snd p \<noteq> fresh" if "p \<in> set (sv_fills s)" for p
    using that inv fresh by (force simp: admission_inv_def ghas_def)
  show ?thesis unfolding admission_inv_def
  proof (intro conjI ballI allI impI)
    show "gwf (sv_fills s')" using inv None by (auto simp: fills admission_inv_def gwf_def map_of_eq_None_iff)
    show "distinct (map snd (sv_fills s'))" using inv old by (auto simp: fills admission_inv_def)
    fix p assume "p \<in> set (sv_fills s')"
    then show "\<exists>v. map_of (sv_heap s') (snd p) = Some v \<and> fl_done v = 0"
      using inv old by (auto simp: fills heap admission_inv_def)
  next
    fix g v assume "map_of (sv_heap s') g = Some v"
    then show "fl_done v \<le> 1" using inv by (auto simp: heap admission_inv_def split: if_splits)
  next
    fix ex
    show "gget 0 (sv_active s') ex = int (fills_of ex s')"
      and "int (fills_of ex s') \<le> set_MaxActiveFillsPerExchange settings"
      using inv None j by (auto simp: cnt admission_inv_def)
  qed (use inv None j in \<open>auto simp: admission_inv_def\<close>)
qed

lemma admission_complete:
  assumes inv: "admission_inv settings s" and reg: "map_of (sv_fills s) (q_Series query) = Some f"
  shows "admission_inv settings (complete query f err s)"
proof -
  let ?s = "complete query f err s" and ?ex = "fill_exchange (q_Series query)"
  have wf: "gwf (sv_fills s)" using inv by (simp add: admission_inv_def)
  have mem: "(q_Series query, f) \<in> set (sv_fills s)" using reg by (rule map_of_SomeD)
  obtain v where v: "map_of (sv_heap s) f = Some v" "fl_done v = 0"
    using inv mem by (force simp: admission_inv_def)
  have heap: "map_of (sv_heap ?s) g = (if g = f then Some (v\<lparr>fl_err := err, fl_done := 1\<rparr>) else map_of (sv_heap s) g)" for g
    using v by (simp add: complete_def Let_def the_fill_def)
  have fills: "sv_fills ?s = AList.delete (q_Series query) (sv_fills s)" by (simp add: complete_def Let_def)
  have cnt: "fills_of ex s = fills_of ex ?s + (if ex = ?ex then 1 else 0)" for ex
    using length_filter_delete [OF wf reg, of "\<lambda>p. fill_exchange (fst p) = ex"]
    by (auto simp: fills_of_def fills split: if_splits)
  have len: "length (sv_fills s) = length (sv_fills ?s) + 1"
    using length_filter_delete [OF wf reg, of "\<lambda>_. True"] by (simp add: fills)
  have other: "snd p \<noteq> f \<and> p \<in> set (sv_fills s)" if "p \<in> set (sv_fills ?s)" for p
  proof -
    from that have p: "p \<in> set (sv_fills s)" "fst p \<noteq> q_Series query"
      by (auto simp: fills AList.delete_eq)
    have "inj_on snd (set (sv_fills s))" using inv by (simp add: admission_inv_def distinct_map)
    from inj_onD [OF this _ p(1) mem] p show ?thesis by (cases p) auto
  qed
  show ?thesis unfolding admission_inv_def
  proof (intro conjI ballI allI impI)
    show "gwf (sv_fills ?s)" using wf by (simp add: fills)
    show "distinct (map snd (sv_fills ?s))"
      using inv by (auto simp: fills AList.delete_eq admission_inv_def intro: distinct_map_filter)
    fix p assume "p \<in> set (sv_fills ?s)"
    from other [OF this] inv show "\<exists>v. map_of (sv_heap ?s) (snd p) = Some v \<and> fl_done v = 0"
      by (simp add: heap admission_inv_def)
  next
    fix g w assume "map_of (sv_heap ?s) g = Some w"
    then show "fl_done w \<le> 1" using inv by (auto simp: heap admission_inv_def split: if_splits)
  next
    fix ex
    have "gget 0 (sv_active ?s) ex = gget 0 (sv_active s) ex - (if ex = ?ex then 1 else 0)"
      by (simp add: complete_def Let_def)
    moreover have "gget 0 (sv_active s) ex = int (fills_of ex s)" "int (fills_of ex s) \<le> set_MaxActiveFillsPerExchange settings"
      using inv by (simp_all add: admission_inv_def)
    ultimately show "gget 0 (sv_active ?s) ex = int (fills_of ex ?s)"
      and "int (fills_of ex ?s) \<le> set_MaxActiveFillsPerExchange settings"
      using cnt [of ex] by (cases "ex = ?ex"; simp)+
    show "sv_owned ?s = int (length (sv_fills ?s))" using inv len by (simp add: complete_def Let_def admission_inv_def)
  qed (use inv len in \<open>auto simp: complete_def Let_def admission_inv_def\<close>)
qed


lemma attempt_heap:
  assumes "map_of (sv_heap s) f = Some v" and "distinct (fl_callers v)" and "\<forall>b \<in> set (fl_callers v). ghas (sv_budgets s) b"
  shows "map_of (sv_heap (attempt query f s)) g = (if g = f then
      Some (v\<lparr>fl_attempts := fl_attempts v + 1,
        fl_callers := filter (\<lambda>b. cb_remaining (the_budget s b) \<noteq> 0) (fl_callers v)\<rparr>) else map_of (sv_heap s) g)"
    and "map_of (sv_budgets (attempt query f s)) b =
      (if b \<in> set (fl_callers v) then map_option charged (map_of (sv_budgets s) b) else map_of (sv_budgets s) b)"
proof -
  let ?v = "v\<lparr>fl_attempts := fl_attempts v + 1\<rparr>" and ?s = "set_fill f (v\<lparr>fl_attempts := fl_attempts v + 1\<rparr>) s"
  have v: "the_fill s f = v" using assms(1) by (simp add: the_fill_def)
  have "map_of (sv_heap ?s) f = Some ?v" by simp
  note eff = fold_charge_effect [OF this assms(2)]
  have bud: "the_budget ?s b = the_budget s b" for b by (simp add: the_budget_def)
  have "filter (\<lambda>b. \<not> (b \<in> set (fl_callers v) \<and> cb_remaining (the_budget s b) = 0)) (fl_callers v) =
      filter (\<lambda>b. cb_remaining (the_budget s b) \<noteq> 0) (fl_callers v)" by (rule filter_cong) auto
  with eff assms(3) show "map_of (sv_heap (attempt query f s)) g = (if g = f then
      Some (v\<lparr>fl_attempts := fl_attempts v + 1,
        fl_callers := filter (\<lambda>b. cb_remaining (the_budget s b) \<noteq> 0) (fl_callers v)\<rparr>) else map_of (sv_heap s) g)"
    by (simp add: attempt_def Let_def v bud)
  from eff assms(3) show "map_of (sv_budgets (attempt query f s)) b =
      (if b \<in> set (fl_callers v) then map_option charged (map_of (sv_budgets s) b) else map_of (sv_budgets s) b)"
    by (simp add: attempt_def Let_def v)
qed

lemma attempt_other [simp]:
  "sv_fills (attempt query f s) = sv_fills s" "sv_active (attempt query f s) = sv_active s"
  "sv_settings (attempt query f s) = sv_settings s" "sv_stopped (attempt query f s) = sv_stopped s"
  "sv_owned (attempt query f s) = sv_owned s"
  by (simp_all add: attempt_def Let_def)

section \<open>Budgets\<close>

definition fill_budget_ok :: "Settings \<Rightarrow> Service \<Rightarrow> (budget_ref \<Rightarrow> phase) \<Rightarrow> fill_ref \<Rightarrow> fill \<Rightarrow> bool" where
  "fill_budget_ok settings s ph f v \<longleftrightarrow> distinct (fl_callers v) \<and> 0 \<le> fl_attempts v \<and>
     (\<forall>b \<in> set (fl_callers v). ph b = Waiting f \<and> (\<exists>c. map_of (sv_budgets s) b = Some c
        \<and> cb_exhausted c = 0 \<and> cb_remaining c + fl_attempts v \<le> set_MaxAttempts settings))"

definition budget_ok :: "Settings \<Rightarrow> callerBudget \<Rightarrow> bool" where
  "budget_ok settings c \<longleftrightarrow> 0 \<le> cb_remaining c \<and> cb_remaining c \<le> set_MaxAttempts settings \<and> cb_exhausted c \<le> 1"

definition phase_ok :: "Service \<Rightarrow> budget_ref \<Rightarrow> phase \<Rightarrow> bool" where
  "phase_ok s b p \<longleftrightarrow> (case p of
     Absent \<Rightarrow> True | Finished \<Rightarrow> True
   | Running \<Rightarrow> (\<exists>c. map_of (sv_budgets s) b = Some c \<and> cb_exhausted c = 0)
   | Waiting f \<Rightarrow> (\<exists>c v. map_of (sv_budgets s) b = Some c \<and> map_of (sv_heap s) f = Some v
       \<and> (cb_exhausted c = 0 \<longrightarrow> b \<in> set (fl_callers v))))"

definition budget_inv :: "Settings \<Rightarrow> Service \<Rightarrow> (budget_ref \<Rightarrow> phase) \<Rightarrow> bool" where
  "budget_inv settings s ph \<longleftrightarrow>
     (\<forall>f v. map_of (sv_heap s) f = Some v \<longrightarrow> fill_budget_ok settings s ph f v)
   \<and> (\<forall>b c. map_of (sv_budgets s) b = Some c \<longrightarrow> budget_ok settings c)
   \<and> (\<forall>b. phase_ok s b (ph b))"

lemma budget_invD:
  assumes "budget_inv settings s ph"
  shows "map_of (sv_heap s) f = Some v \<Longrightarrow> fill_budget_ok settings s ph f v"
    and "map_of (sv_budgets s) b = Some c \<Longrightarrow> budget_ok settings c"
    and "phase_ok s b (ph b)"
  using assms by (simp_all add: budget_inv_def)

lemma caller_waits:
  assumes "budget_inv settings s ph" and "map_of (sv_heap s) f = Some v" and "b \<in> set (fl_callers v)"
  shows "ph b = Waiting f"
  using budget_invD(1) [OF assms(1,2)] assms(3) by (simp add: fill_budget_ok_def)

lemma budget_start:
  assumes inv: "budget_inv settings s ph" and "ph b = Absent" and "0 \<le> set_MaxAttempts settings" and "sv_settings s = settings"
  shows "budget_inv settings (set_budget b \<lparr>cb_remaining = set_MaxAttempts (sv_settings s), cb_exhausted = 0\<rparr> s) (ph(b := Running))"
    (is "budget_inv settings ?s ?ph")
  unfolding budget_inv_def
proof (intro conjI allI impI)
  fix f v assume "map_of (sv_heap ?s) f = Some v"
  then have v: "map_of (sv_heap s) f = Some v" by simp
  have "b \<notin> set (fl_callers v)" using caller_waits [OF inv v] assms(2) by fastforce
  then show "fill_budget_ok settings ?s ?ph f v"
    using budget_invD(1) [OF inv v] by (auto simp: fill_budget_ok_def)
next
  fix b' c assume "map_of (sv_budgets ?s) b' = Some c"
  then show "budget_ok settings c"
    using budget_invD(2) [OF inv, of b'] assms(3,4) by (auto simp: budget_ok_def split: if_splits)
next
  fix b'
  show "phase_ok ?s b' (?ph b')"
    using budget_invD(3) [OF inv, of b'] by (auto simp: phase_ok_def split: phase.splits)
qed

lemma budget_join:
  assumes inv: "budget_inv settings s ph" and adm: "admission_inv settings s" and run: "ph b = Running"
    and fresh: "\<not> ghas (sv_heap s) fresh" and join: "join err query refreshed b fresh s = (s', Inr f)"
  shows "budget_inv settings s' (ph(b := Waiting f))"
proof -
  obtain c where c: "map_of (sv_budgets s) b = Some c" "cb_exhausted c = 0" "budget_ok settings c"
    using budget_invD(3) [OF inv, of b] budget_invD(2) [OF inv, of b] run by (auto simp: phase_ok_def)
  have free: "b \<notin> set (fl_callers v)" if "map_of (sv_heap s) g = Some v" for g v
    using caller_waits [OF inv that] run by fastforce
  have cb: "the_budget s b = c" using c by (simp add: the_budget_def)
  show ?thesis
  proof (cases "map_of (sv_fills s) (q_Series query)")
    case (Some g)
    with join_Inr [OF join] have fg: "g = f" and le: "fl_attempts (the_fill s f) \<le> cb_remaining c"
      and s': "s' = emit ((event (se_Scope (q_Series query)))\<lparr>e_SharedWait := True\<rparr>)
        (set_fill f ((the_fill s f)\<lparr>fl_callers := List.insert b (fl_callers (the_fill s f))\<rparr>)
        (set_budget b (c\<lparr>cb_remaining := cb_remaining c - fl_attempts (the_fill s f)\<rparr>) s))" by (auto simp: cb)
    obtain v where v: "map_of (sv_heap s) f = Some v"
      using adm map_of_SomeD [OF Some] fg by (force simp: admission_inv_def)
    then have the: "the_fill s f = v" by (simp add: the_fill_def)
    have ok: "fill_budget_ok settings s ph f v" using inv v by (simp add: budget_inv_def)
    show ?thesis unfolding budget_inv_def
    proof (intro conjI allI impI)
      fix g w assume w: "map_of (sv_heap s') g = Some w"
      show "fill_budget_ok settings s' (ph(b := Waiting f)) g w"
      proof (cases "g = f")
        case True
        then show ?thesis using w ok c le free [OF v] unfolding s' the
          by (auto simp: fill_budget_ok_def budget_ok_def)
      next
        case False
        with w have "map_of (sv_heap s) g = Some w" by (simp add: s')
        with budget_invD(1) [OF inv this] free [OF this] show ?thesis unfolding s' by (auto simp: fill_budget_ok_def)
      qed
    next
      fix b' c' assume "map_of (sv_budgets s') b' = Some c'"
      then show "budget_ok settings c'" using budget_invD(2) [OF inv, of b' c'] c le ok
        by (auto simp: s' the budget_ok_def fill_budget_ok_def split: if_splits)
    next
      fix b'
      have "phase_ok s b' (ph b')" using inv by (simp add: budget_inv_def)
      then show "phase_ok s' b' ((ph(b := Waiting f)) b')" using c v
        by (auto simp: s' the phase_ok_def split: phase.splits)
    qed
  next
    case None
    with join_Inr [OF join] have f: "f = fresh" and heap: "sv_heap s' = AList.update fresh \<lparr>fl_done = 0, fl_callers = [b],
        fl_refreshed = refreshed, fl_saved = [], fl_err = None, fl_attempts = 0\<rparr> (sv_heap s)"
      and bud: "sv_budgets s' = sv_budgets s" by auto
    show ?thesis unfolding budget_inv_def
    proof (intro conjI allI impI)
      fix g w assume w: "map_of (sv_heap s') g = Some w"
      then show "fill_budget_ok settings s' (ph(b := Waiting f)) g w"
        using budget_invD(1) [OF inv, of g w] c free [of g w]
        by (auto simp: heap f bud fill_budget_ok_def budget_ok_def split: if_splits)
    next
      fix b'
      have "phase_ok s b' (ph b')" using inv by (simp add: budget_inv_def)
      then show "phase_ok s' b' ((ph(b := Waiting f)) b')" using c fresh
        by (auto simp: heap bud f phase_ok_def ghas_def split: phase.splits)
    qed (use inv in \<open>auto simp: bud budget_inv_def\<close>)
  qed
qed

lemma budget_leave:
  assumes inv: "budget_inv settings s ph" and wait: "ph b = Waiting f"
    and next_ph: "p = Finished \<or> p = Running \<and> cb_exhausted (the_budget s b) = 0"
  shows "budget_inv settings (leave f b s) (ph(b := p))"
proof -
  obtain c v where cv: "map_of (sv_budgets s) b = Some c" "map_of (sv_heap s) f = Some v"
    using budget_invD(3) [OF inv, of b] wait by (auto simp: phase_ok_def)
  have other: "b \<notin> set (fl_callers w)" if "map_of (sv_heap s) g = Some w" "g \<noteq> f" for g w
    using caller_waits [OF inv that(1)] that(2) wait by fastforce
  show ?thesis unfolding budget_inv_def
  proof (intro conjI allI impI)
    fix g w assume w: "map_of (sv_heap (leave f b s)) g = Some w"
    show "fill_budget_ok settings (leave f b s) (ph(b := p)) g w"
    proof (cases "g = f")
      case True
      then show ?thesis using w budget_invD(1) [OF inv cv(2)] cv
        by (auto simp: leave_def the_fill_def fill_budget_ok_def distinct_removeAll)
    next
      case False
      with w have w': "map_of (sv_heap s) g = Some w" by (simp add: leave_def)
      with inv have "fill_budget_ok settings s ph g w" by (simp add: budget_inv_def)
      with other [OF w' False] show ?thesis by (auto simp: leave_def fill_budget_ok_def)
    qed
  next
    fix b'
    have "phase_ok s b' (ph b')" using inv by (simp add: budget_inv_def)
    then show "phase_ok (leave f b s) b' ((ph(b := p)) b')" using cv next_ph
      by (auto simp: leave_def phase_ok_def the_fill_def the_budget_def split: phase.splits)
  qed (use inv in \<open>auto simp: leave_def budget_inv_def\<close>)
qed


lemma budget_attempt:
  assumes inv: "budget_inv settings s ph" and v: "map_of (sv_heap s) f = Some v"
  shows "budget_inv settings (attempt query f s) ph"
proof -
  have ok: "fill_budget_ok settings s ph f v" by (rule budget_invD(1) [OF inv v])
  then have d: "distinct (fl_callers v)" and has: "\<forall>b \<in> set (fl_callers v). ghas (sv_budgets s) b"
    by (auto simp: fill_budget_ok_def ghas_def)
  note eff = attempt_heap [OF v d has, of query]
  have left: "cb_remaining (the_budget s b) = cb_remaining c" if "map_of (sv_budgets s) b = Some c" for b c
    using that by (simp add: the_budget_def)
  show ?thesis unfolding budget_inv_def
  proof (intro conjI allI impI)
    fix g w assume w: "map_of (sv_heap (attempt query f s)) g = Some w"
    show "fill_budget_ok settings (attempt query f s) ph g w"
    proof (cases "g = f")
      case True
      have "\<exists>c. map_of (sv_budgets (attempt query f s)) b = Some c \<and> cb_exhausted c = 0
          \<and> cb_remaining c + (fl_attempts v + 1) \<le> set_MaxAttempts settings"
        if "b \<in> set (fl_callers v)" "cb_remaining (the_budget s b) \<noteq> 0" for b
      proof -
        from that ok obtain c where "map_of (sv_budgets s) b = Some c" "cb_exhausted c = 0"
          "cb_remaining c + fl_attempts v \<le> set_MaxAttempts settings" by (auto simp: fill_budget_ok_def)
        with that show ?thesis by (simp add: eff(2) charged_def the_budget_def)
      qed
      then show ?thesis using True w ok by (auto simp: eff(1) fill_budget_ok_def)
    next
      case False
      with w have w': "map_of (sv_heap s) g = Some w" by (simp add: eff(1))
      have "b \<notin> set (fl_callers v)" if "b \<in> set (fl_callers w)" for b
        using caller_waits [OF inv w' that] caller_waits [OF inv v, of b] False by auto
      then show ?thesis using budget_invD(1) [OF inv w'] by (auto simp: eff(2) fill_budget_ok_def)
    qed
  next
    fix b c assume c: "map_of (sv_budgets (attempt query f s)) b = Some c"
    show "budget_ok settings c"
    proof (cases "b \<in> set (fl_callers v)")
      case True
      with ok obtain c0 where "map_of (sv_budgets s) b = Some c0" "cb_exhausted c0 = 0" by (auto simp: fill_budget_ok_def)
      with c True budget_invD(2) [OF inv this(1)] show ?thesis by (auto simp: eff(2) budget_ok_def charged_def)
    next
      case False
      with c show ?thesis using budget_invD(2) [OF inv] by (simp add: eff(2))
    qed
  next
    fix b
    have ph: "phase_ok s b (ph b)" by (rule budget_invD(3) [OF inv])
    show "phase_ok (attempt query f s) b (ph b)"
    proof (cases "b \<in> set (fl_callers v)")
      case True
      with ok obtain c where c: "ph b = Waiting f" "map_of (sv_budgets s) b = Some c" by (auto simp: fill_budget_ok_def)
      then have "cb_exhausted (charged c) = 0 \<longrightarrow> cb_remaining (the_budget s b) \<noteq> 0" by (simp add: charged_def left)
      with True c show ?thesis by (simp add: phase_ok_def eff)
    next
      case False
      with ph v show ?thesis by (auto simp: phase_ok_def eff split: phase.splits)
    qed
  qed
qed

lemma budget_complete:
  assumes inv: "budget_inv settings s ph" and v: "map_of (sv_heap s) f = Some v"
  shows "budget_inv settings (complete query f err s) ph"
  unfolding budget_inv_def
proof (intro conjI allI impI)
  fix g w assume "map_of (sv_heap (complete query f err s)) g = Some w"
  then show "fill_budget_ok settings (complete query f err s) ph g w"
    using budget_invD(1) [OF inv v] budget_invD(1) [OF inv, of g w] v
    by (auto simp: complete_def Let_def the_fill_def fill_budget_ok_def split: if_splits)
next
  fix b c assume "map_of (sv_budgets (complete query f err s)) b = Some c"
  then show "budget_ok settings c" using budget_invD(2) [OF inv] by (simp add: complete_def Let_def)
next
  fix b
  show "phase_ok (complete query f err s) b (ph b)"
    using budget_invD(3) [OF inv, of b] v
    by (auto simp: complete_def Let_def the_fill_def phase_ok_def split: phase.splits)
qed

section \<open>Every interleaving keeps the invariants\<close>

lemma registered_fill:
  assumes "admission_inv settings s" and "map_of (sv_fills s) series = Some f"
  obtains v where "map_of (sv_heap s) f = Some v" and "fl_done v = 0"
  using assms map_of_SomeD [OF assms(2)] by (force simp: admission_inv_def)

lemma fill_step_inv:
  assumes "fill_step (s, ph) (s', ph')" and adm: "admission_inv settings s" and bud: "budget_inv settings s ph"
    and pos: "0 \<le> set_MaxAttempts settings"
  shows "admission_inv settings s' \<and> budget_inv settings s' ph'"
  using assms(1)
proof (cases rule: fill_stepE)
  case (step_start b)
  then show ?thesis using adm budget_start [OF bud _ pos, of b]
    by (auto simp: admission_inv_def fills_of_def)
next
  case (step_join b fresh err query refreshed f)
  then show ?thesis using admission_join [OF adm] budget_join [OF bud adm] by auto
next
  case (step_return b)
  then have "phase_ok s b' (ph' b')" for b' using budget_invD(3) [OF bud, of b'] by (simp add: phase_ok_def)
  moreover have "fill_budget_ok settings s ph' f v" if "map_of (sv_heap s) f = Some v" for f v
    using budget_invD(1) [OF bud that] step_return by (auto simp: fill_budget_ok_def)
  ultimately show ?thesis using adm bud step_return by (simp add: budget_inv_def)
next
  case (step_attempt query f)
  then have reg: "map_of (sv_fills s) (q_Series query) = Some f" by simp
  obtain v where v: "map_of (sv_heap s) f = Some v" using registered_fill [OF adm reg] .
  have "distinct (fl_callers v) \<and> (\<forall>b \<in> set (fl_callers v). ghas (sv_budgets s) b)"
    using budget_invD(1) [OF bud v] by (auto simp: fill_budget_ok_def ghas_def)
  then have "admission_inv settings (attempt query f s)"
    by (intro admission_inv_upd [OF adm]) (auto simp: attempt_heap(1) [OF v] v ghas_def split: if_splits)
  then show ?thesis using budget_attempt [OF bud v] step_attempt by simp
next
  case (step_complete query f err)
  then have reg: "map_of (sv_fills s) (q_Series query) = Some f" by simp
  obtain v where v: "map_of (sv_heap s) f = Some v" using registered_fill [OF adm reg] .
  then show ?thesis using admission_complete [OF adm reg] budget_complete [OF bud v] step_complete by simp
next
  case (step_leave b f)
  have "\<exists>v. map_of (sv_heap s) f = Some v" using budget_invD(3) [OF bud, of b] step_leave by (auto simp: phase_ok_def)
  then have "admission_inv settings (leave f b s)"
    by (intro admission_inv_upd [OF adm]) (auto simp: leave_def the_fill_def split: if_splits)
  then show ?thesis using budget_leave [OF bud, of b f] step_leave by simp
next
  case (step_again b f)
  have "\<exists>v. map_of (sv_heap s) f = Some v" using budget_invD(3) [OF bud, of b] step_again by (auto simp: phase_ok_def)
  then have "admission_inv settings (leave f b s)"
    by (intro admission_inv_upd [OF adm]) (auto simp: leave_def the_fill_def split: if_splits)
  then show ?thesis using budget_leave [OF bud, of b f] step_again by simp
next
  case step_stop
  have "phase_ok (Service_stop s) b p = phase_ok s b p" for b p
    by (cases p) (simp_all add: phase_ok_def Service_stop_def)
  then show ?thesis using adm bud step_stop
    by (simp add: budget_inv_def fill_budget_ok_def) (simp add: Service_stop_def admission_inv_def fills_of_def)
qed

definition settings_ok :: "Settings \<Rightarrow> bool" where
  "settings_ok settings \<longleftrightarrow> 0 < set_MaxCallers settings \<and> 0 < set_MaxActiveFills settings
     \<and> 0 < set_MaxActiveFillsPerExchange settings \<and> 0 < set_MaxAttempts settings \<and> 0 < set_FillTimeout settings"

lemma fill_reachable_inv:
  assumes "fill_reachable settings c" and "settings_ok settings"
  shows "admission_inv settings (fst c) \<and> budget_inv settings (fst c) (snd c)"
  using assms(1)
proof induction
  case reach_init
  then show ?case using assms(2)
    by (auto simp: initial_def admission_inv_def budget_inv_def fills_of_def phase_ok_def settings_ok_def gget_def)
next
  case (reach_step c c')
  then show ?case using fill_step_inv [of "fst c" "snd c" "fst c'" "snd c'" settings] assms(2)
    by (simp add: settings_ok_def)
qed


section \<open>Properties\<close>

text \<open>A service with one caller that has started a fill, for the witnesses.\<close>

definition ex_settings :: Settings where
  "ex_settings = \<lparr>set_HistoryCandles = 5, set_MaxCallers = 2, set_MaxActiveFills = 2,
     set_MaxActiveFillsPerExchange = 1, set_MaxAttempts = 3, set_FillTimeout = 1\<rparr>"

definition ex_started :: Service where
  "ex_started = set_budget 0 \<lparr>cb_remaining = 3, cb_exhausted = 0\<rparr> (initial ex_settings)"

definition ex_joined :: Service where
  "ex_joined = fst (join None ex_query [] 0 7 ex_started)"

lemma ex_settings_ok: "settings_ok ex_settings"
  by (simp add: settings_ok_def ex_settings_def)

lemma ex_started_reachable: "fill_reachable ex_settings (ex_started, (\<lambda>_. Absent)(0 := Running))"
proof -
  have "fill_step (initial ex_settings, \<lambda>_. Absent) (ex_started, (\<lambda>_. Absent)(0 := Running))"
    using step_start [of "\<lambda>_. Absent" 0 "initial ex_settings"]
    by (simp add: ex_started_def initial_def ex_settings_def)
  with reach_init show ?thesis by (rule reach_step)
qed

lemma ex_joined_reachable: "fill_reachable ex_settings (ex_joined, (\<lambda>_. Absent)(0 := Waiting 7))"
proof -
  have "join None ex_query [] 0 7 ex_started = (ex_joined, Inr 7)"
    unfolding ex_joined_def by (rule prod_eqI) (simp, code_simp)
  moreover have "cb_remaining (the_budget ex_started 0) \<noteq> 0" "\<not> ghas (sv_heap ex_started) 7" by code_simp+
  ultimately have "fill_step (ex_started, (\<lambda>_. Absent)(0 := Running)) (ex_joined, ((\<lambda>_. Absent)(0 := Running))(0 := Waiting 7))"
    by (intro step_join) auto
  from reach_step [OF ex_started_reachable this] show ?thesis by simp
qed





lemma step_after_stop:
  assumes "fill_step (s, ph) (s', ph')" and "sv_stopped s"
  shows "sv_stopped s' \<and> set (sv_fills s') \<subseteq> set (sv_fills s)"
  using assms(1)
proof (cases rule: fill_stepE)
  case (step_join b fresh err query refreshed f)
  then show ?thesis using assms(2) join_Inr by blast
next
  case (step_complete query f err)
  then show ?thesis using assms(2) by (auto simp: complete_def Let_def AList.delete_eq)
qed (use assms(2) in \<open>auto simp: leave_def Service_stop_def\<close>)

lemma stop_steps:
  "fill_step\<^sup>*\<^sup>* c c' \<Longrightarrow> sv_stopped (fst c) \<Longrightarrow> sv_stopped (fst c') \<and> set (sv_fills (fst c')) \<subseteq> set (sv_fills (fst c))"
proof (induction rule: rtranclp_induct)
  case (step c' c'')
  then show ?case using step_after_stop [of "fst c'" "snd c'" "fst c''" "snd c''"] by auto
qed simp

lemma drain:
  assumes "admission_inv settings s"
  shows "\<exists>s'. fill_step\<^sup>*\<^sup>* (s, ph) (s', ph) \<and> sv_owned s' = 0"
  using assms
proof (induction "length (sv_fills s)" arbitrary: s)
  case 0
  then show ?case by (auto simp: admission_inv_def intro: exI [of _ s])
next
  case (Suc n)
  then obtain series f rest where fills: "sv_fills s = (series, f) # rest" by (cases "sv_fills s") auto
  let ?q = "\<lparr>q_Series = series, q_From = 0, q_To = 0\<rparr>"
  have reg: "map_of (sv_fills s) (q_Series ?q) = Some f" by (simp add: fills)
  have wf: "gwf (sv_fills s)" using Suc.prems by (simp add: admission_inv_def)
  have "n = length (sv_fills (complete ?q f None s))"
    using Suc.hyps(2) length_filter_delete [OF wf reg, of "\<lambda>_. True"] by (simp add: complete_def Let_def)
  from Suc.hyps(1) [OF this admission_complete [OF Suc.prems reg]] step_complete [OF reg]
  show ?case by (meson converse_rtranclp_into_rtranclp)
qed

text \<open>
  C20. Shutdown drains: once stopped, the service never registers another fill in any later step, a join
  is answered with cancellation, and completing the registered fills brings the wait group to zero.
\<close>

theorem stopped_service_drains:
  assumes "fill_reachable settings (s, ph)" and "settings_ok settings" and "sv_stopped s"
  shows "(\<forall>s' ph'. fill_step\<^sup>*\<^sup>* (s, ph) (s', ph') \<longrightarrow> sv_stopped s' \<and> set (sv_fills s') \<subseteq> set (sv_fills s)
        \<and> (\<forall>err query refreshed b fresh. join err query refreshed b fresh s' = (s', Inl Canceled)))
    \<and> (\<exists>s'. fill_step\<^sup>*\<^sup>* (s, ph) (s', ph) \<and> sv_owned s' = 0)"
proof -
  have "admission_inv settings s" using fill_reachable_inv [OF assms(1,2)] by simp
  note live = drain [OF this, of ph]
  have "sv_stopped s' \<and> set (sv_fills s') \<subseteq> set (sv_fills s)" if "fill_step\<^sup>*\<^sup>* (s, ph) (s', ph')" for s' ph'
    using stop_steps [OF that] assms(3) by simp
  moreover have "join err query refreshed b fresh s' = (s', Inl Canceled)" if "sv_stopped s'" for err query refreshed b fresh s'
    using that by (simp add: join_def Let_def)
  ultimately show ?thesis using live by blast
qed

theorem stopped_service_drains_witness:
  "\<exists>s'. fill_step\<^sup>*\<^sup>* (Service_stop ex_joined, (\<lambda>_. Absent)(0 := Waiting 7)) (s', (\<lambda>_. Absent)(0 := Waiting 7)) \<and> sv_owned s' = 0"
proof -
  have "fill_reachable ex_settings (Service_stop ex_joined, (\<lambda>_. Absent)(0 := Waiting 7))"
    by (rule reach_step [OF ex_joined_reachable step_stop])
  from stopped_service_drains [OF this ex_settings_ok] show ?thesis by (simp add: Service_stop_def)
qed
end
