(* ===== verification/Kline_Service.thy ===== *)
theory Kline_Service
  imports Kline_Fills
begin

text \<open>
  The candle service: \<open>src/internal/application/kline/service.go\<close> (\<open>NewService\<close>, validation, \<open>read\<close>,
  \<open>Get\<close>), the body of a fill in \<open>src/internal/application/kline/fill.go\<close> (\<open>load\<close>, \<open>madeProgress\<close>)
  and \<open>src/internal/application/kline/retention.go\<close>.

  What a run meets outside the package is an environment indexed by a tick that grows with every
  interaction: clock readings, context errors, provider answers together with the number of attempts
  dispatched for them, and the repository operations other fills and the cleanup perform in between.
  The repository itself is the model of \<open>Kline_Store\<close>. Loops that wait for the outside world carry fuel.
\<close>

section \<open>Construction and validation\<close>

record provider =
  pv_Exchange :: Exchange
  pv_SupportedTimeframes :: "Market \<Rightarrow> Timeframe list result"

record ScopeSettings =
  ss_Scope :: Scope
  ss_Provider :: "provider option"
  ss_PageLimit :: int

fun new_scopes :: "Settings \<Rightarrow> ScopeSettings list \<Rightarrow> (Scope, Planner) gomap \<Rightarrow> (Scope, Planner) gomap result" where
  "new_scopes settings [] scopes = Inr scopes"
| "new_scopes settings (scope # rest) scopes =
     (case ss_Provider scope of
        None \<Rightarrow> Inl (App ErrInvalidParameter)
      | Some provider \<Rightarrow>
          if pv_Exchange provider \<noteq> sc_Exchange (ss_Scope scope) then Inl (App ErrInvalidParameter)
          else if ghas scopes (ss_Scope scope) then Inl (App ErrInvalidParameter)
          else (case pv_SupportedTimeframes provider (sc_Market (ss_Scope scope)) of
             Inl e \<Rightarrow> Inl e
           | Inr supported \<Rightarrow>
             (case NewPlanner (ss_Scope scope) supported (set_HistoryCandles settings) (ss_PageLimit scope) of
                Inl e \<Rightarrow> Inl e
              | Inr planner \<Rightarrow> new_scopes settings rest (AList.update (ss_Scope scope) planner scopes))))"

record kline_service =
  ks_settings :: Settings
  ks_scopes :: "(Scope, Planner) gomap"

text \<open>\<open>deps\<close>: no dependency is nil.\<close>

definition NewService :: "bool \<Rightarrow> ScopeSettings list \<Rightarrow> Settings \<Rightarrow> kline_service result" where
  "NewService deps scopes settings =
     (if \<not> deps \<or> scopes = [] \<or> set_MaxCallers settings \<le> 0 \<or> set_MaxActiveFills settings \<le> 0
        \<or> set_MaxActiveFillsPerExchange settings \<le> 0 \<or> set_MaxAttempts settings \<le> 0 \<or> set_FillTimeout settings \<le> 0
      then Inl (App ErrInvalidParameter)
      else (case new_scopes settings scopes [] of
         Inl e \<Rightarrow> Inl e
       | Inr m \<Rightarrow> Inr \<lparr>ks_settings = settings, ks_scopes = m\<rparr>))"

definition ValidateSeries :: "kline_service \<Rightarrow> Series \<Rightarrow> error option" where
  "ValidateSeries s series =
     (case map_of (ks_scopes s) (se_Scope series) of
        None \<Rightarrow> Some (App ErrInvalidFilter)
      | Some planner \<Rightarrow>
          if se_Symbol series = '''' then Some (App ErrInvalidFilter)
          else (case SelectSnapshot [se_Scope series] \<lparr>sq_Exchange = sc_Exchange (se_Scope series),
                  sq_Market = sc_Market (se_Scope series), sq_Symbol = se_Symbol series\<rparr> of
             Inl e \<Rightarrow> Some e
           | Inr _ \<Rightarrow>
               if se_Interval series \<notin> set (pl_supported planner) then Some (App ErrInvalidInterval) else None))"

definition Service_Validate :: "kline_service \<Rightarrow> Query \<Rightarrow> time \<Rightarrow> error option" where
  "Service_Validate s query now =
     (case ValidateSeries s (q_Series query) of
        Some e \<Rightarrow> Some e
      | None \<Rightarrow> Planner_Validate (the (map_of (ks_scopes s) (se_Scope (q_Series query)))) query now)"

section \<open>The environment\<close>

record fill_outcome =
  fo_exhausted :: bool
  fo_done :: bool
  fo_saved :: refreshes
  fo_err :: "error option"

record 'd env =
  env_now :: "nat \<Rightarrow> time"
  env_err :: "nat \<Rightarrow> error option"
  env_ctx :: "nat \<Rightarrow> ctx"
  env_fetch :: "nat \<Rightarrow> Request \<Rightarrow> nat \<times> 'd Stored list result"
  env_others :: "nat \<Rightarrow> 'd candle_op list"
  env_remaining :: "nat \<Rightarrow> int"
  env_fill :: "nat \<Rightarrow> fill_outcome result"

record 'd run =
  rn_repo :: "'d klineRepository"
  rn_tick :: nat
  rn_attempts :: int
  rn_calls :: nat
  rn_refreshed :: refreshes
  rn_saved :: refreshes
  rn_events :: "Event list"

definition others :: "('d \<Rightarrow> 'd) \<Rightarrow> 'd env \<Rightarrow> 'd run \<Rightarrow> 'd klineRepository" where
  "others cp env st = fold (candle_step cp) (env_others env (rn_tick st)) (rn_repo st)"

section \<open>Reading and filling\<close>

text \<open>\<open>read\<close>: two context checks around the repository read, one clock value for validation and planning.\<close>

definition read :: "('d \<Rightarrow> 'd) \<Rightarrow> 'd env \<Rightarrow> Planner \<Rightarrow> Query \<Rightarrow> refreshes \<Rightarrow> 'd run
    \<Rightarrow> 'd run \<times> ('d Stored list \<times> Request list) result" where
  "read cp env planner query refreshed st =
     (let n = rn_tick st; now = env_now env n; repo = others cp env st; st' = st\<lparr>rn_repo := repo, rn_tick := n + 2\<rparr> in
      case env_err env n of
        Some e \<Rightarrow> (st', Inl e)
      | None \<Rightarrow>
        (case Planner_Validate planner query now of
           Some e \<Rightarrow> (st', Inl e)
         | None \<Rightarrow>
           (case GetRange cp (env_ctx env n) repo query of
              Inl e \<Rightarrow> (st', Inl e)
            | Inr rows \<Rightarrow>
              (case env_err env (n + 1) of
                 Some e \<Rightarrow> (st', Inl e)
               | None \<Rightarrow>
                 (case plan planner query rows now refreshed of
                    Inl e \<Rightarrow> (st', Inl e)
                  | Inr reqs \<Rightarrow> (st', Inr (rows, reqs)))))))"

definition row_evidence :: "'d Stored \<Rightarrow> refreshes" where
  "row_evidence row = [(k_OpenTime (st_Candle row),
     \<lparr>re_started = st_RequestStartedAt row, re_fetched = k_FetchedAt (st_Candle row)\<rparr>)]"

definition note_row :: "Query \<Rightarrow> 'd Stored \<Rightarrow> 'd run \<Rightarrow> 'd run" where
  "note_row query row st = st\<lparr>
     rn_refreshed := refreshes_merge query (row_evidence row) (rn_refreshed st),
     rn_saved := refreshes_merge query (row_evidence row) (rn_saved st)\<rparr>"

text \<open>\<open>for _, request := range plan\<close> of \<open>load\<close>.\<close>

fun load_pages :: "('d \<Rightarrow> 'd) \<Rightarrow> 'd env \<Rightarrow> Planner \<Rightarrow> Query \<Rightarrow> Request list \<Rightarrow> 'd run \<Rightarrow> 'd run \<times> error option" where
  "load_pages cp env planner query [] st = (st, None)"
| "load_pages cp env planner query (request # reqs) st =
     (let n = rn_tick st in
      case Planner_Validate planner query (env_now env n) of
        Some e \<Rightarrow> (st, Some e)
      | None \<Rightarrow>
        (case env_fetch env n request of
           (k, res) \<Rightarrow>
           (let st1 = st\<lparr>rn_tick := n + 2, rn_attempts := rn_attempts st + int k, rn_calls := rn_calls st + 1\<rparr> in
            case res of
              Inl e \<Rightarrow> (st1, Some e)
            | Inr page \<Rightarrow>
              (case UpsertMany cp (env_ctx env n) (env_now env (n + 1)) (others cp env st) page of
                 (repo, Some e) \<Rightarrow> (st1\<lparr>rn_repo := repo\<rparr>, Some e)
               | (repo, None) \<Rightarrow>
                   load_pages cp env planner query reqs
                     (fold (note_row query) page (st1\<lparr>rn_repo := repo,
                        rn_events := rn_events st1 @ [(event (se_Scope (q_Series query)))\<lparr>e_Downloaded := length page\<rparr>]\<rparr>))))))"

definition progress_row :: "'d Stored list \<Rightarrow> 'd Stored \<Rightarrow> bool" where
  "progress_row before row =
     (case map_of (rev (map (\<lambda>r. (k_OpenTime (st_Candle r), r)) before)) (k_OpenTime (st_Candle row)) of
        None \<Rightarrow> True
      | Some old \<Rightarrow> st_RequestStartedAt row > st_RequestStartedAt old
          \<or> (st_RequestStartedAt row = st_RequestStartedAt old
             \<and> k_FetchedAt (st_Candle row) > k_FetchedAt (st_Candle old)))"

definition madeProgress :: "'d Stored list \<Rightarrow> 'd Stored list \<Rightarrow> bool" where
  "madeProgress before after = list_ex (progress_row before) after"

text \<open>The loop of \<open>load\<close>; \<open>None\<close> when the fuel runs out.\<close>

fun load_loop :: "nat \<Rightarrow> ('d \<Rightarrow> 'd) \<Rightarrow> 'd env \<Rightarrow> Planner \<Rightarrow> Settings \<Rightarrow> Query \<Rightarrow> 'd Stored list \<Rightarrow> Request list
    \<Rightarrow> 'd run \<Rightarrow> ('d run \<times> error option) option" where
  "load_loop 0 cp env planner settings query rows reqs st = None"
| "load_loop (Suc fuel) cp env planner settings query rows reqs st =
     (if reqs = [] then Some (st, None)
      else if int (length reqs) > set_MaxAttempts settings - rn_attempts st
      then Some (st, Some (App ErrUpstreamAttemptLimit))
      else (case load_pages cp env planner query reqs st of
         (st1, Some e) \<Rightarrow> Some (st1, Some e)
       | (st1, None) \<Rightarrow>
         (case read cp env planner query (rn_refreshed st1) st1 of
            (st2, Inl e) \<Rightarrow> Some (st2, Some e)
          | (st2, Inr (rows', reqs')) \<Rightarrow>
              if reqs' \<noteq> [] \<and> \<not> madeProgress rows rows' then Some (st2, Some (App ErrIncompleteData))
              else load_loop fuel cp env planner settings query rows' reqs' st2)))"

definition load :: "nat \<Rightarrow> ('d \<Rightarrow> 'd) \<Rightarrow> 'd env \<Rightarrow> Planner \<Rightarrow> Settings \<Rightarrow> Query \<Rightarrow> 'd run
    \<Rightarrow> ('d run \<times> error option) option" where
  "load fuel cp env planner settings query st =
     (case read cp env planner query (rn_refreshed st) st of
        (st1, Inl e) \<Rightarrow> Some (st1, Some e)
      | (st1, Inr (rows, reqs)) \<Rightarrow> load_loop fuel cp env planner settings query rows reqs st1)"

section \<open>Get\<close>

text \<open>
  The loop of \<open>Get\<close>. Joining a fill and waiting for it is the section of \<open>Kline_Fills\<close>; its outcome is
  \<open>env_fill\<close>, and \<open>env_remaining\<close> the caller's budget as read before joining.
\<close>

fun get_loop :: "nat \<Rightarrow> ('d \<Rightarrow> 'd) \<Rightarrow> 'd env \<Rightarrow> Planner \<Rightarrow> Query \<Rightarrow> error option \<Rightarrow> bool \<Rightarrow> 'd run
    \<Rightarrow> ('d run \<times> 'd Kline list result) option" where
  "get_loop 0 cp env planner query fillError first st = None"
| "get_loop (Suc fuel) cp env planner query fillError first st =
     (case read cp env planner query (rn_refreshed st) st of
        (st1, Inl e) \<Rightarrow> Some (st1, Inl e)
      | (st1, Inr (rows, reqs)) \<Rightarrow>
        (let n = rn_tick st1;
             st2 = (if first then st1\<lparr>rn_events := rn_events st1 @
                      [(event (se_Scope (q_Series query)))\<lparr>e_CacheRead := True, e_CacheHit := (reqs = [])\<rparr>]\<rparr> else st1) in
         if reqs = [] then Some (st2, Inr (map st_Candle rows))
         else (case fillError of
            Some e \<Rightarrow> Some (st2, Inl e)
          | None \<Rightarrow>
              if env_remaining env n = 0 then Some (st2, Inl (App ErrUpstreamAttemptLimit))
              else (case env_fill env n of
                 Inl e \<Rightarrow> Some (st2, Inl e)
               | Inr out \<Rightarrow>
                   if fo_exhausted out then Some (st2, Inl (App ErrUpstreamAttemptLimit))
                   else
                     (let st3 = st2\<lparr>rn_tick := n + 1, rn_refreshed :=
                            (if fo_done out then refreshes_merge query (fo_saved out) (rn_refreshed st2)
                             else rn_refreshed st2)\<rparr> in
                      case env_err env n of
                        Some e \<Rightarrow> Some (st3, Inl e)
                      | None \<Rightarrow> get_loop fuel cp env planner query (fo_err out) False st3)))))"

text \<open>\<open>busy\<close> is the number of callers in the semaphore channel when \<open>Get\<close> tries to enter.\<close>

definition Get :: "nat \<Rightarrow> ('d \<Rightarrow> 'd) \<Rightarrow> 'd env \<Rightarrow> kline_service \<Rightarrow> 'd instrumentRepository \<Rightarrow> int \<Rightarrow> Query \<Rightarrow> 'd run
    \<Rightarrow> ('d run \<times> 'd Kline list result) option" where
  "Get fuel cp env s instruments busy query st =
     (let n = rn_tick st; st1 = st\<lparr>rn_tick := n + 1\<rparr>; scope = se_Scope (q_Series query) in
      case Service_Validate s query (env_now env n) of
        Some e \<Rightarrow> Some (st1, Inl e)
      | None \<Rightarrow>
        (case env_err env n of
           Some e \<Rightarrow> Some (st1, Inl e)
         | None \<Rightarrow>
             if busy \<ge> set_MaxCallers (ks_settings s) then Some (st1, Inl (App ErrServiceOverloaded))
             else (case inst_List cp (env_ctx env n) instruments
                     \<lparr>if_Snapshot = \<lparr>f_Scopes = [scope], f_Symbol = Some (se_Symbol (q_Series query))\<rparr>, if_Status = None\<rparr> of
                Inl e \<Rightarrow> Some (st1, Inl e)
              | Inr catalog \<Rightarrow>
                  if catalog = [] then Some (st1, Inl (App ErrSymbolNotFound))
                  else get_loop fuel cp env (the (map_of (ks_scopes s) scope)) query None True
                         (st1\<lparr>rn_refreshed := []\<rparr>))))"

section \<open>Retention\<close>

record Retention =
  rt_scopes :: "candleScope list"
  rt_history :: int

fun retention_scopes :: "candleScope list \<Rightarrow> error option" where
  "retention_scopes [] = None"
| "retention_scopes (scope # rest) =
     (case NewCalendar (sc_Exchange (fst scope)) (sc_Market (fst scope)) (snd scope) of
        Inl e \<Rightarrow> Some e
      | Inr _ \<Rightarrow> retention_scopes rest)"

definition NewRetention :: "bool \<Rightarrow> candleScope list \<Rightarrow> int \<Rightarrow> Retention result" where
  "NewRetention deps scopes history =
     (if \<not> deps \<or> history \<le> 0 then Inl (App ErrInvalidParameter)
      else (case retention_scopes scopes of
         Some e \<Rightarrow> Inl e
       | None \<Rightarrow> Inr \<lparr>rt_scopes = scopes, rt_history = history\<rparr>))"

definition retention_error :: "error \<Rightarrow> error" where
  "retention_error e = Wrapped ''retention'' [e]"

text \<open>
  The loop of \<open>Clean\<close>: \<open>k\<close> numbers the iterations, \<open>polls k\<close> is the context error checked before a scope
  and \<open>ctxs k\<close> the context handed to the repository.
\<close>

fun clean_loop :: "(nat \<Rightarrow> error option) \<Rightarrow> (nat \<Rightarrow> ctx) \<Rightarrow> time \<Rightarrow> int \<Rightarrow> nat \<Rightarrow> candleScope list \<Rightarrow> error option
    \<Rightarrow> 'd klineRepository \<Rightarrow> 'd klineRepository \<times> error option" where
  "clean_loop polls ctxs now history k [] failures r = (r, failures)"
| "clean_loop polls ctxs now history k (scope # rest) failures r =
     (case polls k of
        Some e \<Rightarrow> (r, errors_Join [failures, Some e])
      | None \<Rightarrow>
        (case NewCalendar (sc_Exchange (fst scope)) (sc_Market (fst scope)) (snd scope) of
           Inl e \<Rightarrow> (r, Some e)
         | Inr calendar \<Rightarrow>
           (case (case HistoryCutoff calendar now history of
                    Inl e \<Rightarrow> (r, Some e)
                  | Inr cutoff \<Rightarrow> DeleteBefore (ctxs k) r (fst scope) (snd scope) cutoff) of
              (r', err) \<Rightarrow>
                clean_loop polls ctxs now history (k + 1) rest
                  (case err of None \<Rightarrow> failures | Some e \<Rightarrow> errors_Join [failures, Some (retention_error e)]) r')))"

definition Clean :: "error option \<Rightarrow> (nat \<Rightarrow> error option) \<Rightarrow> (nat \<Rightarrow> ctx) \<Rightarrow> time \<Rightarrow> Retention \<Rightarrow> 'd klineRepository
    \<Rightarrow> 'd klineRepository \<times> error option" where
  "Clean ctx_err polls ctxs now rt r =
     (case ctx_err of
        Some e \<Rightarrow> (r, Some e)
      | None \<Rightarrow> clean_loop polls ctxs now (rt_history rt) 0 (rt_scopes rt) None r)"


section \<open>The repository as a source of cached rows\<close>

text \<open>
  What the planner and the service rely on when they read cached rows.
\<close>

locale candle_source =
  fixes ok :: "'st \<Rightarrow> bool"
    and rows :: "'st \<Rightarrow> Query \<Rightarrow> 'd Stored list"
  assumes rows_ok: "ok st \<Longrightarrow> seriesCalendar (q_Series q) = Inr c \<Longrightarrow> row \<in> set (rows st q) \<Longrightarrow> cached_ok q c row"
    and rows_sorted: "ok st \<Longrightarrow> sorted_wrt (<) (map row_open (rows st q))"
begin

lemma rows_distinct: "ok st \<Longrightarrow> distinct (map row_open (rows st q))"
  using rows_sorted by (simp add: strict_sorted_iff)

lemma rows_slots:
  assumes "ok st" and "seriesCalendar (q_Series q) = Inr c" and wf: "cal_wf c"
    and ends: "q_From q = slot_start c i" "q_To q = slot_start c (i + n)"
  shows "set (map row_open (rows st q)) \<subseteq> slot_start c ` {i..<i + n}"
proof
  fix t assume "t \<in> set (map row_open (rows st q))"
  then obtain row where row: "row \<in> set (rows st q)" "t = row_open row" by auto
  from rows_ok [OF assms(1,2) row(1)] obtain k where k: "t = slot_start c k" "q_From q \<le> t" "t < q_To q"
    using Next_ok [OF wf] row(2) unfolding cached_ok_def by metis
  then have "i \<le> k" "k < i + n" by (simp_all add: ends cal.start_le_iff [OF wf] cal.start_less_iff [OF wf])
  with k show "t \<in> slot_start c ` {i..<i + n}" by auto
qed

text \<open>Planning over the rows of the repository never fails once the query is valid.\<close>

lemma plan_total:
  assumes "ok st" and v: "validate p q now = Inr (c, n)" and ser: "seriesCalendar (q_Series q) = Inr c"
  shows "\<exists>reqs. plan p q (rows st q) now refreshed = Inr reqs"
proof -
  obtain i where i: "cal_wf c" "q_From q = slot_start c i" "q_To q = slot_start c (i + n)" "0 \<le> n"
    by (rule validate_slots [OF v])
  have "card (set (map row_open (rows st q))) \<le> card (slot_start c ` {i..<i + n})"
    using rows_slots [OF assms(1) ser i(1,2,3)] by (intro card_mono) simp_all
  also have "\<dots> \<le> nat n" using card_image_le [of "{i..<i + n}" "slot_start c"] by simp
  finally have "int (length (rows st q)) \<le> n"
    using rows_distinct [OF assms(1), of q] i(4) distinct_card [of "map row_open (rows st q)"] by simp
  with v rows_ok [OF assms(1) ser] rows_distinct [OF assms(1)] show ?thesis unfolding plan_accepts by blast
qed

text \<open>When nothing is left to fetch the rows are the whole range, slot by slot, and settled.\<close>

lemma nothing_missing:
  assumes "ok st" and v: "validate p q now = Inr (c, n)" and ser: "seriesCalendar (q_Series q) = Inr c"
    and nil: "plan p q (rows st q) now refreshed = Inr []"
  shows "\<exists>i. q_From q = slot_start c i \<and> q_To q = slot_start c (i + n)
    \<and> map row_open (rows st q) = map (\<lambda>k. slot_start c (i + k)) [0..n - 1]
    \<and> (\<forall>row \<in> set (rows st q). settled refreshed now row)"
proof -
  obtain i ks where i: "cal_wf c" "q_From q = slot_start c i" "q_To q = slot_start c (i + n)" "0 \<le> n"
    and ks: "sorted_wrt (<) ks"
    and need: "\<forall>t. t \<in> unsettled q c (rows st q) now refreshed \<longleftrightarrow> (\<exists>k \<in> set ks. t = slot_start c (i + k))"
    and reqs: "[] = map (page_request q c i) (pages (pl_pageLimit p) ks None)"
    by (rule plan_pages [OF v nil])
  have "ks = []" using reqs pages_cover(1) [OF ks validate_calendar(3) [OF v]] by simp
  with need have none: "unsettled q c (rows st q) now refreshed = {}" by auto
  have all: "\<exists>row \<in> set (rows st q). row_open row = slot_start c (i + k) \<and> settled refreshed now row"
    if "0 \<le> k" "k < n" for k
  proof (rule ccontr)
    assume "\<not> ?thesis"
    then have "slot_start c (i + k) \<in> unsettled q c (rows st q) now refreshed"
      using that i by (auto simp: unsettled_def cal.start_le_iff cal.start_less_iff)
    with none show False by simp
  qed
  have slots: "set (map (\<lambda>k. slot_start c (i + k)) [0..n - 1]) = slot_start c ` {i..<i + n}"
  proof -
    have "{i..<i + n} = (\<lambda>k. i + k) ` {0..<n}" by (simp add: image_add_atLeastLessThan add.commute)
    moreover have "{0..<n} = {0..n - 1}" by auto
    ultimately show ?thesis by (simp only: set_map set_upto image_image)
  qed
  have "slot_start c ` {i..<i + n} \<subseteq> set (map row_open (rows st q))"
  proof
    fix t assume "t \<in> slot_start c ` {i..<i + n}"
    then obtain j where "t = slot_start c (i + (j - i))" "0 \<le> j - i" "j - i < n" by auto
    with all [of "j - i"] show "t \<in> set (map row_open (rows st q))" by force
  qed
  with slots have "set (map row_open (rows st q)) = set (map (\<lambda>k. slot_start c (i + k)) [0..n - 1])"
    using rows_slots [OF assms(1) ser i(1,2,3)] by blast
  moreover have "sorted_wrt (<) (map (\<lambda>k. slot_start c (i + k)) [0..n - 1])"
    unfolding sorted_wrt_map by (rule sorted_wrt_mono_rel [OF _ sorted_wrt_upto]) (simp add: cal.start_less_iff [OF i(1)])
  ultimately have order: "map row_open (rows st q) = map (\<lambda>k. slot_start c (i + k)) [0..n - 1]"
    using rows_sorted [OF assms(1), of q] by (intro strict_sorted_equal) auto
  have "settled refreshed now row" if "row \<in> set (rows st q)" for row
  proof -
    have "row_open row \<in> slot_start c ` {i..<i + n}" using that rows_slots [OF assms(1) ser i(1,2,3)] by auto
    then obtain j where "row_open row = slot_start c (i + (j - i))" "0 \<le> j - i" "j - i < n" by auto
    with all [of "j - i"] obtain row' where "row' \<in> set (rows st q)" "row_open row' = row_open row" "settled refreshed now row'" by auto
    moreover have "inj_on row_open (set (rows st q))" using rows_distinct [OF assms(1), of q] by (simp add: distinct_map)
    from inj_onD [OF this] calculation(1,2) that have "row' = row" by blast
    ultimately show ?thesis by simp
  qed
  with i order show ?thesis by blast
qed

end

lemma some_horizon: "\<exists>horizon. \<forall>op \<in> set ops. op_clock horizon op"
proof (induction ops)
  case (Cons op ops)
  then obtain h where h: "\<forall>op \<in> set ops. op_clock h op" by blast
  have later: "op_clock (max h x) op'" if "op_clock h op'" for op' x using that by (cases op') auto
  obtain x where "op_clock x op" by (cases op) auto
  then have "op_clock (max h x) op" by (cases op) auto
  with h later show ?case by auto
qed simp

interpretation store: candle_source "\<lambda>r. \<exists>history ops. r = candle_run cp history ops" "range_rows cp"
  for cp :: "'d \<Rightarrow> 'd"
proof unfold_locales
  fix r :: "'d klineRepository" and q :: Query
  assume "\<exists>history ops. r = candle_run cp history ops"
  then obtain history ops where r: "r = candle_run cp history ops" by blast
  then have wf: "kr_wf r" by simp
  show "sorted_wrt (<) (map row_open (range_rows cp r q))" by (rule range_rows_sorted [OF wf])
  fix c row assume c: "seriesCalendar (q_Series q) = Inr c" and row: "row \<in> set (range_rows cp r q)"
  obtain horizon where "\<forall>op \<in> set ops. op_clock horizon op" using some_horizon by blast
  from candle_run_rows_ok [OF this] have ok: "rows_ok horizon r" by (simp add: r)
  from row range_rows_set [OF wf] obtain t x where x: "candle_at r (q_Series q) t = Some x" "q_From q \<le> t" "t < q_To q"
    "row = \<lparr>st_Candle = candle cp x (q_Series q) t, st_RequestStartedAt = sc_RequestStartedAt x\<rparr>" by blast
  have "row_ok horizon (q_Series q) t x" using ok x(1) by (simp add: rows_ok_def)
  with c x show "cached_ok q c row"
    by (auto simp: cached_ok_def row_ok_def candle_def copyKline_def row_series_eq)
qed


section \<open>Runs of the service\<close>

definition repo_ok :: "('d \<Rightarrow> 'd) \<Rightarrow> 'd klineRepository \<Rightarrow> bool" where
  "repo_ok cp r \<longleftrightarrow> (\<exists>history ops. r = candle_run cp history ops)"

lemma repo_ok_fold: "repo_ok cp r \<Longrightarrow> repo_ok cp (fold (candle_step cp) ops r)"
  unfolding repo_ok_def by (metis candle_run_append)

lemma repo_ok_others: "repo_ok cp (rn_repo st) \<Longrightarrow> repo_ok cp (others cp env st)"
  by (simp add: others_def repo_ok_fold)

lemma repo_ok_upsert: "repo_ok cp r \<Longrightarrow> repo_ok cp (fst (UpsertMany cp ctx now r rows))"
  using repo_ok_fold [of cp r "[Upsert ctx now rows]"] by simp

lemma validate_seriesCalendar:
  assumes "validate p query now = Inr (c, n)"
  shows "seriesCalendar (q_Series query) = Inr c"
  using validate_calendar [OF assms] by (auto simp: seriesCalendar_Inr validateScope_def dest: NewCalendar_valid)

lemma Planner_Validate_None: "Planner_Validate p query now = None \<longleftrightarrow> (\<exists>c n. validate p query now = Inr (c, n))"
  by (auto simp: Planner_Validate_def split: sum.splits)

lemma read_state:
  "fst (read cp env p query refreshed st) = st\<lparr>rn_repo := others cp env st, rn_tick := rn_tick st + 2\<rparr>"
  by (auto simp: read_def Let_def split: option.splits sum.splits)

lemma read_Inr:
  assumes "read cp env p query refreshed st = (st', Inr (rows, reqs))"
  shows "rows = range_rows cp (rn_repo st') query" and "plan p query rows (env_now env (rn_tick st)) refreshed = Inr reqs"
    and "st' = st\<lparr>rn_repo := others cp env st, rn_tick := rn_tick st + 2\<rparr>"
  using assms by (auto simp: read_def Let_def split: option.splits sum.splits dest!: GetRange_Inr)

text \<open>A read that leaves nothing to fetch has seen the whole range.\<close>

definition range_complete :: "Planner \<Rightarrow> Query \<Rightarrow> refreshes \<Rightarrow> time \<Rightarrow> 'd Stored list \<Rightarrow> bool" where
  "range_complete p query refreshed now rows \<longleftrightarrow>
     (\<exists>c n i. validate p query now = Inr (c, n) \<and> q_From query = slot_start c i \<and> q_To query = slot_start c (i + n)
        \<and> map row_open rows = map (\<lambda>k. slot_start c (i + k)) [0..n - 1]
        \<and> (\<forall>row \<in> set rows. row_series row = q_Series query \<and> settled refreshed now row))"

lemma read_complete:
  assumes "read cp env p query refreshed st = (st', Inr (rows, []))" and "repo_ok cp (rn_repo st)"
  shows "range_complete p query refreshed (env_now env (rn_tick st)) rows"
proof -
  note r = read_Inr [OF assms(1)]
  let ?now = "env_now env (rn_tick st)"
  obtain c n where v: "validate p query ?now = Inr (c, n)"
    using r(2) by (auto simp: plan_def split: sum.splits prod.splits)
  have ok: "\<exists>history ops. rn_repo st' = candle_run cp history ops"
    using repo_ok_others [OF assms(2), of env] by (simp add: r(3) repo_ok_def)
  note ser = validate_seriesCalendar [OF v]
  have "row_series row = q_Series query" if "row \<in> set rows" for row
    using store.rows_ok [OF ok ser, of row] that by (simp add: r(1) cached_ok_def)
  with v store.nothing_missing [OF ok v ser r(2) [unfolded r(1)]] show ?thesis
    unfolding range_complete_def r(1) by blast
qed

lemma note_row_fields [simp]:
  "rn_repo (note_row query row st) = rn_repo st" "rn_tick (note_row query row st) = rn_tick st"
  "rn_attempts (note_row query row st) = rn_attempts st" "rn_calls (note_row query row st) = rn_calls st"
  by (simp_all add: note_row_def)

lemma fold_note_row_fields [simp]:
  "rn_repo (fold (note_row query) rows st) = rn_repo st" "rn_tick (fold (note_row query) rows st) = rn_tick st"
  "rn_attempts (fold (note_row query) rows st) = rn_attempts st" "rn_calls (fold (note_row query) rows st) = rn_calls st"
  by (induction rows arbitrary: st) simp_all

text \<open>
  What \<open>Operations\<close> documents: an attempt is reported before each dispatch, so a page that was
  delivered took at least one.
\<close>

definition dispatch_law :: "'d env \<Rightarrow> bool" where
  "dispatch_law env \<longleftrightarrow> (\<forall>n request k page. env_fetch env n request = (k, Inr page) \<longrightarrow> 1 \<le> k)"

lemma load_pages_effect:
  assumes "dispatch_law env" and "load_pages cp env p query reqs st = (st', err)"
  shows "rn_calls st' \<le> rn_calls st + length reqs
    \<and> rn_attempts st \<le> rn_attempts st'
    \<and> (err = None \<longrightarrow> rn_attempts st + int (length reqs) \<le> rn_attempts st')
    \<and> (repo_ok cp (rn_repo st) \<longrightarrow> repo_ok cp (rn_repo st'))"
  using assms(2)
proof (induction reqs arbitrary: st)
  case (Cons request reqs)
  let ?n = "rn_tick st"
  show ?case
  proof (cases "Planner_Validate p query (env_now env ?n)")
    case (Some e)
    with Cons.prems have "st' = st" "err = Some e" by (simp_all add: Let_def)
    then show ?thesis by simp
  next
    case valid: None
    obtain k res where fetch: "env_fetch env ?n request = (k, res)" by fastforce
    show ?thesis
    proof (cases res)
      case (Inl e)
      with Cons.prems valid fetch show ?thesis by (auto simp: Let_def)
    next
      case (Inr page)
      with fetch assms(1) have k: "1 \<le> k" by (auto simp: dispatch_law_def)
      obtain repo e where up: "UpsertMany cp (env_ctx env ?n) (env_now env (?n + 1)) (others cp env st) page = (repo, e)"
        by fastforce
      have ok: "repo_ok cp (rn_repo st) \<longrightarrow> repo_ok cp repo"
        using repo_ok_upsert [OF repo_ok_others] up by (metis fst_conv)
      show ?thesis
      proof (cases e)
        case None
        with Cons.prems valid fetch Inr up have "load_pages cp env p query reqs (fold (note_row query) page
            (st\<lparr>rn_tick := ?n + 2, rn_attempts := rn_attempts st + int k, rn_calls := rn_calls st + 1, rn_repo := repo,
              rn_events := rn_events st @ [(event (se_Scope (q_Series query)))\<lparr>e_Downloaded := length page\<rparr>]\<rparr>)) = (st', err)"
          by (simp add: Let_def)
        from Cons.IH [OF this] k ok show ?thesis by auto
      next
        case (Some err')
        with Cons.prems valid fetch Inr up ok show ?thesis by (auto simp: Let_def)
      qed
    qed
  qed
qed auto

text \<open>
  The loop ends within the attempt budget: a pass that completes has used at least as many attempts as
  the plan has pages, and a pass starts only if the budget covers its pages.
\<close>

lemma load_loop_ends:
  assumes law: "dispatch_law env"
  shows "nat (set_MaxAttempts settings - rn_attempts st) < fuel \<Longrightarrow>
    \<exists>st' err. load_loop fuel cp env p settings query rows reqs st = Some (st', err)
      \<and> rn_calls st' \<le> rn_calls st + nat (set_MaxAttempts settings - rn_attempts st)"
proof (induction fuel arbitrary: rows reqs st)
  case (Suc fuel)
  let ?left = "set_MaxAttempts settings - rn_attempts st"
  show ?case
  proof (cases "reqs = [] \<or> int (length reqs) > ?left")
    case True
    then show ?thesis by auto
  next
    case False
    obtain st1 e where pages: "load_pages cp env p query reqs st = (st1, e)" by fastforce
    note eff = load_pages_effect [OF law pages]
    show ?thesis
    proof (cases e)
      case (Some err)
      with False pages eff show ?thesis by auto
    next
      case None
      obtain st2 res where rd: "read cp env p query (rn_refreshed st1) st1 = (st2, res)" by fastforce
      have st2: "rn_attempts st2 = rn_attempts st1" "rn_calls st2 = rn_calls st1"
        using read_state [of cp env p query "rn_refreshed st1" st1] by (simp_all add: rd)
      have less: "nat (set_MaxAttempts settings - rn_attempts st2) < fuel"
        using False Suc.prems eff None by (cases reqs) (auto simp: st2)
      have calls: "rn_calls st2 + nat (set_MaxAttempts settings - rn_attempts st2) \<le> rn_calls st + nat ?left"
        using False eff None by (auto simp: st2)
      show ?thesis
      proof (cases res)
        case (Inl err)
        with False pages None rd calls show ?thesis by auto
      next
        case (Inr rp)
        obtain rows' reqs' where rp: "rp = (rows', reqs')" by fastforce
        show ?thesis
        proof (cases "reqs' \<noteq> [] \<and> \<not> madeProgress rows rows'")
          case True
          with False pages None rd Inr rp calls show ?thesis by auto
        next
          case go: False
          from Suc.IH [OF less, of rows' reqs'] obtain st' err where
            "load_loop fuel cp env p settings query rows' reqs' st2 = Some (st', err)"
            "rn_calls st' \<le> rn_calls st2 + nat (set_MaxAttempts settings - rn_attempts st2)" by blast
          with False go pages None rd Inr rp calls show ?thesis by auto
        qed
      qed
    qed
  qed
qed simp

lemma load_loop_success:
  assumes "load_loop fuel cp env p settings query rows reqs st = Some (st', None)" and law: "dispatch_law env"
    and "repo_ok cp (rn_repo st0)" and "read cp env p query (rn_refreshed st) st0 = (st, Inr (rows, reqs))"
  shows "\<exists>now. range_complete p query (rn_refreshed st') now (range_rows cp (rn_repo st') query)"
  using assms(1,3,4)
proof (induction fuel arbitrary: rows reqs st st0)
  case (Suc fuel)
  note r = read_Inr [OF Suc.prems(3)]
  show ?case
  proof (cases "reqs = []")
    case True
    with Suc.prems have "st' = st" by simp
    with read_complete [OF Suc.prems(3) [unfolded True] Suc.prems(2)] r(1) show ?thesis by auto
  next
    case False
    have ok: "repo_ok cp (rn_repo st)" using repo_ok_others [OF Suc.prems(2)] by (simp add: r(3))
    obtain st1 e where pages: "load_pages cp env p query reqs st = (st1, e)" by fastforce
    obtain st2 res where rd: "read cp env p query (rn_refreshed st1) st1 = (st2, res)" by fastforce
    have ok1: "repo_ok cp (rn_repo st1)" using load_pages_effect [OF law pages] ok by simp
    have same: "rn_refreshed st2 = rn_refreshed st1"
      using read_state [of cp env p query "rn_refreshed st1" st1] by (simp add: rd)
    from Suc.prems(1) False pages rd obtain rows' reqs' where res: "res = Inr (rows', reqs')"
      and step: "load_loop fuel cp env p settings query rows' reqs' st2 = Some (st', None)"
      by (auto split: if_splits option.splits sum.splits)
    show ?thesis using Suc.IH [OF step ok1] rd res same by simp
  qed
qed simp


lemma get_loop_success:
  assumes "get_loop fuel cp env p query fillError first st = Some (st', Inr candles)" and "repo_ok cp (rn_repo st)"
  shows "\<exists>refreshed now rows. candles = map st_Candle rows \<and> range_complete p query refreshed now rows"
  using assms
proof (induction fuel arbitrary: fillError first st)
  case (Suc fuel)
  obtain st1 res where rd: "read cp env p query (rn_refreshed st) st = (st1, res)" by fastforce
  have repo: "repo_ok cp (rn_repo st1)"
    using read_state [of cp env p query "rn_refreshed st" st] repo_ok_others [OF Suc.prems(2)] by (simp add: rd)
  from Suc.prems(1) rd obtain rows reqs where res: "res = Inr (rows, reqs)" by (cases res) auto
  show ?case
  proof (cases "reqs = []")
    case True
    with Suc.prems(1) rd res have "candles = map st_Candle rows" by (auto simp: Let_def)
    with read_complete [OF rd [unfolded res True] Suc.prems(2)] show ?thesis by blast
  next
    case False
    then obtain fe st3 where "get_loop fuel cp env p query fe False st3 = Some (st', Inr candles)" "rn_repo st3 = rn_repo st1"
      using Suc.prems(1) rd res by (auto simp: Let_def split: option.splits sum.splits if_splits)
    with Suc.IH repo show ?thesis by metis
  qed
qed simp

section \<open>Retention\<close>

lemma DeleteBefore_shrinks:
  assumes "kr_wf r"
  shows "kr_wf (fst (DeleteBefore ctx r scope interval before))"
    and "candle_at (fst (DeleteBefore ctx r scope interval before)) s t = candle_at r s t
      \<or> candle_at (fst (DeleteBefore ctx r scope interval before)) s t = None"
proof -
  obtain r' e where del: "DeleteBefore ctx r scope interval before = (r', e)" by fastforce
  from DeleteBefore_effect [OF assms del]
  consider "r' = r" | "kr_wf r'" "\<forall>s t. candle_at r' s t = candle_at r s t \<or> candle_at r' s t = None"
    by (elim disjE conjE) metis+
  then have "kr_wf r' \<and> (\<forall>s t. candle_at r' s t = candle_at r s t \<or> candle_at r' s t = None)"
    using assms by cases simp_all
  then show "kr_wf (fst (DeleteBefore ctx r scope interval before))"
    and "candle_at (fst (DeleteBefore ctx r scope interval before)) s t = candle_at r s t
      \<or> candle_at (fst (DeleteBefore ctx r scope interval before)) s t = None" by (simp_all add: del)
qed

text \<open>One scope of \<open>Clean\<close>.\<close>

definition clean_scope :: "ctx \<Rightarrow> Calendar \<Rightarrow> time \<Rightarrow> int \<Rightarrow> candleScope \<Rightarrow> 'd klineRepository \<Rightarrow> 'd klineRepository \<times> error option" where
  "clean_scope ctx c now history scope r = (case HistoryCutoff c now history of Inl e \<Rightarrow> (r, Some e)
     | Inr cutoff \<Rightarrow> DeleteBefore ctx r (fst scope) (snd scope) cutoff)"

lemma clean_scope_shrinks:
  assumes "kr_wf r"
  shows "kr_wf (fst (clean_scope ctx c now history scope r))"
    and "candle_at (fst (clean_scope ctx c now history scope r)) s t = candle_at r s t
      \<or> candle_at (fst (clean_scope ctx c now history scope r)) s t = None"
  using DeleteBefore_shrinks [OF assms] assms by (auto simp: clean_scope_def split: sum.splits)

lemma clean_loop_Cons:
  assumes "polls k = None" and "NewCalendar (sc_Exchange (fst scope)) (sc_Market (fst scope)) (snd scope) = Inr c"
  shows "\<exists>fl. clean_loop polls ctxs now history k (scope # scopes) failures r =
    clean_loop polls ctxs now history (k + 1) scopes fl (fst (clean_scope (ctxs k) c now history scope r))"
  using assms by (auto simp: clean_scope_def split: prod.splits)

lemma clean_loop_shrinks:
  assumes "kr_wf r"
  shows "kr_wf (fst (clean_loop polls ctxs now history k scopes failures r))"
    and "candle_at (fst (clean_loop polls ctxs now history k scopes failures r)) s t = candle_at r s t
      \<or> candle_at (fst (clean_loop polls ctxs now history k scopes failures r)) s t = None"
  using assms
proof (atomize (full), induction scopes arbitrary: k failures r)
  case (Cons scope scopes)
  show ?case
  proof (cases "polls k \<noteq> None \<or> (\<exists>e. NewCalendar (sc_Exchange (fst scope)) (sc_Market (fst scope)) (snd scope) = Inl e)")
    case True
    then show ?thesis using Cons.prems by (auto split: option.splits)
  next
    case False
    then obtain c where c: "polls k = None" "NewCalendar (sc_Exchange (fst scope)) (sc_Market (fst scope)) (snd scope) = Inr c"
      by (cases "NewCalendar (sc_Exchange (fst scope)) (sc_Market (fst scope)) (snd scope)") auto
    let ?r1 = "fst (clean_scope (ctxs k) c now history scope r)"
    obtain fl where run: "clean_loop polls ctxs now history k (scope # scopes) failures r =
        clean_loop polls ctxs now history (k + 1) scopes fl ?r1" using clean_loop_Cons [where polls = polls and k = k, OF c] by blast
    note r1 = clean_scope_shrinks [OF Cons.prems, of "ctxs k" c now history scope]
    from Cons.IH [OF r1(1), of "k + 1" fl] r1(2) [of s t] show ?thesis unfolding run by (elim conjE disjE) simp_all
  qed
qed simp

lemma background_delete: "snd (delete_loop background k key before ss r) = None"
  by (induction ss arbitrary: k r) simp_all

text \<open>A scope whose own cleanup is not interrupted is cleaned, whatever happens to the others.\<close>

lemma clean_loop_cleans:
  assumes "kr_wf r" and "\<And>k. polls k = None" and "retention_scopes scopes = None"
    and "j < length scopes" and "ctxs (k + j) = background"
    and "NewCalendar (sc_Exchange (fst (scopes ! j))) (sc_Market (fst (scopes ! j))) (snd (scopes ! j)) = Inr c"
    and "HistoryCutoff c now history = Inr cutoff" and "series_scope s = scopes ! j" and "t < cutoff"
  shows "candle_at (fst (clean_loop polls ctxs now history k scopes failures r)) s t = None"
  using assms
proof (induction scopes arbitrary: j k failures r)
  case (Cons scope scopes)
  obtain c0 where c0: "NewCalendar (sc_Exchange (fst scope)) (sc_Market (fst scope)) (snd scope) = Inr c0"
    and rest: "retention_scopes scopes = None" using Cons.prems(3) by (auto split: sum.splits)
  let ?r1 = "fst (clean_scope (ctxs k) c0 now history scope r)"
  obtain fl where run: "clean_loop polls ctxs now history k (scope # scopes) failures r =
      clean_loop polls ctxs now history (k + 1) scopes fl ?r1" using clean_loop_Cons [where polls = polls and k = k, OF Cons.prems(2) c0] by blast
  have wf1: "kr_wf ?r1" by (rule clean_scope_shrinks(1) [OF Cons.prems(1)])
  show ?case
  proof (cases j)
    case (Suc i)
    show ?thesis unfolding run
      by (rule Cons.IH [OF wf1 Cons.prems(2) rest, of i]) (use Suc Cons.prems(4-9) in simp_all)
  next
    case 0
    then have s: "series_scope s = scope" and c: "c0 = c" and bg: "ctxs k = background" using Cons.prems c0 by auto
    obtain r1 err where del': "DeleteBefore background r (fst scope) (snd scope) cutoff = (r1, err)" by fastforce
    have r1: "?r1 = r1" using Cons.prems(7) del' by (simp add: clean_scope_def bg c)
    have cwf: "cal_wf c" using Cons.prems(6) by (rule NewCalendar_wf)
    have bound: "ValidateBoundary c cutoff = None"
      using HistoryCutoff_start [OF cwf Cons.prems(7)] cal.validate_start [OF cwf] by simp
    have "err = None"
    proof -
      have "snd (DeleteBefore background r (fst scope) (snd scope) cutoff) = None"
        using NewCalendar_valid [OF c0] c0 bound Cons.prems(6) 0
        by (auto simp: DeleteBefore_def validateScope_def Let_def background_delete)
      with del' show ?thesis by simp
    qed
    with DeleteBefore_effect [OF Cons.prems(1) del'] s Cons.prems(9) have "candle_at r1 s t = None"
      by (cases scope) (auto simp: delete_mark_def split: option.splits)
    with clean_loop_shrinks(2) [OF wf1, of polls ctxs now history "k + 1" scopes fl s t] show ?thesis
      unfolding run r1 by (elim disjE) simp_all
  qed
qed simp


section \<open>Properties\<close>

text \<open>An environment in which every page arrives at the first attempt, for the witnesses.\<close>

definition ex_env :: "int env" where
  "ex_env = \<lparr>env_now = \<lambda>_. ex_open 3 + 5, env_err = \<lambda>_. None, env_ctx = \<lambda>_. background,
     env_fetch = \<lambda>_ request. (1, Inr (map (\<lambda>k. ex_row k (ex_open 3 + 5) 7)
       (filter (\<lambda>k. q_From (rq_Query request) \<le> ex_open k \<and> ex_open k < q_To (rq_Query request)) [0..3]))),
     env_others = \<lambda>_. [], env_remaining = \<lambda>_. 3, env_fill = \<lambda>_. Inl (App ErrServiceOverloaded)\<rparr>"

definition ex_run :: "int candle_op list \<Rightarrow> int run" where
  "ex_run ops = \<lparr>rn_repo = candle_run (\<lambda>d. d) 5 ops, rn_tick = 0, rn_attempts = 0, rn_calls = 0,
     rn_refreshed = [], rn_saved = [], rn_events = []\<rparr>"

definition ex_slot :: Query where
  "ex_slot = \<lparr>q_Series = ex_series, q_From = ex_open 0, q_To = ex_open 1\<rparr>"

definition ex_service :: kline_service where
  "ex_service = \<lparr>ks_settings = ex_settings, ks_scopes = [(se_Scope ex_series, ex_planner)]\<rparr>"

definition ex_catalog :: "int instrumentRepository" where
  "ex_catalog = inst_run (\<lambda>d. d) [(background, usdt_scope, [usdt_row ''BTC'' 1])]"

lemma ex_dispatch: "dispatch_law ex_env"
  by (simp add: dispatch_law_def ex_env_def)

text \<open>
  Storage and planner agree: on every reached repository, the rows that a successful \<open>GetRange\<close>
  returns for a valid query pass all the checks of the planner, so that planning a read never fails
  with an internal error.
\<close>

theorem cached_rows_always_plan:
  assumes "r = candle_run cp history ops" and "Planner_Validate p query now = None"
    and "GetRange cp ctx r query = Inr rows"
  shows "\<exists>reqs. plan p query rows now refreshed = Inr reqs"
proof -
  from assms(2) obtain c n where v: "validate p query now = Inr (c, n)" by (auto simp: Planner_Validate_None)
  have "\<exists>history ops. r = candle_run cp history ops" using assms(1) by blast
  from store.plan_total [OF this v validate_seriesCalendar [OF v]] GetRange_Inr [OF assms(3)] show ?thesis by simp
qed

theorem cached_rows_always_plan_witness:
  "\<exists>reqs. plan ex_planner ex_query (projr (GetRange (\<lambda>d. d) background (candle_run (\<lambda>d. d) 5 ex_ops) ex_query))
     (ex_open 3 + 5) [] = Inr reqs"
proof (rule cached_rows_always_plan [OF refl])
  show "Planner_Validate ex_planner ex_query (ex_open 3 + 5) = None" by code_simp
  have "\<not> isl (GetRange (\<lambda>d. d) background (candle_run (\<lambda>d. d) 5 ex_ops) ex_query)" by code_simp
  then show "GetRange (\<lambda>d. d) background (candle_run (\<lambda>d. d) 5 ex_ops) ex_query =
      Inr (projr (GetRange (\<lambda>d. d) background (candle_run (\<lambda>d. d) 5 ex_ops) ex_query))" by simp
qed

text \<open>
  C11. A fill always ends and stays within its budget: if every delivered page took at least one reported
  attempt, the loop of \<open>load\<close> returns after at most \<open>MaxAttempts\<close> passes, whatever the clock, the
  contexts, the provider and concurrent writers do, and it calls the provider at most \<open>MaxAttempts\<close>
  times.
\<close>

theorem load_terminates:
  assumes "dispatch_law env" and "rn_attempts st = 0" and "nat (set_MaxAttempts settings) < fuel"
  shows "\<exists>st' err. load fuel cp env p settings query st = Some (st', err)
    \<and> rn_calls st' \<le> rn_calls st + nat (set_MaxAttempts settings)"
proof -
  obtain st1 res where rd: "read cp env p query (rn_refreshed st) st = (st1, res)" by fastforce
  have st1: "rn_attempts st1 = 0" "rn_calls st1 = rn_calls st"
    using read_state [of cp env p query "rn_refreshed st" st] assms(2) by (simp_all add: rd)
  show ?thesis
  proof (cases res)
    case (Inl e)
    with rd st1 show ?thesis by (simp add: load_def)
  next
    case (Inr rp)
    obtain rows reqs where "rp = (rows, reqs)" by fastforce
    with Inr rd load_loop_ends [OF assms(1), of settings st1 fuel cp p query rows reqs] st1 assms(3)
    show ?thesis by (simp add: load_def)
  qed
qed

theorem load_terminates_witness:
  "\<exists>st' err. load 4 (\<lambda>d. d) ex_env ex_planner ex_settings ex_query (ex_run []) = Some (st', err) \<and> rn_calls st' \<le> 3"
  using load_terminates [OF ex_dispatch, of "ex_run []" ex_settings 4 "\<lambda>d. d" ex_planner ex_query]
  by (simp add: ex_run_def ex_settings_def)

text \<open>
  C4. A fill that reports success has filled the range: at its last read every slot of the query held a
  row of the series, in order, and each row was final or, for the open slot, refreshed by this fill.
\<close>

theorem load_success_complete:
  assumes "load fuel cp env p settings query st = Some (st', None)" and "dispatch_law env"
    and "rn_repo st = candle_run cp history ops"
  shows "\<exists>now. range_complete p query (rn_refreshed st') now (range_rows cp (rn_repo st') query)"
proof -
  obtain st1 res where rd: "read cp env p query (rn_refreshed st) st = (st1, res)" by fastforce
  have same: "rn_refreshed st1 = rn_refreshed st"
    using read_state [of cp env p query "rn_refreshed st" st] by (simp add: rd)
  from assms(1) rd obtain rows reqs where res: "res = Inr (rows, reqs)"
    and loop: "load_loop fuel cp env p settings query rows reqs st1 = Some (st', None)"
    by (auto simp: load_def split: sum.splits)
  have "repo_ok cp (rn_repo st)" using assms(3) by (auto simp: repo_ok_def)
  from load_loop_success [OF loop assms(2) this] rd res same show ?thesis by simp
qed

theorem load_success_complete_witness:
  "\<exists>st' now. load 4 (\<lambda>d. d) ex_env ex_planner ex_settings ex_slot (ex_run []) = Some (st', None)
    \<and> range_complete ex_planner ex_slot (rn_refreshed st') now (range_rows (\<lambda>d. d) (rn_repo st') ex_slot)"
proof -
  have "map_option snd (load 4 (\<lambda>d. d) ex_env ex_planner ex_settings ex_slot (ex_run [])) = Some None" by code_simp
  then obtain st' where run: "load 4 (\<lambda>d. d) ex_env ex_planner ex_settings ex_slot (ex_run []) = Some (st', None)" by auto
  have "rn_repo (ex_run []) = candle_run (\<lambda>d. d) 5 []" by (simp add: ex_run_def)
  from load_success_complete [OF run ex_dispatch this] run show ?thesis by blast
qed

text \<open>
  C2. \<open>Get\<close> never answers with a partial range: whatever happened in the fills it waited for, a
  successful answer has exactly one candle for every slot of the query, in ascending order, of the
  queried series, and every one is final or, while its slot is open, covered by refresh evidence.
\<close>

theorem Get_complete:
  assumes "Get fuel cp env s instruments busy query st = Some (st', Inr candles)"
    and "rn_repo st = candle_run cp history ops"
  shows "\<exists>p refreshed now rows. map_of (ks_scopes s) (se_Scope (q_Series query)) = Some p
    \<and> candles = map st_Candle rows \<and> range_complete p query refreshed now rows"
proof -
  let ?p = "the (map_of (ks_scopes s) (se_Scope (q_Series query)))"
  let ?st = "st\<lparr>rn_tick := rn_tick st + 1, rn_refreshed := []\<rparr>"
  have loop: "get_loop fuel cp env ?p query None True ?st = Some (st', Inr candles)"
    and val: "Service_Validate s query (env_now env (rn_tick st)) = None"
    using assms(1) by (auto simp: Get_def Let_def split: option.splits sum.splits if_splits)
  have "map_of (ks_scopes s) (se_Scope (q_Series query)) = Some ?p"
    using val by (auto simp: Service_Validate_def ValidateSeries_def split: option.splits)
  moreover have "repo_ok cp (rn_repo ?st)" using assms(2) by (auto simp: repo_ok_def)
  ultimately show ?thesis using get_loop_success [OF loop] by blast
qed

theorem Get_complete_witness:
  "\<exists>st' candles rows. Get 1 (\<lambda>d. d) ex_env ex_service ex_catalog 0 ex_slot
      (ex_run ex_ops) = Some (st', Inr candles) \<and> candles = map st_Candle rows
    \<and> (\<exists>refreshed now. range_complete ex_planner ex_slot refreshed now rows)"
proof -
  have "map_option (\<lambda>x. isl (snd x)) (Get 1 (\<lambda>d. d) ex_env ex_service ex_catalog 0 ex_slot (ex_run ex_ops)) = Some False" by code_simp
  then obtain st' candles where run: "Get 1 (\<lambda>d. d) ex_env ex_service ex_catalog 0 ex_slot (ex_run ex_ops) = Some (st', Inr candles)"
    by (auto simp: isl_def) (metis sum.exhaust_sel)
  have "rn_repo (ex_run ex_ops) = candle_run (\<lambda>d. d) 5 ex_ops" by (simp add: ex_run_def)
  moreover have "map_of (ks_scopes ex_service) (se_Scope (q_Series ex_slot)) = Some ex_planner" by code_simp
  ultimately show ?thesis using Get_complete [OF run] run by fastforce
qed

text \<open>
  Retention is enforced scope by scope: if the cleanup pass is not cancelled, every scope whose own
  deletion is not interrupted holds no candle below the history cutoff afterwards, even when other
  scopes fail; and the pass never adds or changes a candle.
\<close>

theorem Clean_enforces_retention:
  assumes "NewRetention True scopes history = Inr rt" and "r = candle_run cp limit ops"
    and "\<And>k. polls k = None" and "j < length scopes" and "ctxs j = background"
    and "NewCalendar (sc_Exchange (fst (scopes ! j))) (sc_Market (fst (scopes ! j))) (snd (scopes ! j)) = Inr c"
    and "HistoryCutoff c now history = Inr cutoff"
  shows "(\<forall>s t. (se_Scope s, se_Interval s) = scopes ! j \<and> t < cutoff \<longrightarrow>
      candle_at (fst (Clean None polls ctxs now rt r)) s t = None)
    \<and> (\<forall>s t. candle_at (fst (Clean None polls ctxs now rt r)) s t \<in> {candle_at r s t, None})"
proof -
  have wf: "kr_wf r" by (simp add: assms(2))
  have rt: "rt = \<lparr>rt_scopes = scopes, rt_history = history\<rparr>" and ok: "retention_scopes scopes = None"
    using assms(1) by (auto simp: NewRetention_def split: if_splits option.splits)
  have "candle_at (fst (Clean None polls ctxs now rt r)) s t = None"
    if "(se_Scope s, se_Interval s) = scopes ! j" "t < cutoff" for s t
    unfolding Clean_def rt using clean_loop_cleans [OF wf assms(3) ok assms(4) _ assms(6,7) that, of ctxs 0] assms(5) by simp
  moreover have "candle_at (fst (Clean None polls ctxs now rt r)) s t \<in> {candle_at r s t, None}" for s t
    using clean_loop_shrinks(2) [OF wf, of polls ctxs now history 0 scopes None s t] by (simp add: Clean_def rt)
  ultimately show ?thesis by blast
qed

theorem Clean_enforces_retention_witness:
  "candle_at (fst (Clean None (\<lambda>_. None) (\<lambda>_. background) (ex_open 9) \<lparr>rt_scopes = [series_scope ex_series], rt_history = 3\<rparr>
     (candle_run (\<lambda>d. d) 5 ex_ops))) ex_series (ex_open 1) = None"
proof -
  have "NewRetention True [series_scope ex_series] 3 = Inr \<lparr>rt_scopes = [series_scope ex_series], rt_history = 3\<rparr>" by code_simp
  moreover have "NewCalendar (sc_Exchange (fst ([series_scope ex_series] ! 0))) (sc_Market (fst ([series_scope ex_series] ! 0)))
      (snd ([series_scope ex_series] ! 0)) = Inr ex_calendar" by code_simp
  moreover have "HistoryCutoff ex_calendar (ex_open 9) 3 = Inr (ex_open 6)" by code_simp
  moreover have "ex_open 1 < ex_open 6" by code_simp
  ultimately show ?thesis
    using Clean_enforces_retention [of "[series_scope ex_series]" 3 _ _ "\<lambda>d. d" 5 ex_ops "\<lambda>_. None" 0 "\<lambda>_. background" ex_calendar "ex_open 9"]
    by simp
qed
end
