(* ===== verification/Snapshot_Service.thy ===== *)
theory Snapshot_Service
  imports Snapshot_Store
begin

text \<open>
  The use cases over the snapshot repositories: \<open>application/instrument/service.go\<close>,
  \<open>application/ticker/service.go\<close> with its read model, and \<open>application/marketstats/service.go\<close>.
  A reader turns a query into a filter and lists its repository; a refresher publishes what its provider
  returned and reports one event per publication. A provider is an exchange adapter seen through its
  answer: the model takes the answer of one call as an argument and returns the repository, the
  error and the events passed to the observer. Copies of decimals are the parameter \<open>cp\<close>, as in the
  repositories.
\<close>

section \<open>Instruments\<close>

record instrument_Query =
  iq_Exchange :: string
  iq_Market :: string
  iq_Symbol :: string
  iq_Status :: string

record instrument_Reader =
  ird_scopes :: "Scope list"

definition instrument_NewReader :: "Scope list \<Rightarrow> instrument_Reader" where
  "instrument_NewReader scopes = \<lparr>ird_scopes = scopes\<rparr>"

definition instrument_filter :: "instrument_Reader \<Rightarrow> instrument_Query \<Rightarrow> instrument_Filter result" where
  "instrument_filter s query =
     (case SelectSnapshot (ird_scopes s)
         \<lparr>sq_Exchange = iq_Exchange query, sq_Market = iq_Market query, sq_Symbol = iq_Symbol query\<rparr> of
        Inl err \<Rightarrow> Inl err
      | Inr selected \<Rightarrow>
          if iq_Status query \<noteq> '''' then
            (if \<not> InstrumentStatus_Valid (iq_Status query) then Inl (App ErrInvalidStatus)
             else Inr \<lparr>if_Snapshot = selected, if_Status = Some (iq_Status query)\<rparr>)
          else Inr \<lparr>if_Snapshot = selected, if_Status = None\<rparr>)"

definition instrument_Validate :: "instrument_Reader \<Rightarrow> instrument_Query \<Rightarrow> error option" where
  "instrument_Validate s query = (case instrument_filter s query of Inl err \<Rightarrow> Some err | Inr _ \<Rightarrow> None)"

definition instrument_List :: "('d \<Rightarrow> 'd) \<Rightarrow> ctx \<Rightarrow> 'd instrumentRepository \<Rightarrow> instrument_Reader
    \<Rightarrow> instrument_Query \<Rightarrow> 'd Instrument list result" where
  "instrument_List cp ctx repository s query =
     (case instrument_filter s query of
        Inl err \<Rightarrow> Inl err
      | Inr filt \<Rightarrow> inst_List cp ctx repository filt)"

record instrument_RefreshEvent =
  ie_Scope :: Scope
  ie_UpdatedAt :: time
  ie_Size :: nat
  ie_Error :: "error option"

text \<open>
  A call returns a value or panics. The observer of \<open>Refresh\<close> is deferred, so that it runs in
  both cases; a panic is reported as \<open>ErrInternal\<close> before it unwinds to the worker.
\<close>

datatype 'a call = Returns 'a | Panics

record instrument_Refresher =
  irf_scope :: Scope
  irf_observed :: bool

definition instrument_NewRefresher :: "Scope \<Rightarrow> bool \<Rightarrow> instrument_Refresher" where
  "instrument_NewRefresher scope observed = \<lparr>irf_scope = scope, irf_observed = observed\<rparr>"

definition instrument_report :: "instrument_Refresher \<Rightarrow> instrument_RefreshEvent
    \<Rightarrow> instrument_RefreshEvent list" where
  "instrument_report s event =
     (if irf_observed s \<and> DeferredRefresh_nil (ie_Error event) = None then [event] else [])"

text \<open>
  \<open>fetched\<close> is the answer of \<open>GetInstruments\<close>, \<open>ctx 0\<close> the poll after it, the following polls are
  those of \<open>ReplaceSnapshot\<close>, and \<open>now\<close> is the reading of the clock.
\<close>

definition instrument_Refresh :: "('d \<Rightarrow> 'd) \<Rightarrow> ctx \<Rightarrow> time \<Rightarrow> instrument_Refresher
    \<Rightarrow> 'd Instrument list result call \<Rightarrow> 'd instrumentRepository
    \<Rightarrow> 'd instrumentRepository \<times> error option call \<times> instrument_RefreshEvent list" where
  "instrument_Refresh cp ctx now s fetched repository =
     (let event = \<lparr>ie_Scope = irf_scope s, ie_UpdatedAt = zero_time, ie_Size = 0, ie_Error = None\<rparr>;
          fails = (\<lambda>err. (repository, Returns (Some err), instrument_report s (event\<lparr>ie_Error := Some err\<rparr>)))
      in case fetched of
        Panics \<Rightarrow> (repository, Panics, instrument_report s (event\<lparr>ie_Error := Some (App ErrInternal)\<rparr>))
      | Returns (Inl err) \<Rightarrow> fails (Wrapped ''fetch instruments'' [err])
      | Returns (Inr rows) \<Rightarrow>
        (case ctx 0 of
           Some err \<Rightarrow> fails err
         | None \<Rightarrow>
           (let rows = map (\<lambda>row. row\<lparr>inst_UpdatedAt := now\<rparr>) rows
            in case inst_ReplaceSnapshot cp (\<lambda>k. ctx (k + 1)) repository (irf_scope s) rows of
                 (_, Some err) \<Rightarrow> fails (Wrapped ''publish instruments'' [err])
               | (repository, None) \<Rightarrow> (repository, Returns None,
                   instrument_report s (event\<lparr>ie_UpdatedAt := now, ie_Size := length rows\<rparr>)))))"

text \<open>The worker loop of the instrument refresher; \<open>run n\<close> is the outcome of the \<open>n\<close>-th cycle.\<close>

partial_function (option) instrument_Run :: "ctx \<Rightarrow> (nat \<Rightarrow> error option) \<Rightarrow> nat \<Rightarrow> nat \<Rightarrow> error option option"
  where
  "instrument_Run ctx run n k =
     (if ctx k = None then
        (if run n \<noteq> None \<and> ctx (k + 1) \<noteq> None then Some (ctx (k + 2))
         else instrument_Run ctx run (n + 1) (if run n \<noteq> None then k + 2 else k + 1))
      else Some (ctx (k + 1)))"

section \<open>Tickers\<close>

record 'd Collection =
  co_FetchedAt :: time
  co_Tickers :: "'d Ticker list"
  co_TickerError :: "error option"
  co_HasMarketStats :: bool
  co_MarketStats :: "'d MarketStats list"
  co_MarketStatsError :: "error option"

record 'd ReadModel =
  rm_Exchange :: Exchange
  rm_Market :: Market
  rm_Symbol :: string
  rm_LastPrice :: 'd
  rm_BidPrice :: "'d option"
  rm_BidSize :: "'d option"
  rm_AskPrice :: "'d option"
  rm_AskSize :: "'d option"
  rm_FundingRate :: "'d option"
  rm_NextFundingIn :: "duration option"
  rm_FetchedAt :: time

definition read_copyDecimal :: "('d \<Rightarrow> 'd) \<Rightarrow> 'd option \<Rightarrow> 'd option" where
  "read_copyDecimal cp val = (case val of None \<Rightarrow> None | Some d \<Rightarrow> Some (cp d))"

definition Build :: "('d \<Rightarrow> 'd) \<Rightarrow> time \<Rightarrow> 'd Ticker list \<Rightarrow> 'd ReadModel list" where
  "Build cp now rows = map (\<lambda>row.
     \<lparr>rm_Exchange = tick_Exchange row, rm_Market = tick_Market row, rm_Symbol = tick_Symbol row,
      rm_LastPrice = tick_LastPrice row,
      rm_BidPrice = read_copyDecimal cp (tick_BidPrice row), rm_BidSize = read_copyDecimal cp (tick_BidSize row),
      rm_AskPrice = read_copyDecimal cp (tick_AskPrice row), rm_AskSize = read_copyDecimal cp (tick_AskSize row),
      rm_FundingRate = read_copyDecimal cp (tick_FundingRate row),
      rm_NextFundingIn =
        (case tick_NextFundingAt row of
           None \<Rightarrow> None
         | Some at \<Rightarrow> if at > now then Some (time_Sub at now) else None),
      rm_FetchedAt = tick_FetchedAt row\<rparr>) rows"

record ticker_Reader =
  trd_scopes :: "Scope list"

definition ticker_NewReader :: "Scope list \<Rightarrow> ticker_Reader" where
  "ticker_NewReader scopes = \<lparr>trd_scopes = scopes\<rparr>"

definition ticker_Validate :: "ticker_Reader \<Rightarrow> SnapshotQuery \<Rightarrow> error option" where
  "ticker_Validate s query = (case SelectSnapshot (trd_scopes s) query of Inl err \<Rightarrow> Some err | Inr _ \<Rightarrow> None)"

definition ticker_List :: "('d \<Rightarrow> 'd) \<Rightarrow> ctx \<Rightarrow> time \<Rightarrow> 'd tickerRepository \<Rightarrow> ticker_Reader
    \<Rightarrow> SnapshotQuery \<Rightarrow> 'd ReadModel list result" where
  "ticker_List cp ctx now repository s query =
     (case SelectSnapshot (trd_scopes s) query of
        Inl err \<Rightarrow> Inl err
      | Inr filt \<Rightarrow>
        (case tick_List cp ctx repository filt of
           Inl err \<Rightarrow> Inl err
         | Inr rows \<Rightarrow> Inr (Build cp now rows)))"

record ticker_Refresher =
  trf_scope :: Scope
  trf_capabilities :: ExchangeCapabilities
  trf_observed :: bool

definition ticker_NewRefresher :: "ExchangeCapabilities \<Rightarrow> Scope \<Rightarrow> bool \<Rightarrow> ticker_Refresher" where
  "ticker_NewRefresher caps scope observed =
     \<lparr>trf_scope = scope, trf_capabilities = caps, trf_observed = observed\<rparr>"

definition observe_event :: "bool \<Rightarrow> RefreshEvent \<Rightarrow> RefreshEvent list" where
  "observe_event observed event =
     (if observed \<and> DeferredRefresh_nil (ev_Error event) = None then [event] else [])"

text \<open>
  \<open>reply\<close> is the answer of \<open>GetTickers\<close>, \<open>ctx\<close> and \<open>ctx'\<close> the polls of the first and of the second
  publication.
\<close>

definition ticker_Refresh :: "('d \<Rightarrow> 'd) \<Rightarrow> ctx \<Rightarrow> ctx \<Rightarrow> ticker_Refresher \<Rightarrow> 'd Collection \<times> error option
    \<Rightarrow> 'd tickerRepository \<Rightarrow> 'd marketstatsRepository
    \<Rightarrow> ('d tickerRepository \<times> 'd marketstatsRepository) \<times> error option \<times> RefreshEvent list" where
  "ticker_Refresh cp ctx ctx' s reply repository stats =
     (let result = fst reply;
          err = snd reply;
          shared = MarketStatsWithTicker (trf_capabilities s);
          result = (if err \<noteq> None then result\<lparr>co_TickerError := err, co_MarketStatsError := err\<rparr> else result);
          result = (if shared \<and> err = None \<and> \<not> co_HasMarketStats result
                    then result\<lparr>co_MarketStatsError := Some (App ErrInvalidUpstreamData)\<rparr> else result);
          (repository, tickerError) =
            (case co_TickerError result of
               Some e \<Rightarrow> (repository, Some e)
             | None \<Rightarrow> tick_ReplaceSnapshot cp ctx repository (trf_scope s) (co_Tickers result));
          event = \<lparr>ev_Scope = trf_scope s, ev_Window = 0, ev_FetchedAt = co_FetchedAt result,
                   ev_Size = length (co_Tickers result), ev_Error = tickerError\<rparr>;
          event = (case co_Tickers result of [] \<Rightarrow> event | row # _ \<Rightarrow> event\<lparr>ev_FetchedAt := tick_FetchedAt row\<rparr>);
          events = observe_event (trf_observed s) event
      in if \<not> shared then ((repository, stats), tickerError, events)
         else
           let (stats, statsError) =
                 (case co_MarketStatsError result of
                    Some e \<Rightarrow> (stats, Some e)
                  | None \<Rightarrow> stats_ReplaceSnapshot cp ctx' stats (trf_scope s) (24 * Hour) (co_MarketStats result));
               event = \<lparr>ev_Scope = trf_scope s, ev_Window = 24 * Hour, ev_FetchedAt = co_FetchedAt result,
                        ev_Size = length (co_MarketStats result), ev_Error = statsError\<rparr>;
               event = (case co_MarketStats result of [] \<Rightarrow> event | row # _ \<Rightarrow> event\<lparr>ev_FetchedAt := ms_FetchedAt row\<rparr>)
           in ((repository, stats), errors_Join [tickerError, statsError],
               events @ observe_event (trf_observed s) event))"

definition ticker_Run :: "ctx \<Rightarrow> (nat \<Rightarrow> error option) \<Rightarrow> error option option" where
  "ticker_Run ctx run = RunRefresh ctx run 0 0"

section \<open>Market statistics\<close>

record marketstats_Query =
  mq_Snapshot :: SnapshotQuery
  mq_Window :: string

record marketstats_Reader =
  mrd_scopes :: "Scope list"

definition marketstats_NewReader :: "Scope list \<Rightarrow> marketstats_Reader" where
  "marketstats_NewReader scopes = \<lparr>mrd_scopes = scopes\<rparr>"

definition marketstats_filter :: "marketstats_Reader \<Rightarrow> marketstats_Query \<Rightarrow> stats_Filter result" where
  "marketstats_filter s query =
     (case SelectSnapshot (mrd_scopes s) (mq_Snapshot query) of
        Inl err \<Rightarrow> Inl err
      | Inr selected \<Rightarrow>
          if mq_Window query \<noteq> '''' \<and> mq_Window query \<noteq> ''24h'' then Inl (App ErrUnsupportedWindow)
          else Inr \<lparr>sf_Snapshot = selected, sf_Window = 24 * Hour\<rparr>)"

definition marketstats_Validate :: "marketstats_Reader \<Rightarrow> marketstats_Query \<Rightarrow> error option" where
  "marketstats_Validate s query = (case marketstats_filter s query of Inl err \<Rightarrow> Some err | Inr _ \<Rightarrow> None)"

definition marketstats_List :: "('d \<Rightarrow> 'd) \<Rightarrow> ctx \<Rightarrow> 'd marketstatsRepository \<Rightarrow> marketstats_Reader
    \<Rightarrow> marketstats_Query \<Rightarrow> 'd MarketStats list result" where
  "marketstats_List cp ctx repository s query =
     (case marketstats_filter s query of
        Inl err \<Rightarrow> Inl err
      | Inr filt \<Rightarrow> stats_List cp ctx repository filt)"

record marketstats_Refresher =
  mrf_scope :: Scope
  mrf_observed :: bool

definition marketstats_NewRefresher :: "Scope \<Rightarrow> bool \<Rightarrow> marketstats_Refresher" where
  "marketstats_NewRefresher scope observed = \<lparr>mrf_scope = scope, mrf_observed = observed\<rparr>"

text \<open>\<open>GetMarketStats\<close> answers with rows and an error; the rows count in the event even when it failed.\<close>

definition marketstats_Refresh :: "('d \<Rightarrow> 'd) \<Rightarrow> ctx \<Rightarrow> time \<Rightarrow> marketstats_Refresher
    \<Rightarrow> 'd MarketStats list \<times> error option \<Rightarrow> 'd marketstatsRepository
    \<Rightarrow> 'd marketstatsRepository \<times> error option \<times> RefreshEvent list" where
  "marketstats_Refresh cp ctx now s reply repository =
     (let rows = fst reply;
          (repository, err) =
            (case snd reply of
               Some e \<Rightarrow> (repository, Some e)
             | None \<Rightarrow> stats_ReplaceSnapshot cp ctx repository (mrf_scope s) (24 * Hour) rows);
          event = \<lparr>ev_Scope = mrf_scope s, ev_Window = 24 * Hour, ev_FetchedAt = zero_time,
                   ev_Size = length rows, ev_Error = err\<rparr>;
          event = (if err = None
                   then event\<lparr>ev_FetchedAt := (case rows of [] \<Rightarrow> now | row # _ \<Rightarrow> ms_FetchedAt row)\<rparr>
                   else event)
      in (repository, err, observe_event (mrf_observed s) event))"

definition marketstats_Run :: "ctx \<Rightarrow> (nat \<Rightarrow> error option) \<Rightarrow> error option option" where
  "marketstats_Run ctx run = RunRefresh ctx run 0 0"

section \<open>The repositories under the use cases\<close>

context snapshot_repository
begin

lemma replace_ok:
  "snd (replace ctx st k rows) = None \<longleftrightarrow>
     (\<forall>i \<le> 1 + length rows. ctx i = None) \<and> pre k = None
   \<and> (\<forall>row \<in> set rows. fits k row) \<and> distinct (map symb rows)"
  by (simp only: publishes_error publish_ok)

lemma replace_cases:
  obtains (failed) e where "replace ctx st k rows = (st, Some e)"
  | (published) st' where "replace ctx st k rows = (st', None)"
      "snaps st' = AList.update k (map (\<lambda>row. (symb row, own row)) rows) (snaps st)"
proof (cases "snd (replace ctx st k rows)")
  case None
  then have "snaps (fst (replace ctx st k rows)) = AList.update k (map (\<lambda>row. (symb row, own row)) rows) (snaps st)"
    unfolding publishes_error publishes_snaps by (rule publish_None)
  with None that(2) show thesis by (metis prod.collapse)
next
  case (Some e)
  then have "fst (replace ctx st k rows) = st" by (rule failure_keeps_state)
  with Some that(1) show thesis by (metis prod.collapse)
qed

end

lemma stats_pre_None: "stats_pre (scope, window) = None \<longleftrightarrow> validateScope scope = None \<and> 0 < window"
  by (simp add: stats_pre_def split: option.splits)

lemma instrument_Run_RunRefresh:
  "instrument_Run ctx run n k = Some r \<Longrightarrow> RunRefresh ctx run n k = Some r"
proof (rule instrument_Run.raw_induct [where P = "\<lambda>ctx run n k r. RunRefresh ctx run n k = Some r"])
  fix f ctx run n k r
  assume IH: "\<And>ctx run n k r. f ctx run n k = Some r \<Longrightarrow> RunRefresh ctx run n k = Some r"
    and eq: "(if ctx k = None then
        (if run n \<noteq> None \<and> ctx (k + 1) \<noteq> None then Some (ctx (k + 2))
         else f ctx run (n + 1) (if run n \<noteq> None then k + 2 else k + 1))
      else Some (ctx (k + 1))) = Some r"
  from eq IH show "RunRefresh ctx run n k = Some r"
    by (subst RunRefresh.simps) (auto split: if_splits)
qed

lemma RunRefresh_instrument_Run:
  "RunRefresh ctx run n k = Some r \<Longrightarrow> instrument_Run ctx run n k = Some r"
proof (rule RunRefresh.raw_induct [where P = "\<lambda>ctx run n k r. instrument_Run ctx run n k = Some r"])
  fix f ctx run n k r
  assume IH: "\<And>ctx run n k r. f ctx run n k = Some r \<Longrightarrow> instrument_Run ctx run n k = Some r"
    and eq: "(if ctx k \<noteq> None then Some (ctx (k + 1))
      else if run n \<noteq> None then
        (if ctx (k + 1) \<noteq> None then Some (ctx (k + 2)) else f ctx run (n + 1) (k + 2))
      else f ctx run (n + 1) (k + 1)) = Some r"
  from eq IH show "instrument_Run ctx run n k = Some r"
    by (subst instrument_Run.simps) (auto split: if_splits)
qed

lemma instrument_Run_eq: "instrument_Run = RunRefresh"
proof (intro ext)
  fix ctx run n k
  show "instrument_Run ctx run n k = RunRefresh ctx run n k"
    using instrument_Run_RunRefresh RunRefresh_instrument_Run by (metis not_None_eq)
qed

lemma stamped_rows [simp]:
  "inst_fits scope (row\<lparr>inst_UpdatedAt := now\<rparr>) = inst_fits scope row"
  by (simp add: inst_fits_def)

lemma visited_same:
  "s \<in> set seen \<Longrightarrow> \<forall>x \<in> set ss. x = s \<Longrightarrow> visited_rows snaps key ss seen = []"
  by (induction ss) auto

lemma visited_one:
  assumes "ss \<noteq> []" and "\<forall>x \<in> set ss. x = s"
  shows "visited_rows snaps key ss [] = map snd (gget [] snaps (key s))"
  using assms by (cases ss) (auto simp: visited_same)

section \<open>Properties\<close>

text \<open>
  C21. An instrument refresh either publishes the whole fetched catalog, every row stamped with the one
  reading of the clock, and reports its size, or leaves the repository as it was. It succeeds exactly
  when the provider returned, the context stayed live and the rows belong to the scope under distinct
  symbols. An observer hears of every outcome exactly once, a panic of the provider included, except
  that a deferral is never reported.
\<close>

theorem instrument_Refresh_outcome:
  "case instrument_Refresh cp ctx now s fetched repository of (repository', out, events) \<Rightarrow>
     (case out of
        Returns None \<Rightarrow>
          (\<exists>rows. fetched = Returns (Inr rows)
             \<and> (\<forall>scope. map_of (ir_snapshots repository') scope =
                  (if scope = irf_scope s
                   then Some (map (\<lambda>row. (inst_Symbol row, copyInstrument cp (row\<lparr>inst_UpdatedAt := now\<rparr>))) rows)
                   else map_of (ir_snapshots repository) scope))
             \<and> events = (if irf_observed s then [\<lparr>ie_Scope = irf_scope s, ie_UpdatedAt = now,
                  ie_Size = length rows, ie_Error = None\<rparr>] else []))
      | _ \<Rightarrow> repository' = repository
          \<and> map ie_Error events =
             (let err = (case out of Returns e \<Rightarrow> e | Panics \<Rightarrow> Some (App ErrInternal))
              in if irf_observed s \<and> DeferredRefresh_nil err = None then [err] else []))
   \<and> (out = Returns None \<longleftrightarrow>
        (\<exists>rows. fetched = Returns (Inr rows) \<and> (\<forall>i \<le> 2 + length rows. ctx i = None)
           \<and> validateScope (irf_scope s) = None \<and> (\<forall>row \<in> set rows. inst_fits (irf_scope s) row)
           \<and> distinct (map inst_Symbol rows)))
   \<and> (out = Panics \<longleftrightarrow> fetched = Panics)"
proof (cases fetched)
  case Panics
  then show ?thesis by (auto simp: instrument_Refresh_def instrument_report_def Let_def)
next
  case (Returns answer)
  show ?thesis
  proof (cases answer)
    case (Inl e)
    with Returns show ?thesis by (auto simp: instrument_Refresh_def instrument_report_def Let_def)
  next
    case (Inr rows)
    let ?rows = "map (\<lambda>row. row\<lparr>inst_UpdatedAt := now\<rparr>) rows"
    let ?replace = "inst_ReplaceSnapshot cp (\<lambda>k. ctx (k + 1)) repository (irf_scope s) ?rows"
    have ok: "snd ?replace = None \<longleftrightarrow> (\<forall>i \<le> 1 + length rows. ctx (i + 1) = None)
        \<and> validateScope (irf_scope s) = None \<and> (\<forall>row \<in> set rows. inst_fits (irf_scope s) row)
        \<and> distinct (map inst_Symbol rows)"
      unfolding inst_store.replace_ok by (simp add: comp_def)
    have polls: "(\<forall>i \<le> 2 + length rows. ctx i = None) \<longleftrightarrow> ctx 0 = None \<and> (\<forall>i \<le> 1 + length rows. ctx (i + 1) = None)"
      by (metis (no_types, lifting) add.commute add_Suc Suc_eq_plus1 Suc_le_mono le0 less_eq_nat.simps(1) not0_implies_Suc one_add_one plus_1_eq_Suc)
    show ?thesis
    proof (cases "ctx 0")
      case (Some e)
      with Inr Returns show ?thesis by (auto simp: instrument_Refresh_def instrument_report_def Let_def)
    next
      case None
      then show ?thesis
        by (cases rule: inst_store.replace_cases [of cp "\<lambda>k. ctx (k + 1)" repository "irf_scope s" ?rows])
          (use ok polls Inr Returns None in \<open>simp_all add: instrument_Refresh_def instrument_report_def DeferredRefresh_nil_def comp_def\<close>)
    qed
  qed
qed

theorem instrument_Refresh_outcome_witness:
  "case instrument_Refresh (\<lambda>d. d) background 7 (instrument_NewRefresher usdt_scope True)
     (Returns (Inr [usdt_row ''ETH'' 2])) NewInstrumentRepository of (repository, out, events) \<Rightarrow>
     out = Returns None \<and> map ie_Size events = [1]
     \<and> map_option (map fst) (map_of (ir_snapshots repository) usdt_scope) = Some [''ETHUSDT'']"
proof -
  let ?run = "instrument_Refresh (\<lambda>d. d) background 7 (instrument_NewRefresher usdt_scope True)
    (Returns (Inr [usdt_row ''ETH'' 2])) NewInstrumentRepository"
  have "fst (snd ?run) = Returns None" by code_simp
  then have run: "?run = (fst ?run, Returns None, snd (snd ?run))" by (metis prod.collapse)
  have s: "irf_scope (instrument_NewRefresher usdt_scope True) = usdt_scope" "irf_observed (instrument_NewRefresher usdt_scope True)"
    "inst_Symbol (usdt_row ''ETH'' 2) = ''ETHUSDT''"
    by code_simp+
  show ?thesis
    using instrument_Refresh_outcome [where cp = "\<lambda>d. d" and ctx = background and now = 7
        and s = "instrument_NewRefresher usdt_scope True" and fetched = "Returns (Inr [usdt_row ''ETH'' 2])"
        and repository = NewInstrumentRepository]
    by (subst run, subst (asm) run) (simp add: s)
qed

text \<open>The branches of a collection that their repositories accept.\<close>

definition tickers_accepted :: "ctx \<Rightarrow> ticker_Refresher \<Rightarrow> 'd Collection \<times> error option \<Rightarrow> bool" where
  "tickers_accepted ctx s reply \<longleftrightarrow> snd reply = None \<and> co_TickerError (fst reply) = None
     \<and> (\<forall>i \<le> 1 + length (co_Tickers (fst reply)). ctx i = None) \<and> validateScope (trf_scope s) = None
     \<and> (\<forall>row \<in> set (co_Tickers (fst reply)). tick_fits (trf_scope s) row)
     \<and> distinct (map tick_Symbol (co_Tickers (fst reply)))"

definition stats_accepted :: "ctx \<Rightarrow> ticker_Refresher \<Rightarrow> 'd Collection \<times> error option \<Rightarrow> bool" where
  "stats_accepted ctx s reply \<longleftrightarrow> MarketStatsWithTicker (trf_capabilities s) \<and> snd reply = None
     \<and> co_HasMarketStats (fst reply) \<and> co_MarketStatsError (fst reply) = None
     \<and> (\<forall>i \<le> 1 + length (co_MarketStats (fst reply)). ctx i = None) \<and> validateScope (trf_scope s) = None
     \<and> (\<forall>row \<in> set (co_MarketStats (fst reply)). stats_fits (trf_scope s, 24 * Hour) row)
     \<and> distinct (map ms_Symbol (co_MarketStats (fst reply)))"

text \<open>The two publications of \<open>ticker_Refresh\<close>, each by itself.\<close>

definition publish_tickers :: "('d \<Rightarrow> 'd) \<Rightarrow> ctx \<Rightarrow> ticker_Refresher \<Rightarrow> 'd Collection \<times> error option
    \<Rightarrow> 'd tickerRepository \<Rightarrow> 'd tickerRepository \<times> error option" where
  "publish_tickers cp ctx s reply repository =
     (case (if snd reply \<noteq> None then snd reply else co_TickerError (fst reply)) of
        Some e \<Rightarrow> (repository, Some e)
      | None \<Rightarrow> tick_ReplaceSnapshot cp ctx repository (trf_scope s) (co_Tickers (fst reply)))"

definition publish_stats :: "('d \<Rightarrow> 'd) \<Rightarrow> ctx \<Rightarrow> ticker_Refresher \<Rightarrow> 'd Collection \<times> error option
    \<Rightarrow> 'd marketstatsRepository \<Rightarrow> 'd marketstatsRepository \<times> error option" where
  "publish_stats cp ctx s reply stats =
     (case (if snd reply \<noteq> None then snd reply
            else if \<not> co_HasMarketStats (fst reply) then Some (App ErrInvalidUpstreamData)
            else co_MarketStatsError (fst reply)) of
        Some e \<Rightarrow> (stats, Some e)
      | None \<Rightarrow> stats_ReplaceSnapshot cp ctx stats (trf_scope s) (24 * Hour) (co_MarketStats (fst reply)))"

lemma publish_tickers_cases:
  obtains (failed) e where "publish_tickers cp ctx s reply r = (r, Some e)" "\<not> tickers_accepted ctx s reply"
  | (published) r' where "publish_tickers cp ctx s reply r = (r', None)" "tickers_accepted ctx s reply"
      "tr_snapshots r' = AList.update (trf_scope s)
         (map (\<lambda>row. (tick_Symbol row, copyTicker cp row)) (co_Tickers (fst reply))) (tr_snapshots r)"
proof (cases "snd reply = None \<and> co_TickerError (fst reply) = None")
  case True
  then have eq: "publish_tickers cp ctx s reply r = tick_ReplaceSnapshot cp ctx r (trf_scope s) (co_Tickers (fst reply))"
    by (simp add: publish_tickers_def)
  have "tickers_accepted ctx s reply \<longleftrightarrow> snd (publish_tickers cp ctx s reply r) = None"
    unfolding eq tick_store.replace_ok tickers_accepted_def using True by simp
  then show ?thesis
    by (cases rule: tick_store.replace_cases [of cp ctx r "trf_scope s" "co_Tickers (fst reply)"])
      (use that eq in auto)
next
  case False
  then show ?thesis
    by (intro failed [of "if snd reply \<noteq> None then the (snd reply) else the (co_TickerError (fst reply))"])
      (auto simp: publish_tickers_def tickers_accepted_def)
qed

lemma publish_stats_cases:
  assumes "MarketStatsWithTicker (trf_capabilities s)"
  obtains (failed) e where "publish_stats cp ctx s reply r = (r, Some e)" "\<not> stats_accepted ctx s reply"
  | (published) r' where "publish_stats cp ctx s reply r = (r', None)" "stats_accepted ctx s reply"
      "mr_snapshots r' = AList.update (trf_scope s, 24 * Hour)
         (map (\<lambda>row. (ms_Symbol row, copyMarketStats cp row)) (co_MarketStats (fst reply))) (mr_snapshots r)"
proof (cases "snd reply = None \<and> co_HasMarketStats (fst reply) \<and> co_MarketStatsError (fst reply) = None")
  case True
  then have eq: "publish_stats cp ctx s reply r =
      stats_ReplaceSnapshot cp ctx r (trf_scope s) (24 * Hour) (co_MarketStats (fst reply))"
    by (simp add: publish_stats_def)
  have "stats_accepted ctx s reply \<longleftrightarrow> snd (publish_stats cp ctx s reply r) = None"
    unfolding eq stats_accepted_def
    using True assms stats_store.replace_ok [of cp ctx r "(trf_scope s, 24 * Hour)" "co_MarketStats (fst reply)"]
    by (simp add: stats_pre_None Hour_def)
  then show ?thesis
    by (cases rule: stats_store.replace_cases [of cp ctx r "(trf_scope s, 24 * Hour)" "co_MarketStats (fst reply)"])
      (use that eq in auto)
next
  case False
  then show ?thesis
    by (intro failed [of "if snd reply \<noteq> None then the (snd reply) else if \<not> co_HasMarketStats (fst reply)
        then App ErrInvalidUpstreamData else the (co_MarketStatsError (fst reply))"])
      (auto simp: publish_stats_def stats_accepted_def)
qed

lemma observe_event_ok:
  "filter (\<lambda>e. ev_Error e = None) (observe_event observed event) =
     (if observed \<and> ev_Error event = None then [event] else [])"
  by (simp add: observe_event_def DeferredRefresh_nil_def)

lemma stamped_event:
  "ev_Error (case rows of [] \<Rightarrow> event | row # _ \<Rightarrow> event\<lparr>ev_FetchedAt := at row\<rparr>) = ev_Error event"
  "ev_Window (case rows of [] \<Rightarrow> event | row # _ \<Rightarrow> event\<lparr>ev_FetchedAt := at row\<rparr>) = ev_Window event"
  by (simp_all split: list.split)

lemma ticker_Refresh_stores:
  "fst (ticker_Refresh cp ctx ctx' s reply r st) =
     (fst (publish_tickers cp ctx s reply r),
      if MarketStatsWithTicker (trf_capabilities s) then fst (publish_stats cp ctx' s reply st) else st)"
  by (cases "snd reply"; cases "MarketStatsWithTicker (trf_capabilities s)"; cases "co_HasMarketStats (fst reply)")
    (simp_all add: ticker_Refresh_def publish_tickers_def publish_stats_def Let_def split_beta cong: option.case_cong)

lemma ticker_Refresh_error:
  "fst (snd (ticker_Refresh cp ctx ctx' s reply r st)) =
     (if MarketStatsWithTicker (trf_capabilities s)
      then errors_Join [snd (publish_tickers cp ctx s reply r), snd (publish_stats cp ctx' s reply st)]
      else snd (publish_tickers cp ctx s reply r))"
  by (cases "snd reply"; cases "MarketStatsWithTicker (trf_capabilities s)"; cases "co_HasMarketStats (fst reply)")
    (simp_all add: ticker_Refresh_def publish_tickers_def publish_stats_def Let_def split_beta cong: option.case_cong)

lemma ticker_Refresh_events:
  "map ev_Window (filter (\<lambda>e. ev_Error e = None) (snd (snd (ticker_Refresh cp ctx ctx' s reply r st)))) =
     (if trf_observed s then
        (if snd (publish_tickers cp ctx s reply r) = None then [0] else []) @
        (if MarketStatsWithTicker (trf_capabilities s) \<and> snd (publish_stats cp ctx' s reply st) = None
         then [24 * Hour] else [])
      else [])"
  by (cases "snd reply"; cases "MarketStatsWithTicker (trf_capabilities s)"; cases "co_HasMarketStats (fst reply)")
    (simp_all add: ticker_Refresh_def publish_tickers_def publish_stats_def Let_def split_beta observe_event_ok
      stamped_event del: not_None_eq cong: option.case_cong)

lemmas ticker_Refresh_parts = ticker_Refresh_stores ticker_Refresh_error ticker_Refresh_events

text \<open>
  The two branches of a shared collection are independent: tickers are published exactly when the
  provider call, the ticker branch and the ticker repository accept them, statistics exactly when the
  exchange shares them and the same holds of their branch; a failure of one never blocks or undoes the
  other. The returned error is nil exactly when nothing was lost, and the observer hears of exactly
  the publications that happened, tickers first.
\<close>

theorem ticker_Refresh_branches:
  "case ticker_Refresh cp ctx ctx' s reply r st of ((r', st'), out, events) \<Rightarrow>
     (if tickers_accepted ctx s reply
      then tr_snapshots r' = AList.update (trf_scope s)
         (map (\<lambda>row. (tick_Symbol row, copyTicker cp row)) (co_Tickers (fst reply))) (tr_snapshots r)
      else r' = r)
   \<and> (if stats_accepted ctx' s reply
      then mr_snapshots st' = AList.update (trf_scope s, 24 * Hour)
         (map (\<lambda>row. (ms_Symbol row, copyMarketStats cp row)) (co_MarketStats (fst reply))) (mr_snapshots st)
      else st' = st)
   \<and> (out = None \<longleftrightarrow> tickers_accepted ctx s reply
        \<and> stats_accepted ctx' s reply = MarketStatsWithTicker (trf_capabilities s))
   \<and> map ev_Window (filter (\<lambda>e. ev_Error e = None) events) =
       (if trf_observed s then
          (if tickers_accepted ctx s reply then [0] else []) @ (if stats_accepted ctx' s reply then [24 * Hour] else [])
        else [])"
proof -
  have off: "\<not> stats_accepted ctx' s reply" if "\<not> MarketStatsWithTicker (trf_capabilities s)"
    using that by (simp add: stats_accepted_def)
  obtain r' st' out events where run: "ticker_Refresh cp ctx ctx' s reply r st = ((r', st'), out, events)"
    by (metis prod.collapse)
  note parts = ticker_Refresh_parts [of cp ctx ctx' s reply r st, unfolded run, simplified]
  show ?thesis
  proof (cases "MarketStatsWithTicker (trf_capabilities s)")
    case True
    show ?thesis unfolding run
      by (cases rule: publish_tickers_cases [of cp ctx s reply r];
          cases rule: publish_stats_cases [OF True, of cp ctx' reply st])
        (use parts True in \<open>auto simp: errors_Join_def List.map_filter_def\<close>)
  next
    case False
    then show ?thesis unfolding run
      by (cases rule: publish_tickers_cases [of cp ctx s reply r]) (use parts off in auto)
  qed
qed

lemma instrument_Refresh_published:
  assumes "instrument_Refresh cp ctx now s (Returns (Inr rows)) repository = (repository', Returns None, events)"
  shows "map_of (ir_snapshots repository') (irf_scope s) =
      Some (map (\<lambda>row. (inst_Symbol row, copyInstrument cp (row\<lparr>inst_UpdatedAt := now\<rparr>))) rows)"
    and "validateScope (irf_scope s) = None"
proof -
  let ?rows = "map (\<lambda>row. row\<lparr>inst_UpdatedAt := now\<rparr>) rows"
  let ?replace = "inst_ReplaceSnapshot cp (\<lambda>k. ctx (k + 1)) repository (irf_scope s) ?rows"
  have replace: "?replace = (repository', None)"
    using assms by (simp add: instrument_Refresh_def Let_def split: option.splits prod.splits)
  then have "snd ?replace = None" by simp
  then show "validateScope (irf_scope s) = None" unfolding inst_store.replace_ok by blast
  show "map_of (ir_snapshots repository') (irf_scope s) =
      Some (map (\<lambda>row. (inst_Symbol row, copyInstrument cp (row\<lparr>inst_UpdatedAt := now\<rparr>))) rows)"
    by (cases rule: inst_store.replace_cases [of cp "\<lambda>k. ctx (k + 1)" repository "irf_scope s" ?rows])
      (use replace in \<open>simp_all add: comp_def\<close>)
qed

lemma visit_polls_background: "visit_polls background rows = None"
  by (simp add: visit_polls_None)

definition ex_inst_query :: instrument_Query where
  "ex_inst_query = \<lparr>iq_Exchange = ExchangeBinance, iq_Market = MarketLinear, iq_Symbol = [], iq_Status = []\<rparr>"

text \<open>
  What a refresh published is what the reader serves: after a successful instrument refresh, a
  query for its scope, with or without a status, lists exactly the fetched rows of that status,
  stamped with the time of the refresh, in symbol order, each once.
\<close>

theorem instrument_Refresh_then_List:
  assumes run: "instrument_Refresh cp ctx now s (Returns (Inr rows)) repository = (repository', Returns None, events)"
    and known: "irf_scope s \<in> set (ird_scopes reader)"
    and query: "iq_Exchange query = sc_Exchange (irf_scope s)" "iq_Market query = sc_Market (irf_scope s)"
      "iq_Symbol query = []" "iq_Status query = [] \<or> InstrumentStatus_Valid (iq_Status query)"
  shows "instrument_List cp background repository' reader query =
     Inr (sort_key (\<lambda>row. (inst_Exchange row, inst_Market row, inst_Symbol row))
       (map (\<lambda>row. copyInstrument cp (copyInstrument cp (row\<lparr>inst_UpdatedAt := now\<rparr>)))
          (filter (\<lambda>row. iq_Status query = [] \<or> inst_Status row = iq_Status query) rows)))"
proof -
  note pub = instrument_Refresh_published [OF run]
  let ?q = "\<lparr>sq_Exchange = iq_Exchange query, sq_Market = iq_Market query, sq_Symbol = iq_Symbol query\<rparr>"
  let ?scopes = "filter (scope_matches ?q) (ird_scopes reader)"
  from pub(2) have valid: "Exchange_Valid (sc_Exchange (irf_scope s))" "Market_Valid (sc_Market (irf_scope s))"
    by (auto simp: validateScope_def split: if_splits)
  then have same: "\<forall>x \<in> set ?scopes. x = irf_scope s"
    using query(1,2) by (auto simp: scope_matches_def Exchange_Valid_def Market_Valid_def)
  have "irf_scope s \<in> set ?scopes" using known query by (simp add: scope_matches_def)
  then have nonempty: "?scopes \<noteq> []" by force
  then have sel: "SelectSnapshot (ird_scopes reader) ?q = Inr \<lparr>f_Scopes = ?scopes, f_Symbol = None\<rparr>"
    using query valid by (simp add: SelectSnapshot_Inr)
  have "\<not> list_ex (\<lambda>scope. \<not> ghas (ir_snapshots repository') scope) ?scopes"
    using same pub(1) by (auto simp: list_ex_iff ghas_def)
  then show ?thesis
    using query(4) visited_one [OF nonempty same, of "ir_snapshots repository'" "\<lambda>s. s"] pub(1)
    by (auto simp: instrument_List_def instrument_filter_def sel inst_List_def visit_polls_background gget_def
        comp_def filter_map Let_def)
qed

theorem instrument_Refresh_then_List_witness:
  "instrument_List (\<lambda>d. d) background
     (fst (instrument_Refresh (\<lambda>d. d) background 7 (instrument_NewRefresher usdt_scope True)
       (Returns (Inr [usdt_row ''ETH'' 2, usdt_row ''BTC'' 1])) NewInstrumentRepository))
     (instrument_NewReader [usdt_scope]) ex_inst_query
   = Inr [(usdt_row ''BTC'' 1)\<lparr>inst_UpdatedAt := 7\<rparr>, (usdt_row ''ETH'' 2)\<lparr>inst_UpdatedAt := 7\<rparr>]"
proof -
  let ?run = "instrument_Refresh (\<lambda>d. d) background 7 (instrument_NewRefresher usdt_scope True)
       (Returns (Inr [usdt_row ''ETH'' 2, usdt_row ''BTC'' 1])) NewInstrumentRepository"
  have "fst (snd ?run) = Returns None" by code_simp
  then have run: "?run = (fst ?run, Returns None, snd (snd ?run))" by (metis prod.collapse)
  show ?thesis
    by (subst instrument_Refresh_then_List [OF run]) code_simp+
qed

end
