(* ===== verification/MD_Config.thy ===== *)
theory MD_Config
  imports Snapshot_Select Complex_Main
begin

text \<open>
  The configuration of the service: the types and defaults of \<open>src/internal/config/config.go\<close>, the
  walk over leaves of \<open>load.go\<close> and the validation of \<open>validate.go\<close>. An int is 64 bits
  wide; values are integers and the guards that keep sums in range are part of the checks.
\<close>

section \<open>Types\<close>

record cfg_GRPCServer =
  gs_Host :: string
  gs_Port :: int
  gs_MaxRequestBytes :: int
  gs_MaxResponseBytes :: int
  gs_MaxHeaderBytes :: int

record cfg_HTTPServer =
  hs_Host :: string
  hs_Port :: int
  hs_ReadHeaderTimeout :: duration
  hs_IdleTimeout :: duration
  hs_WriteTimeout :: duration
  hs_MaxHeaderBytes :: int
  hs_MaxQueryBytes :: int

record cfg_Server =
  sr_GRPC :: cfg_GRPCServer
  sr_HTTP :: cfg_HTTPServer
  sr_ShutdownTimeout :: duration
  sr_MaxSnapshotRequests :: int
  sr_SnapshotTimeout :: duration

record cfg_Storage =
  sg_Driver :: string
  sg_CleanupInterval :: duration

record cfg_Klines =
  kl_RequestTimeout :: duration
  kl_MaxHistoryCandles :: int
  kl_MaxCallers :: int
  kl_MaxActiveFills :: int
  kl_MaxActiveFillsPerExchange :: int
  kl_FillTimeout :: duration

record cfg_MarketStats =
  cms_Windows :: "string list"

record 'a Operations =
  o_Tickers :: 'a
  o_Klines :: 'a
  o_Instruments :: 'a
  o_MarketStats :: 'a

record BinanceUpstream =
  bu_StopThresholdPercent :: int
  bu_CatalogRefreshInterval :: duration

record Lane =
  la_HTTPSlots :: int
  la_Waiters :: int
  la_MaxAttempts :: int

record CycleLane =
  cl_HTTPSlots :: int
  cl_Waiters :: int
  cl_CycleTimeout :: duration
  cl_MaxAttempts :: int

record Lanes =
  ls_Tickers :: CycleLane
  ls_Instruments :: CycleLane
  ls_Klines :: Lane
  ls_MarketStats :: CycleLane

record cfg_Window =
  cw_ExplicitLimit :: bool
  cw_Unit :: string
  cw_Window :: duration
  cw_Limit :: int
  cw_SplitOperations :: bool

record cfg_Scope =
  cs_MinRequestSpacing :: duration
  cs_Windows :: "(string, cfg_Window) gomap"

record Limits =
  lm_BinanceSpot :: cfg_Scope
  lm_BinanceLinear :: cfg_Scope
  lm_Bybit :: cfg_Scope

record cfg_Cooldown =
  cd_Binance429 :: duration
  cd_Binance418 :: duration
  cd_Bybit429 :: duration
  cd_Bybit10006 :: duration
  cd_Bybit403AccessTooFrequent :: duration

record cfg_Upstream =
  up_Binance :: BinanceUpstream
  up_SafetyMarginPercent :: int
  up_OperationSharePercent :: "int Operations"
  up_MaxHTTPInflight :: int
  up_MaxAdmissionWaiters :: int
  up_AdmissionTimeout :: duration
  up_LanesPerExchange :: Lanes
  up_Limits :: Limits
  up_Cooldown :: cfg_Cooldown

record Refresh =
  rf_RefreshInterval :: duration

record 'a Markets =
  mk_Spot :: 'a
  mk_Linear :: 'a

record PageLimits =
  pg_MaxCandlesPerRequest :: "int Markets"

record cfg_Bybit =
  yb_Enabled :: bool
  yb_Markets :: "string list"
  yb_Instruments :: Refresh
  yb_Klines :: PageLimits

record cfg_Binance =
  bn_Enabled :: bool
  bn_Markets :: "string list"
  bn_Instruments :: Refresh
  bn_Klines :: PageLimits
  bn_MarketStats :: Refresh

record Exchanges =
  xs_Bybit :: cfg_Bybit
  xs_Binance :: cfg_Binance

record Retry =
  ry_MaxAttempts :: int
  ry_InitialBackoff :: duration
  ry_MaxBackoff :: duration

record HTTPClient =
  hc_Timeout :: duration
  hc_MaxResponseBytes :: int
  hc_Retry :: Retry

text \<open>A \<open>float64\<close> is a rational number or one of the special values.\<close>

datatype float64 = Finite rat | Infinite bool | NaN

record Sentry =
  sn_Enabled :: bool
  sn_DSN :: string
  sn_Environment :: string
  sn_TracesSampleRate :: float64

record Prometheus =
  pm_Enabled :: bool
  pm_Path :: string

record cfg_Stats =
  sx_Enabled :: bool
  sx_EndpointEnabled :: bool

record Observability =
  oy_Sentry :: Sentry
  oy_Prometheus :: Prometheus
  oy_Stats :: cfg_Stats

record Config =
  c_Server :: cfg_Server
  c_Storage :: cfg_Storage
  c_Klines :: cfg_Klines
  c_MarketStats :: cfg_MarketStats
  c_Upstream :: cfg_Upstream
  c_Exchanges :: Exchanges
  c_HTTPClient :: HTTPClient
  c_Observability :: Observability

section \<open>Defaults\<close>

abbreviation Millisecond :: duration where "Millisecond \<equiv> 1000000"

definition DefaultHistoryCandles :: int where "DefaultHistoryCandles = 1000"
definition DefaultKlineTimeout :: duration where "DefaultKlineTimeout = 30 * Second"
definition BybitKlineMaximum :: int where "BybitKlineMaximum = 1000"
definition BinanceSpotKlineMaximum :: int where "BinanceSpotKlineMaximum = 1000"
definition BinanceLinearKlineMaximum :: int where "BinanceLinearKlineMaximum = 1500"
definition WriteGrace :: duration where "WriteGrace = 5 * Second"

definition fixed_window :: "string \<Rightarrow> duration \<Rightarrow> int \<Rightarrow> bool \<Rightarrow> cfg_Window" where
  "fixed_window unit window limit split = \<lparr>cw_ExplicitLimit = False, cw_Unit = unit, cw_Window = window,
     cw_Limit = limit, cw_SplitOperations = split\<rparr>"

definition default_Limits :: Limits where
  "default_Limits = \<lparr>
     lm_BinanceSpot = \<lparr>cs_MinRequestSpacing = 20 * Millisecond,
       cs_Windows = [(''request_weight_1m'', fixed_window ''weight'' Minute 6000 True),
                     (''raw_requests_5m'', fixed_window ''requests'' (5 * Minute) 300000 True)]\<rparr>,
     lm_BinanceLinear = \<lparr>cs_MinRequestSpacing = 20 * Millisecond,
       cs_Windows = [(''request_weight_1m'', fixed_window ''weight'' Minute 2400 True),
                     (''funding_requests_5m'', fixed_window ''requests'' (5 * Minute) 500 False)]\<rparr>,
     lm_Bybit = \<lparr>cs_MinRequestSpacing = 10 * Millisecond,
       cs_Windows = [(''http_requests_5s'', fixed_window ''requests'' (5 * Second) 600 True)]\<rparr>\<rparr>"

definition default_Upstream :: cfg_Upstream where
  "default_Upstream = \<lparr>
     up_Binance = \<lparr>bu_StopThresholdPercent = 90, bu_CatalogRefreshInterval = Hour\<rparr>,
     up_SafetyMarginPercent = 20,
     up_OperationSharePercent = \<lparr>o_Tickers = 60, o_Klines = 30, o_Instruments = 5, o_MarketStats = 5\<rparr>,
     up_MaxHTTPInflight = 24,
     up_MaxAdmissionWaiters = 56,
     up_AdmissionTimeout = 10 * Second,
     up_LanesPerExchange = \<lparr>
       ls_Tickers = \<lparr>cl_HTTPSlots = 2, cl_Waiters = 4, cl_CycleTimeout = 15 * Second, cl_MaxAttempts = 9\<rparr>,
       ls_Instruments = \<lparr>cl_HTTPSlots = 2, cl_Waiters = 4, cl_CycleTimeout = Minute, cl_MaxAttempts = 100\<rparr>,
       ls_Klines = \<lparr>la_HTTPSlots = 6, la_Waiters = 16, la_MaxAttempts = 12\<rparr>,
       ls_MarketStats = \<lparr>cl_HTTPSlots = 2, cl_Waiters = 4, cl_CycleTimeout = 15 * Second, cl_MaxAttempts = 3\<rparr>\<rparr>,
     up_Limits = default_Limits,
     up_Cooldown = \<lparr>cd_Binance429 = Minute, cd_Binance418 = 72 * Hour, cd_Bybit429 = Minute,
       cd_Bybit10006 = Minute, cd_Bybit403AccessTooFrequent = 10 * Minute\<rparr>\<rparr>"

definition Defaults :: Config where
  "Defaults = \<lparr>
     c_Server = \<lparr>
       sr_GRPC = \<lparr>gs_Host = ''0.0.0.0'', gs_Port = 9090, gs_MaxRequestBytes = 8192,
         gs_MaxResponseBytes = 16777216, gs_MaxHeaderBytes = 32768\<rparr>,
       sr_HTTP = \<lparr>hs_Host = ''0.0.0.0'', hs_Port = 8080, hs_ReadHeaderTimeout = 5 * Second,
         hs_IdleTimeout = Minute, hs_WriteTimeout = 5 * Second, hs_MaxHeaderBytes = 32768, hs_MaxQueryBytes = 8192\<rparr>,
       sr_ShutdownTimeout = 35 * Second,
       sr_MaxSnapshotRequests = 64,
       sr_SnapshotTimeout = 5 * Second\<rparr>,
     c_Storage = \<lparr>sg_Driver = ''memory'', sg_CleanupInterval = Hour\<rparr>,
     c_Klines = \<lparr>
       kl_RequestTimeout = DefaultKlineTimeout,
       kl_MaxHistoryCandles = DefaultHistoryCandles,
       kl_MaxCallers = 64,
       kl_MaxActiveFills = 12,
       kl_MaxActiveFillsPerExchange = 6,
       kl_FillTimeout = DefaultKlineTimeout\<rparr>,
     c_MarketStats = \<lparr>cms_Windows = [''24h'']\<rparr>,
     c_Upstream = default_Upstream,
     c_Exchanges = \<lparr>
       xs_Bybit = \<lparr>yb_Enabled = True, yb_Markets = [''spot'', ''linear''],
         yb_Instruments = \<lparr>rf_RefreshInterval = 10 * Minute\<rparr>,
         yb_Klines = \<lparr>pg_MaxCandlesPerRequest = \<lparr>mk_Spot = BybitKlineMaximum, mk_Linear = BybitKlineMaximum\<rparr>\<rparr>\<rparr>,
       xs_Binance = \<lparr>bn_Enabled = True, bn_Markets = [''spot'', ''linear''],
         bn_Instruments = \<lparr>rf_RefreshInterval = 10 * Minute\<rparr>,
         bn_Klines = \<lparr>pg_MaxCandlesPerRequest =
           \<lparr>mk_Spot = BinanceSpotKlineMaximum, mk_Linear = BinanceLinearKlineMaximum\<rparr>\<rparr>,
         bn_MarketStats = \<lparr>rf_RefreshInterval = 30 * Second\<rparr>\<rparr>\<rparr>,
     c_HTTPClient = \<lparr>hc_Timeout = 10 * Second, hc_MaxResponseBytes = 16777216,
       hc_Retry = \<lparr>ry_MaxAttempts = 3, ry_InitialBackoff = 100 * Millisecond, ry_MaxBackoff = 2 * Second\<rparr>\<rparr>,
     c_Observability = \<lparr>
       oy_Sentry = \<lparr>sn_Enabled = False, sn_DSN = [], sn_Environment = ''local'', sn_TracesSampleRate = Finite (1 / 10)\<rparr>,
       oy_Prometheus = \<lparr>pm_Enabled = False, pm_Path = ''/metrics''\<rparr>,
       oy_Stats = \<lparr>sx_Enabled = True, sx_EndpointEnabled = False\<rparr>\<rparr>\<rparr>"

section \<open>The walk over leaves\<close>

text \<open>
  \<open>walkLeaves\<close> visits a value by reflection: structs field by field under their yaml tags, maps in
  key order, everything else as a leaf with its type. \<open>Integer\<close> is a leaf of kind \<open>int\<close> or \<open>int64\<close>, which a
  duration is; \<open>Scalar\<close> is any other leaf, whose value the walks do not read.
\<close>

datatype reflect_type = Int_type | Duration_type | Bool_type | Float_type | String_type | Strings_type

datatype cvalue = Struct "(string \<times> cvalue) list" | Map "(string \<times> cvalue) list" | Integer reflect_type int | Scalar reflect_type

definition joinPath :: "string \<Rightarrow> string \<Rightarrow> string" where
  "joinPath parent child = (if parent = [] then child else parent @ ''.'' @ child)"

definition displayPath :: "string \<Rightarrow> string" where
  "displayPath path = (if path = [] then ''root'' else path)"

fun insert_field :: "string \<times> 'v \<Rightarrow> (string \<times> 'v) list \<Rightarrow> (string \<times> 'v) list" where
  "insert_field kv [] = [kv]"
| "insert_field kv (kv' # rest) = (if fst kv' < fst kv then kv' # insert_field kv rest else kv # kv' # rest)"

fun walkLeaves :: "cvalue \<Rightarrow> string \<Rightarrow> (string \<times> cvalue) list" where
  "walkLeaves (Struct flds) path =
     concat (map (\<lambda>(tag, v). if tag = ''-'' then [] else walkLeaves v (joinPath path tag)) flds)"
| "walkLeaves (Map entries) path =
     concat (map snd (foldr insert_field
       (map (\<lambda>(key, v). (key, walkLeaves v (joinPath path key))) entries) []))"
| "walkLeaves v path = [(path, v)]"

text \<open>The fields of \<open>Config\<close> under their yaml tags.\<close>

definition window_value :: "cfg_Window \<Rightarrow> cvalue" where
  "window_value w = Struct [(''-'', Scalar Bool_type), (''unit'', Scalar String_type), (''window'', Integer Duration_type (cw_Window w)),
     (''limit'', Integer Int_type (cw_Limit w)), (''split_operations'', Scalar Bool_type)]"

definition scope_value :: "cfg_Scope \<Rightarrow> cvalue" where
  "scope_value s = Struct [(''min_request_spacing'', Integer Duration_type (cs_MinRequestSpacing s)),
     (''windows'', Map (map (\<lambda>(k, w). (k, window_value w)) (cs_Windows s)))]"

definition cycle_lane_value :: "CycleLane \<Rightarrow> cvalue" where
  "cycle_lane_value l = Struct [(''http_slots'', Integer Int_type (cl_HTTPSlots l)), (''waiters'', Integer Int_type (cl_Waiters l)),
     (''cycle_timeout'', Integer Duration_type (cl_CycleTimeout l)), (''max_attempts'', Integer Int_type (cl_MaxAttempts l))]"

definition page_value :: "PageLimits \<Rightarrow> cvalue" where
  "page_value p = Struct [(''max_candles_per_request'', Struct
     [(''spot'', Integer Int_type (mk_Spot (pg_MaxCandlesPerRequest p))),
      (''linear'', Integer Int_type (mk_Linear (pg_MaxCandlesPerRequest p)))])]"

definition refresh_value :: "Refresh \<Rightarrow> cvalue" where
  "refresh_value r = Struct [(''refresh_interval'', Integer Duration_type (rf_RefreshInterval r))]"

definition server_value :: "cfg_Server \<Rightarrow> cvalue" where
  "server_value s = Struct
     [(''grpc'', Struct [(''host'', Scalar String_type), (''port'', Integer Int_type (gs_Port (sr_GRPC s))),
        (''max_request_bytes'', Integer Int_type (gs_MaxRequestBytes (sr_GRPC s))),
        (''max_response_bytes'', Integer Int_type (gs_MaxResponseBytes (sr_GRPC s))),
        (''max_header_bytes'', Integer Int_type (gs_MaxHeaderBytes (sr_GRPC s)))]),
      (''http'', Struct [(''host'', Scalar String_type), (''port'', Integer Int_type (hs_Port (sr_HTTP s))),
        (''read_header_timeout'', Integer Duration_type (hs_ReadHeaderTimeout (sr_HTTP s))),
        (''idle_timeout'', Integer Duration_type (hs_IdleTimeout (sr_HTTP s))),
        (''write_timeout'', Integer Duration_type (hs_WriteTimeout (sr_HTTP s))),
        (''max_header_bytes'', Integer Int_type (hs_MaxHeaderBytes (sr_HTTP s))),
        (''max_query_bytes'', Integer Int_type (hs_MaxQueryBytes (sr_HTTP s)))]),
      (''shutdown_timeout'', Integer Duration_type (sr_ShutdownTimeout s)),
      (''max_snapshot_requests'', Integer Int_type (sr_MaxSnapshotRequests s)),
      (''snapshot_timeout'', Integer Duration_type (sr_SnapshotTimeout s))]"

definition upstream_value :: "cfg_Upstream \<Rightarrow> cvalue" where
  "upstream_value u = Struct
     [(''binance'', Struct [(''stop_threshold_percent'', Integer Int_type (bu_StopThresholdPercent (up_Binance u))),
        (''catalog_refresh_interval'', Integer Duration_type (bu_CatalogRefreshInterval (up_Binance u)))]),
      (''safety_margin_percent'', Integer Int_type (up_SafetyMarginPercent u)),
      (''operation_share_percent'', Struct
        [(''tickers'', Integer Int_type (o_Tickers (up_OperationSharePercent u))),
         (''klines'', Integer Int_type (o_Klines (up_OperationSharePercent u))),
         (''instruments'', Integer Int_type (o_Instruments (up_OperationSharePercent u))),
         (''market_stats'', Integer Int_type (o_MarketStats (up_OperationSharePercent u)))]),
      (''max_http_inflight'', Integer Int_type (up_MaxHTTPInflight u)),
      (''max_admission_waiters'', Integer Int_type (up_MaxAdmissionWaiters u)),
      (''admission_timeout'', Integer Duration_type (up_AdmissionTimeout u)),
      (''lanes_per_exchange'', Struct
        [(''tickers'', cycle_lane_value (ls_Tickers (up_LanesPerExchange u))),
         (''instruments'', cycle_lane_value (ls_Instruments (up_LanesPerExchange u))),
         (''klines'', Struct [(''http_slots'', Integer Int_type (la_HTTPSlots (ls_Klines (up_LanesPerExchange u)))),
            (''waiters'', Integer Int_type (la_Waiters (ls_Klines (up_LanesPerExchange u)))),
            (''max_attempts'', Integer Int_type (la_MaxAttempts (ls_Klines (up_LanesPerExchange u))))]),
         (''market_stats'', cycle_lane_value (ls_MarketStats (up_LanesPerExchange u)))]),
      (''limits'', Struct
        [(''binance_spot'', scope_value (lm_BinanceSpot (up_Limits u))),
         (''binance_linear'', scope_value (lm_BinanceLinear (up_Limits u))),
         (''bybit'', scope_value (lm_Bybit (up_Limits u)))]),
      (''cooldown'', Struct
        [(''binance_429'', Integer Duration_type (cd_Binance429 (up_Cooldown u))),
         (''binance_418'', Integer Duration_type (cd_Binance418 (up_Cooldown u))),
         (''bybit_429'', Integer Duration_type (cd_Bybit429 (up_Cooldown u))),
         (''bybit_10006'', Integer Duration_type (cd_Bybit10006 (up_Cooldown u))),
         (''bybit_403_access_too_frequent'', Integer Duration_type (cd_Bybit403AccessTooFrequent (up_Cooldown u)))])]"

definition config_value :: "Config \<Rightarrow> cvalue" where
  "config_value c = Struct
     [(''server'', server_value (c_Server c)),
      (''storage'', Struct [(''driver'', Scalar String_type), (''cleanup_interval'', Integer Duration_type (sg_CleanupInterval (c_Storage c)))]),
      (''klines'', Struct
        [(''request_timeout'', Integer Duration_type (kl_RequestTimeout (c_Klines c))),
         (''max_history_candles'', Integer Int_type (kl_MaxHistoryCandles (c_Klines c))),
         (''max_callers'', Integer Int_type (kl_MaxCallers (c_Klines c))),
         (''max_active_fills'', Integer Int_type (kl_MaxActiveFills (c_Klines c))),
         (''max_active_fills_per_exchange'', Integer Int_type (kl_MaxActiveFillsPerExchange (c_Klines c))),
         (''fill_timeout'', Integer Duration_type (kl_FillTimeout (c_Klines c)))]),
      (''market_stats'', Struct [(''windows'', Scalar Strings_type)]),
      (''upstream'', upstream_value (c_Upstream c)),
      (''exchanges'', Struct
        [(''bybit'', Struct [(''enabled'', Scalar Bool_type), (''markets'', Scalar Strings_type),
            (''instruments'', refresh_value (yb_Instruments (xs_Bybit (c_Exchanges c)))),
            (''klines'', page_value (yb_Klines (xs_Bybit (c_Exchanges c))))]),
         (''binance'', Struct [(''enabled'', Scalar Bool_type), (''markets'', Scalar Strings_type),
            (''instruments'', refresh_value (bn_Instruments (xs_Binance (c_Exchanges c)))),
            (''klines'', page_value (bn_Klines (xs_Binance (c_Exchanges c)))),
            (''market_stats'', refresh_value (bn_MarketStats (xs_Binance (c_Exchanges c))))])]),
      (''http_client'', Struct
        [(''timeout'', Integer Duration_type (hc_Timeout (c_HTTPClient c))),
         (''max_response_bytes'', Integer Int_type (hc_MaxResponseBytes (c_HTTPClient c))),
         (''retry'', Struct [(''max_attempts'', Integer Int_type (ry_MaxAttempts (hc_Retry (c_HTTPClient c)))),
            (''initial_backoff'', Integer Duration_type (ry_InitialBackoff (hc_Retry (c_HTTPClient c)))),
            (''max_backoff'', Integer Duration_type (ry_MaxBackoff (hc_Retry (c_HTTPClient c))))])]),
      (''observability'', Struct
        [(''sentry'', Struct [(''enabled'', Scalar Bool_type), (''dsn'', Scalar String_type), (''environment'', Scalar String_type), (''traces_sample_rate'', Scalar Float_type)]),
         (''prometheus'', Struct [(''enabled'', Scalar Bool_type), (''path'', Scalar String_type)]),
         (''stats'', Struct [(''enabled'', Scalar Bool_type), (''endpoint_enabled'', Scalar Bool_type)])])]"

section \<open>Validation\<close>

text \<open>
  The two parsers of the standard library the checks consult are arguments: \<open>net.ParseIP\<close> gives
  the sixteen bytes of an address, \<open>url.Parse\<close> the parts of a URL.
\<close>

record URL =
  u_Scheme :: string
  u_Hostname :: string
  u_Username :: "string option"
  u_Path :: string
  u_RawQuery :: string
  u_Fragment :: string

record go_parsers =
  ParseIP :: "string \<Rightarrow> nat list option"
  url_Parse :: "string \<Rightarrow> URL option"

definition validatePositiveValues :: "Config \<Rightarrow> error option" where
  "validatePositiveValues c =
     first_error (map (\<lambda>(path, v).
       if path = ''upstream.safety_margin_percent'' then None
       else case v of
         Integer _ i \<Rightarrow> if i \<le> 0 then Some (Plain (path @ '' must be positive'')) else None
       | _ \<Rightarrow> None) (walkLeaves (config_value c) []))"

fun split_on :: "char \<Rightarrow> string \<Rightarrow> string list" where
  "split_on sep [] = [[]]"
| "split_on sep (ch # s) =
     (if ch = sep then [] # split_on sep s
      else case split_on sep s of [] \<Rightarrow> [[ch]] | label # rest \<Rightarrow> (ch # label) # rest)"

definition host_letter :: "char \<Rightarrow> bool" where
  "host_letter r \<longleftrightarrow> CHR ''a'' \<le> r \<and> r \<le> CHR ''z'' \<or> CHR ''A'' \<le> r \<and> r \<le> CHR ''Z''"

definition host_digit :: "char \<Rightarrow> bool" where
  "host_digit r \<longleftrightarrow> CHR ''0'' \<le> r \<and> r \<le> CHR ''9''"

definition validHostname :: "string \<Rightarrow> bool" where
  "validHostname host \<longleftrightarrow> length host \<le> 253 \<and>
     list_all (\<lambda>label.
       \<not> (label = [] \<or> length label > 63 \<or> hd label = CHR ''-'' \<or> last label = CHR ''-'') \<and>
       list_all (\<lambda>r. host_letter r \<or> host_digit r \<or> r = CHR ''-'') label) (split_on (CHR ''.'') host)"

text \<open>\<open>strings.EqualFold\<close> on ASCII text, which is what a validated host is.\<close>

definition ascii_lower :: "char \<Rightarrow> char" where
  "ascii_lower r = (if CHR ''A'' \<le> r \<and> r \<le> CHR ''Z'' then char_of (of_char r + 32 :: nat) else r)"

definition EqualFold :: "string \<Rightarrow> string \<Rightarrow> bool" where
  "EqualFold a b \<longleftrightarrow> map ascii_lower a = map ascii_lower b"

text \<open>An address is sixteen bytes; an IPv4 address is embedded under the prefix of \<open>v4InV6Prefix\<close>.\<close>

definition is_To4 :: "nat list \<Rightarrow> bool" where
  "is_To4 ip \<longleftrightarrow> length ip = 16 \<and> take 12 ip = replicate 10 0 @ [255, 255]"

definition IsUnspecified :: "nat list \<Rightarrow> bool" where
  "IsUnspecified ip \<longleftrightarrow> ip = replicate 16 0 \<or> ip = replicate 10 0 @ [255, 255] @ replicate 4 0"

definition overlappingHosts :: "go_parsers \<Rightarrow> string \<Rightarrow> string \<Rightarrow> bool" where
  "overlappingHosts go first second =
     (if EqualFold first second then True
      else if first = [] \<or> second = [] then True
      else case (ParseIP go first, ParseIP go second) of
        (Some a, Some b) \<Rightarrow> a = b \<or> (IsUnspecified a \<or> IsUnspecified b) \<and> is_To4 a = is_To4 b
      | _ \<Rightarrow> False)"

definition listener_error :: "go_parsers \<Rightarrow> string \<Rightarrow> string \<Rightarrow> int \<Rightarrow> error option" where
  "listener_error go name host port =
     (if host \<noteq> [] \<and> ParseIP go host = None \<and> \<not> validHostname host
      then Some (Plain (''server.'' @ name @ ''.host must be an IP address or hostname''))
      else if port > 65535 then Some (Plain (''server.'' @ name @ ''.port must be in 1..65535''))
      else None)"

definition validateLocalSettings :: "go_parsers \<Rightarrow> Config \<Rightarrow> error option" where
  "validateLocalSettings go c =
     (let grpc = sr_GRPC (c_Server c); http = sr_HTTP (c_Server c);
          lifetime = max (max (kl_RequestTimeout (c_Klines c)) (kl_FillTimeout (c_Klines c))) (sr_SnapshotTimeout (c_Server c))
      in if sg_Driver (c_Storage c) \<noteq> ''memory'' then Some (Plain ''storage.driver must be memory'')
      else case first_error [listener_error go ''grpc'' (gs_Host grpc) (gs_Port grpc),
          listener_error go ''http'' (hs_Host http) (hs_Port http)] of
        Some e \<Rightarrow> Some e
      | None \<Rightarrow>
      if gs_Port grpc = hs_Port http \<and> overlappingHosts go (gs_Host grpc) (hs_Host http)
      then Some (Plain ''server.grpc and server.http addresses overlap'')
      else if hs_MaxHeaderBytes http > max_int64 - 4096 \<or> hc_MaxResponseBytes (c_HTTPClient c) = max_int64
      then Some (Plain ''HTTP byte limits overflow internal bounds'')
      else if gs_MaxRequestBytes grpc > 2147483647 \<or> gs_MaxResponseBytes grpc > 2147483647 \<or> gs_MaxHeaderBytes grpc > 2147483647
      then Some (Plain ''gRPC byte limits must not exceed 2147483647'')
      else if kl_MaxHistoryCandles (c_Klines c) > max_int64 sdiv (31 * 24 * 60 * 60)
      then Some (Plain ''klines.max_history_candles overflows calendar arithmetic'')
      else if lifetime > max_int64 - WriteGrace \<or> sr_ShutdownTimeout (c_Server c) < lifetime + WriteGrace
      then Some (Plain ''server.shutdown_timeout must cover caller and fill lifetimes plus 5s'')
      else if cms_Windows (c_MarketStats c) \<noteq> [''24h'']
      then Some (Plain ''market_stats.windows must be [24h]'')
      else if ry_InitialBackoff (hc_Retry (c_HTTPClient c)) > ry_MaxBackoff (hc_Retry (c_HTTPClient c))
      then Some (Plain ''retry initial_backoff exceeds max_backoff'')
      else None)"

text \<open>The loop over the shares: each at least one and at most what is left of a hundred.\<close>

fun share_loop :: "int list \<Rightarrow> int \<Rightarrow> int result" where
  "share_loop [] remaining = Inr remaining"
| "share_loop (share # shares) remaining =
     (if share < 1 \<or> share > remaining
      then Inl (Plain ''operation shares must be positive integers totaling 100'')
      else share_loop shares (remaining - share))"

definition validateSharesAndCooldowns :: "Config \<Rightarrow> error option" where
  "validateSharesAndCooldowns c =
     (let threshold = bu_StopThresholdPercent (up_Binance (c_Upstream c));
          margin = up_SafetyMarginPercent (c_Upstream c);
          shares = up_OperationSharePercent (c_Upstream c);
          cooldown = up_Cooldown (c_Upstream c)
      in if threshold < 1 \<or> threshold > 99
      then Some (Plain ''upstream.binance.stop_threshold_percent must be in 1..99'')
      else if margin < 0 \<or> margin > 99
      then Some (Plain ''upstream.safety_margin_percent must be in 0..99'')
      else case share_loop [o_Tickers shares, o_Klines shares, o_Instruments shares, o_MarketStats shares] 100 of
        Inl e \<Rightarrow> Some e
      | Inr remaining \<Rightarrow>
      if remaining \<noteq> 0 then Some (Plain ''operation shares must total 100'')
      else if cd_Binance429 cooldown < Minute \<or> cd_Binance418 cooldown < 72 * Hour \<or> cd_Bybit429 cooldown < Minute
        \<or> cd_Bybit10006 cooldown < Minute \<or> cd_Bybit403AccessTooFrequent cooldown < 10 * Minute
      then Some (Plain ''upstream cooldown is below its required minimum'')
      else None)"

fun market_loop :: "string \<Rightarrow> string list \<Rightarrow> string list \<Rightarrow> error option" where
  "market_loop name [] seen = None"
| "market_loop name (market # markets) seen =
     (if (market \<noteq> ''spot'' \<and> market \<noteq> ''linear'') \<or> market \<in> set seen
      then Some (Plain (name @ '' has an invalid or duplicate market''))
      else market_loop name markets (market # seen))"

definition page_error :: "Config \<Rightarrow> string \<Rightarrow> int Markets \<Rightarrow> string \<Rightarrow> error option" where
  "page_error c name pages market =
     (let pageSize = (if market = ''linear'' then mk_Linear pages else mk_Spot pages);
          needed = (kl_MaxHistoryCandles (c_Klines c) - 1) sdiv pageSize + 1
      in if needed > la_MaxAttempts (ls_Klines (up_LanesPerExchange (c_Upstream c)))
         then Some (Plain (name @ '' '' @ market @ '' history needs more pages than the kline attempt bound''))
         else None)"

definition exchange_error :: "Config \<Rightarrow> string \<Rightarrow> bool \<Rightarrow> string list \<Rightarrow> int Markets \<Rightarrow> int Markets \<Rightarrow> error option" where
  "exchange_error c name enabled markets pages maxima =
     (if enabled \<and> markets = [] then Some (Plain (name @ '' must enable at least one market''))
      else case market_loop name markets [] of
        Some e \<Rightarrow> Some e
      | None \<Rightarrow>
      if mk_Spot pages > mk_Spot maxima \<or> mk_Linear pages > mk_Linear maxima
      then Some (Plain (name @ '' kline page limit exceeds the endpoint maximum''))
      else first_error (map (\<lambda>market. if \<not> enabled then None else page_error c name pages market) markets))"

definition validateExchanges :: "Config \<Rightarrow> error option" where
  "validateExchanges c =
     (let bybit = xs_Bybit (c_Exchanges c); binance = xs_Binance (c_Exchanges c)
      in if \<not> yb_Enabled bybit \<and> \<not> bn_Enabled binance
         then Some (Plain ''at least one exchange must be enabled'')
         else first_error
           [exchange_error c ''bybit'' (yb_Enabled bybit) (yb_Markets bybit) (pg_MaxCandlesPerRequest (yb_Klines bybit))
              \<lparr>mk_Spot = BybitKlineMaximum, mk_Linear = BybitKlineMaximum\<rparr>,
            exchange_error c ''binance'' (bn_Enabled binance) (bn_Markets binance) (pg_MaxCandlesPerRequest (bn_Klines binance))
              \<lparr>mk_Spot = BinanceSpotKlineMaximum, mk_Linear = BinanceLinearKlineMaximum\<rparr>])"

text \<open>\<open>path.Clean\<close> on a rooted path: empty and dot elements disappear, dot-dot removes its parent.\<close>

fun clean_elements :: "string list \<Rightarrow> string list \<Rightarrow> string list" where
  "clean_elements [] kept = rev kept"
| "clean_elements (elem # elems) kept =
     (if elem = [] \<or> elem = ''.'' then clean_elements elems kept
      else if elem = ''..'' then clean_elements elems (tl kept)
      else clean_elements elems (elem # kept))"

definition path_Clean :: "string \<Rightarrow> string" where
  "path_Clean p =
     (case clean_elements (split_on (CHR ''/'') (tl p)) [] of
        [] \<Rightarrow> ''/''
      | elems \<Rightarrow> concat (map (\<lambda>elem. CHR ''/'' # elem) elems))"

definition blank :: "string \<Rightarrow> bool" where
  "blank s \<longleftrightarrow> ValidString s \<and> list_all IsSpace (runes s)"

definition HasPrefix :: "string \<Rightarrow> string \<Rightarrow> bool" where
  "HasPrefix s prefix \<longleftrightarrow> take (length prefix) s = prefix"

definition validDSN :: "URL option \<Rightarrow> bool" where
  "validDSN parsed = (case parsed of
     None \<Rightarrow> False
   | Some u \<Rightarrow> \<not> ((u_Scheme u \<noteq> ''https'' \<and> u_Scheme u \<noteq> ''http'') \<or> u_Hostname u = [] \<or>
       (case u_Username u of None \<Rightarrow> True | Some name \<Rightarrow> name = []) \<or>
       list_all (\<lambda>r. r = CHR ''/'') (u_Path u) \<or> u_RawQuery u \<noteq> [] \<or> u_Fragment u \<noteq> []))"

definition validateObservability :: "go_parsers \<Rightarrow> Config \<Rightarrow> error option" where
  "validateObservability go c =
     (let sentry = oy_Sentry (c_Observability c); metrics = pm_Path (oy_Prometheus (c_Observability c))
      in if (case sn_TracesSampleRate sentry of Finite r \<Rightarrow> r < 0 \<or> r > 1 | _ \<Rightarrow> True)
      then Some (Plain ''observability.sentry.traces_sample_rate must be in 0..1'')
      else if blank (sn_Environment sentry)
      then Some (Plain ''observability.sentry.environment must not be empty'')
      else if (sn_Enabled sentry \<or> sn_DSN sentry \<noteq> []) \<and> \<not> validDSN (url_Parse go (sn_DSN sentry))
      then Some (Plain ''observability.sentry.dsn must be a valid DSN'')
      else if \<not> HasPrefix metrics ''/'' \<or> metrics = ''/'' \<or> path_Clean metrics \<noteq> metrics
        \<or> list_ex (\<lambda>r. r \<in> set (''{}?%# '' @ [CHR 0x09, CHR 0x0D, CHR 0x0A])) metrics
        \<or> HasPrefix metrics ''//'' \<or> metrics = ''/health'' \<or> metrics = ''/ready''
        \<or> HasPrefix metrics ''/api'' \<or> HasPrefix metrics ''/debug''
      then Some (Plain ''observability.prometheus.path must be an absolute, non-reserved HTTP path'')
      else None)"

text \<open>What is left of the global slots and waiters after every lane has taken its own.\<close>

fun capacity_loop :: "(int \<times> int) list \<Rightarrow> int \<Rightarrow> int \<Rightarrow> (int \<times> int) result" where
  "capacity_loop [] slots waiters = Inr (slots, waiters)"
| "capacity_loop ((s, w) # lanes) slots waiters =
     (if s > slots \<or> w > waiters then Inl (Plain ''global upstream caps do not cover enabled lanes'')
      else capacity_loop lanes (slots - s) (waiters - w))"

definition exchange_lanes :: "Lanes \<Rightarrow> (int \<times> int) list" where
  "exchange_lanes lanes =
     [(cl_HTTPSlots (ls_Tickers lanes), cl_Waiters (ls_Tickers lanes)),
      (cl_HTTPSlots (ls_Instruments lanes), cl_Waiters (ls_Instruments lanes)),
      (la_HTTPSlots (ls_Klines lanes), la_Waiters (ls_Klines lanes))]"

definition validateCapacity :: "Config \<Rightarrow> error option" where
  "validateCapacity c =
     (let lanes = up_LanesPerExchange (c_Upstream c);
          bybit = yb_Enabled (xs_Bybit (c_Exchanges c)); binance = bn_Enabled (xs_Binance (c_Exchanges c));
          fills = c_Klines c
      in case capacity_loop ((if bybit then exchange_lanes lanes else []) @ (if binance then exchange_lanes lanes else []))
          (up_MaxHTTPInflight (c_Upstream c)) (up_MaxAdmissionWaiters (c_Upstream c)) of
        Inl e \<Rightarrow> Some e
      | Inr (slots, waiters) \<Rightarrow>
      if binance \<and> (cl_HTTPSlots (ls_MarketStats lanes) > slots \<or> cl_Waiters (ls_MarketStats lanes) > waiters)
      then Some (Plain ''global upstream caps do not cover the statistics lane'')
      else if kl_MaxActiveFillsPerExchange fills > kl_MaxActiveFills fills
        \<or> kl_MaxActiveFillsPerExchange fills > la_HTTPSlots (ls_Klines lanes)
      then Some (Plain ''kline fill caps exceed global, per-exchange, or lane capacity'')
      else None)"

definition percentage :: "int \<Rightarrow> int \<Rightarrow> int" where
  "percentage val percent = val sdiv 100 * percent + (val smod 100 * percent) sdiv 100"

definition allowances :: "Config \<Rightarrow> cfg_Window \<Rightarrow> bool \<Rightarrow> int \<times> int Operations" where
  "allowances c window sharedStatistics =
     (let threshold = (if sharedStatistics then 100 - up_SafetyMarginPercent (c_Upstream c)
                       else bu_StopThresholdPercent (up_Binance (c_Upstream c)));
          common = percentage (cw_Limit window) threshold;
          s = up_OperationSharePercent (c_Upstream c);
          s = (if sharedStatistics then s\<lparr>o_Tickers := o_Tickers s + o_MarketStats s, o_MarketStats := 0\<rparr> else s)
      in if \<not> cw_SplitOperations window
         then (common, \<lparr>o_Tickers = 0, o_Klines = 0, o_Instruments = common, o_MarketStats = 0\<rparr>)
         else (common, \<lparr>o_Tickers = percentage common (o_Tickers s), o_Klines = percentage common (o_Klines s),
           o_Instruments = percentage common (o_Instruments s), o_MarketStats = percentage common (o_MarketStats s)\<rparr>))"

definition linearKlineCost :: "int \<Rightarrow> int" where
  "linearKlineCost limit =
     (if limit < 100 then 1 else if limit < 500 then 2 else if limit \<le> 1000 then 5 else 10)"

definition window_error :: "Config \<Rightarrow> string \<Rightarrow> cfg_Scope \<Rightarrow> bool \<Rightarrow> bool \<Rightarrow> int Operations
    \<Rightarrow> string \<times> cfg_Window \<Rightarrow> error option" where
  "window_error c name defaults enabled shared costs entry =
     (let id = fst entry; w = snd entry; loc = name @ ''.'' @ id
      in case map_of (cs_Windows defaults) id of
        None \<Rightarrow> Some (Plain (loc @ '' changes a fixed allocation window''))
      | Some d \<Rightarrow>
      if cw_Unit w \<noteq> cw_Unit d \<or> cw_Window w \<noteq> cw_Window d \<or> cw_SplitOperations w \<noteq> cw_SplitOperations d
      then Some (Plain (loc @ '' changes a fixed allocation window''))
      else if \<not> enabled then None
      else
        let w = (if \<not> shared then w\<lparr>cw_Limit := min (cw_Limit w) (cw_Limit d)\<rparr> else w);
            (common, allocation) = allowances c w shared;
            cost = (if cw_Unit w = ''requests''
                    then \<lparr>o_Tickers = (if id = ''raw_requests_5m'' then 2 else 1), o_Klines = 1, o_Instruments = 1,
                          o_MarketStats = (if shared then 0 else 1)\<rparr>
                    else costs)
        in if \<not> cw_SplitOperations w then
             (if common < 1 then Some (Plain (loc @ '' cannot admit funding metadata'')) else None)
           else if o_Tickers allocation < o_Tickers cost \<or> o_Klines allocation < o_Klines cost
             \<or> o_Instruments allocation < o_Instruments cost \<or> o_MarketStats allocation < o_MarketStats cost
           then Some (Plain (loc @ '' cannot admit a permitted operation''))
           else if \<not> shared
             \<and> (cw_Window w - 1) sdiv (rf_RefreshInterval (bn_MarketStats (xs_Binance (c_Exchanges c)))) + 1
               > o_MarketStats allocation sdiv o_MarketStats cost
           then Some (Plain (loc @ '' cannot support the statistics refresh interval''))
           else None)"

definition scope_error :: "Config \<Rightarrow> string \<Rightarrow> cfg_Scope \<Rightarrow> cfg_Scope \<Rightarrow> bool \<Rightarrow> bool \<Rightarrow> int Operations \<Rightarrow> error option" where
  "scope_error c name actual defaults enabled shared costs =
     (if length (cs_Windows actual) \<noteq> length (cs_Windows defaults)
      then Some (Plain (name @ '' has invalid allocation windows''))
      else first_error (map (window_error c name defaults enabled shared costs) (cs_Windows actual)))"

definition validateBudgets :: "Config \<Rightarrow> error option" where
  "validateBudgets c =
     (let binance = xs_Binance (c_Exchanges c); limits = up_Limits (c_Upstream c)
      in first_error
       [scope_error c ''binance_spot'' (lm_BinanceSpot limits) (lm_BinanceSpot default_Limits)
          (bn_Enabled binance \<and> ''spot'' \<in> set (bn_Markets binance)) False
          \<lparr>o_Tickers = 8, o_Klines = 2, o_Instruments = 20, o_MarketStats = 80\<rparr>,
        scope_error c ''binance_linear'' (lm_BinanceLinear limits) (lm_BinanceLinear default_Limits)
          (bn_Enabled binance \<and> ''linear'' \<in> set (bn_Markets binance)) False
          \<lparr>o_Tickers = 17, o_Klines = linearKlineCost (mk_Linear (pg_MaxCandlesPerRequest (bn_Klines binance))),
           o_Instruments = 1, o_MarketStats = 40\<rparr>,
        scope_error c ''bybit'' (lm_Bybit limits) (lm_Bybit default_Limits)
          (yb_Enabled (xs_Bybit (c_Exchanges c))) True
          \<lparr>o_Tickers = 1, o_Klines = 1, o_Instruments = 1, o_MarketStats = 0\<rparr>])"

definition Config_Validate :: "go_parsers \<Rightarrow> Config \<Rightarrow> error option" where
  "Config_Validate go c = first_error
     [validatePositiveValues c,
      validateLocalSettings go c,
      validateSharesAndCooldowns c,
      validateExchanges c,
      validateCapacity c,
      validateBudgets c,
      validateObservability go c]"

section \<open>What the checks establish\<close>

lemma Config_Validate_None:
  "Config_Validate go c = None \<longleftrightarrow> validatePositiveValues c = None \<and> validateLocalSettings go c = None
    \<and> validateSharesAndCooldowns c = None \<and> validateExchanges c = None \<and> validateCapacity c = None
    \<and> validateBudgets c = None \<and> validateObservability go c = None"
  by (simp add: Config_Validate_def first_error_None)

text \<open>The percentage is the rounded-down share, computed without an intermediate overflow.\<close>

lemma percentage_eq:
  assumes "0 \<le> val" and "0 \<le> percent"
  shows "percentage val percent = val * percent div 100"
proof -
  have "val * percent = (val div 100) * percent * 100 + (val mod 100) * percent"
    by (metis (no_types, lifting) div_mult_mod_eq mult.commute mult.left_commute distrib_right)
  then have "val * percent div 100 = val div 100 * percent + (val mod 100) * percent div 100"
    by simp
  with assms show ?thesis
    by (simp add: percentage_def signed_divide_int_def signed_modulo_int_def sgn_if)
qed

lemma percentage_bounds:
  assumes "0 \<le> val" and "0 \<le> percent" and "percent \<le> 100"
  shows "0 \<le> percentage val percent" and "percentage val percent \<le> val"
proof -
  have "val * percent \<le> val * 100" using assms by (intro mult_left_mono)
  then show "percentage val percent \<le> val" using assms by (simp add: percentage_eq)
  show "0 \<le> percentage val percent" using assms by (simp add: percentage_eq pos_imp_zdiv_nonneg_iff)
qed

lemma percentage_0 [simp]: "percentage val 0 = 0"
  by (simp add: percentage_def)

text \<open>Shares that add up to a hundred never hand out more than the whole.\<close>

lemma percentage_shares:
  assumes "0 \<le> val" and "\<forall>p \<in> set ps. 0 \<le> p" and "sum_list ps \<le> 100"
  shows "sum_list (map (percentage val) ps) \<le> val"
proof -
  have "sum_list (map (percentage val) ps) * 100 \<le> val * sum_list ps" using assms(2)
  proof (induction ps)
    case (Cons p ps)
    then have "percentage val p * 100 \<le> val * p" using assms(1) by (simp add: percentage_eq)
    with Cons show ?case by (simp add: distrib_left distrib_right)
  qed simp
  also have "\<dots> \<le> val * 100" using assms(1,3) by (intro mult_left_mono)
  finally show ?thesis by simp
qed

lemma positive_leaf:
  assumes "validatePositiveValues c = None" and "\<exists>kind. (path, Integer kind i) \<in> set (walkLeaves (config_value c) [])"
    and "path \<noteq> ''upstream.safety_margin_percent''"
  shows "0 < i"
  using assms unfolding validatePositiveValues_def first_error_None by (fastforce split: if_splits)

lemma share_loop_Inr: "share_loop shares remaining = Inr rest \<Longrightarrow> (\<forall>s \<in> set shares. 1 \<le> s) \<and> sum_list shares + rest = remaining"
  by (induction shares remaining rule: share_loop.induct) (auto split: if_splits)

lemma capacity_loop_Inr: "capacity_loop lanes slots waiters = Inr (s, w) \<Longrightarrow> 0 \<le> slots \<Longrightarrow> 0 \<le> waiters \<Longrightarrow>
    0 \<le> s \<and> 0 \<le> w \<and> sum_list (map fst lanes) + s = slots \<and> sum_list (map snd lanes) + w = waiters"
  by (induction lanes slots waiters rule: capacity_loop.induct) (auto split: if_splits)

text \<open>The shares and limits of a validated configuration.\<close>

lemma valid_shares:
  assumes "validateSharesAndCooldowns c = None"
  defines "s \<equiv> up_OperationSharePercent (c_Upstream c)"
  shows "1 \<le> o_Tickers s" "1 \<le> o_Klines s" "1 \<le> o_Instruments s" "1 \<le> o_MarketStats s"
    "o_Tickers s + o_Klines s + o_Instruments s + o_MarketStats s = 100"
    "1 \<le> bu_StopThresholdPercent (up_Binance (c_Upstream c))" "bu_StopThresholdPercent (up_Binance (c_Upstream c)) \<le> 99"
    "0 \<le> up_SafetyMarginPercent (c_Upstream c)" "up_SafetyMarginPercent (c_Upstream c) \<le> 99"
proof -
  have "share_loop [o_Tickers s, o_Klines s, o_Instruments s, o_MarketStats s] 100 = Inr 0"
    using assms unfolding validateSharesAndCooldowns_def Let_def by (auto split: if_splits sum.splits)
  from share_loop_Inr [OF this]
  show "1 \<le> o_Tickers s" "1 \<le> o_Klines s" "1 \<le> o_Instruments s" "1 \<le> o_MarketStats s"
    "o_Tickers s + o_Klines s + o_Instruments s + o_MarketStats s = 100" by auto
  show "1 \<le> bu_StopThresholdPercent (up_Binance (c_Upstream c))" "bu_StopThresholdPercent (up_Binance (c_Upstream c)) \<le> 99"
    "0 \<le> up_SafetyMarginPercent (c_Upstream c)" "up_SafetyMarginPercent (c_Upstream c) \<le> 99"
    using assms unfolding validateSharesAndCooldowns_def Let_def by (auto split: if_splits)
qed

lemma share_splits:
  assumes "validateSharesAndCooldowns c = None" and "0 \<le> val"
  defines "s \<equiv> up_OperationSharePercent (c_Upstream c)"
  shows "percentage val (o_Tickers s) + percentage val (o_Klines s) + percentage val (o_Instruments s)
      + percentage val (o_MarketStats s) \<le> val"
    and "percentage val (o_Tickers s + o_MarketStats s) + percentage val (o_Klines s) + percentage val (o_Instruments s) \<le> val"
  using percentage_shares [OF assms(2), of "[o_Tickers s, o_Klines s, o_Instruments s, o_MarketStats s]"]
    percentage_shares [OF assms(2), of "[o_Tickers s + o_MarketStats s, o_Klines s, o_Instruments s]"]
    valid_shares [OF assms(1)] unfolding s_def by simp_all

lemma valid_pages:
  assumes "exchange_error c name True markets pages maxima = None" and "market \<in> set markets"
    and "0 < mk_Spot pages" and "0 < mk_Linear pages" and "0 < kl_MaxHistoryCandles (c_Klines c)"
  defines "psize \<equiv> (if market = ''linear'' then mk_Linear pages else mk_Spot pages)"
  shows "kl_MaxHistoryCandles (c_Klines c) \<le> la_MaxAttempts (ls_Klines (up_LanesPerExchange (c_Upstream c))) * psize"
proof -
  let ?h = "kl_MaxHistoryCandles (c_Klines c)" and ?m = "la_MaxAttempts (ls_Klines (up_LanesPerExchange (c_Upstream c)))"
  have "page_error c name pages market = None"
    using assms(1,2) unfolding exchange_error_def by (auto simp: first_error_None split: if_splits option.splits)
  then have "(?h - 1) sdiv psize + 1 \<le> ?m"
    unfolding page_error_def psize_def Let_def by (simp split: if_splits)
  moreover have pos: "0 < psize" using assms(3,4) by (simp add: psize_def)
  ultimately have le: "(?h - 1) div psize + 1 \<le> ?m"
    using assms(5) by (cases "?h = 1") (simp_all add: signed_divide_int_def sgn_if)
  have "?h - 1 < ((?h - 1) div psize + 1) * psize"
    using pos by (metis add.commute div_mult_mod_eq distrib_right mult_1 pos_mod_bound add_less_cancel_left mult.commute)
  also have "\<dots> \<le> ?m * psize" using le pos by (intro mult_right_mono) auto
  finally show ?thesis by simp
qed

lemmas config_leaves = config_value_def server_value_def upstream_value_def page_value_def refresh_value_def
  cycle_lane_value_def joinPath_def ex_disj_distrib

lemma valid_caps:
  assumes "validatePositiveValues c = None"
  shows "0 < up_MaxHTTPInflight (c_Upstream c)" and "0 < up_MaxAdmissionWaiters (c_Upstream c)"
    and "0 < kl_MaxHistoryCandles (c_Klines c)"
    and "0 < mk_Spot (pg_MaxCandlesPerRequest (yb_Klines (xs_Bybit (c_Exchanges c))))"
    and "0 < mk_Linear (pg_MaxCandlesPerRequest (yb_Klines (xs_Bybit (c_Exchanges c))))"
    and "0 < mk_Spot (pg_MaxCandlesPerRequest (bn_Klines (xs_Binance (c_Exchanges c))))"
    and "0 < mk_Linear (pg_MaxCandlesPerRequest (bn_Klines (xs_Binance (c_Exchanges c))))"
  by (rule positive_leaf [OF assms, where path = "''upstream.max_http_inflight''"], simp add: config_leaves, simp)
    (rule positive_leaf [OF assms, where path = "''upstream.max_admission_waiters''"], simp add: config_leaves, simp,
     rule positive_leaf [OF assms, where path = "''klines.max_history_candles''"], simp add: config_leaves, simp,
     rule positive_leaf [OF assms, where path = "''exchanges.bybit.klines.max_candles_per_request.spot''"], simp add: config_leaves, simp,
     rule positive_leaf [OF assms, where path = "''exchanges.bybit.klines.max_candles_per_request.linear''"], simp add: config_leaves, simp,
     rule positive_leaf [OF assms, where path = "''exchanges.binance.klines.max_candles_per_request.spot''"], simp add: config_leaves, simp,
     rule positive_leaf [OF assms, where path = "''exchanges.binance.klines.max_candles_per_request.linear''"], simp add: config_leaves, simp)

text \<open>The defaults pass, whatever the standard parsers make of the host names.\<close>

lemma defaults_pass: "Config_Validate go Defaults = None"
proof -
  have "validatePositiveValues Defaults = None" by code_simp
  moreover have "validateLocalSettings go Defaults = None"
  proof -
    have host: "validHostname ''0.0.0.0''" by code_simp
    have "listener_error go name ''0.0.0.0'' port = None" if "port \<le> 65535" for name port
      using host that by (simp add: listener_error_def)
    then show ?thesis
      by (simp add: validateLocalSettings_def Defaults_def Let_def DefaultKlineTimeout_def
          DefaultHistoryCandles_def WriteGrace_def Second_def signed_divide_int_def)
  qed
  moreover have "validateSharesAndCooldowns Defaults = None" by code_simp
  moreover have "validateExchanges Defaults = None" by code_simp
  moreover have "validateCapacity Defaults = None" by code_simp
  moreover have "validateBudgets Defaults = None" by code_simp
  moreover have "validateObservability go Defaults = None" by code_simp
  ultimately show ?thesis by (simp add: Config_Validate_None)
qed

section \<open>Properties\<close>

text \<open>
  C23. A validated configuration cannot promise more than it has. For every window with a non-negative
  limit, the allowances of the four operations together stay within the common stop line, which stays
  within the limit; and the slots and waiters of all lanes of the enabled exchanges together stay
  within the global caps, so that no lane can starve another.
\<close>

theorem Validate_no_overcommit:
  assumes "Config_Validate go c = None" and "0 \<le> cw_Limit w"
  shows "(case allowances c w shared of (common, a) \<Rightarrow>
      0 \<le> common \<and> common \<le> cw_Limit w \<and> 0 \<le> o_Tickers a \<and> 0 \<le> o_Klines a \<and> 0 \<le> o_Instruments a \<and> 0 \<le> o_MarketStats a
      \<and> o_Tickers a + o_Klines a + o_Instruments a + o_MarketStats a \<le> common)
    \<and> (let lanes = up_LanesPerExchange (c_Upstream c);
              all = (if yb_Enabled (xs_Bybit (c_Exchanges c)) then exchange_lanes lanes else [])
                @ (if bn_Enabled (xs_Binance (c_Exchanges c)) then exchange_lanes lanes
                     @ [(cl_HTTPSlots (ls_MarketStats lanes), cl_Waiters (ls_MarketStats lanes))] else [])
          in sum_list (map fst all) \<le> up_MaxHTTPInflight (c_Upstream c)
           \<and> sum_list (map snd all) \<le> up_MaxAdmissionWaiters (c_Upstream c))"
proof -
  have checks: "validateSharesAndCooldowns c = None" "validateCapacity c = None"
    using assms(1) by (simp_all add: Config_Validate_None)
  note shares = valid_shares [OF checks(1)]
  have caps: "0 \<le> up_MaxHTTPInflight (c_Upstream c)" "0 \<le> up_MaxAdmissionWaiters (c_Upstream c)"
    using valid_caps assms(1) by (simp_all add: Config_Validate_None less_imp_le)
  let ?s = "up_OperationSharePercent (c_Upstream c)"
  define common where "common = fst (allowances c w shared)"
  have common: "0 \<le> common" "common \<le> cw_Limit w"
    using shares percentage_bounds [OF assms(2)] by (auto simp: common_def allowances_def Let_def)
  have parts: "0 \<le> percentage common p" if "1 \<le> p" "p \<le> 100" for p
    using that percentage_bounds(1) [OF common(1)] by simp
  have "case allowances c w shared of (common, a) \<Rightarrow>
      0 \<le> common \<and> common \<le> cw_Limit w \<and> 0 \<le> o_Tickers a \<and> 0 \<le> o_Klines a \<and> 0 \<le> o_Instruments a \<and> 0 \<le> o_MarketStats a
      \<and> o_Tickers a + o_Klines a + o_Instruments a + o_MarketStats a \<le> common"
    using share_splits [OF checks(1) common(1)] common parts shares(1-5)
    unfolding common_def by (auto simp: allowances_def Let_def)
  moreover have "(let lanes = up_LanesPerExchange (c_Upstream c);
              all = (if yb_Enabled (xs_Bybit (c_Exchanges c)) then exchange_lanes lanes else [])
                @ (if bn_Enabled (xs_Binance (c_Exchanges c)) then exchange_lanes lanes
                     @ [(cl_HTTPSlots (ls_MarketStats lanes), cl_Waiters (ls_MarketStats lanes))] else [])
          in sum_list (map fst all) \<le> up_MaxHTTPInflight (c_Upstream c)
           \<and> sum_list (map snd all) \<le> up_MaxAdmissionWaiters (c_Upstream c))"
    using checks(2) caps unfolding validateCapacity_def Let_def
    by (auto split: if_splits sum.splits dest!: capacity_loop_Inr)
  ultimately show ?thesis by blast
qed

theorem Validate_no_overcommit_witness:
  "fst (allowances Defaults (fixed_window ''weight'' Minute 6000 True) False) = 5400
    \<and> (case allowances Defaults (fixed_window ''weight'' Minute 6000 True) False of (common, a) \<Rightarrow>
      o_Tickers a + o_Klines a + o_Instruments a + o_MarketStats a \<le> common)"
proof -
  have "fst (allowances Defaults (fixed_window ''weight'' Minute 6000 True) False) = 5400" by code_simp
  then show ?thesis
    using Validate_no_overcommit [OF defaults_pass, of "fixed_window ''weight'' Minute 6000 True" False]
    by (auto simp: fixed_window_def split: prod.splits)
qed

end
