(* ===== verification/Upstream_Ledger.thy ===== *)
theory Upstream_Ledger
  imports MD_Config
begin

text \<open>
  The accounting of exchange requests: request costs (\<open>cost.go\<close>), the ledger of a scope with its
  windows and usage (\<open>usage.go\<close> and the types of \<open>controller.go\<close>), the prediction of recovery
  (\<open>deferral.go\<close>) and the feasibility check of \<open>catalog.go\<close>, all under
  \<open>src/internal/infrastructure/exchange/upstream\<close>.

  An entry of the history is a heap object that the transport keeps a pointer to; \<open>en_ref\<close> is its
  address. Usage counters are 64-bit integers that saturate.
\<close>

section \<open>Scopes, operations, costs\<close>

type_synonym upstream_Scope = string

definition BinanceSpot :: upstream_Scope where "BinanceSpot = ''binance_spot''"
definition BinanceLinear :: upstream_Scope where "BinanceLinear = ''binance_linear''"
definition Bybit :: upstream_Scope where "Bybit = ''bybit''"

lemmas scope_names [simp] = BinanceSpot_def BinanceLinear_def Bybit_def

datatype Operation = Tickers | Klines | Instruments | MarketStats

definition operations :: "Operation list" where
  "operations = [Tickers, Klines, Instruments, MarketStats]"

definition operationCount :: nat where
  "operationCount = 4"

primrec op_index :: "Operation \<Rightarrow> nat" where
  "op_index Tickers = 0"
| "op_index Klines = 1"
| "op_index Instruments = 2"
| "op_index MarketStats = 3"

record cost =
  cost_operation :: Operation
  cost_weight :: int
  cost_funding :: bool

text \<open>
  A request as \<open>resolveCost\<close> reads it: method, whether it has a body, path, and the decoded query. The
  query is \<open>None\<close> where \<open>url.ParseQuery\<close> fails.
\<close>

record request =
  r_Get :: bool
  r_Body :: bool
  r_Path :: string
  r_Query :: "(string, string list) gomap option"

definition parseQuery :: "request \<Rightarrow> (string, string list) gomap result" where
  "parseQuery request =
     (case r_Query request of
        None \<Rightarrow> Inl (App ErrInvalidParameter)
      | Some values \<Rightarrow>
          if list_ex (\<lambda>(k, v). length v \<noteq> 1 \<or> hd v = []) values then Inl (App ErrInvalidParameter)
          else Inr values)"

definition query_Get :: "(string, string list) gomap \<Rightarrow> string \<Rightarrow> string" where
  "query_Get q key = (case map_of q key of None \<Rightarrow> [] | Some [] \<Rightarrow> [] | Some (v # _) \<Rightarrow> v)"

text \<open>\<open>strconv.Atoi\<close>: an optional sign and decimal digits, within 64 bits.\<close>

definition digit :: "char \<Rightarrow> bool" where
  "digit ch \<longleftrightarrow> ch \<in> set ''0123456789''"

definition digits_value :: "string \<Rightarrow> int" where
  "digits_value s = foldl (\<lambda>n ch. 10 * n + int (of_char ch - 48)) 0 s"

definition Atoi :: "string \<Rightarrow> int option" where
  "Atoi s =
     (let negative = (s \<noteq> [] \<and> hd s = CHR ''-'');
          body = (if s \<noteq> [] \<and> (hd s = CHR ''-'' \<or> hd s = CHR ''+'') then tl s else s);
          n = (if negative then - digits_value body else digits_value body)
      in if body = [] \<or> \<not> list_all digit body \<or> n < min_int64 \<or> n > max_int64 then None else Some n)"

definition unknown_cost :: error where
  "unknown_cost = Wrapped ''unknown upstream request cost'' [App ErrUnsupportedOperation]"

definition plain_cost :: "Operation \<Rightarrow> int \<Rightarrow> cost" where
  "plain_cost op weight = \<lparr>cost_operation = op, cost_weight = weight, cost_funding = False\<rparr>"

text \<open>The costs by path; \<open>None\<close> is a path or parameter outside the contract.\<close>

definition path_cost :: "upstream_Scope \<Rightarrow> string \<Rightarrow> (string, string list) gomap \<Rightarrow> cost option" where
  "path_cost scope path q =
     (if scope = BinanceSpot then
        (if path = ''/api/v3/exchangeInfo'' then Some (plain_cost Instruments 20)
         else if path = ''/api/v3/ticker/price'' \<or> path = ''/api/v3/ticker/bookTicker'' then Some (plain_cost Tickers 4)
         else if path = ''/api/v3/ticker/24hr'' then
           (if query_Get q ''type'' \<noteq> [] \<and> query_Get q ''type'' \<noteq> ''FULL'' then None
            else Some (plain_cost MarketStats 80))
         else if path = ''/api/v3/klines'' then Some (plain_cost Klines 2)
         else None)
      else if scope = BinanceLinear then
        (if path = ''/fapi/v1/exchangeInfo'' then Some (plain_cost Instruments 1)
         else if path = ''/fapi/v1/fundingInfo''
         then Some \<lparr>cost_operation = Instruments, cost_weight = 0, cost_funding = True\<rparr>
         else if path = ''/fapi/v2/ticker/price'' then Some (plain_cost Tickers 2)
         else if path = ''/fapi/v1/ticker/bookTicker'' then Some (plain_cost Tickers 5)
         else if path = ''/fapi/v1/premiumIndex'' then Some (plain_cost Tickers 10)
         else if path = ''/fapi/v1/ticker/24hr'' then Some (plain_cost MarketStats 40)
         else if path = ''/fapi/v1/klines'' then Some (plain_cost Klines 0)
         else None)
      else if scope = Bybit then
        (if query_Get q ''category'' \<noteq> ''spot'' \<and> query_Get q ''category'' \<noteq> ''linear'' then None
         else if path = ''/v5/market/instruments-info'' then Some (plain_cost Instruments 0)
         else if path = ''/v5/market/tickers'' then Some (plain_cost Tickers 0)
         else if path = ''/v5/market/kline'' then Some (plain_cost Klines 0)
         else None)
      else None)"

definition resolveCost :: "upstream_Scope \<Rightarrow> request \<Rightarrow> int \<Rightarrow> cost result" where
  "resolveCost scope request pageMaximum =
     (if \<not> r_Get request \<or> r_Body request then Inl unknown_cost
      else case parseQuery request of
        Inl err \<Rightarrow> Inl err
      | Inr q \<Rightarrow>
        (case path_cost scope (r_Path request) q of
           None \<Rightarrow> Inl unknown_cost
         | Some c \<Rightarrow>
             if cost_operation c = Klines then
               (case Atoi (query_Get q ''limit'') of
                  None \<Rightarrow> Inl unknown_cost
                | Some limit \<Rightarrow>
                    if limit < 1 \<or> limit > pageMaximum then Inl unknown_cost
                    else if scope = BinanceLinear then
                      Inr (c\<lparr>cost_weight :=
                        (if limit < 100 then 1 else if limit < 500 then 2 else if limit \<le> 1000 then 5 else 10)\<rparr>)
                    else Inr c)
             else if scope \<noteq> Bybit \<and> (ghas q ''symbol'' \<or> ghas q ''symbols'') then Inl unknown_cost
             else Inr c))"

section \<open>The ledger of a scope\<close>

record window =
  w_unit :: string
  w_duration :: duration
  w_ceiling :: int
  w_userCap :: int
  w_source :: string
  w_updatedAt :: time
  w_limit :: int
  w_split :: bool
  w_funding :: bool

record usageObservation =
  ob_used :: int
  ob_expires :: time

record entry =
  en_ref :: nat
  en_at :: time
  en_cost :: cost
  en_received :: time
  en_dispatched :: bool
  en_inflight :: bool
  en_observations :: "(duration, usageObservation) gomap"

text \<open>An array indexed by operations is a function on them.\<close>

record scopeState =
  ss_windows :: "(string, window) gomap"
  ss_keepInflight :: bool
  ss_history :: "entry list"
  ss_historySince :: time
  ss_startedAt :: time
  ss_catalogError :: string
  ss_catalogErrorAt :: time
  ss_catalogErrorStart :: time
  ss_lastAdmission :: "Operation \<Rightarrow> string"
  ss_spacing :: duration
  ss_next :: time
  ss_cooldown :: time
  ss_catalogUpdatedAt :: time
  ss_catalogStart :: time
  ss_shares :: "Operation \<Rightarrow> int"
  ss_maxCosts :: "Operation \<Rightarrow> int"

record usageView =
  us_common :: int
  us_local :: int
  us_observed :: int
  us_reserved :: int
  us_operations :: "Operation \<Rightarrow> int"
  us_next :: time
  us_uncertain :: bool
  us_incompleteHistory :: bool

definition percent :: "int \<Rightarrow> int \<Rightarrow> int" where
  "percent val share = val sdiv 100 * share + (val smod 100 * share) sdiv 100"

definition window_cost :: "window \<Rightarrow> cost \<Rightarrow> int" where
  "window_cost w c =
     (if w_funding w \<and> \<not> cost_funding c then 0
      else if w_unit w = ''weight'' then cost_weight c
      else 1)"

definition maxTime :: "time list \<Rightarrow> time" where
  "maxTime values = foldl (\<lambda>result v. if v > result then v else result) zero_time values"

definition earlier :: "time \<Rightarrow> time \<Rightarrow> time" where
  "earlier a b = (if IsZero a \<or> b < a then b else a)"

definition addUsage :: "int \<Rightarrow> int \<Rightarrow> int" where
  "addUsage a b = (if b > max_int64 - a then max_int64 else a + b)"

definition longest_window :: "scopeState \<Rightarrow> duration" where
  "longest_window s = foldl (\<lambda>longest (name, w). max longest (w_duration w)) 0 (ss_windows s)"

definition prune :: "scopeState \<Rightarrow> time \<Rightarrow> scopeState" where
  "prune s now =
     (let cutoff = now - longest_window s;
          expired = map (\<lambda>e. e\<lparr>en_observations := filter (\<lambda>(d, ob). ob_expires ob > now) (en_observations e)\<rparr>)
            (ss_history s)
      in s\<lparr>ss_history := filter (\<lambda>e. \<not> (\<not> en_inflight e \<and> en_at e \<le> cutoff \<and> en_observations e = [])) expired,
           ss_historySince := (if cutoff > ss_historySince s then cutoff else ss_historySince s)\<rparr>)"

definition live :: "scopeState \<Rightarrow> entry \<Rightarrow> window \<Rightarrow> time \<Rightarrow> bool" where
  "live s e w now \<longleftrightarrow> ss_keepInflight s \<and> en_inflight e \<or> en_at e + w_duration w > now"

text \<open>The body of the first loop of \<open>usage\<close>, over the entries of the history.\<close>

definition count_entry :: "scopeState \<Rightarrow> window \<Rightarrow> time \<Rightarrow> usageView \<Rightarrow> entry \<Rightarrow> usageView" where
  "count_entry s w now v e =
     (if \<not> live s e w now then v
      else
        let amount = window_cost w (en_cost e); op = cost_operation (en_cost e)
        in v\<lparr>us_local := addUsage (us_local v) amount,
             us_operations := (us_operations v)(op := addUsage (us_operations v op) amount),
             us_reserved := (if en_inflight e then addUsage (us_reserved v) amount else us_reserved v),
             us_next := (if amount > 0 \<and> (\<not> en_inflight e \<or> \<not> ss_keepInflight s)
                         then earlier (us_next v) (en_at e + w_duration w) else us_next v)\<rparr>)"

text \<open>The body of the second loop: what the exchange reported it has counted.\<close>

definition observe_entry :: "scopeState \<Rightarrow> window \<Rightarrow> time \<Rightarrow> usageView \<Rightarrow> entry \<Rightarrow> usageView" where
  "observe_entry s w now v e =
     (case map_of (en_observations e) (w_duration w) of
        None \<Rightarrow> v
      | Some ob \<Rightarrow>
          if \<not> ob_expires ob > now then v
          else
            let unmatched = (if live s e w now \<and> us_local v \<noteq> max_int64
                             then us_local v - window_cost w (en_cost e) else us_local v)
            in v\<lparr>us_common := max (us_common v) (addUsage (ob_used ob) unmatched),
                 us_observed := max (us_observed v) (ob_used ob),
                 us_next := earlier (us_next v) (ob_expires ob),
                 us_uncertain := True\<rparr>)"

definition usage :: "scopeState \<Rightarrow> window \<Rightarrow> time \<Rightarrow> usageView" where
  "usage s w now =
     (let v = \<lparr>us_common = 0, us_local = 0, us_observed = 0, us_reserved = 0, us_operations = (\<lambda>_. 0),
               us_next = zero_time, us_uncertain = False,
               us_incompleteHistory = (ss_historySince s > now - w_duration w)\<rparr>;
          v = foldl (count_entry s w now) v (ss_history s);
          v = v\<lparr>us_common := us_local v\<rparr>;
          v = (if w_unit w = ''weight''
               then let v = foldl (observe_entry s w now) v (ss_history s)
                    in v\<lparr>us_uncertain := us_uncertain v \<or> us_local v > 0\<rparr>
               else v)
      in v\<lparr>us_uncertain := us_uncertain v \<or> us_incompleteHistory v\<rparr>)"

definition feasible :: "scopeState \<Rightarrow> window \<Rightarrow> bool" where
  "feasible s w =
     (if w_funding w then w_limit w \<ge> 1
      else list_all (\<lambda>op.
        if ss_shares s op = 0 then True
        else
          let amount = (if w_unit w = ''weight'' then ss_maxCosts s op else 1)
          in \<not> (amount > w_limit w \<or> w_split w \<and> amount > percent (w_limit w) (ss_shares s op))) operations)"

section \<open>Predicting recovery\<close>

definition known_expiries :: "scopeState \<Rightarrow> window \<Rightarrow> time \<Rightarrow> time list" where
  "known_expiries s w now = concat (map (\<lambda>e.
     (if \<not> en_inflight e \<and> window_cost w (en_cost e) > 0 \<and> en_at e + w_duration w > now
      then [en_at e + w_duration w] else []) @
     (if w_unit w = ''weight'' then
        (case map_of (en_observations e) (w_duration w) of
           None \<Rightarrow> []
         | Some ob \<Rightarrow> if ob_expires ob > now then [ob_expires ob] else [])
      else [])) (ss_history s))"

definition recovered :: "scopeState \<Rightarrow> window \<Rightarrow> cost \<Rightarrow> time \<Rightarrow> bool" where
  "recovered s w request t \<longleftrightarrow>
     (let u = usage s w t
      in us_common u \<le> w_limit w \<and>
         (\<not> w_split w \<or> us_operations u (cost_operation request)
            \<le> percent (w_limit w) (ss_shares s (cost_operation request)) - window_cost w request))"

text \<open>The loop halves the interval \<open>[index, stop)\<close> of candidate expiries.\<close>

function budget_search :: "(time \<Rightarrow> bool) \<Rightarrow> time list \<Rightarrow> nat \<Rightarrow> nat \<Rightarrow> nat" where
  "budget_search ok expiries index stop =
     (if index < stop then
        let middle = index + (stop - index) div 2
        in if ok (expiries ! middle) then budget_search ok expiries index middle
           else budget_search ok expiries (middle + 1) stop
      else index)"
  by pat_completeness auto
termination by (relation "measure (\<lambda>(ok, expiries, index, stop). stop - index)") auto

definition budgetReady :: "scopeState \<Rightarrow> window \<Rightarrow> cost \<Rightarrow> time \<Rightarrow> time" where
  "budgetReady s w request now =
     (let expiries = sort (known_expiries s w now);
          index = budget_search (recovered s w request) expiries 0 (length expiries)
      in if index = length expiries then zero_time else expiries ! index)"

section \<open>Counters\<close>

lemma percent_percentage: "percent = percentage"
  by (simp add: fun_eq_iff percent_def percentage_def)

lemma addUsage_min: "0 \<le> a \<Longrightarrow> addUsage a b = min max_int64 (a + b)"
  by (simp add: addUsage_def min_def)

lemma foldl_max_ge: "acc \<le> foldl max acc ts \<and> (\<forall>v \<in> set ts. v \<le> foldl max acc ts)" 
  for acc :: time
  by (induction ts arbitrary: acc) (auto, (meson max.bounded_iff)+)

lemma maxTime_max: "maxTime ts = foldl max zero_time ts"
proof -
  have "(\<lambda>result v :: time. if v > result then v else result) = max" by (auto simp: fun_eq_iff max_def)
  then show ?thesis by (simp add: maxTime_def)
qed

lemma maxTime_ge: "v \<in> set ts \<Longrightarrow> v \<le> maxTime ts"
  using foldl_max_ge by (simp add: maxTime_max)

lemma saturate_step: "0 \<le> x \<Longrightarrow> min M (min M (v + a) + x) = min M (v + (a + x))" 
  for M :: int
  by (simp add: min_def)

text \<open>Well-formed windows and entries: nothing negative, limits within 64 bits.\<close>

definition cost_ok :: "cost \<Rightarrow> bool" where
  "cost_ok c \<longleftrightarrow> 0 \<le> cost_weight c"

definition entry_ok :: "entry \<Rightarrow> bool" where
  "entry_ok e \<longleftrightarrow> cost_ok (en_cost e) \<and> (\<forall>(d, ob) \<in> set (en_observations e). 0 \<le> ob_used ob)"

lemma window_cost_nonneg: "cost_ok c \<Longrightarrow> 0 \<le> window_cost w c"
  by (simp add: window_cost_def cost_ok_def)

text \<open>What the live entries cost, as a mathematical sum.\<close>

definition live_cost :: "scopeState \<Rightarrow> window \<Rightarrow> time \<Rightarrow> (entry \<Rightarrow> bool) \<Rightarrow> int" where
  "live_cost s w now P =
     sum_list (map (\<lambda>e. window_cost w (en_cost e)) (filter (\<lambda>e. live s e w now \<and> P e) (ss_history s)))"

lemma sum_filter_nonneg:
  fixes f :: "'a \<Rightarrow> int"
  shows "\<forall>x \<in> set xs. 0 \<le> f x \<Longrightarrow> 0 \<le> sum_list (map f (filter P xs))"
  by (induction xs) auto

lemma sum_filter_mono:
  fixes f :: "'a \<Rightarrow> int"
  assumes "\<forall>x \<in> set xs. 0 \<le> f x" and "\<forall>x \<in> set xs. Q x \<longrightarrow> P x"
  shows "sum_list (map f (filter Q xs)) \<le> sum_list (map f (filter P xs))"
  using assms by (induction xs) auto

lemma sum_filter_drop:
  fixes f :: "'a \<Rightarrow> int"
  assumes "\<forall>x \<in> set xs. 0 \<le> f x" and "\<forall>x \<in> set xs. Q x \<longrightarrow> P x" and "e \<in> set xs" and "P e" and "\<not> Q e"
  shows "sum_list (map f (filter Q xs)) + f e \<le> sum_list (map f (filter P xs))"
  using assms
proof (induction xs)
  case (Cons x xs)
  show ?case
  proof (cases "x = e")
    case True
    then show ?thesis using Cons.prems sum_filter_mono [of xs f Q P] by auto
  next
    case False
    then show ?thesis using Cons by auto
  qed
qed simp

lemma count_fold:
  assumes "\<forall>e \<in> set es. cost_ok (en_cost e)" and "0 \<le> us_local v" "us_local v \<le> max_int64"
    and "\<forall>op. 0 \<le> us_operations v op \<and> us_operations v op \<le> max_int64"
  shows "us_local (foldl (count_entry s w now) v es) =
      min max_int64 (us_local v + sum_list (map (\<lambda>e. window_cost w (en_cost e)) (filter (\<lambda>e. live s e w now) es)))
    \<and> us_operations (foldl (count_entry s w now) v es) op =
      min max_int64 (us_operations v op + sum_list (map (\<lambda>e. window_cost w (en_cost e))
        (filter (\<lambda>e. live s e w now \<and> cost_operation (en_cost e) = op) es)))"
  using assms
proof (induction es arbitrary: v)
  case (Cons e es)
  have nonneg: "0 \<le> window_cost w (en_cost e)" using Cons.prems(1) by (simp add: window_cost_nonneg)
  have rest: "0 \<le> sum_list (map (\<lambda>e. window_cost w (en_cost e)) (filter P es))" for P
    using Cons.prems(1) by (intro sum_filter_nonneg) (simp add: window_cost_nonneg)
  have v': "0 \<le> us_local (count_entry s w now v e)" "us_local (count_entry s w now v e) \<le> max_int64"
    "\<forall>op. 0 \<le> us_operations (count_entry s w now v e) op \<and> us_operations (count_entry s w now v e) op \<le> max_int64"
    using Cons.prems nonneg by (auto simp: count_entry_def Let_def addUsage_min)
  have es: "\<forall>e \<in> set es. cost_ok (en_cost e)" using Cons.prems(1) by simp
  note IH = Cons.IH [OF es v']
  have step: "us_local (count_entry s w now v e) =
      (if live s e w now then min max_int64 (us_local v + window_cost w (en_cost e)) else us_local v)"
    "us_operations (count_entry s w now v e) op =
      (if live s e w now \<and> cost_operation (en_cost e) = op
       then min max_int64 (us_operations v op + window_cost w (en_cost e)) else us_operations v op)"
    using Cons.prems(2-4) by (simp_all add: count_entry_def Let_def addUsage_min)
  show ?case
    using IH saturate_step [OF rest] by (simp add: step)
qed simp

lemma observe_keeps [simp]:
  "us_local (foldl (observe_entry s w now) v es) = us_local v"
  "us_operations (foldl (observe_entry s w now) v es) = us_operations v"
  by (induction es arbitrary: v) (simp_all add: observe_entry_def Let_def split: option.split)

lemma usage_local:
  assumes "\<forall>e \<in> set (ss_history s). entry_ok e"
  shows "us_local (usage s w now) = min max_int64 (live_cost s w now (\<lambda>_. True))"
    and "us_operations (usage s w now) op = min max_int64 (live_cost s w now (\<lambda>e. cost_operation (en_cost e) = op))"
  using assms by (simp_all add: usage_def Let_def count_fold live_cost_def entry_ok_def)

lemma live_cost_nonneg:
  "\<forall>e \<in> set (ss_history s). entry_ok e \<Longrightarrow> 0 \<le> live_cost s w now P"
  unfolding live_cost_def by (intro sum_filter_nonneg) (simp add: entry_ok_def window_cost_nonneg)

text \<open>The reported usage of an entry that is still in force, together with what it does not cover.\<close>

definition observed_cost :: "scopeState \<Rightarrow> window \<Rightarrow> time \<Rightarrow> entry \<Rightarrow> int option" where
  "observed_cost s w now e =
     (case map_of (en_observations e) (w_duration w) of
        None \<Rightarrow> None
      | Some ob \<Rightarrow>
          if ob_expires ob > now then
            Some (let total = us_local (usage s w now)
                  in addUsage (ob_used ob)
                    (if live s e w now \<and> total \<noteq> max_int64 then total - window_cost w (en_cost e) else total))
          else None)"

lemma observe_common:
  assumes "us_local v = us_local (usage s w now)"
  shows "us_common (foldl (observe_entry s w now) v es) =
      fold max (List.map_filter (observed_cost s w now) es) (us_common v)"
  using assms
proof (induction es arbitrary: v)
  case (Cons e es)
  have "us_local (observe_entry s w now v e) = us_local v"
    by (simp add: observe_entry_def Let_def split: option.split)
  with Cons show ?case
    by (simp add: observe_entry_def observed_cost_def Let_def List.map_filter_simps max.commute split: option.split)
qed (simp add: List.map_filter_simps)

lemma fold_max_le: "fold max xs (a :: int) \<le> b \<longleftrightarrow> a \<le> b \<and> (\<forall>x \<in> set xs. x \<le> b)"
  by (induction xs arbitrary: a) auto

lemma common_le_iff:
  "us_common (usage s w now) \<le> b \<longleftrightarrow> us_local (usage s w now) \<le> b
     \<and> (w_unit w = ''weight'' \<longrightarrow> (\<forall>e \<in> set (ss_history s). \<forall>n. observed_cost s w now e = Some n \<longrightarrow> n \<le> b))"
proof -
  let ?v0 = "\<lparr>us_common = 0, us_local = 0, us_observed = 0, us_reserved = 0, us_operations = (\<lambda>_. 0),
    us_next = zero_time, us_uncertain = False, us_incompleteHistory = (ss_historySince s > now - w_duration w)\<rparr>"
  let ?v = "foldl (count_entry s w now) ?v0 (ss_history s)"
  let ?v1 = "?v\<lparr>us_common := us_local ?v\<rparr>"
  have l: "us_local (usage s w now) = us_local ?v" by (simp add: usage_def Let_def)
  have common: "us_common (usage s w now) = (if w_unit w = ''weight''
      then us_common (foldl (observe_entry s w now) ?v1 (ss_history s)) else us_local ?v)"
    by (simp add: usage_def Let_def)
  have "us_common (foldl (observe_entry s w now) ?v1 (ss_history s)) =
      fold max (List.map_filter (observed_cost s w now) (ss_history s)) (us_local ?v)"
    by (subst observe_common) (simp_all add: l)
  then show ?thesis
    unfolding common by (auto simp: fold_max_le l List.map_filter_def)
qed

section \<open>Usage only falls while nothing new is admitted\<close>

lemma live_later: "live s e w t' \<Longrightarrow> t \<le> t' \<Longrightarrow> live s e w t"
  by (auto simp: live_def)

lemma live_cost_later:
  assumes "\<forall>e \<in> set (ss_history s). entry_ok e" and "t \<le> t'"
  shows "live_cost s w t' P \<le> live_cost s w t P"
  unfolding live_cost_def using assms
  by (intro sum_filter_mono) (auto simp: entry_ok_def window_cost_nonneg live_later)

lemma observed_later:
  assumes ok: "\<forall>e \<in> set (ss_history s). entry_ok e" and le: "t \<le> t'" and e: "e \<in> set (ss_history s)"
    and n': "observed_cost s w t' e = Some n'"
  shows "\<exists>n. observed_cost s w t e = Some n \<and> n' \<le> n"
proof -
  obtain ob where ob: "map_of (en_observations e) (w_duration w) = Some ob" and exp: "ob_expires ob > t'"
    using n' by (auto simp: observed_cost_def split: option.splits if_splits)
  from ob have "(w_duration w, ob) \<in> set (en_observations e)" by (rule map_of_SomeD)
  with ok e have used: "0 \<le> ob_used ob" by (auto simp: entry_ok_def)
  define M where "M = max_int64"
  define S where "S t = live_cost s w t (\<lambda>_. True)" for t
  define L where "L t = min M (S t)" for t
  define U where "U t = (if live s e w t \<and> L t \<noteq> M then L t - window_cost w (en_cost e) else L t)" for t
  have L: "us_local (usage s w t) = L t" for t by (simp add: L_def S_def M_def usage_local(1) [OF ok])
  have obs: "observed_cost s w x e = Some (min M (ob_used ob + U x))" if "ob_expires ob > x" for x
    using ob that used by (simp add: observed_cost_def L U_def Let_def addUsage_min M_def)
  have nonneg: "0 \<le> window_cost w (en_cost e)" using ok e by (simp add: entry_ok_def window_cost_nonneg)
  have mono: "S t' \<le> S t" unfolding S_def by (rule live_cost_later [OF ok le])
  have drop: "S t' + window_cost w (en_cost e) \<le> S t" if "live s e w t" "\<not> live s e w t'"
    unfolding S_def live_cost_def using that e ok le
    by (intro sum_filter_drop) (auto simp: entry_ok_def window_cost_nonneg live_later)
  have "U t' \<le> U t"
    using mono drop nonneg live_later [OF _ le, of s e w] unfolding U_def L_def by (auto simp: min_def)
  then have "min M (ob_used ob + U t') \<le> min M (ob_used ob + U t)" by (simp add: min_def)
  with obs [OF exp] n' obs [of t] exp le show ?thesis by simp
qed

lemma recovered_later:
  assumes ok: "\<forall>e \<in> set (ss_history s). entry_ok e" and le: "t \<le> t'" and "recovered s w request t"
  shows "recovered s w request t'"
proof -
  have "us_common (usage s w t) \<le> w_limit w" using assms(3) by (simp add: recovered_def Let_def)
  then have old: "us_local (usage s w t) \<le> w_limit w"
    "w_unit w = ''weight'' \<Longrightarrow> e \<in> set (ss_history s) \<Longrightarrow> observed_cost s w t e = Some n \<Longrightarrow> n \<le> w_limit w" for e n
    unfolding common_le_iff by blast+
  have "us_local (usage s w t') \<le> us_local (usage s w t)"
    unfolding usage_local(1) [OF ok] by (intro min.mono order_refl live_cost_later [OF ok le])
  then have "us_local (usage s w t') \<le> w_limit w" using old(1) by (rule order_trans)
  moreover have "n' \<le> w_limit w"
    if "w_unit w = ''weight''" "e \<in> set (ss_history s)" "observed_cost s w t' e = Some n'" for e n'
    using observed_later [OF ok le that(2,3)] old(2) [OF that(1,2)] by (auto intro: order_trans)
  ultimately have "us_common (usage s w t') \<le> w_limit w" unfolding common_le_iff by blast
  moreover have "us_operations (usage s w t') op \<le> us_operations (usage s w t) op" for op
    unfolding usage_local(2) [OF ok] using live_cost_later [OF ok le] by (intro min.mono order_refl)
  ultimately show ?thesis using assms(3) by (auto simp: recovered_def Let_def intro: order_trans)
qed

section \<open>The search\<close>

declare budget_search.simps [simp del]

lemma budget_search_spec:
  assumes "sorted xs" and "\<forall>t t'. t \<le> t' \<longrightarrow> ok t \<longrightarrow> ok t'"
    and "index \<le> stop" and "stop \<le> length xs"
    and "\<forall>i < index. \<not> ok (xs ! i)" and "\<forall>i. stop \<le> i \<and> i < length xs \<longrightarrow> ok (xs ! i)"
  defines "k \<equiv> budget_search ok xs index stop"
  shows "k \<le> length xs \<and> (\<forall>i < k. \<not> ok (xs ! i)) \<and> (\<forall>i. k \<le> i \<and> i < length xs \<longrightarrow> ok (xs ! i))"
  using assms(3-6) unfolding k_def
proof (induction "stop - index" arbitrary: index stop rule: less_induct)
  case less
  define m where "m = index + (stop - index) div 2"
  have unfold: "budget_search ok xs index stop =
      (if index < stop then if ok (xs ! m) then budget_search ok xs index m else budget_search ok xs (m + 1) stop else index)"
    by (subst budget_search.simps) (simp add: m_def Let_def)
  show ?case
  proof (cases "index < stop")
    case True
    then have m: "index \<le> m" "m < stop" unfolding m_def by auto
    show ?thesis
    proof (cases "ok (xs ! m)")
      case ok: True
      have "\<forall>i. m \<le> i \<and> i < length xs \<longrightarrow> ok (xs ! i)"
        using ok sorted_nth_mono [OF assms(1)] assms(2) by blast
      with less.hyps [of m index] less.prems m have "?thesis" if "budget_search ok xs index stop = budget_search ok xs index m"
        unfolding that by simp
      with unfold True ok show ?thesis by simp
    next
      case bad: False
      have "\<forall>i < m + 1. \<not> ok (xs ! i)"
      proof (intro allI impI notI)
        fix i assume "i < m + 1" "ok (xs ! i)"
        moreover from this(1) have "xs ! i \<le> xs ! m"
          using less.prems(2) m by (intro sorted_nth_mono [OF assms(1)]) auto
        ultimately show False using bad assms(2) by blast
      qed
      with less.hyps [of stop "m + 1"] less.prems m have "?thesis" if "budget_search ok xs index stop = budget_search ok xs (m + 1) stop"
        unfolding that by simp
      with unfold True bad show ?thesis by simp
    qed
  next
    case False
    then have "budget_search ok xs index stop = index" by (simp add: unfold)
    with less.prems False show ?thesis by simp
  qed
qed

lemma first_ok:
  assumes "k \<le> length xs" and "\<forall>i < k. \<not> ok (xs ! i)" and "\<forall>i. k \<le> i \<and> i < length xs \<longrightarrow> ok (xs ! i)"
  shows "filter ok xs = drop k xs"
proof -
  have "filter ok (take k xs) = []" using assms(1,2) by (auto simp: filter_empty_conv in_set_conv_nth)
  moreover have "filter ok (drop k xs) = drop k xs"
    using assms(3) by (auto simp: filter_id_conv in_set_conv_nth)
  ultimately show ?thesis using filter_append [of ok "take k xs" "drop k xs"] by simp
qed

section \<open>Properties\<close>

text \<open>
  C24. The binary search that predicts recovery is right: it answers with the earliest known expiry at
  which the window would admit the request, the answer of a linear scan, and with the zero time when
  there is none. It rests on the usage of a window never rising while nothing is admitted.
\<close>

theorem budgetReady_linear_scan:
  assumes "\<forall>e \<in> set (ss_history s). entry_ok e"
  shows "budgetReady s w request now =
    (case filter (recovered s w request) (sort (known_expiries s w now)) of [] \<Rightarrow> zero_time | t # _ \<Rightarrow> t)"
proof -
  let ?xs = "sort (known_expiries s w now)"
  define k where "k = budget_search (recovered s w request) ?xs 0 (length ?xs)"
  have k: "k \<le> length ?xs \<and> (\<forall>i < k. \<not> recovered s w request (?xs ! i))
      \<and> (\<forall>i. k \<le> i \<and> i < length ?xs \<longrightarrow> recovered s w request (?xs ! i))"
    unfolding k_def using recovered_later [OF assms]
    by (intro budget_search_spec) auto
  then have filt: "filter (recovered s w request) ?xs = drop k ?xs" by (intro first_ok) auto
  have "budgetReady s w request now = (if k = length ?xs then zero_time else ?xs ! k)"
    by (simp add: budgetReady_def k_def Let_def)
  also have "\<dots> = (case drop k ?xs of [] \<Rightarrow> zero_time | t # _ \<Rightarrow> t)"
    using k by (cases "k = length ?xs") (auto simp: Cons_nth_drop_Suc [symmetric] nat_less_le)
  finally show ?thesis by (simp only: filt)
qed

definition demo_window :: window where
  "demo_window = \<lparr>w_unit = ''requests'', w_duration = 10, w_ceiling = 2, w_userCap = 0, w_source = ''bootstrap'',
     w_updatedAt = zero_time, w_limit = 2, w_split = False, w_funding = False\<rparr>"

definition demo_entry :: "nat \<Rightarrow> time \<Rightarrow> entry" where
  "demo_entry r t = \<lparr>en_ref = r, en_at = t, en_cost = plain_cost Klines 1, en_received = t, en_dispatched = True,
     en_inflight = False, en_observations = []\<rparr>"

definition demo_scope :: scopeState where
  "demo_scope = \<lparr>ss_windows = [(''w'', demo_window)], ss_keepInflight = True,
     ss_history = [demo_entry 0 1, demo_entry 1 4, demo_entry 2 6], ss_historySince = 0, ss_startedAt = 0,
     ss_catalogError = [], ss_catalogErrorAt = zero_time, ss_catalogErrorStart = zero_time, ss_lastAdmission = (\<lambda>_. []),
     ss_spacing = 0, ss_next = zero_time, ss_cooldown = zero_time, ss_catalogUpdatedAt = zero_time,
     ss_catalogStart = zero_time, ss_shares = (\<lambda>_. 25), ss_maxCosts = (\<lambda>_. 1)\<rparr>"

theorem budgetReady_linear_scan_witness: "budgetReady demo_scope demo_window (plain_cost Klines 1) 7 = 11"
proof -
  have ok: "\<forall>e \<in> set (ss_history demo_scope). entry_ok e"
    by (simp add: demo_scope_def demo_entry_def entry_ok_def cost_ok_def plain_cost_def)
  have "filter (recovered demo_scope demo_window (plain_cost Klines 1)) (sort (known_expiries demo_scope demo_window 7)) = [11, 14, 16]"
    by code_simp
  with budgetReady_linear_scan [OF ok, of demo_window "plain_cost Klines 1" 7] show ?thesis by simp
qed

end
