(* ===== verification/Upstream_Controller.thy ===== *)
theory Upstream_Controller
  imports Upstream_Ledger
begin

text \<open>
  The admission controller of \<open>upstream/controller.go\<close>, with the state changes of \<open>transport.go\<close>
  (\<open>dispatch\<close>, \<open>rollback\<close>), \<open>usage.go\<close> (\<open>usageHeaders\<close>), \<open>catalog.go\<close>, \<open>operation.go\<close>,
  \<open>deferral.go\<close> and \<open>diagnostics.go\<close>. The fields of the controller are guarded by one mutex, so
  that each critical section is one function on the state. \<open>acquire\<close> is three sections: entering the
  queue, one pass of the waiting loop, and the deferred removal from the queue; the loop repeats
  the middle one until it stops waiting.

  Waiters and operations are heap objects addressed by numbers. The context of a waiter is read
  through \<open>errs\<close>, the answer \<open>ctx.Err()\<close> gives for each waiter at the moment of the section.
\<close>

section \<open>State\<close>

record operationState =
  op_scope :: upstream_Scope
  op_kind :: Operation
  op_maximum :: int
  op_attempts :: int

record waiter =
  wt_id :: nat
  wt_scope :: upstream_Scope
  wt_cost :: cost
  wt_operation :: nat
  wt_expires :: time
  wt_notBefore :: time

record lane =
  ln_slots :: int
  ln_capacity :: int
  ln_active :: int
  ln_queue :: "waiter list"

record LimitState =
  li_Name :: string
  li_Unit :: string
  li_Window :: duration
  li_ExchangeLimit :: int
  li_UserCap :: int
  li_StopLine :: int
  li_Source :: string
  li_UpdatedAt :: time
  li_HistorySince :: time

record DiagnosticEvent =
  de_RequestWeight :: int
  de_FundingRequest :: bool
  de_Limits :: "LimitState list"
  de_ThresholdPercent :: int
  de_Scope :: upstream_Scope
  de_Reason :: string
  de_Operation :: string
  de_NextEligible :: time

text \<open>\<open>ct_events\<close> lists what the diagnostic observer received; \<open>ct_changed\<close> counts the notifications.\<close>

record Controller =
  ct_observed :: bool
  ct_events :: "DiagnosticEvent list"
  ct_settings :: cfg_Upstream
  ct_scopes :: "(upstream_Scope, scopeState) gomap"
  ct_lanes :: "lane list"
  ct_nextLane :: nat
  ct_active :: int
  ct_queued :: int
  ct_changed :: nat
  ct_cycleTimeout :: "Operation \<Rightarrow> duration"
  ct_attempts :: "Operation \<Rightarrow> int"
  ct_operations :: "(nat, operationState) gomap"

record budgetDeferral =
  bd_scope :: upstream_Scope
  bd_cost :: cost
  bd_reason :: string
  bd_next :: time

text \<open>\<open>Unwrap\<close>, \<open>Reason\<close> and \<open>NextEligible\<close> of a deferral.\<close>

definition deferral_error :: "budgetDeferral \<Rightarrow> error" where
  "deferral_error d = Deferral (bd_reason d) (bd_next d) (App ErrServiceOverloaded)"

definition the_scope :: "Controller \<Rightarrow> upstream_Scope \<Rightarrow> scopeState" where
  "the_scope c scope = the (map_of (ct_scopes c) scope)"

definition set_scope :: "Controller \<Rightarrow> upstream_Scope \<Rightarrow> scopeState \<Rightarrow> Controller" where
  "set_scope c scope s = c\<lparr>ct_scopes := AList.update scope s (ct_scopes c)\<rparr>"

definition notify :: "Controller \<Rightarrow> Controller" where
  "notify c = c\<lparr>ct_changed := ct_changed c + 1\<rparr>"

definition laneIndex :: "upstream_Scope \<Rightarrow> Operation \<Rightarrow> nat" where
  "laneIndex scope op = (if scope = Bybit then operationCount + op_index op else op_index op)"

section \<open>Diagnostics\<close>

definition operationLabel :: "Operation \<Rightarrow> string" where
  "operationLabel op = (case op of
     Tickers \<Rightarrow> ''tickers'' | Klines \<Rightarrow> ''klines'' | Instruments \<Rightarrow> ''instruments'' | MarketStats \<Rightarrow> ''market_stats'')"

definition zero_event :: DiagnosticEvent where
  "zero_event = \<lparr>de_RequestWeight = 0, de_FundingRequest = False, de_Limits = [], de_ThresholdPercent = 0,
     de_Scope = [], de_Reason = [], de_Operation = [], de_NextEligible = zero_time\<rparr>"

definition diagnostic :: "Controller \<Rightarrow> DiagnosticEvent \<Rightarrow> Controller" where
  "diagnostic c event = (if ct_observed c then c\<lparr>ct_events := ct_events c @ [event]\<rparr> else c)"

definition SetDiagnosticObserver :: "Controller \<Rightarrow> bool \<Rightarrow> Controller" where
  "SetDiagnosticObserver c observe = c\<lparr>ct_observed := observe\<rparr>"

definition admissionDiagnostic :: "Controller \<Rightarrow> upstream_Scope \<Rightarrow> cost \<Rightarrow> string \<Rightarrow> time \<Rightarrow> Controller" where
  "admissionDiagnostic c scope request reason next =
     (let s = the_scope c scope; op = cost_operation request
      in if (ss_lastAdmission s op \<noteq> []) = (reason \<noteq> []) then c
         else
           diagnostic (set_scope c scope (s\<lparr>ss_lastAdmission := (ss_lastAdmission s)(op := reason)\<rparr>))
             (zero_event\<lparr>de_Scope := scope, de_Operation := operationLabel op,
                de_Reason := (if reason = [] then ''request_admitted'' else reason), de_NextEligible := next,
                de_RequestWeight := cost_weight request, de_FundingRequest := cost_funding request\<rparr>))"

definition catalogFailure :: "Controller \<Rightarrow> upstream_Scope \<Rightarrow> time \<Rightarrow> string \<Rightarrow> time \<Rightarrow> Controller" where
  "catalogFailure c scope started reason now =
     (let s = the_scope c scope
      in if started < ss_catalogStart s \<or> started < ss_catalogErrorStart s then c
         else diagnostic (set_scope c scope
             (s\<lparr>ss_catalogError := reason, ss_catalogErrorAt := now, ss_catalogErrorStart := started\<rparr>))
             (zero_event\<lparr>de_Scope := scope, de_Reason := reason\<rparr>))"

section \<open>Construction\<close>

definition share_of :: "int Operations \<Rightarrow> Operation \<Rightarrow> int" where
  "share_of s op = (case op of Tickers \<Rightarrow> o_Tickers s | Klines \<Rightarrow> o_Klines s
     | Instruments \<Rightarrow> o_Instruments s | MarketStats \<Rightarrow> o_MarketStats s)"

definition scope_window :: "cfg_Upstream \<Rightarrow> upstream_Scope \<Rightarrow> cfg_Scope \<Rightarrow> string \<Rightarrow> cfg_Window \<Rightarrow> window" where
  "scope_window settings sid source key w =
     (let ceiling = (case map_of (cs_Windows source) key of None \<Rightarrow> 0 | Some d \<Rightarrow> cw_Limit d);
          userCap = (if sid = Bybit \<or> cw_ExplicitLimit w \<or> cw_Limit w \<noteq> ceiling then cw_Limit w else 0);
          threshold = (if sid = Bybit then 100 - up_SafetyMarginPercent settings
                       else bu_StopThresholdPercent (up_Binance settings));
          effective = (if userCap > 0 then min ceiling userCap else ceiling)
      in \<lparr>w_unit = cw_Unit w, w_duration = cw_Window w, w_ceiling = ceiling, w_userCap = userCap,
          w_source = ''bootstrap'', w_updatedAt = zero_time, w_limit = percent effective threshold,
          w_split = cw_SplitOperations w, w_funding = (key = ''funding_requests_5m'')\<rparr>)"

definition addScope :: "time \<Rightarrow> Controller \<Rightarrow> upstream_Scope \<Rightarrow> cfg_Scope \<Rightarrow> (Operation \<Rightarrow> int) \<Rightarrow> Controller" where
  "addScope now c sid cfg costs =
     (let shares = share_of (up_OperationSharePercent (ct_settings c));
          shares = (if sid = Bybit
                    then shares(Tickers := shares Tickers + shares MarketStats, MarketStats := 0) else shares);
          source = (if sid = Bybit then lm_Bybit default_Limits
                    else if sid = BinanceLinear then lm_BinanceLinear default_Limits
                    else lm_BinanceSpot default_Limits)
      in set_scope c sid
        \<lparr>ss_windows = map (\<lambda>(key, w). (key, scope_window (ct_settings c) sid source key w)) (cs_Windows cfg),
         ss_keepInflight = (sid \<noteq> Bybit), ss_history = [], ss_historySince = now, ss_startedAt = now,
         ss_catalogError = [], ss_catalogErrorAt = zero_time, ss_catalogErrorStart = zero_time,
         ss_lastAdmission = (\<lambda>_. []), ss_spacing = cs_MinRequestSpacing cfg, ss_next = zero_time,
         ss_cooldown = zero_time, ss_catalogUpdatedAt = zero_time, ss_catalogStart = zero_time,
         ss_shares = shares, ss_maxCosts = costs\<rparr>)"

definition linear_weight :: "int \<Rightarrow> int" where
  "linear_weight maximum =
     (if maximum < 100 then 1 else if maximum < 500 then 2 else if maximum \<le> 1000 then 5 else 10)"

definition empty_Controller :: "Config \<Rightarrow> Controller" where
  "empty_Controller cfg =
     (let l = up_LanesPerExchange (c_Upstream cfg);
          lanes = [(cl_HTTPSlots (ls_Tickers l), cl_Waiters (ls_Tickers l)),
                   (la_HTTPSlots (ls_Klines l), la_Waiters (ls_Klines l)),
                   (cl_HTTPSlots (ls_Instruments l), cl_Waiters (ls_Instruments l)),
                   (cl_HTTPSlots (ls_MarketStats l), cl_Waiters (ls_MarketStats l))];
          lanes = map (\<lambda>(slots, capacity). \<lparr>ln_slots = slots, ln_capacity = capacity, ln_active = 0, ln_queue = []\<rparr>) lanes
      in \<lparr>ct_observed = False, ct_events = [], ct_settings = c_Upstream cfg, ct_scopes = [], ct_lanes = lanes @ lanes,
          ct_nextLane = 0, ct_active = 0, ct_queued = 0, ct_changed = 0,
          ct_cycleTimeout = (\<lambda>op. case op of Tickers \<Rightarrow> cl_CycleTimeout (ls_Tickers l) | Klines \<Rightarrow> kl_FillTimeout (c_Klines cfg)
            | Instruments \<Rightarrow> cl_CycleTimeout (ls_Instruments l) | MarketStats \<Rightarrow> cl_CycleTimeout (ls_MarketStats l)),
          ct_attempts = (\<lambda>op. case op of Tickers \<Rightarrow> cl_MaxAttempts (ls_Tickers l) | Klines \<Rightarrow> la_MaxAttempts (ls_Klines l)
            | Instruments \<Rightarrow> cl_MaxAttempts (ls_Instruments l) | MarketStats \<Rightarrow> cl_MaxAttempts (ls_MarketStats l)),
          ct_operations = []\<rparr>)"

definition spot_costs :: "Operation \<Rightarrow> int" where
  "spot_costs op = (case op of Tickers \<Rightarrow> 4 | Klines \<Rightarrow> 2 | Instruments \<Rightarrow> 20 | MarketStats \<Rightarrow> 80)"

definition linear_costs :: "int \<Rightarrow> Operation \<Rightarrow> int" where
  "linear_costs maximum op =
     (case op of Tickers \<Rightarrow> 10 | Klines \<Rightarrow> linear_weight maximum | Instruments \<Rightarrow> 1 | MarketStats \<Rightarrow> 40)"

text \<open>\<open>clocked\<close> says that a clock was given; \<open>now\<close> is its reading during the construction.\<close>

definition New :: "go_parsers \<Rightarrow> Config \<Rightarrow> bool \<Rightarrow> time \<Rightarrow> Controller result" where
  "New go cfg clocked now =
     (case Config_Validate go cfg of
        Some err \<Rightarrow> Inl err
      | None \<Rightarrow>
        if \<not> clocked then Inl (Plain ''upstream clock is required'')
        else
          let binance = xs_Binance (c_Exchanges cfg); limits = up_Limits (c_Upstream cfg);
              c = empty_Controller cfg;
              c = (if bn_Enabled binance \<and> ''spot'' \<in> set (bn_Markets binance)
                   then addScope now c BinanceSpot (lm_BinanceSpot limits) spot_costs else c);
              c = (if bn_Enabled binance \<and> ''linear'' \<in> set (bn_Markets binance)
                   then addScope now c BinanceLinear (lm_BinanceLinear limits)
                     (linear_costs (mk_Linear (pg_MaxCandlesPerRequest (bn_Klines binance)))) else c);
              c = (if yb_Enabled (xs_Bybit (c_Exchanges cfg))
                   then addScope now c Bybit (lm_Bybit limits) (\<lambda>_. 0) else c)
          in case filter (\<lambda>(sid, s). list_ex (\<lambda>(key, w). \<not> feasible s w) (ss_windows s)) (ct_scopes c) of
               [] \<Rightarrow> Inr c
             | (sid, s) # _ \<Rightarrow> Inl (Plain (sid @ '' bootstrap allowance cannot admit a permitted request'')))"

section \<open>Admission\<close>

text \<open>\<open>Ready t\<close>: not before \<open>t\<close>; \<open>Blocked\<close>: a deferral; \<open>Impossible\<close>: a cost no allowance covers.\<close>

datatype readiness = Ready time | Blocked budgetDeferral | Impossible error

text \<open>\<open>strconv.FormatInt\<close> in base ten, for a 64-bit integer.\<close>

definition FormatInt :: "int \<Rightarrow> string" where
  "FormatInt n =
     (let d = \<lambda>k :: int. char_of (nat k + 48)
      in if n = 0 then ''0''
         else (if n < 0 then ''-'' else []) @
           rev (map (\<lambda>i. d (\<bar>n\<bar> div 10 ^ i mod 10)) (filter (\<lambda>i. \<bar>n\<bar> \<ge> 10 ^ i) [0..<19])))"

definition impossible_cost :: "upstream_Scope \<Rightarrow> string \<Rightarrow> int \<Rightarrow> int \<Rightarrow> error" where
  "impossible_cost scope name amount capacity = Wrapped (scope @ '' window '' @ name @ '': request cost '' @ FormatInt amount
     @ '' exceeds allowance '' @ FormatInt capacity) [App ErrUpstreamUnavailable]"

text \<open>One turn of the loop of \<open>ready\<close> over the windows.\<close>

definition ready_window :: "scopeState \<Rightarrow> waiter \<Rightarrow> time \<Rightarrow> string \<Rightarrow> window \<Rightarrow> time \<times> budgetDeferral option
    \<Rightarrow> (time \<times> budgetDeferral option) result" where
  "ready_window s w now name limit acc =
     (let ready = fst acc; blocked = snd acc;
          amount = window_cost limit (wt_cost w);
          op = cost_operation (wt_cost w);
          allowance = percent (w_limit limit) (ss_shares s op)
      in if amount = 0 then Inr acc
         else if amount > w_limit limit \<or> w_split limit \<and> amount > allowance
         then Inl (impossible_cost (wt_scope w) name amount (if w_split limit then min (w_limit limit) allowance else w_limit limit))
         else
           let u = usage s limit now
           in if us_common u \<le> w_limit limit - amount \<and> (\<not> w_split limit \<or> us_operations u op \<le> allowance - amount)
              then Inr acc
              else if ss_keepInflight s then
                let common = (us_common u > w_limit limit);
                    share = (w_split limit \<and> us_operations u op > allowance - amount)
                in if \<not> common \<and> \<not> share then Inr acc
                   else
                     let reason = (if common then ''common_threshold'' else ''operation_share'');
                         next = budgetReady s limit (wt_cost w) now
                     in Inr (ready, Some (case blocked of
                          None \<Rightarrow> \<lparr>bd_scope = wt_scope w, bd_cost = wt_cost w, bd_reason = reason, bd_next = next\<rparr>
                        | Some b \<Rightarrow>
                            if IsZero (bd_next b) \<or> IsZero next then b\<lparr>bd_next := zero_time\<rparr>
                            else b\<lparr>bd_next := maxTime [bd_next b, next]\<rparr>))
              else if IsZero (us_next u) then Inr (maxTime [ready, wt_expires w], blocked)
              else Inr (maxTime [ready, us_next u], blocked))"

fun ready_loop :: "scopeState \<Rightarrow> waiter \<Rightarrow> time \<Rightarrow> (string, window) gomap \<Rightarrow> time \<times> budgetDeferral option
    \<Rightarrow> (time \<times> budgetDeferral option) result" where
  "ready_loop s w now [] acc = Inr acc"
| "ready_loop s w now ((name, limit) # limits) acc =
     (case ready_window s w now name limit acc of
        Inl err \<Rightarrow> Inl err
      | Inr acc \<Rightarrow> ready_loop s w now limits acc)"

definition ready_in :: "scopeState \<Rightarrow> waiter \<Rightarrow> time \<Rightarrow> readiness" where
  "ready_in s w now =
     (case ready_loop s w now (ss_windows s) (maxTime [ss_next s, ss_cooldown s, wt_notBefore w], None) of
        Inl err \<Rightarrow> Impossible err
      | Inr (ready, Some blocked) \<Rightarrow>
          Blocked (if \<not> IsZero (bd_next blocked) then blocked\<lparr>bd_next := maxTime [bd_next blocked, ready]\<rparr> else blocked)
      | Inr (ready, None) \<Rightarrow> Ready ready)"

text \<open>\<open>ready\<close> prunes the ledger of the waiter's scope and then asks every window.\<close>

definition ready :: "Controller \<Rightarrow> waiter \<Rightarrow> time \<Rightarrow> Controller \<times> readiness" where
  "ready c w now =
     (let s = prune (the_scope c (wt_scope w)) now
      in (set_scope c (wt_scope w) s, ready_in s w now))"

definition the_operation :: "Controller \<Rightarrow> nat \<Rightarrow> operationState" where
  "the_operation c r = the (map_of (ct_operations c) r)"

text \<open>
  The round robin over the lanes: the first lane from \<open>nextLane\<close> on whose head may be dispatched
  now. \<open>offsets\<close> are the turns still to take.
\<close>

fun selected_loop :: "Controller \<Rightarrow> (nat \<Rightarrow> error option) \<Rightarrow> time \<Rightarrow> nat list \<Rightarrow> Controller \<times> nat option" where
  "selected_loop c errs now [] = (c, None)"
| "selected_loop c errs now (offset # offsets) =
     (let index = (ct_nextLane c + offset) mod length (ct_lanes c);
          l = ct_lanes c ! index
      in if ln_queue l = [] \<or> ln_active l \<ge> ln_slots l then selected_loop c errs now offsets
         else
           let w = hd (ln_queue l); operation = the_operation c (wt_operation w)
           in if errs (wt_id w) \<noteq> None \<or> \<not> now < wt_expires w \<or> op_attempts operation \<ge> op_maximum operation
              then selected_loop c errs now offsets
              else case ready c w now of
                (c, Ready t) \<Rightarrow> if \<not> t > now then (c, Some index) else selected_loop c errs now offsets
              | (c, _) \<Rightarrow> selected_loop c errs now offsets)"

definition selected :: "Controller \<Rightarrow> (nat \<Rightarrow> error option) \<Rightarrow> time \<Rightarrow> Controller \<times> nat option" where
  "selected c errs now =
     (if ct_active c \<ge> up_MaxHTTPInflight (ct_settings c) then (c, None)
      else selected_loop c errs now [0..<length (ct_lanes c)])"

definition update_lane :: "Controller \<Rightarrow> nat \<Rightarrow> (lane \<Rightarrow> lane) \<Rightarrow> Controller" where
  "update_lane c i f = c\<lparr>ct_lanes := (ct_lanes c)[i := f (ct_lanes c ! i)]\<rparr>"

text \<open>
  \<open>acquire\<close> up to the waiting loop. \<open>made\<close> is the reading of the clock the expiry counts from, \<open>now\<close>
  the reading of the first check, \<open>wid\<close> the address of the new waiter.
\<close>

definition acquire_enter :: "Controller \<Rightarrow> error option \<Rightarrow> upstream_Scope \<Rightarrow> cost \<Rightarrow> nat \<Rightarrow> time \<Rightarrow> time \<Rightarrow> time \<Rightarrow> nat
    \<Rightarrow> Controller \<times> waiter result" where
  "acquire_enter c err scope request operation notBefore made now wid =
     (if \<not> ghas (ct_scopes c) scope then (c, Inl (App ErrUnsupportedOperation))
      else
        let w = \<lparr>wt_id = wid, wt_scope = scope, wt_cost = request, wt_operation = operation,
                 wt_expires = made + up_AdmissionTimeout (ct_settings c), wt_notBefore = notBefore\<rparr>
        in case err of
             Some e \<Rightarrow> (c, Inl e)
           | None \<Rightarrow>
             (case ready c w now of
                (c, Impossible e) \<Rightarrow> (c, Inl e)
              | (c, Blocked d) \<Rightarrow> (admissionDiagnostic c scope request (bd_reason d) (bd_next d), Inl (deferral_error d))
              | (c, Ready _) \<Rightarrow>
                let index = laneIndex scope (cost_operation request); l = ct_lanes c ! index
                in if ln_capacity l \<le> int (length (ln_queue l)) \<or> ct_queued c \<ge> up_MaxAdmissionWaiters (ct_settings c)
                   then (c, Inl (App ErrServiceOverloaded))
                   else (notify ((update_lane c index (\<lambda>l. l\<lparr>ln_queue := ln_queue l @ [w]\<rparr>))\<lparr>ct_queued := ct_queued c + 1\<rparr>),
                         Inr w)))"

text \<open>The deferred removal from the queue.\<close>

definition acquire_leave :: "Controller \<Rightarrow> waiter \<Rightarrow> Controller" where
  "acquire_leave c w =
     notify ((update_lane c (laneIndex (wt_scope w) (cost_operation (wt_cost w)))
         (\<lambda>l. l\<lparr>ln_queue := filter (\<lambda>v. wt_id v \<noteq> wt_id w) (ln_queue l)\<rparr>))\<lparr>ct_queued := ct_queued c - 1\<rparr>)"

definition reserve :: "Controller \<Rightarrow> waiter \<Rightarrow> nat \<Rightarrow> time \<Rightarrow> nat \<Rightarrow> Controller \<times> entry" where
  "reserve c w index now fresh =
     (let s = the_scope c (wt_scope w);
          reservation = \<lparr>en_ref = fresh, en_at = now, en_cost = wt_cost w, en_received = zero_time,
            en_dispatched = False, en_inflight = True, en_observations = []\<rparr>;
          operation = the_operation c (wt_operation w);
          c = c\<lparr>ct_operations := AList.update (wt_operation w) (operation\<lparr>op_attempts := op_attempts operation + 1\<rparr>) (ct_operations c)\<rparr>;
          c = set_scope c (wt_scope w) (s\<lparr>ss_history := ss_history s @ [reservation], ss_next := now + ss_spacing s\<rparr>);
          c = update_lane (c\<lparr>ct_active := ct_active c + 1\<rparr>) index (\<lambda>l. l\<lparr>ln_active := ln_active l + 1\<rparr>)
      in (c\<lparr>ct_nextLane := (index + 1) mod length (ct_lanes c)\<rparr>, reservation))"

datatype pass = Refused error | Admitted entry | Waits time

text \<open>
  One pass of the waiting loop for waiter \<open>w\<close>; a refusal or an admission leaves the queue. \<open>deadline\<close>
  is the deadline of the context, \<open>fresh\<close> the address of the entry a reservation allocates.
\<close>

definition acquire_try :: "Controller \<Rightarrow> (nat \<Rightarrow> error option) \<Rightarrow> time option \<Rightarrow> time \<Rightarrow> nat \<Rightarrow> waiter
    \<Rightarrow> Controller \<times> pass" where
  "acquire_try c errs deadline now fresh w =
     (let scope = wt_scope w; request = wt_cost w;
          operation = the_operation c (wt_operation w);
          index = laneIndex scope (cost_operation request)
      in case errs (wt_id w) of
        Some e \<Rightarrow> (c, Refused e)
      | None \<Rightarrow>
        if op_attempts operation \<ge> op_maximum operation then (c, Refused (App ErrUpstreamAttemptLimit))
        else case ready c w now of
          (c, Impossible e) \<Rightarrow> (c, Refused e)
        | (c, Blocked d) \<Rightarrow> (admissionDiagnostic c scope request (bd_reason d) (bd_next d), Refused (deferral_error d))
        | (c, Ready t) \<Rightarrow>
          if (case deadline of None \<Rightarrow> False | Some dl \<Rightarrow> \<not> ss_cooldown (the_scope c scope) < dl)
          then (c, Refused (App ErrUpstreamUnavailable))
          else if \<not> now < wt_expires w then (c, Refused (App ErrServiceOverloaded))
          else
            let waits = Waits (if t > now \<and> t < wt_expires w then t else wt_expires w)
            in if wt_id (hd (ln_queue (ct_lanes c ! index))) = wt_id w \<and> \<not> t > now then
                 (case selected c errs now of
                    (c, chosen) \<Rightarrow>
                      if chosen = Some index then
                        (case reserve (admissionDiagnostic c scope request [] now) w index now fresh of
                           (c, reservation) \<Rightarrow> (c, Admitted reservation))
                      else (c, waits))
               else (c, waits))"

definition acquire_pass :: "Controller \<Rightarrow> (nat \<Rightarrow> error option) \<Rightarrow> time option \<Rightarrow> time \<Rightarrow> nat \<Rightarrow> waiter
    \<Rightarrow> Controller \<times> pass" where
  "acquire_pass c errs deadline now fresh w =
     (case acquire_try c errs deadline now fresh w of
        (c, Waits t) \<Rightarrow> (c, Waits t)
      | (c, out) \<Rightarrow> (acquire_leave c w, out))"

section \<open>The life of an attempt\<close>

definition find_entry :: "scopeState \<Rightarrow> nat \<Rightarrow> entry option" where
  "find_entry s r = find (\<lambda>e. en_ref e = r) (ss_history s)"

definition update_entry :: "scopeState \<Rightarrow> nat \<Rightarrow> (entry \<Rightarrow> entry) \<Rightarrow> scopeState" where
  "update_entry s r f = s\<lparr>ss_history := map (\<lambda>e. if en_ref e = r then f e else e) (ss_history s)\<rparr>"

text \<open>
  An attempt that is no longer in the history has been released and pruned or rolled back; either way
  it is not in flight.
\<close>

definition release :: "Controller \<Rightarrow> upstream_Scope \<Rightarrow> nat \<Rightarrow> time \<Rightarrow> Controller" where
  "release c scope r now =
     (let s = the_scope c scope
      in case find_entry s r of
           None \<Rightarrow> c
         | Some attempt \<Rightarrow>
             if \<not> en_inflight attempt then c
             else
               let c = update_lane (c\<lparr>ct_active := ct_active c - 1\<rparr>) (laneIndex scope (cost_operation (en_cost attempt)))
                     (\<lambda>l. l\<lparr>ln_active := ln_active l - 1\<rparr>)
               in notify (set_scope c scope (prune (update_entry s r (\<lambda>e. e\<lparr>en_inflight := False\<rparr>)) now)))"

definition dispatch :: "Controller \<Rightarrow> error option \<Rightarrow> upstream_Scope \<Rightarrow> nat \<Rightarrow> Controller \<times> error option" where
  "dispatch c err scope r =
     (case err of
        Some e \<Rightarrow> (c, Some e)
      | None \<Rightarrow> (set_scope c scope (update_entry (the_scope c scope) r (\<lambda>e. e\<lparr>en_dispatched := True\<rparr>)), None))"

text \<open>The transport rolls an attempt back at most once, before it is dispatched.\<close>

definition rollback :: "Controller \<Rightarrow> upstream_Scope \<Rightarrow> nat \<Rightarrow> nat \<Rightarrow> Controller" where
  "rollback c scope operation r =
     (let s = the_scope c scope
      in case find_entry s r of
           None \<Rightarrow> c
         | Some attempt \<Rightarrow>
             if en_dispatched attempt then c
             else
               let history = filter (\<lambda>e. en_ref e \<noteq> r) (ss_history s);
                   next = (if ss_next s = en_at attempt + ss_spacing s
                           then (if history = [] then zero_time else en_at (last history) + ss_spacing s)
                           else ss_next s);
                   state = the_operation c operation;
                   c = set_scope c scope (s\<lparr>ss_history := history, ss_next := next\<rparr>);
                   c = c\<lparr>ct_operations := AList.update operation (state\<lparr>op_attempts := op_attempts state - 1\<rparr>) (ct_operations c)\<rparr>;
                   c = update_lane (c\<lparr>ct_active := ct_active c - 1\<rparr>) (laneIndex scope (cost_operation (en_cost attempt)))
                     (\<lambda>l. l\<lparr>ln_active := ln_active l - 1\<rparr>)
               in notify c)"

definition Cooldown :: "Controller \<Rightarrow> upstream_Scope \<Rightarrow> time \<Rightarrow> Controller" where
  "Cooldown c scope until =
     (case map_of (ct_scopes c) scope of
        None \<Rightarrow> c
      | Some s \<Rightarrow>
          let c = (if until > ss_cooldown s
                   then diagnostic c (zero_event\<lparr>de_Scope := scope, de_Reason := ''exchange_cooldown'', de_NextEligible := until\<rparr>)
                   else c)
          in notify (set_scope c scope (s\<lparr>ss_cooldown := maxTime [ss_cooldown s, until]\<rparr>)))"

section \<open>Reported usage\<close>

definition trim_runes :: "nat list \<Rightarrow> nat list" where
  "trim_runes rs = rev (dropWhile IsSpace (rev (dropWhile IsSpace rs)))"

text \<open>One element of a used-weight header: digits between optional spaces, within 64 bits.\<close>

definition weight_part :: "string \<Rightarrow> int option" where
  "weight_part part =
     (case decode_runes (bytes part) of
        None \<Rightarrow> None
      | Some rs \<Rightarrow>
          let trimmed = trim_runes rs
          in if trimmed = [] \<or> list_ex (\<lambda>r. r < 48 \<or> r > 57) trimmed then None
             else Atoi (map char_of trimmed))"

fun weight_parts :: "string list \<Rightarrow> int option \<Rightarrow> int option result" where
  "weight_parts [] found = Inr found"
| "weight_parts (part # parts) found =
     (case weight_part part of
        None \<Rightarrow> Inl (Plain ''invalid'')
      | Some amount \<Rightarrow>
          if found \<noteq> None \<and> found \<noteq> Some amount then Inl (Plain ''invalid'')
          else weight_parts parts (Some amount))"

text \<open>\<open>None\<close> where the Go function answers \<open>valid = false\<close>.\<close>

definition usedWeight :: "(string, string list) gomap \<Rightarrow> string \<Rightarrow> int option" where
  "usedWeight headers name =
     (case weight_parts (concat (map (\<lambda>(key, vals). if EqualFold key name
           then concat (map (split_on (CHR '','')) vals) else []) headers)) None of
        Inl _ \<Rightarrow> None
      | Inr found \<Rightarrow> found)"

definition windowSuffix :: "duration \<Rightarrow> string" where
  "windowSuffix d =
     (if d smod (24 * Hour) = 0 then FormatInt (d sdiv (24 * Hour)) @ ''d''
      else if d smod Hour = 0 then FormatInt (d sdiv Hour) @ ''h''
      else if d smod Minute = 0 then FormatInt (d sdiv Minute) @ ''m''
      else if d smod Second = 0 then FormatInt (d sdiv Second) @ ''s''
      else [])"

text \<open>What the headers say about one window of the attempt's scope.\<close>

definition record_window :: "(string, string list) gomap \<Rightarrow> entry \<Rightarrow> string \<times> window \<Rightarrow> entry" where
  "record_window headers attempt kw =
     (let w = snd kw; suffix = windowSuffix (w_duration w)
      in if w_unit w \<noteq> ''weight'' \<or> suffix = [] then attempt
         else case usedWeight headers (''X-Mbx-Used-Weight-'' @ suffix) of
           None \<Rightarrow> attempt
         | Some used \<Rightarrow>
             if \<not> en_dispatched attempt \<or> used < window_cost w (en_cost attempt) then attempt
             else attempt\<lparr>en_observations := AList.update (w_duration w)
               \<lparr>ob_used = used, ob_expires = en_received attempt + w_duration w\<rparr> (en_observations attempt)\<rparr>)"

definition usageHeaders :: "Controller \<Rightarrow> upstream_Scope \<Rightarrow> string \<Rightarrow> (string, string list) gomap \<Rightarrow> nat \<Rightarrow> time \<Rightarrow> Controller" where
  "usageHeaders c scope path headers r now =
     (if scope = BinanceLinear \<and> (path = ''/fapi/v2/ticker/price'' \<or> path = ''/fapi/v1/ticker/bookTicker'') then c
      else
        let s = prune (the_scope c scope) now
        in notify (set_scope c scope (update_entry s r (\<lambda>attempt.
             foldl (record_window headers)
               (if IsZero (en_received attempt) then attempt\<lparr>en_received := now\<rparr> else attempt) (ss_windows s)))))"

section \<open>Catalogs\<close>

record catalogLimit =
  cl_Type :: string
  cl_Interval :: string
  cl_Number :: int
  cl_Limit :: int

definition interval_duration :: "string \<Rightarrow> duration" where
  "interval_duration name =
     (if name = ''SECOND'' then Second else if name = ''MINUTE'' then Minute
      else if name = ''HOUR'' then Hour else if name = ''DAY'' then 24 * Hour else 0)"

definition catalog_fail :: "upstream_Scope \<Rightarrow> string \<Rightarrow> error" where
  "catalog_fail scope reason = Wrapped (''invalid '' @ scope @ '' limit catalog: '' @ reason) [App ErrUpstreamUnavailable]"

definition blank_window :: window where
  "blank_window = \<lparr>w_unit = [], w_duration = 0, w_ceiling = 0, w_userCap = 0, w_source = [], w_updatedAt = zero_time,
     w_limit = 0, w_split = False, w_funding = False\<rparr>"

text \<open>One limit of a catalog, read into the updates collected so far.\<close>

definition catalog_entry :: "upstream_Scope \<Rightarrow> cfg_Upstream \<Rightarrow> scopeState \<Rightarrow> time \<Rightarrow> catalogLimit \<Rightarrow> (string, window) gomap
    \<Rightarrow> (string, window) gomap result" where
  "catalog_entry scope settings s now limit updates =
     (if cl_Type limit = ''ORDERS'' then Inr updates
      else if cl_Type limit \<noteq> ''REQUEST_WEIGHT'' \<and> cl_Type limit \<noteq> ''RAW_REQUESTS''
      then Inl (catalog_fail scope ''unknown applicable limit type'')
      else
        let unit = (if cl_Type limit = ''REQUEST_WEIGHT'' then ''weight'' else ''requests'');
            base = interval_duration (cl_Interval limit)
        in if base = 0 \<or> cl_Number limit \<le> 0 \<or> cl_Number limit > max_int64 sdiv base \<or> cl_Limit limit \<le> 0
           then Inl (catalog_fail scope ''invalid limit interval or amount'')
           else
             let duration = base * cl_Number limit;
                 (key, val) =
                   (case filter (\<lambda>(k, w). \<not> w_funding w \<and> w_unit w = unit \<and> w_duration w = duration) (ss_windows s) of
                      (existing, w) # _ \<Rightarrow> (existing, w)
                    | [] \<Rightarrow> (unit @ ''_'' @ FormatInt duration,
                        blank_window\<lparr>w_unit := unit, w_duration := duration, w_split := True\<rparr>))
             in if ghas updates key then Inl (catalog_fail scope ''duplicate applicable window'')
                else Inr (AList.update key
                  (val\<lparr>w_ceiling := cl_Limit limit, w_source := ''exchange_info'', w_updatedAt := now,
                     w_limit := percent (if w_userCap val > 0 then min (cl_Limit limit) (w_userCap val) else cl_Limit limit)
                       (bu_StopThresholdPercent (up_Binance settings))\<rparr>) updates))"

fun catalog_loop :: "upstream_Scope \<Rightarrow> cfg_Upstream \<Rightarrow> scopeState \<Rightarrow> time \<Rightarrow> catalogLimit list \<Rightarrow> (string, window) gomap
    \<Rightarrow> (string, window) gomap result" where
  "catalog_loop scope settings s now [] updates = Inr updates"
| "catalog_loop scope settings s now (limit # limits) updates =
     (case catalog_entry scope settings s now limit updates of
        Inl err \<Rightarrow> Inl err
      | Inr updates \<Rightarrow> catalog_loop scope settings s now limits updates)"

definition limit_state :: "scopeState \<Rightarrow> string \<times> window \<Rightarrow> LimitState" where
  "limit_state s kw =
     (let w = snd kw
      in \<lparr>li_Name = fst kw, li_Unit = w_unit w, li_Window = w_duration w, li_ExchangeLimit = w_ceiling w,
          li_UserCap = w_userCap w, li_StopLine = w_limit w, li_Source = w_source w, li_UpdatedAt = w_updatedAt w,
          li_HistorySince = ss_historySince s\<rparr>)"

text \<open>\<open>catalog\<close> is the decoded body, \<open>None\<close> where it does not decode or lacks the limits.\<close>

definition updateCatalog :: "Controller \<Rightarrow> upstream_Scope \<Rightarrow> time \<Rightarrow> catalogLimit list option \<Rightarrow> time
    \<Rightarrow> Controller \<times> error option" where
  "updateCatalog c scope started catalog now =
     (let s = the_scope c scope
      in if started < ss_catalogStart s then (c, None)
         else case catalog of
           None \<Rightarrow> (notify c, Some (catalog_fail scope ''missing or malformed rateLimits''))
         | Some limits \<Rightarrow>
           (case catalog_loop scope (ct_settings c) s now limits [] of
              Inl err \<Rightarrow> (notify c, Some err)
            | Inr updates \<Rightarrow>
                let changed = filter (\<lambda>(key, w). case map_of (ss_windows s) key of
                        None \<Rightarrow> True
                      | Some old \<Rightarrow> w_ceiling old \<noteq> w_ceiling w \<or> w_source old \<noteq> w_source w) updates;
                    recovered = (ss_catalogError s \<noteq> [] \<and> \<not> started < ss_catalogErrorStart s);
                    s' = s\<lparr>ss_windows := foldl (\<lambda>m (key, w). AList.update key w m) (ss_windows s) updates,
                           ss_catalogStart := started, ss_catalogUpdatedAt := now\<rparr>;
                    s' = (if \<not> started < ss_catalogErrorStart s
                          then s'\<lparr>ss_catalogError := [], ss_catalogErrorAt := zero_time, ss_catalogErrorStart := zero_time\<rparr>
                          else s');
                    c = set_scope c scope s';
                    c = (if changed \<noteq> [] then
                           diagnostic c (zero_event\<lparr>de_Scope := scope, de_Reason := ''catalog_changed'',
                             de_Limits := sort_key li_Name (map (limit_state s) changed),
                             de_ThresholdPercent := bu_StopThresholdPercent (up_Binance (ct_settings c))\<rparr>)
                         else if recovered then diagnostic c (zero_event\<lparr>de_Scope := scope, de_Reason := ''catalog_recovered''\<rparr>)
                         else c)
                in (notify c, None)))"

definition Controller_Limits :: "Controller \<Rightarrow> upstream_Scope \<Rightarrow> LimitState list" where
  "Controller_Limits c scope =
     (case map_of (ct_scopes c) scope of
        None \<Rightarrow> []
      | Some s \<Rightarrow> sort_key li_Name (map (limit_state s) (ss_windows s)))"

section \<open>Operations and deferrals\<close>

text \<open>
  \<open>Begin\<close> allocates the operation at the address \<open>fresh\<close> and answers with the timeout of its context;
  the kind is the integer of the Go enumeration.
\<close>

definition Begin :: "Controller \<Rightarrow> upstream_Scope \<Rightarrow> int \<Rightarrow> nat \<Rightarrow> Controller \<times> duration result" where
  "Begin c scope kind fresh =
     (if kind < 0 \<or> kind \<ge> int operationCount \<or> scope = Bybit \<and> kind = int (op_index MarketStats)
      then (c, Inl (App ErrUnsupportedOperation))
      else if \<not> ghas (ct_scopes c) scope then (c, Inl (App ErrUnsupportedOperation))
      else
        let op = operations ! nat kind
        in (c\<lparr>ct_operations := AList.update fresh
               \<lparr>op_scope = scope, op_kind = op, op_maximum = ct_attempts c op, op_attempts = 0\<rparr> (ct_operations c)\<rparr>,
            Inr (ct_cycleTimeout c op)))"

text \<open>\<open>bound\<close> is the operation the context carries, if any.\<close>

definition operation :: "Controller \<Rightarrow> nat option \<Rightarrow> upstream_Scope \<Rightarrow> Operation \<Rightarrow> nat result" where
  "operation c bound scope kind =
     (case bound of
        None \<Rightarrow> Inl (Wrapped ''request needs a matching bounded operation'' [App ErrUnsupportedOperation])
      | Some r \<Rightarrow>
        (case map_of (ct_operations c) r of
           None \<Rightarrow> Inl (Wrapped ''request needs a matching bounded operation'' [App ErrUnsupportedOperation])
         | Some st \<Rightarrow>
             if op_scope st \<noteq> scope \<or> op_kind st \<noteq> kind
             then Inl (Wrapped ''request needs a matching bounded operation'' [App ErrUnsupportedOperation])
             else Inr r))"

definition Attempts :: "Controller \<Rightarrow> nat option \<Rightarrow> int" where
  "Attempts c bound =
     (case bound of
        None \<Rightarrow> 0
      | Some r \<Rightarrow> (case map_of (ct_operations c) r of None \<Rightarrow> 0 | Some st \<Rightarrow> op_attempts st))"

text \<open>\<open>ready\<close> of a deferral: the time from which its request would be admitted, zero when unknown.\<close>

definition deferral_ready :: "Controller \<Rightarrow> budgetDeferral \<Rightarrow> time \<Rightarrow> Controller \<times> time result" where
  "deferral_ready c d now =
     (case ready c \<lparr>wt_id = 0, wt_scope = bd_scope d, wt_cost = bd_cost d, wt_operation = 0,
             wt_expires = zero_time, wt_notBefore = zero_time\<rparr> now of
        (c, Blocked b) \<Rightarrow> (c, Inr (bd_next b))
      | (c, Impossible e) \<Rightarrow> (c, Inl e)
      | (c, Ready t) \<Rightarrow> (c, Inr (maxTime [now, t])))"

end
