(* ===== verification/Normalization.thy ===== *)
theory Normalization
  imports Kline_Store Snapshot_Service Upstream_Controller
begin

text \<open>
  The shared exact parsing of exchange answers: \<open>instrument.go\<close>, \<open>current.go\<close> and \<open>kline.go\<close> under
  \<open>src/internal/infrastructure/exchange/normalization\<close>.

  Decimal arithmetic is the shopspring/decimal package, which is not part of the repository; the
  record \<open>decimals\<close> holds the operations the code calls and is an argument of every definition that
  uses them. A \<open>json.RawMessage\<close> is one token of a document that \<open>encoding/json\<close> has split already:
  the text of a string literal is kept decoded, the text of a number literal as written.

  The \<open>k\<close>-th answer of \<open>ctx.Err()\<close> within one call is \<open>ctx k\<close>; a loop that polls once per element
  takes the number of its first poll as an argument.
\<close>

section \<open>Decimals and documents\<close>

text \<open>
  \<open>dec_digits\<close> is \<open>len(value.Coefficient().String())\<close>, \<open>dec_zero\<close> the zero value \<open>decimal.Decimal{}\<close>.
\<close>

record 'd decimals =
  dec_NewFromString :: "string \<Rightarrow> 'd option"
  dec_zero :: 'd
  dec_digits :: "'d \<Rightarrow> int"
  dec_Exponent :: "'d \<Rightarrow> int"
  dec_IsNegative :: "'d \<Rightarrow> bool"
  dec_IsPositive :: "'d \<Rightarrow> bool"
  dec_IsZero :: "'d \<Rightarrow> bool"
  dec_Neg :: "'d \<Rightarrow> 'd"
  dec_Sub :: "'d \<Rightarrow> 'd \<Rightarrow> 'd"
  dec_GreaterThan :: "'d \<Rightarrow> 'd \<Rightarrow> bool"

text \<open>\<open>Raw_Empty\<close> is the empty message, which is also what a missing key of a row reads as.\<close>

datatype RawMessage =
    Raw_Empty | Raw_Null | Raw_Bool bool | Raw_Number string | Raw_String string | Raw_Array | Raw_Object

text \<open>\<open>json.Unmarshal\<close> into a string variable and into an \<open>int64\<close> variable; null leaves the zero value.\<close>

fun unmarshal_string :: "RawMessage \<Rightarrow> string option" where
  "unmarshal_string (Raw_String value) = Some value"
| "unmarshal_string Raw_Null = Some []"
| "unmarshal_string _ = None"

fun unmarshal_int64 :: "RawMessage \<Rightarrow> int option" where
  "unmarshal_int64 (Raw_Number value) = Atoi value"
| "unmarshal_int64 Raw_Null = Some 0"
| "unmarshal_int64 _ = None"

section \<open>Values\<close>

definition maxDecimalCharacters :: int where
  "maxDecimalCharacters = 1024"

definition Invalid :: "string \<Rightarrow> error" where
  "Invalid field = Wrapped (''normalize '' @ field) [App ErrInvalidUpstreamData]"

definition decimalCharacters :: "'d decimals \<Rightarrow> 'd \<Rightarrow> int" where
  "decimalCharacters D value =
     (let digits = dec_digits D value; exponent = dec_Exponent D value
      in if exponent < 0 then max (digits + 1) (2 - exponent) else digits + exponent)"

definition Limit :: "'d decimals \<Rightarrow> string \<Rightarrow> 'd option result" where
  "Limit D value =
     (if value = [] then Inr None
      else if int (length value) > maxDecimalCharacters then Inl (Invalid ''decimal size'')
      else case dec_NewFromString D value of
        None \<Rightarrow> Inl (Invalid ''limit'')
      | Some parsed \<Rightarrow>
          if dec_IsNegative D parsed then Inl (Invalid ''limit'')
          else if decimalCharacters D parsed > maxDecimalCharacters then Inl (Invalid ''decimal size'')
          else Inr (Some parsed))"

definition Step :: "'d decimals \<Rightarrow> string \<Rightarrow> 'd result" where
  "Step D value =
     (case Limit D value of
        Inr (Some parsed) \<Rightarrow> if dec_IsPositive D parsed then Inr parsed else Inl (Invalid ''step'')
      | _ \<Rightarrow> Inl (Invalid ''step''))"

definition Validate :: "'d decimals \<Rightarrow> 'd Instrument \<Rightarrow> error option" where
  "Validate D row =
     (if inst_Symbol row = [] \<or> inst_BaseAsset row = [] \<or> inst_QuoteAsset row = [] then Some (Invalid ''identifier'')
      else case (inst_MinQty row, inst_MaxQty row) of
        (Some lo, Some hi) \<Rightarrow> if dec_GreaterThan D lo hi then Some (Invalid ''quantity bounds'') else None
      | _ \<Rightarrow> None)"

definition Duration :: "string \<Rightarrow> duration \<Rightarrow> duration option result" where
  "Duration value unit =
     (if value = [] then Inr None
      else case Atoi value of
        None \<Rightarrow> Inl (Invalid ''funding interval'')
      | Some n \<Rightarrow>
          if n \<le> 0 \<or> n > max_int64 sdiv unit then Inl (Invalid ''funding interval'')
          else Inr (Some (n * unit)))"

definition Delisting :: "string \<Rightarrow> time option result" where
  "Delisting value =
     (if value = [] then Inr None
      else case Atoi value of
        None \<Rightarrow> Inl (Invalid ''delivery time'')
      | Some milliseconds \<Rightarrow>
          if milliseconds < 0 then Inl (Invalid ''delivery time'')
          else if milliseconds = 0 then Inr None
          else let timestamp = of_UnixMilli milliseconds
            in if Year timestamp > 9999 then Inl (Invalid ''delivery time'') else Inr (Some timestamp))"

section \<open>Rows\<close>

type_synonym Row = "(string, RawMessage) gomap"

definition Row_Text :: "Row \<Rightarrow> string \<Rightarrow> string result" where
  "Row_Text r key =
     (case gget Raw_Empty r key of
        Raw_Empty \<Rightarrow> Inr []
      | Raw_Null \<Rightarrow> Inr []
      | Raw_String value \<Rightarrow> Inr value
      | Raw_Number value \<Rightarrow> Inr value
      | _ \<Rightarrow> Inl (Invalid key))"

definition Row_Symbol :: "Row \<Rightarrow> string result" where
  "Row_Symbol r =
     (case unmarshal_string (gget Raw_Empty r ''symbol'') of
        None \<Rightarrow> Inl (Invalid ''symbol'')
      | Some value \<Rightarrow> if value = [] then Inl (Invalid ''symbol'') else Inr value)"

definition has_prefix :: "string \<Rightarrow> char \<Rightarrow> bool" where
  "has_prefix s ch \<longleftrightarrow> s \<noteq> [] \<and> hd s = ch"

definition signedDecimal :: "'d decimals \<Rightarrow> string \<Rightarrow> 'd option result" where
  "signedDecimal D value =
     (if int (length value) > maxDecimalCharacters then Inl (Invalid ''decimal size'')
      else if value = [] then Inr None
      else
        let negative = has_prefix value (CHR ''-'');
            magnitude = (if negative then tl value else value)
        in if negative \<and> (magnitude = [] \<or> has_prefix magnitude (CHR ''+'') \<or> has_prefix magnitude (CHR ''-''))
           then Inl (Invalid ''decimal'')
           else case Limit D magnitude of
             Inl e \<Rightarrow> Inl e
           | Inr None \<Rightarrow> Inr None
           | Inr (Some parsed) \<Rightarrow>
               if negative then
                 (if decimalCharacters D parsed + 1 > maxDecimalCharacters then Inl (Invalid ''decimal size'')
                  else Inr (Some (dec_Neg D parsed)))
               else Inr (Some parsed))"

definition Row_Decimal :: "'d decimals \<Rightarrow> Row \<Rightarrow> string \<Rightarrow> bool \<Rightarrow> bool \<Rightarrow> 'd option result" where
  "Row_Decimal D r key required signed =
     (case Row_Text r key of
        Inl e \<Rightarrow> Inl e
      | Inr text \<Rightarrow>
        (case (if signed then signedDecimal D text else Limit D text) of
           Inl e \<Rightarrow> Inl (Invalid key)
         | Inr value \<Rightarrow> if required \<and> value = None then Inl (Invalid key) else Inr value))"

definition Row_Quote :: "'d decimals \<Rightarrow> Row \<Rightarrow> string \<Rightarrow> string \<Rightarrow> ('d option \<times> 'd option) result" where
  "Row_Quote D r priceKey sizeKey =
     (case Row_Decimal D r priceKey False False of
        Inl e \<Rightarrow> Inl e
      | Inr price \<Rightarrow>
        (case Row_Decimal D r sizeKey False False of
           Inl e \<Rightarrow> Inl e
         | Inr quantity \<Rightarrow>
           (case (price, quantity) of
              (None, None) \<Rightarrow> Inr (None, None)
            | (Some p, Some q) \<Rightarrow>
                if dec_IsZero D q then Inr (None, None)
                else if dec_IsPositive D p then Inr (Some p, Some q)
                else Inl (Invalid ''quote pair'')
            | _ \<Rightarrow> Inl (Invalid ''quote pair''))))"

text \<open>\<open>repository\<close> is \<open>None\<close> for a nil repository; \<open>ctx\<close> is the context as the listing polls it.\<close>

definition Contracts :: "('d \<Rightarrow> 'd) \<Rightarrow> ctx \<Rightarrow> 'd instrumentRepository option \<Rightarrow> Scope
    \<Rightarrow> (string, ContractType) gomap result" where
  "Contracts cp ctx repository scope =
     (case repository of
        None \<Rightarrow> Inr []
      | Some r \<Rightarrow>
          if sc_Market scope = MarketSpot then Inr []
          else case inst_List cp ctx r \<lparr>if_Snapshot = \<lparr>f_Scopes = [scope], f_Symbol = None\<rparr>, if_Status = None\<rparr> of
            Inl e \<Rightarrow> if errors_Is e (App ErrDataNotReady) then Inr [] else Inl e
          | Inr rows \<Rightarrow> Inr (fold (\<lambda>row. AList.update (inst_Symbol row) (inst_ContractType row)) rows []))"

definition Row_Funding :: "'d decimals \<Rightarrow> Row \<Rightarrow> Market \<Rightarrow> ContractType \<Rightarrow> string
    \<Rightarrow> ('d option \<times> time option) result" where
  "Row_Funding D r market kind rateKey =
     (if market = MarketSpot \<or> kind = ContractTypeExpiry then Inr (None, None)
      else case Row_Text r ''nextFundingTime'' of
        Inl e \<Rightarrow> Inl e
      | Inr value \<Rightarrow>
        (case Delisting value of
           Inl e \<Rightarrow> Inl e
         | Inr at_time \<Rightarrow>
             if kind \<noteq> ContractTypePerpetual \<and> at_time = None then Inr (None, None)
             else case Row_Decimal D r rateKey False True of
               Inl e \<Rightarrow> Inl e
             | Inr rate \<Rightarrow> Inr (rate, at_time)))"

definition Row_Count :: "Row \<Rightarrow> int option result" where
  "Row_Count r =
     (case map_of r ''count'' of
        None \<Rightarrow> Inr None
      | Some raw \<Rightarrow>
        (case Row_Text r ''count'' of
           Inl e \<Rightarrow> Inl (Invalid ''count'')
         | Inr value \<Rightarrow>
             if raw = Raw_Null then Inl (Invalid ''count'')
             else case Atoi value of
               None \<Rightarrow> Inl (Invalid ''count'')
             | Some n \<Rightarrow> if n < 0 then Inl (Invalid ''count'') else Inr (Some n)))"

fun index_loop :: "ctx \<Rightarrow> nat \<Rightarrow> Row list \<Rightarrow> (string, Row) gomap \<Rightarrow> (string, Row) gomap result" where
  "index_loop ctx k [] acc = Inr acc"
| "index_loop ctx k (row # rows) acc =
     (case ctx k of
        Some e \<Rightarrow> Inl e
      | None \<Rightarrow>
        (case Row_Symbol row of
           Inl e \<Rightarrow> Inl e
         | Inr symbol \<Rightarrow>
             if ghas acc symbol then Inl (Invalid ''duplicate symbol'')
             else index_loop ctx (k + 1) rows (AList.update symbol row acc)))"

definition Index :: "ctx \<Rightarrow> nat \<Rightarrow> Row list \<Rightarrow> (string, Row) gomap result" where
  "Index ctx k rows = index_loop ctx k rows []"

section \<open>Statistics\<close>

definition stats_fields :: "Exchange \<Rightarrow> string list" where
  "stats_fields exchange =
     (if exchange = ExchangeBybit then [''highPrice24h'', ''lowPrice24h'', ''volume24h'', ''turnover24h'']
      else [''highPrice'', ''lowPrice'', ''volume'', ''quoteVolume''])"

text \<open>Required unsigned decimals read one after the other; the first failure ends the loop.\<close>

fun required_decimals :: "'d decimals \<Rightarrow> Row \<Rightarrow> string list \<Rightarrow> 'd list result" where
  "required_decimals D r [] = Inr []"
| "required_decimals D r (field # fs) =
     (case Row_Decimal D r field True False of
        Inl e \<Rightarrow> Inl e
      | Inr None \<Rightarrow> Inl (Invalid field)
      | Inr (Some value) \<Rightarrow> (case required_decimals D r fs of Inl e \<Rightarrow> Inl e | Inr vs \<Rightarrow> Inr (value # vs)))"

definition price_change :: "'d decimals \<Rightarrow> Scope \<Rightarrow> Row \<Rightarrow> ('d option \<times> int option) result" where
  "price_change D scope source =
     (if sc_Exchange scope = ExchangeBybit then
        (case Row_Decimal D source ''prevPrice24h'' False False of
           Inl e \<Rightarrow> Inl e
         | Inr None \<Rightarrow> Inr (None, None)
         | Inr (Some previous) \<Rightarrow>
             if dec_IsPositive D previous then
               (case Row_Decimal D source ''lastPrice'' True False of
                  Inl e \<Rightarrow> Inl e
                | Inr None \<Rightarrow> Inl (Invalid ''lastPrice'')
                | Inr (Some latest) \<Rightarrow> Inr (Some (dec_Sub D latest previous), None))
             else Inr (None, None))
      else
        (case Row_Decimal D source ''priceChange'' False True of
           Inl e \<Rightarrow> Inl e
         | Inr change \<Rightarrow> (case Row_Count source of Inl e \<Rightarrow> Inl e | Inr trades \<Rightarrow> Inr (change, trades))))"

definition stats_row :: "'d decimals \<Rightarrow> Scope \<Rightarrow> time \<Rightarrow> Row \<Rightarrow> 'd MarketStats result" where
  "stats_row D scope fetchedAt source =
     (case Row_Symbol source of
        Inl e \<Rightarrow> Inl e
      | Inr symbol \<Rightarrow>
        (case required_decimals D source (stats_fields (sc_Exchange scope)) of
           Inl e \<Rightarrow> Inl e
         | Inr vs \<Rightarrow>
           (case price_change D scope source of
              Inl e \<Rightarrow> Inl e
            | Inr (change, trades) \<Rightarrow> Inr \<lparr>
                ms_Exchange = sc_Exchange scope, ms_Market = sc_Market scope, ms_Symbol = symbol,
                ms_Window = 24 * Hour, ms_High = vs ! 0, ms_Low = vs ! 1, ms_Volume = vs ! 2,
                ms_Turnover = vs ! 3, ms_PriceChange = change, ms_TradeCount = trades,
                ms_FetchedAt = fetchedAt\<rparr>)))"

text \<open>The loop shape of the normalizers: poll, translate one source, keep the row.\<close>

fun normalize_loop :: "ctx \<Rightarrow> nat \<Rightarrow> ('s \<Rightarrow> 'r result) \<Rightarrow> 's list \<Rightarrow> 'r list result" where
  "normalize_loop ctx k f [] = Inr []"
| "normalize_loop ctx k f (source # sources) =
     (case ctx k of
        Some e \<Rightarrow> Inl e
      | None \<Rightarrow>
        (case f source of
           Inl e \<Rightarrow> Inl e
         | Inr row \<Rightarrow>
           (case normalize_loop ctx (k + 1) f sources of Inl e \<Rightarrow> Inl e | Inr rows \<Rightarrow> Inr (row # rows))))"

definition Statistics :: "'d decimals \<Rightarrow> ctx \<Rightarrow> nat \<Rightarrow> Row list \<Rightarrow> Scope \<Rightarrow> time \<Rightarrow> 'd MarketStats list result" where
  "Statistics D ctx k sources scope fetchedAt =
     (case Index ctx k sources of
        Inl e \<Rightarrow> Inl e
      | Inr _ \<Rightarrow> normalize_loop ctx (k + length sources) (stats_row D scope fetchedAt) sources)"

section \<open>Candles\<close>

definition KlineRequest :: "Request \<Rightarrow> Exchange \<Rightarrow> error option" where
  "KlineRequest request exchange =
     (let query = rq_Query request; series = q_Series query; scope = se_Scope series in
      if sc_Exchange scope \<noteq> exchange \<or> \<not> Market_Valid (sc_Market scope) \<or> se_Symbol series = []
      then Some (App ErrInvalidFilter)
      else case SelectSnapshot [scope] \<lparr>sq_Exchange = sc_Exchange scope, sq_Market = sc_Market scope,
             sq_Symbol = se_Symbol series\<rparr> of
        Inl e \<Rightarrow> Some e
      | Inr _ \<Rightarrow>
          if rq_Limit request \<le> 0 then Some (App ErrInvalidParameter)
          else case NewCalendar exchange (sc_Market scope) (se_Interval series) of
            Inl e \<Rightarrow> Some (App ErrInvalidInterval)
          | Inr calendar \<Rightarrow>
              if Unix (q_From query) < 0 \<or> Unix (q_To query) < 0 then Some (App ErrInvalidRange)
              else if CountSlots calendar (q_From query) (q_To query) (rq_Limit request) \<noteq> Inr (rq_Limit request)
              then Some (App ErrInvalidRange)
              else None)"

definition candleInteger :: "RawMessage \<Rightarrow> bool \<Rightarrow> int result" where
  "candleInteger raw quoted =
     (let parsed =
        (if quoted then
           (case unmarshal_string raw of
              None \<Rightarrow> None
            | Some text \<Rightarrow> if text = [] \<or> \<not> list_all digit text then None else Atoi text)
         else if raw = Raw_Empty \<or> raw = Raw_Null then None
         else unmarshal_int64 raw)
      in case parsed of
           None \<Rightarrow> Inl (Invalid ''candle integer'')
         | Some value \<Rightarrow> if value < 0 then Inl (Invalid ''candle integer'') else Inr value)"

fun candle_decimals :: "'d decimals \<Rightarrow> RawMessage list \<Rightarrow> nat list \<Rightarrow> 'd list result" where
  "candle_decimals D source [] = Inr []"
| "candle_decimals D source (position # ps) =
     (case required_decimals D [(''candle decimal'', source ! position)] [''candle decimal''] of
        Inl e \<Rightarrow> Inl e
      | Inr vs \<Rightarrow> (case candle_decimals D source ps of Inl e \<Rightarrow> Inl e | Inr rest \<Rightarrow> Inr (vs @ rest)))"

text \<open>
  The fields of a tuple after its open time. Binance repeats the close time and counts the trades;
  for Bybit the count stays nil.
\<close>

definition candle_trades :: "bool \<Rightarrow> time \<Rightarrow> RawMessage list \<Rightarrow> int option result" where
  "candle_trades bybit close source =
     (if bybit then Inr None
      else case candleInteger (source ! 6) False of
        Inl e \<Rightarrow> Inl (Invalid ''candle close time'')
      | Inr closeTime \<Rightarrow>
          if closeTime = max_int64 \<or> of_UnixMilli (closeTime + 1) \<noteq> close then Inl (Invalid ''candle close time'')
          else case candleInteger (source ! 8) False of Inl e \<Rightarrow> Inl e | Inr n \<Rightarrow> Inr (Some n))"

definition decode_candle :: "'d decimals \<Rightarrow> Request \<Rightarrow> Calendar \<Rightarrow> time \<Rightarrow> RawMessage list \<Rightarrow> 'd Kline result" where
  "decode_candle D request calendar fetchedAt source =
     (let query = rq_Query request; series = q_Series query; scope = se_Scope series;
          bybit = (sc_Exchange scope = ExchangeBybit);
          required = (if bybit then 7 else 9); turnover = (if bybit then 6 else 7)
      in if length source < required then Inl (Invalid ''candle tuple'')
      else case candleInteger (source ! 0) bybit of
        Inl e \<Rightarrow> Inl e
      | Inr ms \<Rightarrow>
        (let open = of_UnixMilli ms in
         if open < q_From query \<or> \<not> open < q_To query then Inl (Invalid ''candle outside requested range'')
         else case Next calendar open of
           Inl e \<Rightarrow> Inl (Invalid ''candle boundary'')
         | Inr close \<Rightarrow>
           (case candle_trades bybit close source of
              Inl e \<Rightarrow> Inl e
            | Inr trades \<Rightarrow>
              (case candle_decimals D source [1, 2, 3, 4, 5, turnover] of
                 Inl e \<Rightarrow> Inl e
               | Inr vs \<Rightarrow>
                   if dec_GreaterThan D (vs ! 2) (vs ! 0) \<or> dec_GreaterThan D (vs ! 2) (vs ! 3)
                     \<or> dec_GreaterThan D (vs ! 0) (vs ! 1) \<or> dec_GreaterThan D (vs ! 3) (vs ! 1)
                   then Inl (Invalid ''candle OHLC bounds'')
                   else Inr \<lparr>
                     k_Exchange = sc_Exchange scope, k_Market = sc_Market scope, k_Symbol = se_Symbol series,
                     k_Interval = se_Interval series, k_OpenTime = open, k_CloseTime = close,
                     k_Open = vs ! 0, k_High = vs ! 1, k_Low = vs ! 2, k_Close = vs ! 3,
                     k_Volume = vs ! 4, k_Turnover = vs ! 5, k_TradesCount = trades,
                     k_FetchedAt = fetchedAt\<rparr>))))"

text \<open>
  \<open>Klines\<close>; the name is taken by an operation of the upstream accounting. The first poll is \<open>ctx k\<close>.
\<close>

definition normalize_Klines :: "'d decimals \<Rightarrow> ctx \<Rightarrow> nat \<Rightarrow> Request \<Rightarrow> RawMessage list list \<Rightarrow> time \<Rightarrow> time
    \<Rightarrow> 'd Stored list result" where
  "normalize_Klines D ctx k request sources startedAt fetchedAt =
     (case ctx k of
        Some e \<Rightarrow> Inl e
      | None \<Rightarrow>
          if int (length sources) > rq_Limit request \<or> IsZero startedAt \<or> IsZero fetchedAt \<or> startedAt > fetchedAt
          then Inl (Invalid ''candle page metadata'')
          else let series = q_Series (rq_Query request) in
            case NewCalendar (sc_Exchange (se_Scope series)) (sc_Market (se_Scope series)) (se_Interval series) of
              Inl e \<Rightarrow> Inl (Invalid ''candle calendar'')
            | Inr calendar \<Rightarrow>
              (case normalize_loop ctx (k + 1) (\<lambda>source.
                   case decode_candle D request calendar fetchedAt source of
                     Inl e \<Rightarrow> Inl e
                   | Inr row \<Rightarrow> Inr \<lparr>st_Candle = row, st_RequestStartedAt = startedAt\<rparr>) sources of
                 Inl e \<Rightarrow> Inl e
               | Inr rows \<Rightarrow>
                   (let ordered = sort_key row_open rows
                    in if list_ex (\<lambda>i. row_open (ordered ! (i - 1)) = row_open (ordered ! i)) [1..<length ordered]
                       then Inl (Invalid ''duplicate candle time'')
                       else Inr ordered)))"

section \<open>Parsed values\<close>

text \<open>
  \<open>bounded D d\<close>: the printed form of \<open>d\<close> has at most 1024 characters. Every decimal the adapters let
  through is bounded, so that no later rescaling or printing blows up.
\<close>

definition bounded :: "'d decimals \<Rightarrow> 'd \<Rightarrow> bool" where
  "bounded D d \<longleftrightarrow> decimalCharacters D d \<le> maxDecimalCharacters"

abbreviation plain_decimal :: "'d decimals \<Rightarrow> 'd \<Rightarrow> bool" where
  "plain_decimal D d \<equiv> bounded D d \<and> \<not> dec_IsNegative D d"

lemma Limit_Some: "Limit D value = Inr (Some d) \<Longrightarrow> dec_NewFromString D value = Some d \<and> plain_decimal D d"
  by (auto simp: Limit_def bounded_def split: if_splits option.splits)

lemma Limit_empty: "Limit D [] = Inr None"
  by (simp add: Limit_def)

lemma Limit_None: "Limit D value = Inr None \<longleftrightarrow> value = []"
  by (auto simp: Limit_def split: if_splits option.splits)

lemma Step_Inr: "Step D value = Inr d \<longleftrightarrow> Limit D value = Inr (Some d) \<and> dec_IsPositive D d"
  by (auto simp: Step_def split: sum.splits option.splits if_splits)

lemma Duration_Some:
  assumes "Duration value unit = Inr (Some d)" and "0 < unit"
  shows "\<exists>n. Atoi value = Some n \<and> 0 < n \<and> d = n * unit \<and> d \<le> max_int64"
proof -
  from assms(1) obtain n where n: "Atoi value = Some n" "0 < n" "n \<le> max_int64 sdiv unit" "d = n * unit"
    by (auto simp: Duration_def split: if_splits option.splits)
  have "n * unit \<le> max_int64"
    using n(3) assms(2) by (simp add: sdiv_nonneg le_div_iff)
  with n show ?thesis by auto
qed

lemma Delisting_Some:
  assumes "Delisting value = Inr (Some t)"
  shows "\<exists>n. Atoi value = Some n \<and> 0 < n \<and> t = of_UnixMilli n \<and> in_years t"
proof -
  from assms obtain n where n: "Atoi value = Some n" "0 < n" "t = of_UnixMilli n" "Year t \<le> 9999"
    by (auto simp: Delisting_def Let_def split: if_splits option.splits)
  have "0 \<le> Unix t" using n(2,3) by (simp add: of_UnixMilli_def Unix_def pos_imp_zdiv_nonneg_iff)
  with n(4) have "in_years t" by (simp add: in_years_Unix Year_le_9999 minSeconds_def)
  with n show ?thesis by auto
qed

section \<open>Errors\<close>

text \<open>Every failure of a parser is reported as invalid data of the exchange.\<close>

abbreviation bad_data :: "error \<Rightarrow> bool" where
  "bad_data e \<equiv> errors_Is e (App ErrInvalidUpstreamData)"

lemma bad_Invalid [simp]: "bad_data (Invalid field)"
  by (simp add: Invalid_def)

lemma Limit_bad: "Limit D value = Inl e \<Longrightarrow> bad_data e"
  by (auto simp: Limit_def split: if_splits option.splits)

lemma signedDecimal_bad: "signedDecimal D value = Inl e \<Longrightarrow> bad_data e"
  by (auto simp: signedDecimal_def Let_def split: if_splits option.splits sum.splits dest: Limit_bad)

lemma Row_Text_bad: "Row_Text r key = Inl e \<Longrightarrow> bad_data e"
  by (auto simp: Row_Text_def split: RawMessage.splits)

lemma Row_Symbol_bad: "Row_Symbol r = Inl e \<Longrightarrow> bad_data e"
  by (auto simp: Row_Symbol_def split: option.splits if_splits)

lemma Row_Decimal_bad: "Row_Decimal D r key required signed = Inl e \<Longrightarrow> bad_data e"
  by (auto simp: Row_Decimal_def split: sum.splits if_splits dest: Row_Text_bad)

lemma Row_Quote_bad: "Row_Quote D r pk sk = Inl e \<Longrightarrow> bad_data e"
  by (auto simp: Row_Quote_def split: sum.splits option.splits if_splits dest: Row_Decimal_bad)

lemma Delisting_bad: "Delisting value = Inl e \<Longrightarrow> bad_data e"
  by (auto simp: Delisting_def Let_def split: if_splits option.splits)

lemma Duration_bad: "Duration value unit = Inl e \<Longrightarrow> bad_data e"
  by (auto simp: Duration_def split: if_splits option.splits)

lemma Step_bad: "Step D value = Inl e \<Longrightarrow> bad_data e"
  by (auto simp: Step_def split: sum.splits option.splits if_splits)

lemma Validate_bad: "Validate D row = Some e \<Longrightarrow> bad_data e"
  by (auto simp: Validate_def split: option.splits if_splits)

lemma Row_Funding_bad: "Row_Funding D r market kind rk = Inl e \<Longrightarrow> bad_data e"
  by (auto simp: Row_Funding_def split: sum.splits if_splits dest: Row_Decimal_bad Delisting_bad Row_Text_bad)

lemma Row_Count_bad: "Row_Count r = Inl e \<Longrightarrow> bad_data e"
  by (auto simp: Row_Count_def split: sum.splits option.splits if_splits)

lemma required_decimals_bad: "required_decimals D r fs = Inl e \<Longrightarrow> bad_data e"
  by (induction fs) (auto split: sum.splits option.splits dest: Row_Decimal_bad)

lemma price_change_bad: "price_change D scope source = Inl e \<Longrightarrow> bad_data e"
  by (auto simp: price_change_def split: sum.splits option.splits if_splits dest: Row_Decimal_bad Row_Count_bad)

lemma stats_row_bad: "stats_row D scope t source = Inl e \<Longrightarrow> bad_data e"
  by (auto simp: stats_row_def split: sum.splits dest: Row_Symbol_bad required_decimals_bad price_change_bad)

lemma candleInteger_bad: "candleInteger raw quoted = Inl e \<Longrightarrow> bad_data e"
  by (auto simp: candleInteger_def Let_def split: option.splits if_splits)

lemma candle_decimals_bad: "candle_decimals D source ps = Inl e \<Longrightarrow> bad_data e"
  by (induction ps) (auto split: sum.splits dest: required_decimals_bad simp del: required_decimals.simps)

lemma candle_trades_bad: "candle_trades bybit close source = Inl e \<Longrightarrow> bad_data e"
  by (auto simp: candle_trades_def split: sum.splits if_splits dest: candleInteger_bad)

lemma decode_candle_bad: "decode_candle D request calendar t source = Inl e \<Longrightarrow> bad_data e"
  unfolding decode_candle_def Let_def
  by (auto split: sum.splits if_splits simp del: candle_decimals.simps
      dest: candleInteger_bad candle_decimals_bad candle_trades_bad)

section \<open>Loops\<close>

lemma normalize_loop_Inr:
  "normalize_loop ctx k f sources = Inr rows \<longleftrightarrow>
     (\<forall>i < length sources. ctx (k + i) = None) \<and> list_all2 (\<lambda>s r. f s = Inr r) sources rows"
proof (induction sources arbitrary: k rows)
  case Nil
  then show ?case by auto
next
  case (Cons source sources)
  have polls: "(\<forall>i < length (source # sources). ctx (k + i) = None) \<longleftrightarrow>
      ctx k = None \<and> (\<forall>i < length sources. ctx (k + 1 + i) = None)"
    by (auto simp: less_Suc_eq_0_disj)
  have IH: "normalize_loop ctx (Suc k) f sources = Inr rs \<longleftrightarrow>
      (\<forall>i < length sources. ctx (Suc (k + i)) = None) \<and> list_all2 (\<lambda>s r. f s = Inr r) sources rs" for rs
    using Cons.IH [of "Suc k" rs] by simp
  show ?case
  proof (cases "normalize_loop ctx (Suc k) f sources")
    case (Inl e)
    with IH show ?thesis unfolding polls by (auto simp: list_all2_Cons1 split: option.splits sum.splits)
  next
    case (Inr rs)
    from IH [of rs] Inr have here: "list_all2 (\<lambda>s r. f s = Inr r) sources rs"
      and polled: "\<forall>i < length sources. ctx (Suc (k + i)) = None" by simp_all
    have only: "list_all2 (\<lambda>s r. f s = Inr r) sources rs' \<longleftrightarrow> rs' = rs" for rs'
      using IH [of rs'] Inr polled by auto
    have "normalize_loop ctx k f (source # sources) = Inr rows \<longleftrightarrow>
        ctx k = None \<and> (\<exists>r. f source = Inr r \<and> rows = r # rs)"
      using Inr by (auto split: option.splits sum.splits)
    then show ?thesis unfolding polls using polled by (auto simp: list_all2_Cons1 only)
  qed
qed

lemma normalize_loop_Inl:
  assumes "normalize_loop ctx k f sources = Inl e"
  shows "(\<exists>i. ctx i = Some e) \<or> (\<exists>s \<in> set sources. f s = Inl e)"
  using assms by (induction sources arbitrary: k) (auto split: option.splits sum.splits)

lemma list_all2_map_Inr:
  "list_all2 (\<lambda>s r. f s = Inr r) sources rows \<longleftrightarrow> map f sources = map Inr rows"
  by (auto simp: list_all2_conv_all_nth list_eq_iff_nth_eq)

text \<open>Without cancellation a normalizer succeeds exactly when every source translates.\<close>

lemma normalize_loop_background:
  "normalize_loop background k f sources = Inr rows \<longleftrightarrow> map f sources = map Inr rows"
  by (simp add: normalize_loop_Inr list_all2_map_Inr)

lemma index_loop_Inr:
  "index_loop ctx k rows acc = Inr out \<longleftrightarrow>
     (\<forall>i < length rows. ctx (k + i) = None) \<and>
     (\<exists>symbols. map Row_Symbol rows = map Inr symbols \<and> distinct symbols \<and> (\<forall>s \<in> set symbols. \<not> ghas acc s)
        \<and> out = fold (\<lambda>(s, r). AList.update s r) (zip symbols rows) acc)"
proof (induction rows arbitrary: k acc)
  case Nil
  then show ?case by auto
next
  case (Cons row rows)
  have polls: "(\<forall>i < length (row # rows). ctx (k + i) = None) \<longleftrightarrow>
      ctx k = None \<and> (\<forall>i < length rows. ctx (k + 1 + i) = None)"
    by (auto simp: less_Suc_eq_0_disj)
  show ?case
  proof (cases "Row_Symbol row")
    case (Inl e)
    then show ?thesis by (auto simp: map_eq_Cons_conv split: option.splits)
  next
    case (Inr s)
    have cut: "(\<exists>symbols. map Row_Symbol (row # rows) = map Inr symbols \<and> P symbols) \<longleftrightarrow>
        (\<exists>symbols. map Row_Symbol rows = map Inr symbols \<and> P (s # symbols))" for P
      using Inr by (auto simp: Cons_eq_map_conv)
    show ?thesis unfolding polls cut
      using Inr by (auto simp: Cons.IH split: option.splits)
  qed
qed

lemma index_loop_Inl:
  assumes "index_loop ctx k rows acc = Inl e"
  shows "(\<exists>i. ctx i = Some e) \<or> bad_data e"
  using assms
  by (induction rows arbitrary: k acc) (auto split: option.splits sum.splits if_splits dest: Row_Symbol_bad)

section \<open>Candle pages\<close>

lemma candle_decimals_Inr:
  "candle_decimals D source ps = Inr vs \<Longrightarrow> length vs = length ps \<and> (\<forall>v \<in> set vs. plain_decimal D v)"
proof (induction ps arbitrary: vs)
  case (Cons p ps)
  from Cons.prems obtain v rest where vs: "vs = v # rest" "candle_decimals D source ps = Inr rest"
    and v: "Row_Decimal D [(''candle decimal'', source ! p)] ''candle decimal'' True False = Inr (Some v)"
    by (auto split: sum.splits option.splits)
  from v have "plain_decimal D v"
    by (auto simp: Row_Decimal_def split: sum.splits if_splits dest: Limit_Some)
  with vs Cons.IH show ?case by auto
qed simp

lemma candle_trades_Inr:
  "candle_trades bybit close source = Inr trades \<Longrightarrow>
     (bybit \<longrightarrow> trades = None) \<and> (\<not> bybit \<longrightarrow> (\<exists>n \<ge> 0. trades = Some n))"
  by (auto simp: candle_trades_def candleInteger_def Let_def split: sum.splits if_splits option.splits)

text \<open>
  What a row of a page answering \<open>request\<close> promises: it belongs to the requested series, opens inside
  the half-open range on a boundary of the calendar and closes at the next one, its prices are
  ordered, every decimal is non-negative and bounded, and it carries the times of its request.
\<close>

definition good_candle :: "'d decimals \<Rightarrow> Request \<Rightarrow> Calendar \<Rightarrow> 'd Kline \<Rightarrow> bool" where
  "good_candle D request calendar row \<longleftrightarrow>
     (let query = rq_Query request; series = q_Series query in
      k_Exchange row = sc_Exchange (se_Scope series) \<and> k_Market row = sc_Market (se_Scope series)
    \<and> k_Symbol row = se_Symbol series \<and> k_Interval row = se_Interval series
    \<and> q_From query \<le> k_OpenTime row \<and> k_OpenTime row < q_To query
    \<and> Next calendar (k_OpenTime row) = Inr (k_CloseTime row)
    \<and> \<not> dec_GreaterThan D (k_Low row) (k_Open row) \<and> \<not> dec_GreaterThan D (k_Low row) (k_Close row)
    \<and> \<not> dec_GreaterThan D (k_Open row) (k_High row) \<and> \<not> dec_GreaterThan D (k_Close row) (k_High row)
    \<and> (\<forall>d \<in> set [k_Open row, k_High row, k_Low row, k_Close row, k_Volume row, k_Turnover row]. plain_decimal D d)
    \<and> (if k_Exchange row = ExchangeBybit then k_TradesCount row = None
       else \<exists>n \<ge> 0. k_TradesCount row = Some n))"

lemma six_values:
  "length vs = 6 \<Longrightarrow> \<forall>v \<in> set vs. P v \<Longrightarrow> \<forall>v \<in> set [vs ! 0, vs ! 1, vs ! 2, vs ! 3, vs ! 4, vs ! 5]. P v"
  by (simp add: nth_mem)

lemma decode_candle_good:
  assumes "decode_candle D request calendar fetchedAt source = Inr row"
  shows "good_candle D request calendar row \<and> k_FetchedAt row = fetchedAt"
proof -
  let ?q = "rq_Query request"
  let ?b = "sc_Exchange (se_Scope (q_Series ?q)) = ExchangeBybit"
  from assms obtain ms close trades vs where
    trades: "candle_trades ?b close source = Inr trades"
    and vs: "candle_decimals D source [1, 2, 3, 4, 5, if ?b then 6 else 7] = Inr vs"
    and range: "q_From ?q \<le> of_UnixMilli ms" "of_UnixMilli ms < q_To ?q"
    and close: "Next calendar (of_UnixMilli ms) = Inr close"
    and ohlc: "\<not> dec_GreaterThan D (vs ! 2) (vs ! 0)" "\<not> dec_GreaterThan D (vs ! 2) (vs ! 3)"
      "\<not> dec_GreaterThan D (vs ! 0) (vs ! 1)" "\<not> dec_GreaterThan D (vs ! 3) (vs ! 1)"
    and row: "row = \<lparr>
       k_Exchange = sc_Exchange (se_Scope (q_Series ?q)), k_Market = sc_Market (se_Scope (q_Series ?q)),
       k_Symbol = se_Symbol (q_Series ?q), k_Interval = se_Interval (q_Series ?q),
       k_OpenTime = of_UnixMilli ms, k_CloseTime = close,
       k_Open = vs ! 0, k_High = vs ! 1, k_Low = vs ! 2, k_Close = vs ! 3,
       k_Volume = vs ! 4, k_Turnover = vs ! 5, k_TradesCount = trades, k_FetchedAt = fetchedAt\<rparr>"
    unfolding decode_candle_def Let_def
    by (auto split: sum.splits if_splits simp del: candle_decimals.simps simp: not_less)
  have "length vs = 6" "\<forall>v \<in> set vs. plain_decimal D v"
    using candle_decimals_Inr [OF vs] by simp_all
  note plain = six_values [OF this]
  have "if ?b then trades = None else \<exists>n \<ge> 0. trades = Some n"
    using candle_trades_Inr [OF trades] by (simp split: if_split)
  with plain range close ohlc show ?thesis
    unfolding row good_candle_def Let_def by simp
qed

text \<open>A sorted list is free of repetitions when no two neighbours agree.\<close>

lemma sorted_neighbours:
  assumes "sorted (map f xs)"
  shows "list_ex (\<lambda>i. f (xs ! (i - 1)) = f (xs ! i)) [1..<length xs] \<longleftrightarrow> \<not> distinct (map f xs)"
proof -
  have "list_ex (\<lambda>i. f (xs ! (i - 1)) = f (xs ! i)) [1..<length xs] \<longleftrightarrow>
      (\<exists>i. Suc i < length xs \<and> f (xs ! i) = f (xs ! Suc i))"
  proof
    assume "list_ex (\<lambda>i. f (xs ! (i - 1)) = f (xs ! i)) [1..<length xs]"
    then obtain i where "1 \<le> i" "i < length xs" "f (xs ! (i - 1)) = f (xs ! i)" by (auto simp: list_ex_iff)
    then show "\<exists>i. Suc i < length xs \<and> f (xs ! i) = f (xs ! Suc i)" by (intro exI [of _ "i - 1"]) simp
  next
    assume "\<exists>i. Suc i < length xs \<and> f (xs ! i) = f (xs ! Suc i)"
    then obtain i where "Suc i < length xs" "f (xs ! i) = f (xs ! Suc i)" by auto
    then show "list_ex (\<lambda>i. f (xs ! (i - 1)) = f (xs ! i)) [1..<length xs]"
      unfolding list_ex_iff by (intro bexI [of _ "Suc i"]) simp_all
  qed
  moreover have "distinct (map f xs) \<longleftrightarrow> sorted_wrt (<) (map f xs)"
    using assms by (simp add: strict_sorted_iff)
  moreover have "sorted_wrt (<) (map f xs) \<longleftrightarrow> (\<forall>i. Suc i < length xs \<longrightarrow> f (xs ! i) < f (xs ! Suc i))"
    by (subst sorted_wrt_iff_nth_Suc_transp) simp_all
  moreover have "f (xs ! i) \<le> f (xs ! Suc i)" if "Suc i < length xs" for i
    using sorted_nth_mono [OF assms, of i "Suc i"] that by simp
  ultimately show ?thesis by (auto simp: less_le)
qed

abbreviation stored_at :: "time \<Rightarrow> 'd Kline \<Rightarrow> 'd Stored" where
  "stored_at startedAt row \<equiv> \<lparr>st_Candle = row, st_RequestStartedAt = startedAt\<rparr>"

abbreviation request_calendar :: "Request \<Rightarrow> Calendar result" where
  "request_calendar request \<equiv> NewCalendar (sc_Exchange (se_Scope (q_Series (rq_Query request))))
     (sc_Market (se_Scope (q_Series (rq_Query request)))) (se_Interval (q_Series (rq_Query request)))"

lemma normalize_Klines_Inr:
  "normalize_Klines D ctx k request sources startedAt fetchedAt = Inr page \<longleftrightarrow>
     (\<forall>i \<le> length sources. ctx (k + i) = None)
   \<and> int (length sources) \<le> rq_Limit request \<and> \<not> IsZero startedAt \<and> \<not> IsZero fetchedAt \<and> startedAt \<le> fetchedAt
   \<and> (\<exists>calendar rows.
        NewCalendar (sc_Exchange (se_Scope (q_Series (rq_Query request))))
          (sc_Market (se_Scope (q_Series (rq_Query request)))) (se_Interval (q_Series (rq_Query request))) = Inr calendar
      \<and> map (decode_candle D request calendar fetchedAt) sources = map Inr rows
      \<and> distinct (map k_OpenTime rows)
      \<and> page = sort_key row_open (map (stored_at startedAt) rows))"
proof -
  let ?s = "q_Series (rq_Query request)"
  have polls: "(\<forall>i \<le> length sources. ctx (k + i) = None) \<longleftrightarrow> ctx k = None \<and> (\<forall>i < length sources. ctx (k + 1 + i) = None)"
    unfolding less_Suc_eq_le [symmetric] by (auto simp: less_Suc_eq_0_disj)
  let ?f = "\<lambda>calendar source. case decode_candle D request calendar fetchedAt source of
       Inl e \<Rightarrow> Inl e | Inr row \<Rightarrow> Inr (stored_at startedAt row)"
  have loop: "normalize_loop ctx (k + 1) (?f calendar) sources = Inr out \<longleftrightarrow>
      (\<forall>i < length sources. ctx (k + 1 + i) = None) \<and>
      (\<exists>rows. map (decode_candle D request calendar fetchedAt) sources = map Inr rows \<and> out = map (stored_at startedAt) rows)"
    for calendar out
  proof -
    have "map (?f calendar) sources = map Inr out \<longleftrightarrow>
      (\<exists>rows. map (decode_candle D request calendar fetchedAt) sources = map Inr rows \<and> out = map (stored_at startedAt) rows)"
    proof (induction sources arbitrary: out)
      case (Cons s ss)
      show ?case
        by (cases "decode_candle D request calendar fetchedAt s"; cases out)
          (auto simp: Cons.IH map_eq_Cons_conv Cons_eq_map_conv)
    qed simp
    then show ?thesis by (simp add: normalize_loop_Inr list_all2_map_Inr)
  qed
  have dup: "list_ex (\<lambda>i. row_open (xs ! (i - 1)) = row_open (xs ! i)) [1..<length xs] \<longleftrightarrow> \<not> distinct (map row_open rows)"
    if "xs = sort_key row_open rows" for xs rows :: "'d Stored list"
    using sorted_neighbours [of row_open xs] that by (simp add: distinct_map_sort_key)
  have opens: "map row_open (map (stored_at startedAt) rows) = map k_OpenTime rows" for rows :: "'d Kline list"
    by simp
  show ?thesis
  proof (cases "NewCalendar (sc_Exchange (se_Scope ?s)) (sc_Market (se_Scope ?s)) (se_Interval ?s)")
    case (Inl e)
    then show ?thesis by (auto simp: normalize_Klines_def Let_def split: option.splits)
  next
    case (Inr calendar)
    show ?thesis
    proof (cases "normalize_loop ctx (k + 1) (?f calendar) sources")
      case (Inl e)
      with loop [of calendar] have "\<not> ((\<forall>i < length sources. ctx (k + 1 + i) = None) \<and>
          (\<exists>rows. map (decode_candle D request calendar fetchedAt) sources = map Inr rows))" by auto
      with Inl \<open>NewCalendar _ _ _ = Inr calendar\<close> show ?thesis unfolding polls
        by (auto simp: normalize_Klines_def Let_def split: option.splits)
    next
      case out: (Inr out)
      with loop [of calendar out] obtain rows where
        rows: "map (decode_candle D request calendar fetchedAt) sources = map Inr rows" "out = map (stored_at startedAt) rows"
        and live: "\<forall>i < length sources. ctx (k + 1 + i) = None" by auto
      have unique: "map (decode_candle D request calendar fetchedAt) sources = map Inr rows' \<longleftrightarrow> rows' = rows" for rows'
        unfolding rows(1) by (auto simp: inj_map_eq_map)
      have val: "normalize_Klines D ctx k request sources startedAt fetchedAt = Inr page \<longleftrightarrow>
          ctx k = None \<and> int (length sources) \<le> rq_Limit request \<and> \<not> IsZero startedAt \<and> \<not> IsZero fetchedAt
          \<and> startedAt \<le> fetchedAt \<and> distinct (map row_open out) \<and> page = sort_key row_open out"
        using Inr out dup [OF refl, of out] by (auto simp: normalize_Klines_def Let_def split: option.splits)
      show ?thesis unfolding val polls using Inr live rows(2) by (auto simp: unique opens comp_def)
    qed
  qed
qed

lemma normalize_page_good:
  assumes "normalize_Klines D ctx k request sources startedAt fetchedAt = Inr page"
  obtains calendar where "request_calendar request = Inr calendar"
    and "length page = length sources" and "int (length page) \<le> rq_Limit request"
    and "sorted_wrt (<) (map row_open page)"
    and "\<forall>row \<in> set page. good_candle D request calendar (st_Candle row)
         \<and> st_RequestStartedAt row = startedAt \<and> k_FetchedAt (st_Candle row) = fetchedAt"
    and "\<not> IsZero startedAt" and "\<not> IsZero fetchedAt" and "startedAt \<le> fetchedAt"
proof -
  from assms obtain calendar rows where cal: "request_calendar request = Inr calendar"
    and rows: "map (decode_candle D request calendar fetchedAt) sources = map Inr rows"
    and opens: "distinct (map k_OpenTime rows)"
    and page: "page = sort_key row_open (map (stored_at startedAt) rows)"
    and meta: "int (length sources) \<le> rq_Limit request" "\<not> IsZero startedAt" "\<not> IsZero fetchedAt" "startedAt \<le> fetchedAt"
    unfolding normalize_Klines_Inr by blast
  have len: "length page = length sources" using page map_eq_imp_length_eq [OF rows] by simp
  have "map row_open (map (stored_at startedAt) rows) = map k_OpenTime rows" by simp
  with opens have strict: "sorted_wrt (<) (map row_open page)"
    unfolding page by (intro strict_sorted_sort_key) (simp only:)
  have "good_candle D request calendar row \<and> k_FetchedAt row = fetchedAt" if "row \<in> set rows" for row
  proof -
    from that have "Inr row \<in> set (map (decode_candle D request calendar fetchedAt) sources)" by (simp add: rows)
    then obtain source where "decode_candle D request calendar fetchedAt source = Inr row" by auto
    then show ?thesis by (rule decode_candle_good)
  qed
  then have "\<forall>row \<in> set page. good_candle D request calendar (st_Candle row)
         \<and> st_RequestStartedAt row = startedAt \<and> k_FetchedAt (st_Candle row) = fetchedAt"
    by (auto simp: page)
  with that cal len strict meta show thesis by metis
qed

lemma normalize_Klines_Inl:
  assumes "normalize_Klines D ctx k request sources startedAt fetchedAt = Inl e"
  shows "(\<exists>i. ctx i = Some e) \<or> bad_data e"
  using assms unfolding normalize_Klines_def Let_def
  by (auto split: option.splits sum.splits if_splits dest!: normalize_loop_Inl decode_candle_bad)

section \<open>Snapshots\<close>

lemma Index_Inr:
  "Index ctx k rows = Inr out \<Longrightarrow>
     (\<forall>i < length rows. ctx (k + i) = None) \<and> (\<exists>symbols. map Row_Symbol rows = map Inr symbols \<and> distinct symbols)"
  unfolding Index_def index_loop_Inr by auto

lemma Index_background:
  "(\<exists>out. Index background k rows = Inr out) \<longleftrightarrow>
     (\<exists>symbols. map Row_Symbol rows = map Inr symbols \<and> distinct symbols)"
  unfolding Index_def index_loop_Inr by (auto simp: ghas_def)

lemma Row_Symbol_nonempty: "Row_Symbol r = Inr s \<Longrightarrow> s \<noteq> []"
  by (auto simp: Row_Symbol_def split: option.splits if_splits)

lemma list_all2_source: "list_all2 P xs ys \<Longrightarrow> y \<in> set ys \<Longrightarrow> \<exists>x \<in> set xs. P x y"
  by (metis in_set_conv_nth list_all2_conv_all_nth nth_mem)

text \<open>Rows that keep the symbol of their source inherit distinctness from the index.\<close>

lemma symbols_kept:
  assumes "map Row_Symbol sources = map Inr symbols" and "distinct symbols"
    and "list_all2 (\<lambda>s r. f s = Inr r) sources rows"
    and "\<And>s r. f s = Inr r \<Longrightarrow> Row_Symbol s = Inr (symb r)"
  shows "distinct (map symb rows)" and "\<forall>row \<in> set rows. symb row \<noteq> []"
proof -
  have keys: "list_all2 (\<lambda>s r. Row_Symbol s = Inr (symb r)) sources rows"
    using assms(3) by (rule list_all2_mono) (rule assms(4))
  then have "map Row_Symbol sources = map Inr (map symb rows)"
    by (auto simp: list_all2_conv_all_nth list_eq_iff_nth_eq)
  with assms(1) have "symbols = map symb rows" by (simp only: inj_map_eq_map [OF inj_Inr])
  with assms(2) show "distinct (map symb rows)" by simp
  show "\<forall>row \<in> set rows. symb row \<noteq> []"
    using list_all2_source [OF keys] Row_Symbol_nonempty by blast
qed

lemma stats_row_key:
  "stats_row D scope t source = Inr row \<Longrightarrow>
     Row_Symbol source = Inr (ms_Symbol row) \<and> ms_Exchange row = sc_Exchange scope \<and> ms_Market row = sc_Market scope
   \<and> ms_Window row = 24 * Hour \<and> ms_FetchedAt row = t"
  by (auto simp: stats_row_def split: sum.splits)

lemma Statistics_rows:
  assumes "Statistics D ctx k sources scope t = Inr rows"
  shows "length rows = length sources \<and> distinct (map ms_Symbol rows)
    \<and> (\<forall>row \<in> set rows. stats_fits (scope, 24 * Hour) row \<and> ms_FetchedAt row = t)"
proof -
  from assms obtain symbols where symbols: "map Row_Symbol sources = map Inr symbols" "distinct symbols"
    and rows: "list_all2 (\<lambda>s r. stats_row D scope t s = Inr r) sources rows"
    by (auto simp: Statistics_def normalize_loop_Inr split: sum.splits dest!: Index_Inr)
  note kept = symbols_kept [OF symbols rows, of ms_Symbol]
  have "\<forall>row \<in> set rows. \<exists>s. stats_row D scope t s = Inr row"
    using list_all2_source [OF rows] by blast
  then show ?thesis
    using kept rows by (auto simp: stats_fits_def list_all2_lengthD dest!: stats_row_key)
qed

lemma Statistics_fails:
  assumes "Statistics D ctx k sources scope t = Inl e"
  shows "(\<exists>i. ctx i = Some e) \<or> bad_data e"
  using assms
  by (auto simp: Statistics_def Index_def split: sum.splits dest!: index_loop_Inl normalize_loop_Inl stats_row_bad)

lemma Contracts_Inr_cases:
  assumes "Contracts cp ctx repository scope = Inl e"
  shows "\<exists>r. repository = Some r \<and> inst_List cp ctx r \<lparr>if_Snapshot = \<lparr>f_Scopes = [scope], f_Symbol = None\<rparr>, if_Status = None\<rparr> = Inl e
    \<and> \<not> errors_Is e (App ErrDataNotReady)"
  using assms by (auto simp: Contracts_def split: option.splits sum.splits if_splits)

section \<open>Properties\<close>

text \<open>Whole numbers stand in for decimals where a concrete input is evaluated.\<close>

definition whole_decimals :: "int decimals" where
  "whole_decimals = \<lparr>dec_NewFromString = Atoi, dec_zero = 0,
     dec_digits = (\<lambda>d. int (length (FormatInt \<bar>d\<bar>))), dec_Exponent = (\<lambda>_. 0),
     dec_IsNegative = (\<lambda>d. d < 0), dec_IsPositive = (\<lambda>d. 0 < d), dec_IsZero = (\<lambda>d. d = 0),
     dec_Neg = uminus, dec_Sub = (-), dec_GreaterThan = (>)\<rparr>"

definition demo_page :: Request where
  "demo_page = \<lparr>rq_Query = \<lparr>q_Series = ex_series, q_From = ex_open 0, q_To = ex_open 3\<rparr>, rq_Limit = 3\<rparr>"

text \<open>A Binance tuple with the given open and close times: times as numbers, prices as strings.\<close>

definition demo_tuple :: "string \<Rightarrow> string \<Rightarrow> RawMessage list" where
  "demo_tuple o1 c1 = [Raw_Number o1, Raw_String ''5'', Raw_String ''9'', Raw_String ''4'',
     Raw_String ''7'', Raw_String ''10'', Raw_Number c1, Raw_String ''60'', Raw_Number ''3'', Raw_Null]"

definition demo_tuples :: "RawMessage list list" where
  "demo_tuples = [demo_tuple ''1700000100000'' ''1700000159999'', demo_tuple ''1700000040000'' ''1700000099999'']"

text \<open>
  C26. A candle page that passes normalization is well typed for the request it answers: at most the
  requested number of rows, one per tuple, in strictly ascending open-time order, each row of the
  requested series, inside the requested range, on a calendar boundary with the matching close time,
  with ordered non-negative prices of bounded size and with the start and receipt times of its request.
\<close>

theorem normalized_page_well_typed:
  assumes "normalize_Klines D ctx k request sources startedAt fetchedAt = Inr page"
  shows "\<exists>calendar. request_calendar request = Inr calendar
    \<and> length page = length sources \<and> int (length page) \<le> rq_Limit request
    \<and> sorted_wrt (<) (map row_open page)
    \<and> (\<forall>row \<in> set page. good_candle D request calendar (st_Candle row)
         \<and> st_RequestStartedAt row = startedAt \<and> k_FetchedAt (st_Candle row) = fetchedAt)"
  using normalize_page_good [OF assms] by blast


theorem normalized_page_well_typed_witness:
  "\<exists>calendar. request_calendar demo_page = Inr calendar
    \<and> sorted_wrt (<) (map row_open (projr (normalize_Klines whole_decimals background 0 demo_page
         demo_tuples (ex_open 2) (ex_open 2 + 7))))"
proof -
  let ?out = "normalize_Klines whole_decimals background 0 demo_page demo_tuples (ex_open 2) (ex_open 2 + 7)"
  have "\<not> isl ?out" by code_simp
  then have "?out = Inr (projr ?out)" by simp
  from normalized_page_well_typed [OF this] show ?thesis by blast
qed

text \<open>
  The page that answers a request: valid metadata, a calendar, every tuple decoded, no open time twice,
  and all rows in open-time order.
\<close>

definition page_answer :: "'d decimals \<Rightarrow> Request \<Rightarrow> RawMessage list list \<Rightarrow> time \<Rightarrow> time \<Rightarrow> 'd Stored list \<Rightarrow> bool" where
  "page_answer D request sources startedAt fetchedAt page \<longleftrightarrow>
     int (length sources) \<le> rq_Limit request \<and> \<not> IsZero startedAt \<and> \<not> IsZero fetchedAt \<and> startedAt \<le> fetchedAt
   \<and> (\<exists>calendar rows. request_calendar request = Inr calendar
        \<and> map (decode_candle D request calendar fetchedAt) sources = map Inr rows
        \<and> distinct (map k_OpenTime rows) \<and> page = sort_key row_open (map (stored_at startedAt) rows))"

text \<open>
  Normalization of a candle page is exact and all or nothing: with a live context it returns the page that
  answers the request when there is one, and otherwise, whatever tuple or field is at fault, no row at
  all but an error classified as invalid data of the exchange.
\<close>

theorem normalized_page_all_or_nothing:
  "case normalize_Klines D background k request sources startedAt fetchedAt of
     Inl e \<Rightarrow> errors_Is e (App ErrInvalidUpstreamData)
       \<and> \<not> (\<exists>page. page_answer D request sources startedAt fetchedAt page)
   | Inr page \<Rightarrow> page_answer D request sources startedAt fetchedAt page"
proof -
  let ?out = "normalize_Klines D background k request sources startedAt fetchedAt"
  have same: "page_answer D request sources startedAt fetchedAt page \<longleftrightarrow> ?out = Inr page" for page
    by (simp add: page_answer_def normalize_Klines_Inr)
  show ?thesis
  proof (cases ?out)
    case (Inl e)
    with same normalize_Klines_Inl [OF Inl] show ?thesis by simp
  next
    case (Inr page)
    with same [of page] show ?thesis by simp
  qed
qed

end
