(* ===== verification/Kline_Adapters.thy ===== *)
theory Kline_Adapters
  imports Normalization Kline_Planner
begin

text \<open>
  The candle providers of the two exchanges, \<open>klines.go\<close> under
  \<open>src/internal/infrastructure/exchange/binance\<close> and \<open>bybit\<close>, and the argument checks of the Bybit
  client.

  A client is the function that sends one request: path and parameters to the outcome of the call. The
  exchange SDKs behind it are third-party code. The body of an answer is what \<open>json.Unmarshal\<close> makes of
  it, \<open>None\<close> where it fails or the value is null.
\<close>

section \<open>Definitions\<close>

type_synonym url_Values = "(string, string list) gomap"

record 'b fetched =
  fe_Body :: "'b option"
  fe_StartedAt :: time
  fe_FetchedAt :: time

type_synonym 'b client = "string \<Rightarrow> url_Values \<Rightarrow> 'b fetched result"

definition UnixMilli :: "time \<Rightarrow> int" where
  "UnixMilli t = t div 1000000"

text \<open>The argument checks of \<open>Client.Fetch\<close> in \<open>bybit/client.go\<close>; \<open>send\<close> is the SDK call behind it.\<close>

definition bybit_Fetch :: "'b client \<Rightarrow> 'b client" where
  "bybit_Fetch send path parameters =
     (if path \<noteq> ''/v5/market/instruments-info'' \<and> path \<noteq> ''/v5/market/tickers'' \<and> path \<noteq> ''/v5/market/kline''
      then Inl (App ErrUnsupportedOperation)
      else if list_ex (\<lambda>(key, value). length value \<noteq> 1 \<or> hd value = []) parameters
      then Inl (App ErrInvalidParameter)
      else send path parameters)"

subsection \<open>Binance\<close>

definition binance_klineIntervals :: "(Timeframe \<times> string \<times> string) list" where
  "binance_klineIntervals = [
     (Timeframe1s, ''1s'', ''''),
     (Timeframe1m, ''1m'', ''1m''),
     (Timeframe3m, ''3m'', ''3m''),
     (Timeframe5m, ''5m'', ''5m''),
     (Timeframe15m, ''15m'', ''15m''),
     (Timeframe30m, ''30m'', ''30m''),
     (Timeframe1h, ''1h'', ''1h''),
     (Timeframe2h, ''2h'', ''2h''),
     (Timeframe4h, ''4h'', ''4h''),
     (Timeframe6h, ''6h'', ''6h''),
     (Timeframe8h, ''8h'', ''8h''),
     (Timeframe12h, ''12h'', ''12h''),
     (Timeframe1d, ''1d'', ''1d''),
     (Timeframe3d, ''3d'', ''3d''),
     (Timeframe1w, ''1w'', ''1w''),
     (Timeframe1M, ''1M'', ''1M'')]"

definition binance_klineInterval :: "Market \<Rightarrow> Timeframe \<Rightarrow> string" where
  "binance_klineInterval market interval =
     (case map_of binance_klineIntervals interval of
        None \<Rightarrow> []
      | Some (spot, lin) \<Rightarrow> if market = MarketSpot then spot else lin)"

definition binance_SupportedTimeframes :: "Market \<Rightarrow> Timeframe list result" where
  "binance_SupportedTimeframes market =
     (if \<not> Market_Valid market then Inl (App ErrInvalidFilter)
      else Inr (filter (\<lambda>interval. binance_klineInterval market interval \<noteq> []) (map fst binance_klineIntervals)))"

definition binance_kline_path :: "Request \<Rightarrow> string" where
  "binance_kline_path request =
     (if sc_Market (se_Scope (q_Series (rq_Query request))) = MarketLinear then ''/fapi/v1/klines'' else ''/api/v3/klines'')"

definition binance_kline_parameters :: "Request \<Rightarrow> string \<Rightarrow> url_Values" where
  "binance_kline_parameters request interval = [
     (''symbol'', [se_Symbol (q_Series (rq_Query request))]), (''interval'', [interval]),
     (''limit'', [FormatInt (rq_Limit request)]),
     (''startTime'', [FormatInt (UnixMilli (q_From (rq_Query request)))]),
     (''endTime'', [FormatInt (UnixMilli (q_To (rq_Query request)) - 1)])]"

text \<open>\<open>clients\<close> gives the client of a market, \<open>None\<close> for nil.\<close>

definition binance_GetKlines :: "'d decimals \<Rightarrow> ctx \<Rightarrow> (Market \<Rightarrow> RawMessage list list client option) \<Rightarrow> Request
    \<Rightarrow> 'd Stored list result" where
  "binance_GetKlines D ctx clients request =
     (let scope = se_Scope (q_Series (rq_Query request)) in
      case ctx 0 of
        Some e \<Rightarrow> Inl e
      | None \<Rightarrow>
          if \<not> Market_Valid (sc_Market scope) \<or> sc_Exchange scope \<noteq> ExchangeBinance then Inl (App ErrInvalidFilter)
          else let interval = binance_klineInterval (sc_Market scope) (se_Interval (q_Series (rq_Query request))) in
          if interval = [] then Inl (App ErrInvalidInterval)
          else case KlineRequest request ExchangeBinance of
            Some e \<Rightarrow> Inl e
          | None \<Rightarrow>
            (case clients (sc_Market scope) of
               None \<Rightarrow> Inl (App ErrUnsupportedOperation)
             | Some fetch \<Rightarrow>
               (case fetch (binance_kline_path request) (binance_kline_parameters request interval) of
                  Inl e \<Rightarrow> Inl e
                | Inr response \<Rightarrow>
                  (case fe_Body response of
                     None \<Rightarrow> Inl (Invalid ''candle envelope'')
                   | Some rows \<Rightarrow>
                       normalize_Klines D ctx 1 request rows (fe_StartedAt response) (fe_FetchedAt response)))))"

subsection \<open>Bybit\<close>

definition bybit_klineIntervals :: "(Timeframe \<times> string) list" where
  "bybit_klineIntervals = [
     (Timeframe1m, ''1''),
     (Timeframe3m, ''3''),
     (Timeframe5m, ''5''),
     (Timeframe15m, ''15''),
     (Timeframe30m, ''30''),
     (Timeframe1h, ''60''),
     (Timeframe2h, ''120''),
     (Timeframe4h, ''240''),
     (Timeframe6h, ''360''),
     (Timeframe12h, ''720''),
     (Timeframe1d, ''D''),
     (Timeframe1w, ''W''),
     (Timeframe1M, ''M'')]"

definition bybit_klineInterval :: "Timeframe \<Rightarrow> string" where
  "bybit_klineInterval interval = gget [] bybit_klineIntervals interval"

definition bybit_SupportedTimeframes :: "Market \<Rightarrow> Timeframe list result" where
  "bybit_SupportedTimeframes market =
     (if \<not> Market_Valid market then Inl (App ErrInvalidFilter) else Inr (map fst bybit_klineIntervals))"

definition bybit_kline_parameters :: "Request \<Rightarrow> string \<Rightarrow> url_Values" where
  "bybit_kline_parameters request interval = [
     (''category'', [sc_Market (se_Scope (q_Series (rq_Query request)))]),
     (''symbol'', [se_Symbol (q_Series (rq_Query request))]), (''interval'', [interval]),
     (''limit'', [FormatInt (rq_Limit request)]),
     (''start'', [FormatInt (UnixMilli (q_From (rq_Query request)))]),
     (''end'', [FormatInt (UnixMilli (q_To (rq_Query request)) - 1)])]"

record kline_envelope =
  ke_Code :: "int option"
  ke_Category :: string
  ke_Symbol :: string
  ke_List :: "RawMessage list list option"

definition bybit_GetKlines :: "'d decimals \<Rightarrow> ctx \<Rightarrow> kline_envelope client option \<Rightarrow> Request
    \<Rightarrow> 'd Stored list result" where
  "bybit_GetKlines D ctx client request =
     (let series = q_Series (rq_Query request); scope = se_Scope series in
      case ctx 0 of
        Some e \<Rightarrow> Inl e
      | None \<Rightarrow>
          if \<not> Market_Valid (sc_Market scope) \<or> sc_Exchange scope \<noteq> ExchangeBybit then Inl (App ErrInvalidFilter)
          else let interval = bybit_klineInterval (se_Interval series) in
          if interval = [] then Inl (App ErrInvalidInterval)
          else case KlineRequest request ExchangeBybit of
            Some e \<Rightarrow> Inl e
          | None \<Rightarrow>
            (case client of
               None \<Rightarrow> Inl (App ErrUnsupportedOperation)
             | Some send \<Rightarrow>
               (case bybit_Fetch send ''/v5/market/kline'' (bybit_kline_parameters request interval) of
                  Inl e \<Rightarrow> Inl e
                | Inr response \<Rightarrow>
                  (case fe_Body response of
                     None \<Rightarrow> Inl (Invalid ''candle envelope'')
                   | Some envelope \<Rightarrow>
                     (case (ke_Code envelope, ke_List envelope) of
                        (Some code, Some rows) \<Rightarrow>
                          if code \<noteq> 0 \<or> ke_Category envelope \<noteq> sc_Market scope \<or> ke_Symbol envelope \<noteq> se_Symbol series
                          then Inl (Invalid ''candle envelope'')
                          else normalize_Klines D ctx 1 request rows (fe_StartedAt response) (fe_FetchedAt response)
                      | _ \<Rightarrow> Inl (Invalid ''candle envelope''))))))"

section \<open>Numbers in requests\<close>

lemma foldl_digits:
  "foldl (\<lambda>n ch. 10 * n + v ch) a s = a * 10 ^ length s + foldl (\<lambda>n ch. 10 * n + v ch) (0 :: int) s"
proof (induction s arbitrary: a)
  case (Cons ch s)
  show ?case using Cons.IH [of "10 * a + v ch"] Cons.IH [of "v ch"] by (simp add: algebra_simps)
qed simp

lemma digits_value_Cons:
  "digits_value (ch # s) = int (of_char ch - 48) * 10 ^ length s + digits_value s"
  unfolding digits_value_def foldl_Cons
  by (subst foldl_digits) simp

abbreviation digit_char :: "int \<Rightarrow> char" where
  "digit_char k \<equiv> char_of (nat k + 48)"

lemma digit_chars:
  "\<forall>k \<in> set [0..9]. int (of_char (digit_char k) - 48) = k \<and> digit (digit_char k)
     \<and> digit_char k \<noteq> CHR ''-'' \<and> digit_char k \<noteq> CHR ''+''"
  by code_simp

lemma digit_char_value:
  assumes "0 \<le> k" and "k < 10"
  shows "int (of_char (digit_char k) - 48) = k" and "digit (digit_char k)"
    and "digit_char k \<noteq> CHR ''-''" and "digit_char k \<noteq> CHR ''+''"
  using digit_chars [THEN bspec, of k] assms by auto

lemma digits_value_print:
  fixes n :: int
  assumes "0 \<le> n"
  shows "digits_value (rev (map (\<lambda>i. digit_char (n div 10 ^ i mod 10)) [0..<m])) = n mod 10 ^ m"
proof (induction m)
  case 0
  then show ?case by (simp add: digits_value_def)
next
  case (Suc m)
  have "n mod 10 ^ Suc m = 10 ^ m * (n div 10 ^ m mod 10) + n mod 10 ^ m"
    by (metis mod_mult2_eq' power_Suc2 zmod_zmult2_eq zero_le_numeral zero_le_power)
  with Suc show ?case by (simp add: digits_value_Cons digit_char_value)
qed

lemma digit_count:
  fixes n :: int
  assumes "0 < n" and "n < 10 ^ w"
  obtains m where "filter (\<lambda>i. n \<ge> 10 ^ i) [0..<w] = [0..<m]" and "n < 10 ^ m" and "0 < m"
proof -
  define m where "m = (LEAST i. n < 10 ^ i)"
  have m: "n < 10 ^ m" unfolding m_def using assms(2) by (rule LeastI)
  have le: "m \<le> w" unfolding m_def using assms(2) by (rule Least_le)
  have "n \<ge> 10 ^ i \<longleftrightarrow> i < m" for i
  proof
    assume "i < m"
    then show "n \<ge> 10 ^ i" unfolding m_def using not_less_Least by fastforce
  next
    assume "n \<ge> 10 ^ i"
    show "i < m"
    proof (rule ccontr)
      assume "\<not> i < m"
      then have "(10 :: int) ^ m \<le> 10 ^ i" by (intro power_increasing) simp_all
      with m \<open>n \<ge> 10 ^ i\<close> show False by simp
    qed
  qed
  moreover have "[0..<w] = [0..<m] @ [m..<w]" using upt_add_eq_append [of 0 m "w - m"] le by simp
  moreover have "filter (\<lambda>i. i < m) ([0..<m] @ [m..<w]) = [0..<m]" by (simp add: filter_empty_conv)
  ultimately have "filter (\<lambda>i. n \<ge> 10 ^ i) [0..<w] = [0..<m]" by simp
  moreover have "0 < m" using m assms(1) by (cases m) simp_all
  ultimately show thesis using that m by blast
qed

lemma FormatInt_digits:
  assumes "0 < n" and "n < 10 ^ 19"
  obtains body where "FormatInt n = body" and "FormatInt (- n) = CHR ''-'' # body" and "list_all digit body"
    and "digits_value body = n" and "body \<noteq> []" and "hd body \<noteq> CHR ''-''" and "hd body \<noteq> CHR ''+''"
proof -
  obtain m where m: "filter (\<lambda>i. n \<ge> 10 ^ i) [0..<19] = [0..<m]" "n < 10 ^ m" "0 < m"
    by (rule digit_count [OF assms])
  define body where "body = rev (map (\<lambda>i. digit_char (n div 10 ^ i mod 10)) [0..<m])"
  have "FormatInt n = body" "FormatInt (- n) = CHR ''-'' # body"
    using assms(1) m(1) by (simp_all add: FormatInt_def body_def)
  moreover have "list_all digit body" by (auto simp: body_def list_all_iff digit_char_value)
  moreover have "digits_value body = n"
    using digits_value_print [of n m] assms(1) m(2) by (simp add: body_def)
  moreover have "body \<noteq> []" using m(3) by (simp add: body_def)
  moreover from this have "hd body \<in> set body" by simp
  then obtain k where "hd body = digit_char k" "0 \<le> k" "k < 10" by (force simp: body_def)
  then have "hd body \<noteq> CHR ''-''" "hd body \<noteq> CHR ''+''" using digit_char_value(3,4) by simp_all
  ultimately show thesis using that by blast
qed

text \<open>The three shapes of a printed 64-bit integer.\<close>

lemma FormatInt_cases:
  assumes "min_int64 \<le> n" and "n \<le> max_int64"
  obtains "n = 0" and "FormatInt n = ''0''"
  | body where "FormatInt n = (if n < 0 then CHR ''-'' # body else body)" and "list_all digit body"
    and "digits_value body = \<bar>n\<bar>" and "body \<noteq> []" and "hd body \<noteq> CHR ''-''" and "hd body \<noteq> CHR ''+''"
proof (cases "n = 0")
  case True
  then show thesis using that(1) by (simp add: FormatInt_def)
next
  case False
  then have "0 < \<bar>n\<bar>" "\<bar>n\<bar> < 10 ^ 19" using assms by simp_all
  then obtain body where body: "FormatInt \<bar>n\<bar> = body" "FormatInt (- \<bar>n\<bar>) = CHR ''-'' # body" "list_all digit body"
    "digits_value body = \<bar>n\<bar>" "body \<noteq> []" "hd body \<noteq> CHR ''-''" "hd body \<noteq> CHR ''+''"
    by (rule FormatInt_digits)
  have "FormatInt n = (if n < 0 then CHR ''-'' # body else body)"
    using body(1,2) by (cases "n < 0") simp_all
  with that(2) body(3-7) show thesis by blast
qed

lemma FormatInt_nonempty:
  assumes "min_int64 \<le> n" and "n \<le> max_int64"
  shows "FormatInt n \<noteq> []"
  using assms by (cases rule: FormatInt_cases) (simp_all split: if_splits)

text \<open>Printing and parsing of 64-bit integers are inverse, at both ends of the range.\<close>

lemma Atoi_FormatInt:
  assumes "min_int64 \<le> n" and "n \<le> max_int64"
  shows "Atoi (FormatInt n) = Some n"
  using assms
proof (cases rule: FormatInt_cases)
  case 1
  then show ?thesis by (simp add: Atoi_def Let_def digit_def digits_value_def)
next
  case (2 body)
  with assms show ?thesis by (cases "n < 0") (simp_all add: Atoi_def Let_def)
qed

section \<open>Valid requests\<close>

lemma KlineRequest_None:
  "KlineRequest request exchange = None \<longleftrightarrow>
     (let query = rq_Query request; series = q_Series query; scope = se_Scope series in
      sc_Exchange scope = exchange \<and> Market_Valid (sc_Market scope) \<and> se_Symbol series \<noteq> []
    \<and> (\<exists>filt. SelectSnapshot [scope] \<lparr>sq_Exchange = sc_Exchange scope, sq_Market = sc_Market scope,
             sq_Symbol = se_Symbol series\<rparr> = Inr filt)
    \<and> 0 < rq_Limit request \<and> 0 \<le> Unix (q_From query) \<and> 0 \<le> Unix (q_To query)
    \<and> (\<exists>calendar. request_calendar request = Inr calendar
         \<and> CountSlots calendar (q_From query) (q_To query) (rq_Limit request) = Inr (rq_Limit request)))"
  unfolding KlineRequest_def Let_def by (auto split: sum.splits if_splits)

section \<open>What the service relies on\<close>

text \<open>
  A candle provider returns a page only for a request that passed the shape check, and the page is
  a normalization of some answer. The repository accepts every such page: that is proved once, and both
  exchanges provide the contract.
\<close>

locale candle_provider =
  fixes D :: "'d decimals"
    and exch :: Exchange
    and fetch_page :: "ctx \<Rightarrow> Request \<Rightarrow> 'd Stored list result"
  assumes page_checked: "fetch_page ctx request = Inr page \<Longrightarrow> KlineRequest request exch = None"
    and page_normalized: "fetch_page ctx request = Inr page \<Longrightarrow>
      \<exists>k sources startedAt fetchedAt. normalize_Klines D ctx k request sources startedAt fetchedAt = Inr page"
begin

lemma page_rows:
  assumes "fetch_page ctx request = Inr page"
  obtains calendar startedAt fetchedAt where "request_calendar request = Inr calendar"
    and "sorted_wrt (<) (map row_open page)" and "int (length page) \<le> rq_Limit request"
    and "\<forall>row \<in> set page. good_candle D request calendar (st_Candle row)
         \<and> st_RequestStartedAt row = startedAt \<and> k_FetchedAt (st_Candle row) = fetchedAt"
    and "\<not> IsZero startedAt" and "\<not> IsZero fetchedAt" and "startedAt \<le> fetchedAt"
proof -
  obtain k sources startedAt fetchedAt where "normalize_Klines D ctx k request sources startedAt fetchedAt = Inr page"
    using page_normalized [OF assms] by blast
  then show thesis by (rule normalize_page_good) (rule that)
qed

lemma page_series:
  assumes "fetch_page ctx request = Inr page" and "row \<in> set page"
  shows "row_series row = q_Series (rq_Query request)"
proof -
  obtain calendar where "good_candle D request calendar (st_Candle row)"
    by (rule page_rows [OF assms(1)]) (use assms(2) in blast)
  then show ?thesis by (simp add: good_candle_def row_series_def Let_def)
qed

lemma page_admissible:
  assumes page: "fetch_page ctx request = Inr page" and row: "row \<in> set page"
    and cal: "request_calendar request = Inr calendar"
    and cutoff: "HistoryCutoff calendar now history = Inr cutoff"
    and current: "q_To (rq_Query request) \<le> slot_start calendar (slot_index calendar now + 1)"
  shows "admissible now history row"
proof -
  note req = page_checked [OF page, unfolded KlineRequest_None Let_def]
  have wf: "cal_wf calendar" using cal by (rule NewCalendar_wf)
  obtain c startedAt fetchedAt where c: "request_calendar request = Inr c"
    and rows: "\<forall>row \<in> set page. good_candle D request c (st_Candle row)
      \<and> st_RequestStartedAt row = startedAt \<and> k_FetchedAt (st_Candle row) = fetchedAt"
    and times: "\<not> IsZero startedAt" "\<not> IsZero fetchedAt" "startedAt \<le> fetchedAt"
    by (rule page_rows [OF page])
  have good: "good_candle D request calendar (st_Candle row)"
    and stamps: "st_RequestStartedAt row = startedAt" "k_FetchedAt (st_Candle row) = fetchedAt"
    using rows row c cal by auto
  have close: "Next calendar (row_open row) = Inr (k_CloseTime (st_Candle row))"
    and range: "q_From (rq_Query request) \<le> row_open row" "row_open row < q_To (rq_Query request)"
    using good by (simp_all add: good_candle_def Let_def)
  obtain j where j: "row_open row = slot_start calendar j" using Next_ok [OF wf close] by metis
  have "slot_start calendar j < slot_start calendar (slot_index calendar now + 1)" using range(2) current j by linarith
  then have "j \<le> slot_index calendar now" using wf by (simp add: cal.start_less_iff)
  then have now: "row_open row \<le> now" using cal.index_le [OF wf] j by simp
  have unix: "0 \<le> Unix (row_open row)"
    using req range(1) unfolding Unix_def by (meson order_trans zdiv_mono1 zero_less_numeral)
  have "validateScope (se_Scope (row_series row)) = None"
    using NewCalendar_valid [OF cal] page_series [OF page row] by (simp add: validateScope_def)
  then have "seriesCalendar (row_series row) = Inr calendar"
    using req cal page_series [OF page row] by (simp add: seriesCalendar_Inr)
  with close cutoff times stamps now unix show ?thesis by (auto simp: admissible_def)
qed

lemma page_accepted:
  assumes page: "fetch_page ctx request = Inr page"
    and "request_calendar request = Inr calendar" and "HistoryCutoff calendar now (kr_historyCandles r) = Inr cutoff"
    and "q_To (rq_Query request) \<le> slot_start calendar (slot_index calendar now + 1)"
  shows "snd (UpsertMany cp background now r page) = None"
proof -
  have "\<forall>row \<in> set page. admissible now (kr_historyCandles r) row"
    using page_admissible [OF page _ assms(2-4)] by blast
  moreover have "distinct (map row_open page)" by (rule page_rows [OF page]) (simp add: strict_sorted_iff)
  then have "distinct (map (\<lambda>row. (row_series row, row_open row)) page)" by (auto simp: distinct_map inj_on_def)
  ultimately show ?thesis by (simp add: UpsertMany_accepts)
qed

lemma batch_lookup:
  assumes page: "fetch_page ctx request = Inr page" and row: "row \<in> set page"
  shows "map_of (batch cp page) (q_Series (rq_Query request), row_open row) = Some (row_stored cp row)"
proof -
  have "distinct (map row_open page)" by (rule page_rows [OF page]) (simp add: strict_sorted_iff)
  then have "distinct (map fst (batch cp page))" by (auto simp: batch_def distinct_map inj_on_def)
  moreover have "((q_Series (rq_Query request), row_open row), row_stored cp row) \<in> set (batch cp page)"
    using row page_series [OF page row] by (auto simp: batch_def image_iff intro!: bexI [of _ row])
  ultimately show ?thesis by (rule map_of_is_SomeI)
qed

end

lemma binance_GetKlines_Inr:
  assumes "binance_GetKlines D ctx clients request = Inr page"
  shows "KlineRequest request ExchangeBinance = None"
    and "\<exists>k sources startedAt fetchedAt. normalize_Klines D ctx k request sources startedAt fetchedAt = Inr page"
  using assms by (auto simp: binance_GetKlines_def Let_def split: option.splits sum.splits if_splits)

lemma bybit_GetKlines_Inr:
  assumes "bybit_GetKlines D ctx client request = Inr page"
  shows "KlineRequest request ExchangeBybit = None"
    and "\<exists>k sources startedAt fetchedAt. normalize_Klines D ctx k request sources startedAt fetchedAt = Inr page"
  using assms by (auto simp: bybit_GetKlines_def Let_def split: option.splits sum.splits if_splits)

interpretation binance_candles: candle_provider D ExchangeBinance "\<lambda>ctx. binance_GetKlines D ctx clients"
  for D :: "'d decimals" and clients
  by unfold_locales (fact binance_GetKlines_Inr)+

interpretation bybit_candles: candle_provider D ExchangeBybit "\<lambda>ctx. bybit_GetKlines D ctx client"
  for D :: "'d decimals" and client
  by unfold_locales (fact bybit_GetKlines_Inr)+

section \<open>Planned pages\<close>

text \<open>The outcome of planning: a block of slots of the query, at most a page long.\<close>

lemma planned_block:
  assumes v: "validate p query now = Inr (c, n)" and reqs: "plan p query cached now refreshed = Inr reqs"
    and r: "request \<in> set reqs"
  obtains s where "q_Series (rq_Query request) = q_Series query"
    and "q_From (rq_Query request) = slot_start c s" and "q_To (rq_Query request) = slot_start c (s + rq_Limit request)"
    and "in_years (q_From (rq_Query request))" and "in_years (q_To (rq_Query request))"
    and "1 \<le> rq_Limit request" and "rq_Limit request \<le> pl_pageLimit p"
    and "q_From query \<le> q_From (rq_Query request)" and "q_To (rq_Query request) \<le> q_To query"
proof -
  obtain i ks where i: "cal_wf c" "q_From query = slot_start c i" "q_To query = slot_start c (i + n)"
    "in_years (q_From query)" "in_years (q_To query)" "0 \<le> n"
    and ks: "sorted_wrt (<) ks" "set ks \<subseteq> {0..<n}"
    and all: "reqs = map (page_request query c i) (pages (pl_pageLimit p) ks None)"
    by (rule plan_pages [OF v reqs])
  note cover = pages_cover [OF ks(1) validate_calendar(3) [OF v]]
  from r obtain a b where ab: "request = page_request query c i (a, b)" "page_ok (pl_pageLimit p) (set ks) (a, b)"
    using cover(2) by (force simp: all)
  from ab(2) ks(2) have le: "a \<le> b" "b - a < pl_pageLimit p" "0 \<le> a" "b < n" by (auto simp: page_ok_def)
  have years: "in_years (slot_start c (i + k))" if "0 \<le> k" "k \<le> n" for k
    using in_years_between [OF i(1) _ _ that] i by simp
  have ends: "q_From (rq_Query request) = slot_start c (i + a)" "rq_Limit request = b - a + 1"
    "q_To (rq_Query request) = slot_start c (i + (b + 1))" "q_Series (rq_Query request) = q_Series query"
    by (simp_all add: ab(1) page_request_def add.assoc)
  show thesis
  proof (rule that [of "i + a"])
    show "q_To (rq_Query request) = slot_start c (i + a + rq_Limit request)" by (simp add: ends algebra_simps)
    show "q_From query \<le> q_From (rq_Query request)" "q_To (rq_Query request) \<le> q_To query"
      using le by (simp_all add: ends i(2,3) cal.start_le_iff [OF i(1)])
    show "in_years (q_From (rq_Query request))" "in_years (q_To (rq_Query request))"
      unfolding ends using le by (auto intro!: years)
  qed (use ends le in simp_all)
qed

lemma planned_KlineRequest:
  assumes v: "validate p query now = Inr (c, n)" and reqs: "plan p query cached now refreshed = Inr reqs"
    and r: "request \<in> set reqs"
  shows "KlineRequest request (sc_Exchange (pl_scope p)) = None"
proof -
  obtain s where s: "q_Series (rq_Query request) = q_Series query"
    "q_From (rq_Query request) = slot_start c s" "q_To (rq_Query request) = slot_start c (s + rq_Limit request)"
    "in_years (q_From (rq_Query request))" "in_years (q_To (rq_Query request))" "1 \<le> rq_Limit request"
    "q_From query \<le> q_From (rq_Query request)"
    by (rule planned_block [OF v reqs r])
  note cal = validate_calendar [OF v]
  have wf: "cal_wf c" using cal(1) by (rule NewCalendar_wf)
  have count: "CountSlots c (q_From (rq_Query request)) (q_To (rq_Query request)) (rq_Limit request) = Inr (rq_Limit request)"
    using cal.count_start [OF wf, of s "s + rq_Limit request" "rq_Limit request"] s by simp
  have from0: "0 \<le> Unix (q_From (rq_Query request))"
    using cal(6) s(7) unfolding Unix_def by (meson order_trans zdiv_mono1 zero_less_numeral)
  have "q_From (rq_Query request) \<le> q_To (rq_Query request)"
    using s(6) by (simp add: s(2,3) cal.start_le_iff [OF wf])
  with from0 have to0: "0 \<le> Unix (q_To (rq_Query request))"
    unfolding Unix_def by (meson order_trans zdiv_mono1 zero_less_numeral)
  obtain filt where "SelectSnapshot [se_Scope (q_Series query)] \<lparr>sq_Exchange = sc_Exchange (se_Scope (q_Series query)),
      sq_Market = sc_Market (se_Scope (q_Series query)), sq_Symbol = se_Symbol (q_Series query)\<rparr> = Inr filt"
    using v cal(4) by (auto simp: validate_def Let_def split: if_splits sum.splits)
  with count from0 to0 s(1,6) cal(1,4,5) NewCalendar_valid [OF cal(1)] show ?thesis
    by (simp add: KlineRequest_None)
qed

text \<open>The call a provider makes for a request: the accounting scope and the request it resolves.\<close>

definition provider_interval :: "Request \<Rightarrow> string" where
  "provider_interval request =
     (let series = q_Series (rq_Query request) in
      if sc_Exchange (se_Scope series) = ExchangeBinance
      then binance_klineInterval (sc_Market (se_Scope series)) (se_Interval series)
      else bybit_klineInterval (se_Interval series))"

definition provider_call :: "Request \<Rightarrow> upstream_Scope \<times> request" where
  "provider_call request =
     (let scope = se_Scope (q_Series (rq_Query request)); interval = provider_interval request in
      if sc_Exchange scope = ExchangeBinance
      then (if sc_Market scope = MarketLinear then BinanceLinear else BinanceSpot,
        \<lparr>r_Get = True, r_Body = False, r_Path = binance_kline_path request,
         r_Query = Some (binance_kline_parameters request interval)\<rparr>)
      else (Bybit, \<lparr>r_Get = True, r_Body = False, r_Path = ''/v5/market/kline'',
         r_Query = Some (bybit_kline_parameters request interval)\<rparr>))"

definition provider_timeframes :: "Scope \<Rightarrow> Timeframe list result" where
  "provider_timeframes scope =
     (if sc_Exchange scope = ExchangeBinance then binance_SupportedTimeframes (sc_Market scope)
      else bybit_SupportedTimeframes (sc_Market scope))"

lemma UnixMilli_range: "in_years t \<Longrightarrow> min_int64 \<le> UnixMilli t - 1 \<and> UnixMilli t \<le> max_int64"
  unfolding in_years_def UnixMilli_def minSeconds_def maxSeconds_def by auto

lemma provider_call_cost:
  assumes req: "KlineRequest request (sc_Exchange (se_Scope (q_Series (rq_Query request)))) = None"
    and interval: "provider_interval request \<noteq> []"
    and limit: "rq_Limit request \<le> maximum" "maximum \<le> max_int64"
    and years: "in_years (q_From (rq_Query request))" "in_years (q_To (rq_Query request))"
  shows "\<exists>c. resolveCost (fst (provider_call request)) (snd (provider_call request)) maximum = Inr c
    \<and> cost_operation c = Klines \<and> 0 \<le> cost_weight c \<and> cost_weight c \<le> 10"
proof -
  let ?series = "q_Series (rq_Query request)"
  note req' = req [unfolded KlineRequest_None Let_def]
  have pos: "0 < rq_Limit request" using req' by simp
  then have range: "min_int64 \<le> rq_Limit request" "rq_Limit request \<le> max_int64" using limit by simp_all
  note limit' = pos Atoi_FormatInt [OF range] FormatInt_nonempty [OF range]
  have times: "FormatInt (UnixMilli (q_From (rq_Query request))) \<noteq> []" "FormatInt (UnixMilli (q_To (rq_Query request)) - 1) \<noteq> []"
    using UnixMilli_range [OF years(1)] UnixMilli_range [OF years(2)] by (simp_all add: FormatInt_nonempty)
  have sym: "se_Symbol ?series \<noteq> []" using req' by simp
  have market: "sc_Market (se_Scope ?series) = ''spot'' \<or> sc_Market (se_Scope ?series) = ''linear''"
    using req' by (simp add: Market_Valid_def)
  have exch: "sc_Exchange (se_Scope ?series) = ''binance'' \<or> sc_Exchange (se_Scope ?series) = ''bybit''"
    using req' NewCalendar_valid by (force simp: Exchange_Valid_def)
  note calls = provider_call_def binance_kline_path_def binance_kline_parameters_def bybit_kline_parameters_def
    resolveCost_def parseQuery_def path_cost_def query_Get_def plain_cost_def Let_def
  from exch market show ?thesis
    using limit limit' times sym interval by (elim disjE) (simp_all add: calls)
qed

lemma supported_interval:
  assumes "provider_timeframes (se_Scope (q_Series (rq_Query request))) = Inr frames"
    and "se_Interval (q_Series (rq_Query request)) \<in> set frames"
  shows "provider_interval request \<noteq> []"
proof (cases "sc_Exchange (se_Scope (q_Series (rq_Query request))) = ExchangeBinance")
  case True
  then show ?thesis using assms
    by (auto simp: provider_timeframes_def provider_interval_def binance_SupportedTimeframes_def Let_def split: if_splits)
next
  case False
  have all: "\<forall>t \<in> set (map fst bybit_klineIntervals). bybit_klineInterval t \<noteq> []" by code_simp
  from False assms(1) have "frames = map fst bybit_klineIntervals"
    by (simp add: provider_timeframes_def bybit_SupportedTimeframes_def split: if_splits)
  with all assms(2) have "bybit_klineInterval (se_Interval (q_Series (rq_Query request))) \<noteq> []" by blast
  with False show ?thesis by (simp add: provider_interval_def Let_def)
qed

text \<open>A client is asked only for the call of the request.\<close>

lemma GetKlines_call:
  assumes "KlineRequest request (sc_Exchange (se_Scope (q_Series (rq_Query request)))) = None"
  shows "sc_Exchange (se_Scope (q_Series (rq_Query request))) = ExchangeBinance \<Longrightarrow>
      clients (sc_Market (se_Scope (q_Series (rq_Query request)))) = Some fetch \<Longrightarrow>
      provider_interval request \<noteq> [] \<Longrightarrow> ctx 0 = None \<Longrightarrow>
      fetch (r_Path (snd (provider_call request))) (the (r_Query (snd (provider_call request)))) = Inl e \<Longrightarrow>
      binance_GetKlines D ctx clients request = Inl e"
    and "sc_Exchange (se_Scope (q_Series (rq_Query request))) = ExchangeBybit \<Longrightarrow>
      provider_interval request \<noteq> [] \<Longrightarrow> ctx 0 = None \<Longrightarrow>
      bybit_Fetch send (r_Path (snd (provider_call request))) (the (r_Query (snd (provider_call request)))) = Inl e \<Longrightarrow>
      bybit_GetKlines D ctx (Some send) request = Inl e"
proof -
  note req = assms [unfolded KlineRequest_None Let_def]
  note defs = provider_call_def provider_interval_def Let_def
  show "binance_GetKlines D ctx clients request = Inl e"
    if "sc_Exchange (se_Scope (q_Series (rq_Query request))) = ExchangeBinance"
      "clients (sc_Market (se_Scope (q_Series (rq_Query request)))) = Some fetch" "provider_interval request \<noteq> []" "ctx 0 = None"
      "fetch (r_Path (snd (provider_call request))) (the (r_Query (snd (provider_call request)))) = Inl e"
    using that req assms by (simp add: defs binance_GetKlines_def)
  show "bybit_GetKlines D ctx (Some send) request = Inl e"
    if "sc_Exchange (se_Scope (q_Series (rq_Query request))) = ExchangeBybit" "provider_interval request \<noteq> []" "ctx 0 = None"
      "bybit_Fetch send (r_Path (snd (provider_call request))) (the (r_Query (snd (provider_call request)))) = Inl e"
    using that req assms by (simp add: defs bybit_GetKlines_def)
qed

section \<open>Properties\<close>

text \<open>
  C27. Planner, candle provider and upstream accounting agree on what a page is. For a planner whose
  intervals are those its provider supports, every planned request passes the provider's shape check, has
  an interval name of the exchange, and the one call the provider makes for it resolves to a candle cost
  within the planner's page limit, with a weight of at most ten.
\<close>

theorem planned_pages_are_served:
  assumes "validate p query now = Inr (c, n)" and "plan p query cached now refreshed = Inr reqs"
    and "request \<in> set reqs" and "provider_timeframes (pl_scope p) = Inr (pl_supported p)"
    and "pl_pageLimit p \<le> max_int64"
  shows "KlineRequest request (sc_Exchange (pl_scope p)) = None \<and> provider_interval request \<noteq> []
    \<and> (\<exists>cost. resolveCost (fst (provider_call request)) (snd (provider_call request)) (pl_pageLimit p) = Inr cost
         \<and> cost_operation cost = Klines \<and> 0 \<le> cost_weight cost \<and> cost_weight cost \<le> 10)"
proof -
  obtain s where s: "q_Series (rq_Query request) = q_Series query"
    "in_years (q_From (rq_Query request))" "in_years (q_To (rq_Query request))" "rq_Limit request \<le> pl_pageLimit p"
    by (rule planned_block [OF assms(1-3)])
  have scope: "se_Scope (q_Series query) = pl_scope p" by (rule validate_calendar(4) [OF assms(1)])
  note req = planned_KlineRequest [OF assms(1-3)]
  have "se_Interval (q_Series query) \<in> set (pl_supported p)"
    using assms(1) by (auto simp: validate_def Let_def split: if_splits sum.splits)
  with assms(4) s(1) scope have interval: "provider_interval request \<noteq> []"
    using supported_interval [of request "pl_supported p"] by simp
  have "KlineRequest request (sc_Exchange (se_Scope (q_Series (rq_Query request)))) = None"
    using req s(1) scope by simp
  from provider_call_cost [OF this interval s(4) assms(5) s(2,3)] req interval show ?thesis by blast
qed

definition served_planner :: Planner where
  "served_planner = ex_planner\<lparr>pl_supported := projr (provider_timeframes (pl_scope ex_planner))\<rparr>"

theorem planned_pages_are_served_witness:
  "\<exists>reqs. plan served_planner ex_query ([] :: int Stored list) (ex_open 3 + 5) [] = Inr reqs \<and> length reqs = 2
    \<and> KlineRequest (hd reqs) ''binance'' = None \<and> provider_interval (hd reqs) \<noteq> []"
proof -
  have v: "validate served_planner ex_query (ex_open 3 + 5) = Inr (ex_calendar, 4)" by code_simp
  have p: "\<not> isl (plan served_planner ex_query ([] :: int Stored list) (ex_open 3 + 5) [])
      \<and> length (projr (plan served_planner ex_query ([] :: int Stored list) (ex_open 3 + 5) [])) = 2" by code_simp
  then obtain reqs where reqs: "plan served_planner ex_query ([] :: int Stored list) (ex_open 3 + 5) [] = Inr reqs" "length reqs = 2"
    by (cases "plan served_planner ex_query ([] :: int Stored list) (ex_open 3 + 5) []") auto
  have t: "provider_timeframes (pl_scope served_planner) = Inr (pl_supported served_planner)" by code_simp
  have l: "pl_pageLimit served_planner \<le> max_int64" by code_simp
  have h: "hd reqs \<in> set reqs" using reqs(2) by (cases reqs) auto
  have "sc_Exchange (pl_scope served_planner) = ''binance''" by code_simp
  with planned_pages_are_served [OF v reqs(1) h t l] reqs show ?thesis by auto
qed

text \<open>
  C28. A page that a provider of either exchange returns is accepted by the candle repository as a whole, and each
  of its rows is merged: at its slot the repository holds the stronger of the stored and the fetched evidence,
  or nothing if the slot lies before the retention mark. The clock reading of the merge only has
  to place the end of the page no later than the end of the current slot, which is how pages are planned.
\<close>

theorem provider_page_is_stored:
  assumes page: "binance_GetKlines D ctx clients request = Inr page \<or> bybit_GetKlines D ctx client request = Inr page"
    and wf: "kr_wf r" and cal: "request_calendar request = Inr calendar"
    and cutoff: "HistoryCutoff calendar now (kr_historyCandles r) = Inr cutoff"
    and current: "Floor calendar now = Inr current" "Next calendar current = Inr later" "q_To (rq_Query request) \<le> later"
  shows "snd (UpsertMany cp background now r page) = None
    \<and> (\<forall>row \<in> set page. candle_at (fst (UpsertMany cp background now r page)) (q_Series (rq_Query request)) (row_open row) =
         (if row_open row < raised_mark now (kr_historyCandles r) (series_scope (q_Series (rq_Query request)))
              (map_of (kr_cutoffs r) (series_scope (q_Series (rq_Query request))))
          then None
          else absorb (candle_at r (q_Series (rq_Query request)) (row_open row)) (Some (row_stored cp row))))"
proof -
  have cwf: "cal_wf calendar" using cal by (rule NewCalendar_wf)
  have "current = slot_start calendar (slot_index calendar now)" "in_years current"
    using current(1) cal.floor_eq [OF cwf, of now] by (auto split: if_splits)
  then have "later = slot_start calendar (slot_index calendar now + 1)"
    using current(2) Next_start [OF cwf, of "slot_index calendar now"] by (auto split: if_splits)
  with current(3) have ends: "q_To (rq_Query request) \<le> slot_start calendar (slot_index calendar now + 1)" by simp
  have ok: "snd (UpsertMany cp background now r page) = None"
    using page binance_candles.page_accepted [OF _ cal cutoff ends] bybit_candles.page_accepted [OF _ cal cutoff ends] by blast
  have ser: "row_series row = q_Series (rq_Query request)" if "row \<in> set page" for row
    using page that binance_candles.page_series bybit_candles.page_series by blast
  have got: "map_of (batch cp page) (q_Series (rq_Query request), row_open row) = Some (row_stored cp row)"
    if "row \<in> set page" for row
    using page that binance_candles.batch_lookup [where cp = cp] bybit_candles.batch_lookup [where cp = cp] by blast
  show ?thesis
  proof (intro conjI ballI ok)
    fix row assume row: "row \<in> set page"
    then have "q_Series (rq_Query request) \<in> row_series ` set page" using ser by force
    with got [OF row] show "candle_at (fst (UpsertMany cp background now r page)) (q_Series (rq_Query request)) (row_open row) =
         (if row_open row < raised_mark now (kr_historyCandles r) (series_scope (q_Series (rq_Query request)))
              (map_of (kr_cutoffs r) (series_scope (q_Series (rq_Query request))))
          then None
          else absorb (candle_at r (q_Series (rq_Query request)) (row_open row)) (Some (row_stored cp row)))"
      by (simp add: UpsertMany_effect(4) [OF wf ok])
  qed
qed

definition demo_client :: "RawMessage list list client" where
  "demo_client path parameters = Inr \<lparr>fe_Body = Some demo_tuples, fe_StartedAt = ex_open 2, fe_FetchedAt = ex_open 2 + 7\<rparr>"




lemma demo_GetKlines:
  "binance_GetKlines whole_decimals background (\<lambda>_. Some demo_client) demo_page =
     normalize_Klines whole_decimals background 1 demo_page demo_tuples (ex_open 2) (ex_open 2 + 7)"
proof -
  have req: "KlineRequest demo_page ''binance'' = None" by code_simp
  have interval: "binance_klineInterval ''linear'' ''1m'' = ''1m''" by code_simp
  have scope: "se_Scope (q_Series (rq_Query demo_page)) = \<lparr>sc_Exchange = ''binance'', sc_Market = ''linear''\<rparr>"
    "se_Interval (q_Series (rq_Query demo_page)) = ''1m''"
    by (simp_all add: demo_page_def ex_series_def)
  show ?thesis
    by (simp add: binance_GetKlines_def scope req interval demo_client_def Market_Valid_def)
qed

theorem provider_page_is_stored_witness:
  "snd (UpsertMany (\<lambda>d. d) background (ex_open 2 + 9) \<lparr>kr_series = [], kr_cutoffs = [], kr_historyCandles = 5\<rparr>
     (projr (binance_GetKlines whole_decimals background (\<lambda>_. Some demo_client) demo_page))) = None"
proof -
  let ?out = "binance_GetKlines whole_decimals background (\<lambda>_. Some demo_client) demo_page"
  have "\<not> isl (normalize_Klines whole_decimals background 1 demo_page demo_tuples (ex_open 2) (ex_open 2 + 7))" by code_simp
  then have "\<not> isl ?out" by (simp add: demo_GetKlines)
  then have "?out = Inr (projr ?out)" by simp
  then have page: "?out = Inr (projr ?out) \<or> bybit_GetKlines whole_decimals background None demo_page = Inr (projr ?out)" by (rule disjI1)
  have cal: "request_calendar demo_page = Inr ex_calendar" unfolding demo_page_def ex_series_def by code_simp
  have "HistoryCutoff ex_calendar (ex_open 2 + 9) 5 = Inr (ex_open (-3))" by code_simp
  then have cutoff: "HistoryCutoff ex_calendar (ex_open 2 + 9) (kr_historyCandles \<lparr>kr_series = [] :: (Series, (time, int storedCandle) gomap) gomap,
      kr_cutoffs = [], kr_historyCandles = 5\<rparr>) = Inr (ex_open (-3))" by simp
  have current: "Floor ex_calendar (ex_open 2 + 9) = Inr (ex_open 2)" by code_simp
  have later: "Next ex_calendar (ex_open 2) = Inr (ex_open 3)" by code_simp
  have ends: "q_To (rq_Query demo_page) \<le> ex_open 3" by code_simp
  show ?thesis
    by (rule provider_page_is_stored [OF page kr_wf_empty cal cutoff current later ends, THEN conjunct1])
qed

end
