(* ===== verification/Current_Adapters.thy ===== *)
theory Current_Adapters
  imports Kline_Adapters
begin

text \<open>
  The providers of tickers and market statistics, \<open>current.go\<close> under
  \<open>src/internal/infrastructure/exchange/binance\<close> and \<open>bybit\<close>.

  A call polls its context in several callees, one after the other; \<open>ctxs i\<close> is the context as the
  \<open>i\<close>-th of them polls it. Log lines have no effect on the result and are left out.
\<close>

section \<open>Definitions\<close>

subsection \<open>Binance\<close>

definition binance_Capabilities :: ExchangeCapabilities where
  "binance_Capabilities = \<lparr>MarketStatsWithTicker = False, MarketStatsWindows = [24 * Hour]\<rparr>"

definition fetchCurrent :: "Row list client \<Rightarrow> string \<Rightarrow> url_Values \<Rightarrow> (Row list \<times> time) result" where
  "fetchCurrent client path parameters =
     (case client path parameters of
        Inl e \<Rightarrow> Inl e
      | Inr response \<Rightarrow>
        (case fe_Body response of
           None \<Rightarrow> Inl (Invalid ''current data envelope'')
         | Some rows \<Rightarrow> Inr (rows, fe_FetchedAt response)))"

definition binance_GetMarketStats :: "'d decimals \<Rightarrow> ctx \<Rightarrow> (Market \<Rightarrow> Row list client option) \<Rightarrow> Market \<Rightarrow> duration
    \<Rightarrow> 'd MarketStats list result" where
  "binance_GetMarketStats D ctx clients market window =
     (if window \<noteq> 24 * Hour then Inl (App ErrUnsupportedWindow)
      else case clients market of
        None \<Rightarrow> Inl (App ErrUnsupportedOperation)
      | Some client \<Rightarrow>
        (case (if market = MarketLinear then fetchCurrent client ''/fapi/v1/ticker/24hr'' []
               else fetchCurrent client ''/api/v3/ticker/24hr'' [(''type'', [''FULL''])]) of
           Inl e \<Rightarrow> Inl e
         | Inr (rows, fetchedAt) \<Rightarrow>
             Statistics D ctx 0 rows \<lparr>sc_Exchange = ExchangeBinance, sc_Market = market\<rparr> fetchedAt))"



text \<open>One turn of the loop of \<open>normalizeTickers\<close>.\<close>

definition binance_ticker :: "'d decimals \<Rightarrow> (string, Row) gomap \<Rightarrow> (string, Row) gomap \<Rightarrow> Market
    \<Rightarrow> (string, ContractType) gomap \<Rightarrow> time \<Rightarrow> Row \<Rightarrow> 'd Ticker result" where
  "binance_ticker D books funding market contracts fetchedAt price =
     (case Row_Symbol price of
        Inl e \<Rightarrow> Inl e
      | Inr symbol \<Rightarrow>
        (case Row_Decimal D price ''price'' True False of
           Inl e \<Rightarrow> Inl e
         | Inr latest \<Rightarrow>
           (case Row_Quote D (gget [] books symbol) ''bidPrice'' ''bidQty'' of
              Inl e \<Rightarrow> Inl e
            | Inr (bidPrice, bidSize) \<Rightarrow>
              (case Row_Quote D (gget [] books symbol) ''askPrice'' ''askQty'' of
                 Inl e \<Rightarrow> Inl e
               | Inr (askPrice, askSize) \<Rightarrow>
                 (case Row_Funding D (gget [] funding symbol) market (gget [] contracts symbol) ''lastFundingRate'' of
                    Inl e \<Rightarrow> Inl e
                  | Inr (rate, due) \<Rightarrow> Inr \<lparr>
                      tick_Exchange = ExchangeBinance, tick_Market = market, tick_Symbol = symbol,
                      tick_LastPrice = the latest, tick_BidPrice = bidPrice, tick_BidSize = bidSize,
                      tick_AskPrice = askPrice, tick_AskSize = askSize, tick_FundingRate = rate,
                      tick_NextFundingAt = due, tick_FetchedAt = fetchedAt\<rparr>)))))"


definition rows_of :: "'a list result \<Rightarrow> 'a list" where
  "rows_of res = (case res of Inl e \<Rightarrow> [] | Inr rows \<Rightarrow> rows)"

definition error_of :: "'a result \<Rightarrow> error option" where
  "error_of res = (case res of Inl e \<Rightarrow> Some e | Inr _ \<Rightarrow> None)"



subsection \<open>Bybit\<close>

definition bybit_Capabilities :: ExchangeCapabilities where
  "bybit_Capabilities = \<lparr>MarketStatsWithTicker = True, MarketStatsWindows = [24 * Hour]\<rparr>"

definition bybit_GetMarketStats :: "duration \<Rightarrow> 'd MarketStats list result" where
  "bybit_GetMarketStats window =
     (if window \<noteq> 24 * Hour then Inl (App ErrUnsupportedWindow) else Inl (App ErrUnsupportedOperation))"

record ticker_envelope =
  te_Code :: "int option"
  te_Category :: string
  te_List :: "Row list option"

definition bybit_ticker :: "'d decimals \<Rightarrow> Market \<Rightarrow> (string, ContractType) gomap \<Rightarrow> time \<Rightarrow> Row \<Rightarrow> 'd Ticker result" where
  "bybit_ticker D market contracts fetchedAt source =
     (case Row_Symbol source of
        Inl e \<Rightarrow> Inl e
      | Inr symbol \<Rightarrow>
        (case Row_Decimal D source ''lastPrice'' True False of
           Inl e \<Rightarrow> Inl e
         | Inr latest \<Rightarrow>
           (case Row_Quote D source ''bid1Price'' ''bid1Size'' of
              Inl e \<Rightarrow> Inl e
            | Inr (bidPrice, bidSize) \<Rightarrow>
              (case Row_Quote D source ''ask1Price'' ''ask1Size'' of
                 Inl e \<Rightarrow> Inl e
               | Inr (askPrice, askSize) \<Rightarrow>
                 (case Row_Funding D source market (gget [] contracts symbol) ''fundingRate'' of
                    Inl e \<Rightarrow> Inl e
                  | Inr (rate, due) \<Rightarrow> Inr \<lparr>
                      tick_Exchange = ExchangeBybit, tick_Market = market, tick_Symbol = symbol,
                      tick_LastPrice = the latest, tick_BidPrice = bidPrice, tick_BidSize = bidSize,
                      tick_AskPrice = askPrice, tick_AskSize = askSize, tick_FundingRate = rate,
                      tick_NextFundingAt = due, tick_FetchedAt = fetchedAt\<rparr>)))))"

definition bybit_normalizeTickers :: "'d decimals \<Rightarrow> ctx \<Rightarrow> Row list \<Rightarrow> Market \<Rightarrow> (string, ContractType) gomap \<Rightarrow> time
    \<Rightarrow> 'd Ticker list result" where
  "bybit_normalizeTickers D ctx sources market contracts fetchedAt =
     (case Index ctx 0 sources of
        Inl e \<Rightarrow> Inl e
      | Inr _ \<Rightarrow> normalize_loop ctx (length sources) (bybit_ticker D market contracts fetchedAt) sources)"

definition bybit_GetTickers :: "'d decimals \<Rightarrow> ('d \<Rightarrow> 'd) \<Rightarrow> (nat \<Rightarrow> ctx) \<Rightarrow> ticker_envelope client option
    \<Rightarrow> 'd instrumentRepository option \<Rightarrow> Market \<Rightarrow> 'd Collection result" where
  "bybit_GetTickers D cp ctxs client instruments market =
     (case client of
        None \<Rightarrow> Inl (App ErrUnsupportedOperation)
      | Some send \<Rightarrow>
          if \<not> Market_Valid market then Inl (App ErrUnsupportedOperation)
          else case bybit_Fetch send ''/v5/market/tickers'' [(''category'', [market])] of
            Inl e \<Rightarrow> Inl e
          | Inr response \<Rightarrow>
            (case fe_Body response of
               None \<Rightarrow> Inl (Invalid ''ticker envelope'')
             | Some envelope \<Rightarrow>
               (case (te_Code envelope, te_List envelope) of
                  (Some code, Some rows) \<Rightarrow>
                    if code \<noteq> 0 \<or> te_Category envelope \<noteq> market then Inl (Invalid ''ticker envelope'')
                    else
                      (let scope = \<lparr>sc_Exchange = ExchangeBybit, sc_Market = market\<rparr>;
                           fetchedAt = fe_FetchedAt response;
                           tickers = (case Contracts cp (ctxs 0) instruments scope of
                             Inl e \<Rightarrow> Inl e
                           | Inr contracts \<Rightarrow> bybit_normalizeTickers D (ctxs 1) rows market contracts fetchedAt);
                           stats = Statistics D (ctxs 2) 0 rows scope fetchedAt
                       in Inr \<lparr>co_FetchedAt = fetchedAt, co_Tickers = rows_of tickers, co_TickerError = error_of tickers,
                            co_HasMarketStats = True, co_MarketStats = rows_of stats, co_MarketStatsError = error_of stats\<rparr>)
                | _ \<Rightarrow> Inl (Invalid ''ticker envelope''))))"

section \<open>Ticker rows\<close>










lemma binance_ticker_bad: "binance_ticker D books funding market contracts t price = Inl e \<Longrightarrow> bad_data e"
  by (auto simp: binance_ticker_def split: sum.splits prod.splits
      dest: Row_Symbol_bad Row_Decimal_bad Row_Quote_bad Row_Funding_bad)

lemma bybit_ticker_bad: "bybit_ticker D market contracts t source = Inl e \<Longrightarrow> bad_data e"
  by (auto simp: bybit_ticker_def split: sum.splits prod.splits
      dest: Row_Symbol_bad Row_Decimal_bad Row_Quote_bad Row_Funding_bad)




lemma rows_of_simps [simp]: "rows_of (Inl e) = []" "rows_of (Inr rows) = rows"
  by (simp_all add: rows_of_def)

lemma error_of_simps [simp]: "error_of (Inl e) = Some e" "error_of (Inr rows) = None"
  by (simp_all add: error_of_def)




section \<open>Properties\<close>



definition demo_row :: "string \<Rightarrow> Row" where
  "demo_row symbol = [(''symbol'', Raw_String symbol), (''lastPrice'', Raw_String ''70''), (''prevPrice24h'', Raw_String ''65''),
     (''bid1Price'', Raw_String ''69''), (''bid1Size'', Raw_String ''2''), (''ask1Price'', Raw_String ''''), (''ask1Size'', Raw_Null),
     (''highPrice24h'', Raw_String ''75''), (''lowPrice24h'', Raw_String ''60''), (''volume24h'', Raw_String ''12''),
     (''turnover24h'', Raw_String ''800''), (''nextFundingTime'', Raw_String ''1700000040000''), (''fundingRate'', Raw_String ''-1'')]"

definition demo_tickers :: "ticker_envelope client" where
  "demo_tickers path parameters = Inr \<lparr>fe_Body = Some \<lparr>te_Code = Some 0, te_Category = ''linear'',
     te_List = Some [demo_row ''BTCUSDT'', demo_row ''ETHUSDT'']\<rparr>, fe_StartedAt = ex_open 2, fe_FetchedAt = ex_open 2 + 7\<rparr>"


text \<open>
  The two halves of a Bybit collection do not disturb each other: the statistics, their error and the
  receipt time depend only on the answer of the exchange and on the polls of their own normalization, whatever the
  instrument catalogue holds and wherever the ticker half was cancelled or failed.
\<close>

theorem bybit_statistics_independent:
  assumes "bybit_GetTickers D cp ctxs client instruments market = Inr col"
    and "bybit_GetTickers D cp ctxs' client instruments' market = Inr col'" and "ctxs' 2 = ctxs 2"
  shows "co_MarketStats col' = co_MarketStats col \<and> co_MarketStatsError col' = co_MarketStatsError col
    \<and> co_FetchedAt col' = co_FetchedAt col \<and> co_HasMarketStats col' = co_HasMarketStats col"
  using assms unfolding bybit_GetTickers_def Let_def
  by (auto split: option.splits sum.splits if_splits)

theorem bybit_statistics_independent_witness:
  "\<exists>col col'. bybit_GetTickers whole_decimals (\<lambda>d. d) (\<lambda>_. background) (Some demo_tickers) None ''linear'' = Inr col
    \<and> bybit_GetTickers whole_decimals (\<lambda>d. d) (\<lambda>i. if i = 1 then (\<lambda>_. Some Canceled) else background) (Some demo_tickers) None ''linear'' = Inr col'
    \<and> co_TickerError col' = Some Canceled \<and> co_MarketStats col' = co_MarketStats col"
proof -
  let ?a = "bybit_GetTickers whole_decimals (\<lambda>d. d) (\<lambda>_. background) (Some demo_tickers) None ''linear''"
  let ?b = "bybit_GetTickers whole_decimals (\<lambda>d. d) (\<lambda>i. if i = 1 then (\<lambda>_. Some Canceled) else background) (Some demo_tickers) None ''linear''"
  have "\<not> isl ?a" by code_simp
  then obtain col where a: "?a = Inr col" by (cases ?a) auto
  have "\<not> isl ?b \<and> co_TickerError (projr ?b) = Some Canceled" by code_simp
  then obtain col' where b: "?b = Inr col'" "co_TickerError col' = Some Canceled" by (cases ?b) auto
  from bybit_statistics_independent [OF a b(1)] have "co_MarketStats col' = co_MarketStats col" by simp
  with a b show ?thesis by blast
qed

end
