(* ===== verification/Instrument_Adapters.thy ===== *)
theory Instrument_Adapters
  imports Kline_Adapters
begin

text \<open>
  The instrument catalogues of the two exchanges: \<open>instruments.go\<close>, \<open>instruments_spot.go\<close> and
  \<open>instruments_linear.go\<close> under \<open>src/internal/infrastructure/exchange/binance\<close> and \<open>bybit\<close>.

  The catalogue loops poll the context once per source; \<open>ctx k\<close> is the \<open>k\<close>-th poll. The requests of
  the Bybit linear catalogue are numbered, because the same cursor may be answered differently a second
  time: \<open>send n\<close> answers the \<open>n\<close>-th call. Log lines are left out.
\<close>

section \<open>Binance\<close>

record instrumentFilter =
  ft_Type :: string
  ft_TickSize :: string
  ft_StepSize :: string
  ft_MinQty :: string
  ft_MaxQty :: string
  ft_MinNotional :: string
  ft_Notional :: string

record binance_instrumentRow =
  ri_Symbol :: string
  ri_BaseAsset :: string
  ri_QuoteAsset :: string
  ri_Status :: string
  ri_ContractType :: string
  ri_Filters :: "instrumentFilter list"

definition zero_filter :: instrumentFilter where
  "zero_filter = \<lparr>ft_Type = [], ft_TickSize = [], ft_StepSize = [], ft_MinQty = [], ft_MaxQty = [], ft_MinNotional = [],
     ft_Notional = []\<rparr>"

text \<open>The body is the \<open>symbols\<close> field of the answer.\<close>

definition fetchInstruments :: "binance_instrumentRow list client option \<Rightarrow> string \<Rightarrow> url_Values \<Rightarrow> binance_instrumentRow list result" where
  "fetchInstruments client path parameters =
     (case client of
        None \<Rightarrow> Inl (App ErrUnsupportedOperation)
      | Some fetch \<Rightarrow>
        (case fetch path parameters of
           Inl e \<Rightarrow> Inl e
         | Inr response \<Rightarrow>
           (case fe_Body response of None \<Rightarrow> Inl (Invalid ''symbols'') | Some sources \<Rightarrow> Inr sources)))"

fun normalizeCatalog :: "ctx \<Rightarrow> nat \<Rightarrow> ('s \<Rightarrow> 'd Instrument result) \<Rightarrow> 's list \<Rightarrow> string list \<Rightarrow> 'd Instrument list result" where
  "normalizeCatalog ctx k norm_row [] seen = Inr []"
| "normalizeCatalog ctx k norm_row (source # sources) seen =
     (case ctx k of
        Some e \<Rightarrow> Inl e
      | None \<Rightarrow>
        (case norm_row source of
           Inl e \<Rightarrow> Inl e
         | Inr row \<Rightarrow>
             if inst_Symbol row \<in> set seen then Inl (Invalid ''duplicate symbol'')
             else case normalizeCatalog ctx (k + 1) norm_row sources (inst_Symbol row # seen) of
               Inl e \<Rightarrow> Inl e
             | Inr rows \<Rightarrow> Inr (row # rows)))"

definition used_filters :: "string list" where
  "used_filters = [''PRICE_FILTER'', ''LOT_SIZE'', ''MIN_NOTIONAL'', ''NOTIONAL'']"

fun selectInstrumentFilters :: "instrumentFilter list \<Rightarrow> (string, instrumentFilter) gomap \<Rightarrow> (string, instrumentFilter) gomap result" where
  "selectInstrumentFilters [] filters = Inr filters"
| "selectInstrumentFilters (filt # rest) filters =
     (if ft_Type filt \<in> set used_filters then
        (if ghas filters (ft_Type filt) then Inl (Invalid ''duplicate filter'')
         else selectInstrumentFilters rest (AList.update (ft_Type filt) filt filters))
      else selectInstrumentFilters rest filters)"

definition normalizeOrderLimits :: "'d decimals \<Rightarrow> 'd Instrument \<Rightarrow> (string, instrumentFilter) gomap \<Rightarrow> 'd Instrument result" where
  "normalizeOrderLimits D row filters =
     (let price = gget zero_filter filters ''PRICE_FILTER''; lot = gget zero_filter filters ''LOT_SIZE'' in
      case Step D (ft_TickSize price) of
        Inl e \<Rightarrow> Inl e
      | Inr tick \<Rightarrow>
        (case Step D (ft_StepSize lot) of
           Inl e \<Rightarrow> Inl e
         | Inr step \<Rightarrow>
           (case Limit D (ft_MinQty lot) of
              Inl e \<Rightarrow> Inl e
            | Inr minQty \<Rightarrow>
              (case Limit D (ft_MaxQty lot) of
                 Inl e \<Rightarrow> Inl e
               | Inr maxQty \<Rightarrow>
                 (let row' = row\<lparr>inst_PriceTick := tick, inst_QtyStep := step, inst_MinQty := minQty, inst_MaxQty := maxQty\<rparr>
                  in case Validate D row' of Some e \<Rightarrow> Inl e | None \<Rightarrow> Inr row')))))"

definition spotInstrumentStatus :: "string \<Rightarrow> InstrumentStatus" where
  "spotInstrumentStatus status =
     (if status = ''TRADING'' then InstrumentStatusTrading
      else if status \<in> {''END_OF_DAY'', ''HALT'', ''BREAK''} then InstrumentStatusHalted
      else if status = ''CANCEL_ONLY'' then InstrumentStatusCancelOnly
      else InstrumentStatusUnknown)"

definition linearInstrumentStatus :: "string \<Rightarrow> InstrumentStatus" where
  "linearInstrumentStatus status =
     (if status = ''PENDING_TRADING'' then InstrumentStatusPreLaunch
      else if status = ''TRADING'' then InstrumentStatusTrading
      else if status \<in> {''PRE_DELIVERING'', ''DELIVERING'', ''PRE_SETTLE'', ''SETTLING''} then InstrumentStatusSettling
      else if status \<in> {''DELIVERED'', ''CLOSE''} then InstrumentStatusClosed
      else if status = ''TRADING_HALT'' then InstrumentStatusHalted
      else if status = ''TRADING_CANCEL_ONLY'' then InstrumentStatusCancelOnly
      else InstrumentStatusUnknown)"

text \<open>An instrument with only its identity set; the time of update stays the zero time.\<close>

definition blank_instrument :: "'d decimals \<Rightarrow> Exchange \<Rightarrow> Market \<Rightarrow> string \<Rightarrow> string \<Rightarrow> string \<Rightarrow> InstrumentStatus \<Rightarrow> 'd Instrument" where
  "blank_instrument D exchange market symbol base quote status = \<lparr>
     inst_ContractType = ContractTypeUnknown, inst_Exchange = exchange, inst_Market = market, inst_Symbol = symbol,
     inst_BaseAsset = base, inst_QuoteAsset = quote, inst_Status = status, inst_PriceTick = dec_zero D,
     inst_QtyStep = dec_zero D, inst_MinQty = None, inst_MaxQty = None, inst_MinNotional = None,
     inst_FundingInterval = None, inst_DelistingTime = None, inst_UpdatedAt = zero_time\<rparr>"

definition binance_normalizeSpotInstrument :: "'d decimals \<Rightarrow> binance_instrumentRow \<Rightarrow> 'd Instrument result" where
  "binance_normalizeSpotInstrument D source =
     (let row = blank_instrument D ExchangeBinance MarketSpot (ri_Symbol source) (ri_BaseAsset source) (ri_QuoteAsset source)
            (spotInstrumentStatus (ri_Status source)) in
      case selectInstrumentFilters (ri_Filters source) [] of
        Inl e \<Rightarrow> Inl e
      | Inr filters \<Rightarrow>
        (case normalizeOrderLimits D row filters of
           Inl e \<Rightarrow> Inl e
         | Inr limited \<Rightarrow>
           (case Limit D (ft_MinNotional (gget zero_filter filters ''MIN_NOTIONAL'')) of
              Inl e \<Rightarrow> Inl e
            | Inr minNotional \<Rightarrow>
              (case Limit D (ft_MinNotional (gget zero_filter filters ''NOTIONAL'')) of
                 Inl e \<Rightarrow> Inl e
               | Inr other \<Rightarrow> Inr (limited\<lparr>inst_MinNotional :=
                   (case (other, minNotional) of
                      (Some x, None) \<Rightarrow> Some x
                    | (Some x, Some y) \<Rightarrow> if dec_GreaterThan D x y then Some x else Some y
                    | (None, y) \<Rightarrow> y)\<rparr>)))))"

definition binance_contract :: "string \<Rightarrow> ContractType" where
  "binance_contract kind =
     (if kind = ''PERPETUAL'' then ContractTypePerpetual
      else if kind \<in> {''CURRENT_MONTH'', ''NEXT_MONTH'', ''CURRENT_QUARTER'', ''NEXT_QUARTER'',
        ''CURRENT_QUARTER_DELIVERING'', ''NEXT_QUARTER_DELIVERING''} then ContractTypeExpiry
      else ContractTypeUnknown)"

definition binance_normalizeLinearInstrument :: "'d decimals \<Rightarrow> binance_instrumentRow \<Rightarrow> 'd Instrument result" where
  "binance_normalizeLinearInstrument D source =
     (let row = blank_instrument D ExchangeBinance MarketLinear (ri_Symbol source) (ri_BaseAsset source) (ri_QuoteAsset source)
            (linearInstrumentStatus (ri_Status source)) in
      case selectInstrumentFilters (ri_Filters source) [] of
        Inl e \<Rightarrow> Inl e
      | Inr filters \<Rightarrow>
        (case normalizeOrderLimits D row filters of
           Inl e \<Rightarrow> Inl e
         | Inr limited \<Rightarrow>
           (case Limit D (ft_Notional (gget zero_filter filters ''MIN_NOTIONAL'')) of
              Inl e \<Rightarrow> Inl e
            | Inr minNotional \<Rightarrow> Inr (limited\<lparr>inst_MinNotional := minNotional,
                inst_ContractType := binance_contract (ri_ContractType source)\<rparr>))))"

text \<open>A funding record: its symbol and its hours, a pointer.\<close>

fun parse_funding_rows :: "(string \<times> int option) list \<Rightarrow> (string, duration) gomap \<Rightarrow> (string, duration) gomap result" where
  "parse_funding_rows [] acc = Inr acc"
| "parse_funding_rows ((symbol, hours) # rows) acc =
     (case hours of
        None \<Rightarrow> Inl (Invalid ''funding metadata'')
      | Some h \<Rightarrow>
          if symbol = [] \<or> h \<le> 0 \<or> h > max_int64 sdiv Hour then Inl (Invalid ''funding metadata'')
          else if ghas acc symbol then Inl (Invalid ''duplicate funding symbol'')
          else parse_funding_rows rows (AList.update symbol (h * Hour) acc))"

definition parseFunding :: "(string \<times> int option) list option \<Rightarrow> (string, duration) gomap result" where
  "parseFunding body =
     (case body of None \<Rightarrow> Inl (Invalid ''funding metadata'') | Some rows \<Rightarrow> parse_funding_rows rows [])"

definition binance_spot_GetInstruments :: "'d decimals \<Rightarrow> ctx \<Rightarrow> binance_instrumentRow list client option \<Rightarrow> 'd Instrument list result" where
  "binance_spot_GetInstruments D ctx client =
     (case fetchInstruments client ''/api/v3/exchangeInfo'' [(''showPermissionSets'', [''false''])] of
        Inl e \<Rightarrow> Inl e
      | Inr sources \<Rightarrow> normalizeCatalog ctx 0 (binance_normalizeSpotInstrument D) sources [])"

text \<open>The linear client is asked twice, for bodies of different shape: \<open>client\<close> and \<open>funding_client\<close>.\<close>

definition binance_linear_GetInstruments :: "'d decimals \<Rightarrow> ctx \<Rightarrow> binance_instrumentRow list client option
    \<Rightarrow> (string \<times> int option) list client \<Rightarrow> 'd Instrument list result" where
  "binance_linear_GetInstruments D ctx client funding_client =
     (case fetchInstruments client ''/fapi/v1/exchangeInfo'' [] of
        Inl e \<Rightarrow> Inl e
      | Inr sources \<Rightarrow>
        (case funding_client ''/fapi/v1/fundingInfo'' [] of
           Inl e \<Rightarrow> Inl e
         | Inr response \<Rightarrow>
           (case parseFunding (fe_Body response) of
              Inl e \<Rightarrow> Inl e
            | Inr funding \<Rightarrow>
              (case normalizeCatalog ctx 0 (binance_normalizeLinearInstrument D) sources [] of
                 Inl e \<Rightarrow> Inl e
               | Inr rows \<Rightarrow> Inr (map2 (\<lambda>source row.
                   if ri_ContractType source = ''PERPETUAL''
                   then row\<lparr>inst_FundingInterval := map_of funding (ri_Symbol source)\<rparr> else row) sources rows)))))"

section \<open>Bybit\<close>

record bybit_instrumentRow =
  by_Symbol :: string
  by_BaseCoin :: string
  by_QuoteCoin :: string
  by_Status :: string
  by_ContractType :: string
  by_FundingInterval :: string
  by_DeliveryTime :: string
  by_TickSize :: string
  by_QtyStep :: string
  by_BasePrecision :: string
  by_MinOrderQty :: string
  by_MaxOrderQty :: string
  by_MaxLimitOrderQty :: string
  by_MinNotionalValue :: string
  by_MinOrderAmt :: string

record instrumentPage =
  ip_Category :: string
  ip_List :: "bybit_instrumentRow list option"
  ip_Cursor :: string

record instrument_envelope =
  ie_Code :: "int option"
  ie_Result :: instrumentPage

text \<open>The page is returned with its list, which is not nil.\<close>

definition fetchInstrumentPage :: "instrument_envelope client \<Rightarrow> url_Values \<Rightarrow> (bybit_instrumentRow list \<times> string) result" where
  "fetchInstrumentPage send parameters =
     (case bybit_Fetch send ''/v5/market/instruments-info'' parameters of
        Inl e \<Rightarrow> Inl e
      | Inr response \<Rightarrow>
        (case fe_Body response of
           None \<Rightarrow> Inl (Invalid ''instrument envelope'')
         | Some envelope \<Rightarrow>
           (case (ie_Code envelope, ip_List (ie_Result envelope)) of
              (Some code, Some rows) \<Rightarrow>
                if code \<noteq> 0 \<or> ip_Category (ie_Result envelope) \<noteq> query_Get parameters ''category''
                then Inl (Invalid ''instrument envelope'')
                else Inr (rows, ip_Cursor (ie_Result envelope))
            | _ \<Rightarrow> Inl (Invalid ''instrument envelope''))))"

definition instrumentStatus :: "string \<Rightarrow> InstrumentStatus" where
  "instrumentStatus status =
     (if status \<in> {''PreLaunch'', ''PendingOpen''} then InstrumentStatusPreLaunch
      else if status = ''Trading'' then InstrumentStatusTrading
      else if status = ''Delivering'' then InstrumentStatusSettling
      else if status = ''Closed'' then InstrumentStatusClosed
      else InstrumentStatusUnknown)"

definition normalizeInstrumentPrice :: "'d decimals \<Rightarrow> bybit_instrumentRow \<Rightarrow> Market \<Rightarrow> 'd Instrument result" where
  "normalizeInstrumentPrice D source market =
     (case Step D (by_TickSize source) of
        Inl e \<Rightarrow> Inl e
      | Inr tick \<Rightarrow> Inr ((blank_instrument D ExchangeBybit market (by_Symbol source) (by_BaseCoin source) (by_QuoteCoin source)
          (instrumentStatus (by_Status source)))\<lparr>inst_PriceTick := tick\<rparr>))"

definition bybit_normalizeSpotInstrument :: "'d decimals \<Rightarrow> bybit_instrumentRow \<Rightarrow> 'd Instrument result" where
  "bybit_normalizeSpotInstrument D source =
     (case normalizeInstrumentPrice D source MarketSpot of
        Inl e \<Rightarrow> Inl e
      | Inr row \<Rightarrow>
          if by_ContractType source \<noteq> [] then Inl (Invalid ''contract category'')
          else case Step D (by_BasePrecision source) of
            Inl e \<Rightarrow> Inl e
          | Inr step \<Rightarrow>
            (case Limit D (by_MaxLimitOrderQty source) of
               Inl e \<Rightarrow> Inl e
             | Inr maxQty \<Rightarrow>
               (case Limit D (by_MinOrderAmt source) of
                  Inl e \<Rightarrow> Inl e
                | Inr minNotional \<Rightarrow>
                  (let row' = row\<lparr>inst_QtyStep := step, inst_MaxQty := maxQty, inst_MinNotional := minNotional\<rparr>
                   in case Validate D row' of Some e \<Rightarrow> Inl e | None \<Rightarrow> Inr row'))))"

text \<open>The part of \<open>normalizeLinearInstrument\<close> that only perpetual contracts go through.\<close>

definition perpetual_times :: "bybit_instrumentRow \<Rightarrow> (duration option \<times> time option) result" where
  "perpetual_times source =
     (if by_ContractType source = ''LinearPerpetual'' then
        (case Duration (by_FundingInterval source) Minute of
           Inl e \<Rightarrow> Inl e
         | Inr interval \<Rightarrow>
           (case Delisting (by_DeliveryTime source) of Inl e \<Rightarrow> Inl e | Inr delisting \<Rightarrow> Inr (interval, delisting)))
      else Inr (None, None))"

definition bybit_contract :: "string \<Rightarrow> ContractType" where
  "bybit_contract kind =
     (if kind = ''LinearPerpetual'' then ContractTypePerpetual
      else if kind = ''LinearFutures'' then ContractTypeExpiry
      else ContractTypeUnknown)"

definition bybit_normalizeLinearInstrument :: "'d decimals \<Rightarrow> bybit_instrumentRow \<Rightarrow> 'd Instrument result" where
  "bybit_normalizeLinearInstrument D source =
     (case normalizeInstrumentPrice D source MarketLinear of
        Inl e \<Rightarrow> Inl e
      | Inr row \<Rightarrow>
          if by_ContractType source = ''InversePerpetual'' \<or> by_ContractType source = ''InverseFutures''
          then Inl (Invalid ''contract category'')
          else case Step D (by_QtyStep source) of
            Inl e \<Rightarrow> Inl e
          | Inr step \<Rightarrow>
            (case Limit D (by_MinOrderQty source) of
               Inl e \<Rightarrow> Inl e
             | Inr minQty \<Rightarrow>
               (case Limit D (by_MaxOrderQty source) of
                  Inl e \<Rightarrow> Inl e
                | Inr maxQty \<Rightarrow>
                  (case Limit D (by_MinNotionalValue source) of
                     Inl e \<Rightarrow> Inl e
                   | Inr minNotional \<Rightarrow>
                     (case perpetual_times source of
                        Inl e \<Rightarrow> Inl e
                      | Inr (interval, delisting) \<Rightarrow>
                        (let row' = row\<lparr>inst_QtyStep := step, inst_MinQty := minQty, inst_MaxQty := maxQty,
                               inst_MinNotional := minNotional, inst_FundingInterval := interval, inst_DelistingTime := delisting,
                               inst_ContractType := bybit_contract (by_ContractType source)\<rparr>
                         in case Validate D row' of Some e \<Rightarrow> Inl e | None \<Rightarrow> Inr row'))))))"

text \<open>
  The state of a catalogue run: rows, the sources seen by symbol, the symbols of the current collection, and
  the number of symbols the current page added to it.
\<close>

record 'd catalogue =
  ct_rows :: "'d Instrument list"
  ct_seen :: "(string, bybit_instrumentRow) gomap"
  ct_collection :: "string list"
  ct_progress :: nat

definition note_source :: "'d Instrument \<Rightarrow> bybit_instrumentRow \<Rightarrow> 'd catalogue \<Rightarrow> 'd catalogue result" where
  "note_source row source s =
     (let fresh = inst_Symbol row \<notin> set (ct_collection s);
          s' = (if fresh then s\<lparr>ct_progress := ct_progress s + 1, ct_collection := inst_Symbol row # ct_collection s\<rparr> else s)
      in case map_of (ct_seen s) (inst_Symbol row) of
           Some previous \<Rightarrow> if previous \<noteq> source then Inl (Invalid ''conflicting duplicate symbol'') else Inr s'
         | None \<Rightarrow> Inr (s'\<lparr>ct_seen := AList.update (inst_Symbol row) source (ct_seen s'), ct_rows := ct_rows s' @ [row]\<rparr>))"

fun page_loop :: "ctx \<Rightarrow> nat \<Rightarrow> (bybit_instrumentRow \<Rightarrow> 'd Instrument result) \<Rightarrow> bybit_instrumentRow list \<Rightarrow> 'd catalogue
    \<Rightarrow> ('d catalogue \<times> nat) result" where
  "page_loop ctx k norm_row [] s = Inr (s, k)"
| "page_loop ctx k norm_row (source # sources) s =
     (case ctx k of
        Some e \<Rightarrow> Inl e
      | None \<Rightarrow>
        (case norm_row source of
           Inl e \<Rightarrow> Inl e
         | Inr row \<Rightarrow>
           (case note_source row source s of
              Inl e \<Rightarrow> Inl e
            | Inr s' \<Rightarrow> page_loop ctx (k + 1) norm_row sources s')))"

definition bybit_spot_GetInstruments :: "'d decimals \<Rightarrow> ctx \<Rightarrow> instrument_envelope client option \<Rightarrow> 'd Instrument list result" where
  "bybit_spot_GetInstruments D ctx client =
     (case client of
        None \<Rightarrow> Inl (App ErrUnsupportedOperation)
      | Some send \<Rightarrow>
        (case fetchInstrumentPage send [(''category'', [''spot''])] of
           Inl e \<Rightarrow> Inl e
         | Inr (sources, cursor) \<Rightarrow>
             if cursor \<noteq> [] then Inl (Invalid ''pagination cursor'')
             else case page_loop ctx 0 (bybit_normalizeSpotInstrument D) sources
                 \<lparr>ct_rows = [], ct_seen = [], ct_collection = [], ct_progress = 0\<rparr> of
               Inl e \<Rightarrow> Inl e
             | Inr (s, _) \<Rightarrow> Inr (ct_rows s)))"

definition linear_parameters :: "string \<Rightarrow> string \<Rightarrow> url_Values" where
  "linear_parameters status cursor =
     [(''category'', [''linear'']), (''limit'', [''1000''])]
       @ (if status \<noteq> [] then [(''status'', [status])] else [])
       @ (if cursor \<noteq> [] then [(''cursor'', [cursor])] else [])"

text \<open>
  The inner loop of the linear catalogue, one turn per page. \<open>n\<close> numbers the calls and \<open>k\<close> the polls. The
  loop itself has no bound: fuel that runs out is \<open>None\<close>.
\<close>

fun linear_pages :: "nat \<Rightarrow> 'd decimals \<Rightarrow> ctx \<Rightarrow> (nat \<Rightarrow> instrument_envelope client) \<Rightarrow> string \<Rightarrow> string \<Rightarrow> string list
    \<Rightarrow> nat \<Rightarrow> nat \<Rightarrow> 'd catalogue \<Rightarrow> (('d catalogue \<times> nat \<times> nat) result) option" where
  "linear_pages 0 D ctx send status cursor cursors n k s = None"
| "linear_pages (Suc fuel) D ctx send status cursor cursors n k s =
     (case fetchInstrumentPage (send n) (linear_parameters status cursor) of
        Inl e \<Rightarrow> Some (Inl e)
      | Inr (sources, next_cursor) \<Rightarrow>
        (case page_loop ctx k (bybit_normalizeLinearInstrument D) sources (s\<lparr>ct_progress := 0\<rparr>) of
           Inl e \<Rightarrow> Some (Inl e)
         | Inr (s', k') \<Rightarrow>
             if (cursor \<noteq> [] \<or> next_cursor \<noteq> []) \<and> ct_progress s' = 0 then Some (Inl (Invalid ''pagination progress''))
             else if next_cursor = [] then Some (Inr (s', n + 1, k'))
             else if next_cursor \<in> set cursors then Some (Inl (Invalid ''pagination cursor''))
             else linear_pages fuel D ctx send status next_cursor (next_cursor # cursors) (n + 1) k' s'))"

fun linear_statuses :: "nat \<Rightarrow> 'd decimals \<Rightarrow> ctx \<Rightarrow> (nat \<Rightarrow> instrument_envelope client) \<Rightarrow> string list \<Rightarrow> nat \<Rightarrow> nat \<Rightarrow> 'd catalogue
    \<Rightarrow> (('d catalogue \<times> nat) result) option" where
  "linear_statuses fuel D ctx send [] n k s = Some (Inr (s, n))"
| "linear_statuses fuel D ctx send (status # statuses) n k s =
     (case linear_pages fuel D ctx send status [] [] n k (s\<lparr>ct_collection := []\<rparr>) of
        None \<Rightarrow> None
      | Some (Inl e) \<Rightarrow> Some (Inl e)
      | Some (Inr (s', n', k')) \<Rightarrow> linear_statuses fuel D ctx send statuses n' k' s')"

definition bybit_linear_GetInstruments :: "nat \<Rightarrow> 'd decimals \<Rightarrow> ctx \<Rightarrow> (nat \<Rightarrow> instrument_envelope client) option
    \<Rightarrow> ('d Instrument list result) option" where
  "bybit_linear_GetInstruments fuel D ctx client =
     (case client of
        None \<Rightarrow> Some (Inl (App ErrUnsupportedOperation))
      | Some send \<Rightarrow>
        (case linear_statuses fuel D ctx send ['''', ''PreLaunch''] 0 0
            \<lparr>ct_rows = [], ct_seen = [], ct_collection = [], ct_progress = 0\<rparr> of
           None \<Rightarrow> None
         | Some (Inl e) \<Rightarrow> Some (Inl e)
         | Some (Inr (s, _)) \<Rightarrow> Some (Inr (ct_rows s))))"

section \<open>Rows\<close>

text \<open>What a row of a catalogue promises.\<close>

definition good_instrument :: "'d decimals \<Rightarrow> Scope \<Rightarrow> 'd Instrument \<Rightarrow> bool" where
  "good_instrument D scope row \<longleftrightarrow> inst_fits scope row \<and> inst_BaseAsset row \<noteq> [] \<and> inst_QuoteAsset row \<noteq> []
   \<and> InstrumentStatus_Valid (inst_Status row)
   \<and> dec_IsPositive D (inst_PriceTick row) \<and> bounded D (inst_PriceTick row)
   \<and> dec_IsPositive D (inst_QtyStep row) \<and> bounded D (inst_QtyStep row)
   \<and> (\<forall>lo hi. inst_MinQty row = Some lo \<and> inst_MaxQty row = Some hi \<longrightarrow> \<not> dec_GreaterThan D lo hi)
   \<and> (inst_FundingInterval row \<noteq> None \<longrightarrow> inst_ContractType row = ContractTypePerpetual)
   \<and> (\<forall>d. inst_FundingInterval row = Some d \<longrightarrow> 0 < d \<and> d \<le> max_int64)"

lemma Step_good: "Step D value = Inr d \<Longrightarrow> dec_IsPositive D d \<and> bounded D d"
  by (auto simp: Step_Inr dest: Limit_Some)

lemma Validate_None:
  "Validate D row = None \<longleftrightarrow> inst_Symbol row \<noteq> [] \<and> inst_BaseAsset row \<noteq> [] \<and> inst_QuoteAsset row \<noteq> []
     \<and> (\<forall>lo hi. inst_MinQty row = Some lo \<and> inst_MaxQty row = Some hi \<longrightarrow> \<not> dec_GreaterThan D lo hi)"
  by (auto simp: Validate_def split: option.splits)

lemma statuses_valid:
  "InstrumentStatus_Valid (spotInstrumentStatus s)" "InstrumentStatus_Valid (linearInstrumentStatus s)"
  "InstrumentStatus_Valid (instrumentStatus s)"
  by (simp_all add: InstrumentStatus_Valid_def spotInstrumentStatus_def linearInstrumentStatus_def instrumentStatus_def)

lemma normalizeOrderLimits_Inr:
  assumes "normalizeOrderLimits D row filters = Inr out"
  obtains tick step lo hi where "out = row\<lparr>inst_PriceTick := tick, inst_QtyStep := step, inst_MinQty := lo, inst_MaxQty := hi\<rparr>"
    and "dec_IsPositive D tick \<and> bounded D tick" and "dec_IsPositive D step \<and> bounded D step" and "Validate D out = None"
  using assms unfolding normalizeOrderLimits_def Let_def
  by (auto split: sum.splits option.splits dest!: Step_good)

lemma binance_spot_row:
  assumes "binance_normalizeSpotInstrument D source = Inr row"
  shows "good_instrument D \<lparr>sc_Exchange = ExchangeBinance, sc_Market = MarketSpot\<rparr> row \<and> inst_Symbol row = ri_Symbol source"
proof -
  from assms obtain filters limited notional where
    limited: "normalizeOrderLimits D (blank_instrument D ExchangeBinance MarketSpot (ri_Symbol source) (ri_BaseAsset source)
      (ri_QuoteAsset source) (spotInstrumentStatus (ri_Status source))) filters = Inr limited"
    and row: "row = limited\<lparr>inst_MinNotional := notional\<rparr>"
    unfolding binance_normalizeSpotInstrument_def Let_def by (auto split: sum.splits simp del: exchange_names market_names)
  show ?thesis
    by (rule normalizeOrderLimits_Inr [OF limited])
      (auto simp: row good_instrument_def inst_fits_def blank_instrument_def Validate_None statuses_valid)
qed

lemma binance_linear_row:
  assumes "binance_normalizeLinearInstrument D source = Inr row"
  shows "good_instrument D \<lparr>sc_Exchange = ExchangeBinance, sc_Market = MarketLinear\<rparr> row \<and> inst_Symbol row = ri_Symbol source
    \<and> inst_FundingInterval row = None \<and> inst_ContractType row = binance_contract (ri_ContractType source)"
proof -
  from assms obtain filters limited notional where
    limited: "normalizeOrderLimits D (blank_instrument D ExchangeBinance MarketLinear (ri_Symbol source) (ri_BaseAsset source)
      (ri_QuoteAsset source) (linearInstrumentStatus (ri_Status source))) filters = Inr limited"
    and row: "row = limited\<lparr>inst_MinNotional := notional, inst_ContractType := binance_contract (ri_ContractType source)\<rparr>"
    unfolding binance_normalizeLinearInstrument_def Let_def by (auto split: sum.splits simp del: exchange_names market_names)
  show ?thesis
    by (rule normalizeOrderLimits_Inr [OF limited])
      (auto simp: row good_instrument_def inst_fits_def blank_instrument_def Validate_None statuses_valid)
qed

lemma normalizeInstrumentPrice_Inr:
  assumes "normalizeInstrumentPrice D source market = Inr row"
  obtains tick where "dec_IsPositive D tick \<and> bounded D tick"
    and "row = (blank_instrument D ExchangeBybit market (by_Symbol source) (by_BaseCoin source) (by_QuoteCoin source)
          (instrumentStatus (by_Status source)))\<lparr>inst_PriceTick := tick\<rparr>"
  using assms unfolding normalizeInstrumentPrice_def by (auto split: sum.splits dest!: Step_good)

lemma bybit_spot_row:
  assumes "bybit_normalizeSpotInstrument D source = Inr row"
  shows "good_instrument D \<lparr>sc_Exchange = ExchangeBybit, sc_Market = MarketSpot\<rparr> row \<and> inst_Symbol row = by_Symbol source"
proof -
  from assms obtain priced step hi notional where
    priced: "normalizeInstrumentPrice D source MarketSpot = Inr priced" and step: "Step D (by_BasePrecision source) = Inr step"
    and row: "row = priced\<lparr>inst_QtyStep := step, inst_MaxQty := hi, inst_MinNotional := notional\<rparr>" and valid: "Validate D row = None"
    unfolding bybit_normalizeSpotInstrument_def Let_def by (auto split: sum.splits option.splits if_splits)
  show ?thesis
    by (rule normalizeInstrumentPrice_Inr [OF priced])
      (use valid Step_good [OF step] in \<open>auto simp: row good_instrument_def inst_fits_def blank_instrument_def Validate_None statuses_valid\<close>)
qed

lemma perpetual_times_Inr:
  assumes "perpetual_times source = Inr (interval, delisting)"
  shows "interval \<noteq> None \<longrightarrow> by_ContractType source = ''LinearPerpetual''" and "interval = Some d \<Longrightarrow> 0 < d \<and> d \<le> max_int64"
proof -
  show "interval \<noteq> None \<longrightarrow> by_ContractType source = ''LinearPerpetual''"
    using assms by (auto simp: perpetual_times_def split: sum.splits if_splits)
  assume "interval = Some d"
  with assms have "Duration (by_FundingInterval source) Minute = Inr (Some d)"
    by (auto simp: perpetual_times_def split: sum.splits if_splits)
  from Duration_Some [OF this] show "0 < d \<and> d \<le> max_int64" by (auto simp: Minute_def)
qed

lemma bybit_linear_row:
  assumes "bybit_normalizeLinearInstrument D source = Inr row"
  shows "good_instrument D \<lparr>sc_Exchange = ExchangeBybit, sc_Market = MarketLinear\<rparr> row \<and> inst_Symbol row = by_Symbol source"
proof -
  from assms obtain priced step lo hi notional interval delisting where
    priced: "normalizeInstrumentPrice D source MarketLinear = Inr priced" and step: "Step D (by_QtyStep source) = Inr step"
    and times: "perpetual_times source = Inr (interval, delisting)"
    and row: "row = priced\<lparr>inst_QtyStep := step, inst_MinQty := lo, inst_MaxQty := hi,
       inst_MinNotional := notional, inst_FundingInterval := interval, inst_DelistingTime := delisting,
       inst_ContractType := bybit_contract (by_ContractType source)\<rparr>" and valid: "Validate D row = None"
    unfolding bybit_normalizeLinearInstrument_def Let_def by (auto split: sum.splits option.splits if_splits prod.splits)
  show ?thesis
    by (rule normalizeInstrumentPrice_Inr [OF priced])
      (use valid Step_good [OF step] perpetual_times_Inr [OF times] in
        \<open>auto simp: row good_instrument_def inst_fits_def blank_instrument_def Validate_None statuses_valid bybit_contract_def\<close>)
qed

section \<open>Catalogues\<close>

lemma normalizeCatalog_Inr:
  assumes "normalizeCatalog ctx k f sources seen = Inr rows"
  shows "list_all2 (\<lambda>s r. f s = Inr r) sources rows \<and> distinct (map inst_Symbol rows)
    \<and> set (map inst_Symbol rows) \<inter> set seen = {}"
  using assms
proof (induction sources arbitrary: k seen rows)
  case (Cons source sources)
  from Cons.prems obtain row rest where row: "f source = Inr row" "inst_Symbol row \<notin> set seen" "rows = row # rest"
    and rest: "normalizeCatalog ctx (k + 1) f sources (inst_Symbol row # seen) = Inr rest"
    by (auto split: option.splits sum.splits if_splits)
  from Cons.IH [OF rest] row show ?case by auto
qed simp

lemma parse_funding_range:
  assumes "parse_funding_rows rows acc = Inr out" and "\<forall>d \<in> snd ` set acc. 0 < d \<and> d \<le> max_int64"
  shows "\<forall>d \<in> snd ` set out. 0 < d \<and> d \<le> max_int64"
  using assms
proof (induction rows acc rule: parse_funding_rows.induct)
  case (2 symbol hours rows acc)
  from 2 (2) obtain h where h: "hours = Some h" "\<not> (symbol = [] \<or> h \<le> 0 \<or> h > max_int64 sdiv Hour)" "\<not> ghas acc symbol"
    and out: "parse_funding_rows rows (AList.update symbol (h * Hour) acc) = Inr out"
    by (auto split: option.splits if_splits)
  have "h * Hour \<le> max_int64" "0 < h * Hour"
    using h(2) by (simp_all add: sdiv_nonneg le_div_iff Hour_def)
  then have "\<forall>d \<in> snd ` set (AList.update symbol (h * Hour) acc). 0 < d \<and> d \<le> max_int64"
    using 2 (3) by (auto dest!: set_update_cases)
  from 2 (1) [OF h out this] show ?case .
qed simp

text \<open>The rows of a run: good, one per symbol, and exactly the symbols seen.\<close>

definition catalogue_ok :: "'d decimals \<Rightarrow> Scope \<Rightarrow> 'd catalogue \<Rightarrow> bool" where
  "catalogue_ok D scope s \<longleftrightarrow> distinct (map inst_Symbol (ct_rows s)) \<and> (\<forall>symbol. ghas (ct_seen s) symbol \<longleftrightarrow> symbol \<in> set (map inst_Symbol (ct_rows s)))
     \<and> (\<forall>row \<in> set (ct_rows s). good_instrument D scope row)"

definition coll_within :: "string set \<Rightarrow> 'd catalogue \<Rightarrow> bool" where
  "coll_within S s \<longleftrightarrow> distinct (ct_collection s) \<and> set (ct_collection s) \<subseteq> S"

lemma note_source_Inr:
  assumes "note_source row source s = Inr s'"
  shows "catalogue_ok D scope s \<Longrightarrow> good_instrument D scope row \<Longrightarrow> catalogue_ok D scope s'"
    and "coll_within S s \<Longrightarrow> inst_Symbol row \<in> S \<Longrightarrow> coll_within S s'"
    and "length (ct_collection s') + ct_progress s = length (ct_collection s) + ct_progress s'"
    and "ct_progress s \<le> ct_progress s'"
proof -
  consider "ct_rows s' = ct_rows s" "ct_seen s' = ct_seen s"
    | "\<not> ghas (ct_seen s) (inst_Symbol row)" "ct_rows s' = ct_rows s @ [row]"
      "ct_seen s' = AList.update (inst_Symbol row) source (ct_seen s)"
    using assms by (auto simp: note_source_def Let_def ghas_def split: option.splits if_splits)
  then show "catalogue_ok D scope s \<Longrightarrow> good_instrument D scope row \<Longrightarrow> catalogue_ok D scope s'"
    by cases (simp_all add: catalogue_ok_def)
  show "coll_within S s \<Longrightarrow> inst_Symbol row \<in> S \<Longrightarrow> coll_within S s'"
    using assms by (auto simp: note_source_def Let_def coll_within_def split: option.splits if_splits)
  show "length (ct_collection s') + ct_progress s = length (ct_collection s) + ct_progress s'"
    "ct_progress s \<le> ct_progress s'"
    using assms by (auto simp: note_source_def Let_def split: option.splits if_splits)
qed

lemma page_loop_Inr:
  assumes "page_loop ctx k f sources s = Inr (s', k')"
    and good: "\<And>source row. f source = Inr row \<Longrightarrow> good_instrument D scope row \<and> inst_Symbol row = by_Symbol source"
  shows "catalogue_ok D scope s \<Longrightarrow> catalogue_ok D scope s'"
    and "coll_within S s \<Longrightarrow> by_Symbol ` set sources \<subseteq> S \<Longrightarrow> coll_within S s'"
    and "length (ct_collection s') + ct_progress s = length (ct_collection s) + ct_progress s'"
    and "ct_progress s \<le> ct_progress s'"
proof -
  have "(catalogue_ok D scope s \<longrightarrow> catalogue_ok D scope s') \<and> (coll_within S s \<and> by_Symbol ` set sources \<subseteq> S \<longrightarrow> coll_within S s')
    \<and> length (ct_collection s') + ct_progress s = length (ct_collection s) + ct_progress s' \<and> ct_progress s \<le> ct_progress s'"
    using assms(1)
  proof (induction sources arbitrary: s k)
    case (Cons source sources)
    from Cons.prems obtain row s1 where row: "f source = Inr row" and s1: "note_source row source s = Inr s1"
      and rest: "page_loop ctx (k + 1) f sources s1 = Inr (s', k')"
      by (auto split: option.splits sum.splits)
    note step = note_source_Inr [OF s1] and g = good [OF row]
    from Cons.IH [OF rest] step(1) [of D scope] step(2) [of S] step(3,4) g show ?case by auto
  qed simp
  then show "catalogue_ok D scope s \<Longrightarrow> catalogue_ok D scope s'"
    "coll_within S s \<Longrightarrow> by_Symbol ` set sources \<subseteq> S \<Longrightarrow> coll_within S s'"
    "length (ct_collection s') + ct_progress s = length (ct_collection s) + ct_progress s'" "ct_progress s \<le> ct_progress s'"
    by auto
qed

abbreviation bybit_linear :: Scope where
  "bybit_linear \<equiv> \<lparr>sc_Exchange = ExchangeBybit, sc_Market = MarketLinear\<rparr>"

lemma catalogue_ok_update [simp]:
  "catalogue_ok D scope (s\<lparr>ct_progress := n\<rparr>) = catalogue_ok D scope s" "catalogue_ok D scope (s\<lparr>ct_collection := c\<rparr>) = catalogue_ok D scope s"
  by (simp_all add: catalogue_ok_def)

lemma linear_pages_rows:
  assumes "linear_pages fuel D ctx send status cursor cursors n k s = Some (Inr (s', n', k'))" and "catalogue_ok D bybit_linear s"
  shows "catalogue_ok D bybit_linear s'"
  using assms
proof (induction fuel arbitrary: cursor cursors n k s)
  case (Suc fuel)
  from Suc.prems(1) obtain sources nc s1 k1 where
    page: "page_loop ctx k (bybit_normalizeLinearInstrument D) sources (s\<lparr>ct_progress := 0\<rparr>) = Inr (s1, k1)"
    and rest: "s' = s1 \<or> linear_pages fuel D ctx send status nc (nc # cursors) (n + 1) k1 s1 = Some (Inr (s', n', k'))"
    by (auto split: sum.splits prod.splits if_splits)
  have "catalogue_ok D bybit_linear s1" using page_loop_Inr(1) [OF page bybit_linear_row] Suc.prems(2) by (simp del: exchange_names market_names)
  with rest Suc.IH show ?case by blast
qed simp

lemma linear_statuses_rows:
  assumes "linear_statuses fuel D ctx send statuses n k s = Some (Inr (s', n'))" and "catalogue_ok D bybit_linear s"
  shows "catalogue_ok D bybit_linear s'"
  using assms
proof (induction statuses arbitrary: n k s)
  case (Cons status statuses)
  from Cons.prems(1) obtain s1 n1 k1 where
    pages: "linear_pages fuel D ctx send status [] [] n k (s\<lparr>ct_collection := []\<rparr>) = Some (Inr (s1, n1, k1))"
    and rest: "linear_statuses fuel D ctx send statuses n1 k1 s1 = Some (Inr (s', n'))"
    by (auto split: sum.splits prod.splits option.splits)
  have "catalogue_ok D bybit_linear s1" using linear_pages_rows [OF pages] Cons.prems(2) by simp
  then show ?case by (rule Cons.IH [OF rest])
qed simp

section \<open>Termination of the pagination\<close>

text \<open>Every page the exchange answers with lists symbols of \<open>S\<close>.\<close>

definition pages_within :: "string set \<Rightarrow> (nat \<Rightarrow> instrument_envelope client) \<Rightarrow> bool" where
  "pages_within S send \<longleftrightarrow> (\<forall>n path parameters response envelope rows. send n path parameters = Inr response
     \<and> fe_Body response = Some envelope \<and> ip_List (ie_Result envelope) = Some rows \<longrightarrow> by_Symbol ` set rows \<subseteq> S)"

lemma fetchInstrumentPage_within:
  assumes "pages_within S send" and "fetchInstrumentPage (send n) parameters = Inr (sources, cursor)"
  shows "by_Symbol ` set sources \<subseteq> S"
proof -
  from assms(2) obtain response envelope where "send n ''/v5/market/instruments-info'' parameters = Inr response"
    "fe_Body response = Some envelope" "ip_List (ie_Result envelope) = Some sources"
    by (auto simp: fetchInstrumentPage_def bybit_Fetch_def split: sum.splits option.splits if_splits)
  with assms(1) show ?thesis unfolding pages_within_def by blast
qed

lemma coll_within_update [simp]: "coll_within S (s\<lparr>ct_progress := n\<rparr>) = coll_within S s"
  by (simp add: coll_within_def)

lemma coll_within_length:
  assumes "finite S" and "coll_within S s"
  shows "length (ct_collection s) \<le> card S"
  using assms by (metis card_mono distinct_card coll_within_def)

lemma linear_pages_terminate:
  assumes S: "finite S" and pages: "pages_within S send" and "coll_within S s" and "card S - length (ct_collection s) < fuel"
  shows "\<exists>out. linear_pages fuel D ctx send status cursor cursors n k s = Some out
    \<and> (case out of Inl e \<Rightarrow> True | Inr (s', n', k') \<Rightarrow> n' \<le> n + (card S - length (ct_collection s)) + 1)"
  using assms(3,4)
proof (induction fuel arbitrary: cursor cursors n k s)
  case (Suc fuel)
  show ?case
  proof (cases "fetchInstrumentPage (send n) (linear_parameters status cursor)")
    case (Inl e)
    then show ?thesis by simp
  next
    case (Inr page)
    obtain sources nc where page: "page = (sources, nc)" by fastforce
    note sub = fetchInstrumentPage_within [OF pages Inr [unfolded page]]
    show ?thesis
    proof (cases "page_loop ctx k (bybit_normalizeLinearInstrument D) sources (s\<lparr>ct_progress := 0\<rparr>)")
      case (Inl e)
      with Inr page show ?thesis by simp
    next
      case loop: (Inr p)
      obtain s1 k1 where p: "p = (s1, k1)" by fastforce
      note facts = page_loop_Inr [OF loop [unfolded p] bybit_linear_row]
      have w1: "coll_within S s1" using facts(2) [where S = S] sub Suc.prems(1) by simp
      have len: "length (ct_collection s1) = length (ct_collection s) + ct_progress s1" using facts(3) by simp
      show ?thesis
      proof (cases "nc \<noteq> [] \<and> ct_progress s1 \<noteq> 0 \<and> nc \<notin> set cursors")
        case False
        with Inr page loop p show ?thesis by auto
      next
        case True
        have less: "card S - length (ct_collection s1) < card S - length (ct_collection s)"
          using True len coll_within_length [OF S w1] by auto
        with Suc.prems(2) have "card S - length (ct_collection s1) < fuel" by linarith
        from Suc.IH [OF w1 this, of nc "nc # cursors" "n + 1" k1] obtain out where
          out: "linear_pages fuel D ctx send status nc (nc # cursors) (n + 1) k1 s1 = Some out"
          and calls: "case out of Inl e \<Rightarrow> True | Inr (s', n', k') \<Rightarrow> n' \<le> n + 1 + (card S - length (ct_collection s1)) + 1" by blast
        have "linear_pages (Suc fuel) D ctx send status cursor cursors n k s = Some out"
          using Inr page loop p True out by simp
        with calls less show ?thesis by (auto split: sum.splits prod.splits)
      qed
    qed
  qed
qed simp

lemma linear_statuses_terminate:
  assumes S: "finite S" and pages: "pages_within S send" and fuel: "card S < fuel"
  shows "\<exists>out. linear_statuses fuel D ctx send statuses n k s = Some out
    \<and> (case out of Inl e \<Rightarrow> True | Inr (s', n') \<Rightarrow> n' \<le> n + length statuses * (card S + 1))"
proof (induction statuses arbitrary: n k s)
  case (Cons status statuses)
  have "coll_within S (s\<lparr>ct_collection := []\<rparr>)" by (simp add: coll_within_def)
  moreover have "card S - length (ct_collection (s\<lparr>ct_collection := []\<rparr>)) < fuel" using fuel by simp
  ultimately obtain out where
    out: "linear_pages fuel D ctx send status [] [] n k (s\<lparr>ct_collection := []\<rparr>) = Some out"
    and "case out of Inl e \<Rightarrow> True | Inr (s', n', k') \<Rightarrow> n' \<le> n + (card S - length (ct_collection (s\<lparr>ct_collection := []\<rparr>))) + 1"
    using linear_pages_terminate [OF S pages] by blast
  then have calls: "case out of Inl e \<Rightarrow> True | Inr (s', n', k') \<Rightarrow> n' \<le> n + card S + 1" by (simp split: sum.splits prod.splits)
  show ?case
  proof (cases out)
    case (Inl e)
    with out show ?thesis by simp
  next
    case (Inr p)
    obtain s1 n1 k1 where p: "p = (s1, n1, k1)" by (cases p) auto
    from Cons.IH [of n1 k1 s1] Inr out p calls show ?thesis
      by (auto split: sum.splits prod.splits)
  qed
qed simp

section \<open>Properties\<close>

definition good_catalogue :: "'d decimals \<Rightarrow> Scope \<Rightarrow> 'd Instrument list \<Rightarrow> bool" where
  "good_catalogue D scope rows \<longleftrightarrow> distinct (map inst_Symbol rows) \<and> (\<forall>row \<in> set rows. good_instrument D scope row)"

lemma normalizeCatalog_good:
  assumes "normalizeCatalog ctx k f sources [] = Inr rows" and "\<And>s r. f s = Inr r \<Longrightarrow> good_instrument D scope r"
  shows "good_catalogue D scope rows"
proof -
  note out = normalizeCatalog_Inr [OF assms(1)]
  then have "\<forall>row \<in> set rows. good_instrument D scope row" using list_all2_source [of _ sources rows] assms(2) by blast
  with out show ?thesis by (simp add: good_catalogue_def)
qed

lemma binance_spot_catalogue:
  "binance_spot_GetInstruments D ctx client = Inr rows \<Longrightarrow>
     good_catalogue D \<lparr>sc_Exchange = ExchangeBinance, sc_Market = MarketSpot\<rparr> rows"
  by (auto simp: binance_spot_GetInstruments_def split: sum.splits intro!: normalizeCatalog_good dest: binance_spot_row [THEN conjunct1])

lemma binance_linear_catalogue:
  assumes "binance_linear_GetInstruments D ctx client funding_client = Inr rows"
  shows "good_catalogue D \<lparr>sc_Exchange = ExchangeBinance, sc_Market = MarketLinear\<rparr> rows"
proof -
  let ?scope = "\<lparr>sc_Exchange = ExchangeBinance, sc_Market = MarketLinear\<rparr>"
  let ?put = "\<lambda>funding source row. if ri_ContractType source = ''PERPETUAL''
      then row\<lparr>inst_FundingInterval := map_of funding (ri_Symbol source)\<rparr> else row"
  from assms obtain sources funding body plain where f: "parseFunding body = Inr funding"
    and plain: "normalizeCatalog ctx 0 (binance_normalizeLinearInstrument D) sources [] = Inr plain"
    and rows: "rows = map2 (?put funding) sources plain"
    by (auto simp: binance_linear_GetInstruments_def split: sum.splits)
  note out = normalizeCatalog_Inr [OF plain]
  have len: "length sources = length plain" using out list_all2_lengthD by blast
  have "map inst_Symbol rows = map inst_Symbol plain"
    using len by (auto simp: rows list_eq_iff_nth_eq)
  then have dist: "distinct (map inst_Symbol rows)" using out by simp
  have range: "\<forall>d \<in> snd ` set funding. 0 < d \<and> d \<le> max_int64"
    using f parse_funding_range [of _ "[]"] by (auto simp: parseFunding_def split: option.splits)
  have "good_instrument D ?scope row" if "row \<in> set rows" for row
  proof -
    from that obtain i where i: "i < length plain" "row = ?put funding (sources ! i) (plain ! i)"
      by (auto simp: rows len in_set_conv_nth)
    then have "binance_normalizeLinearInstrument D (sources ! i) = Inr (plain ! i)"
      using out by (auto simp: list_all2_conv_all_nth)
    note src = binance_linear_row [OF this]
    have "map_of funding symbol = Some d \<Longrightarrow> 0 < d \<and> d \<le> max_int64" for symbol d
      using range by (force dest!: map_of_SomeD)
    with src i(2) show ?thesis
      by (auto simp: good_instrument_def inst_fits_def binance_contract_def split: if_splits)
  qed
  with dist show ?thesis by (simp add: good_catalogue_def)
qed

lemma bybit_spot_catalogue:
  assumes "bybit_spot_GetInstruments D ctx client = Inr rows"
  shows "good_catalogue D \<lparr>sc_Exchange = ExchangeBybit, sc_Market = MarketSpot\<rparr> rows"
proof -
  from assms obtain sources s k where
    loop: "page_loop ctx 0 (bybit_normalizeSpotInstrument D) sources
      \<lparr>ct_rows = [], ct_seen = [], ct_collection = [], ct_progress = 0\<rparr> = Inr (s, k)" and rows: "rows = ct_rows s"
    by (auto simp: bybit_spot_GetInstruments_def split: option.splits sum.splits if_splits prod.splits)
  have "catalogue_ok D \<lparr>sc_Exchange = ExchangeBybit, sc_Market = MarketSpot\<rparr> s"
    by (rule page_loop_Inr(1) [OF loop bybit_spot_row]) (simp_all add: catalogue_ok_def ghas_def)
  then show ?thesis by (simp add: rows good_catalogue_def catalogue_ok_def)
qed

lemma bybit_linear_catalogue:
  assumes "bybit_linear_GetInstruments fuel D ctx client = Some (Inr rows)"
  shows "good_catalogue D bybit_linear rows"
proof -
  from assms obtain send s n where
    run: "linear_statuses fuel D ctx send ['''', ''PreLaunch''] 0 0
      \<lparr>ct_rows = [], ct_seen = [], ct_collection = [], ct_progress = 0\<rparr> = Some (Inr (s, n))" and rows: "rows = ct_rows s"
    by (auto simp: bybit_linear_GetInstruments_def simp del: linear_statuses.simps split: option.splits sum.splits)
  have "catalogue_ok D bybit_linear s"
    by (rule linear_statuses_rows [OF run]) (simp add: catalogue_ok_def ghas_def)
  then show ?thesis by (simp add: rows good_catalogue_def catalogue_ok_def)
qed

text \<open>
  C30. Whatever an exchange answers, a catalogue that one of the four instrument providers returns is well formed
  and publishable: every row belongs to the provider's scope, names its symbol and assets, has a known status,
  positive bounded price and quantity steps and consistent quantity bounds, and a funding interval only if it is
  a perpetual contract; no symbol occurs twice; and the instrument repository accepts the catalogue.
\<close>

theorem catalogue_is_publishable:
  assumes "binance_spot_GetInstruments D ctx client = Inr rows \<and> scope = \<lparr>sc_Exchange = ExchangeBinance, sc_Market = MarketSpot\<rparr>
      \<or> binance_linear_GetInstruments D ctx client funding_client = Inr rows \<and> scope = \<lparr>sc_Exchange = ExchangeBinance, sc_Market = MarketLinear\<rparr>
      \<or> bybit_spot_GetInstruments D ctx spot_client = Inr rows \<and> scope = \<lparr>sc_Exchange = ExchangeBybit, sc_Market = MarketSpot\<rparr>
      \<or> bybit_linear_GetInstruments fuel D ctx linear_client = Some (Inr rows) \<and> scope = \<lparr>sc_Exchange = ExchangeBybit, sc_Market = MarketLinear\<rparr>"
  shows "distinct (map inst_Symbol rows) \<and> (\<forall>row \<in> set rows. good_instrument D scope row)
    \<and> snd (inst_ReplaceSnapshot cp background r scope rows) = None"
proof -
  have good: "good_catalogue D scope rows"
    using assms binance_spot_catalogue binance_linear_catalogue bybit_spot_catalogue bybit_linear_catalogue by blast
  have "validateScope scope = None"
    using assms by (auto simp: validateScope_def Exchange_Valid_def Market_Valid_def)
  then have "snd (inst_ReplaceSnapshot cp background r scope rows) = None"
    using good by (auto simp: inst_store.replace_ok good_catalogue_def good_instrument_def)
  with good show ?thesis by (simp add: good_catalogue_def)
qed

definition demo_source :: "string \<Rightarrow> bybit_instrumentRow" where
  "demo_source symbol = \<lparr>by_Symbol = symbol, by_BaseCoin = ''BTC'', by_QuoteCoin = ''USDT'', by_Status = ''Trading'',
     by_ContractType = ''LinearPerpetual'', by_FundingInterval = ''480'', by_DeliveryTime = ''0'', by_TickSize = ''1'',
     by_QtyStep = ''2'', by_BasePrecision = '''', by_MinOrderQty = ''2'', by_MaxOrderQty = ''100'', by_MaxLimitOrderQty = '''',
     by_MinNotionalValue = ''5'', by_MinOrderAmt = ''''\<rparr>"

text \<open>Two pages of trading contracts, then one page before launch.\<close>

definition demo_pages :: "nat \<Rightarrow> instrument_envelope client" where
  "demo_pages n path parameters =
     (let page = (\<lambda>rows cursor. Inr \<lparr>fe_Body = Some \<lparr>ie_Code = Some 0, ie_Result = \<lparr>ip_Category = ''linear'', ip_List = Some rows,
            ip_Cursor = cursor\<rparr>\<rparr>, fe_StartedAt = 0, fe_FetchedAt = 0\<rparr>)
      in if n = 0 then page [demo_source ''BTCUSDT'', demo_source ''ETHUSDT''] ''next''
         else if n = 1 then page [demo_source ''SOLUSDT''] []
         else page [demo_source ''BTCUSDT''] [])"

lemma some_Inr: "(case out of Some (Inr x) \<Rightarrow> P x | _ \<Rightarrow> False) \<Longrightarrow> \<exists>x. out = Some (Inr x) \<and> P x"
  by (auto split: option.splits sum.splits)

lemma demo_catalogue:
  "case bybit_linear_GetInstruments 3 whole_decimals background (Some demo_pages) of
     Some (Inr rows) \<Rightarrow> map inst_Symbol rows = [''BTCUSDT'', ''ETHUSDT'', ''SOLUSDT''] | _ \<Rightarrow> False"
  by code_simp

theorem catalogue_is_publishable_witness:
  "\<exists>rows. bybit_linear_GetInstruments 3 whole_decimals background (Some demo_pages) = Some (Inr rows)
    \<and> map inst_Symbol rows = [''BTCUSDT'', ''ETHUSDT'', ''SOLUSDT'']
    \<and> snd (inst_ReplaceSnapshot (\<lambda>d. d) background NewInstrumentRepository bybit_linear rows) = None"
proof -
  obtain rows where rows: "bybit_linear_GetInstruments 3 whole_decimals background (Some demo_pages) = Some (Inr rows)
      \<and> map inst_Symbol rows = [''BTCUSDT'', ''ETHUSDT'', ''SOLUSDT'']"
    by (rule exE [OF some_Inr [OF demo_catalogue]])
  have "snd (inst_ReplaceSnapshot (\<lambda>d. d) background NewInstrumentRepository bybit_linear rows) = None"
    by (rule catalogue_is_publishable [OF disjI2 [OF disjI2 [OF disjI2 [OF conjI [OF conjunct1 [OF rows] refl]]]], THEN conjunct2, THEN conjunct2])
  from conjI [OF conjunct1 [OF rows] conjI [OF conjunct2 [OF rows] this]] show ?thesis by (rule exI)
qed

text \<open>
  C31. The pagination of the Bybit linear catalogue cannot be kept running by the exchange: if the answers list symbols
  of a finite set, then however the cursors are chosen the run ends, with a catalogue or an error, after at
  most one page more than there are symbols for each of the two status collections.
\<close>

theorem bybit_pagination_terminates:
  assumes "finite S" and "pages_within S send" and "card S < fuel"
  shows "\<exists>out. bybit_linear_GetInstruments fuel D ctx (Some send) = Some out
    \<and> (\<exists>run. linear_statuses fuel D ctx send ['''', ''PreLaunch''] 0 0
          \<lparr>ct_rows = [], ct_seen = [], ct_collection = [], ct_progress = 0\<rparr> = Some run
        \<and> (case run of Inl e \<Rightarrow> True | Inr (s, calls) \<Rightarrow> calls \<le> 2 * (card S + 1)))"
proof -
  obtain run where run: "linear_statuses fuel D ctx send ['''', ''PreLaunch''] 0 0
          \<lparr>ct_rows = [], ct_seen = [], ct_collection = [], ct_progress = 0\<rparr> = Some run"
    and calls: "case run of Inl e \<Rightarrow> True | Inr (s, n) \<Rightarrow> n \<le> 0 + length ['''', ''PreLaunch''] * (card S + 1)"
    using linear_statuses_terminate [OF assms] by blast
  have "case run of Inl e \<Rightarrow> True | Inr (s, n) \<Rightarrow> n \<le> 2 * (card S + 1)" using calls by (simp split: sum.splits prod.splits)
  with run show ?thesis
    by (auto simp: bybit_linear_GetInstruments_def simp del: linear_statuses.simps split: sum.splits prod.splits)
qed

theorem bybit_pagination_terminates_witness:
  "\<exists>out. bybit_linear_GetInstruments 4 whole_decimals background (Some demo_pages) = Some out"
proof -
  have f: "finite {''BTCUSDT'', ''ETHUSDT'', ''SOLUSDT''}" by simp
  have w: "pages_within {''BTCUSDT'', ''ETHUSDT'', ''SOLUSDT''} demo_pages"
    by (auto simp: pages_within_def demo_pages_def Let_def demo_source_def split: if_splits)
  have "card {''BTCUSDT'', ''ETHUSDT'', ''SOLUSDT''} < 4" by (simp add: card_insert_if)
  from bybit_pagination_terminates [OF f w this] show ?thesis by blast
qed

end
