(* ===== verification/Upstream_Cycle.thy ===== *)
theory Upstream_Cycle
  imports Upstream_Controller
begin

text \<open>
  The schedules of background work: the backoff of \<open>upstream/retry.go\<close>, the gate that keeps it across cycles,
  the bounded cycle of \<open>cycle.go\<close>, the two schedules of \<open>catalog_cycle.go\<close> and the waiting of
  \<open>clock.go\<close> and \<open>deferral.go\<close>.

  What the surroundings answer is an argument: the readings of the clock, \<open>ctx.Err()\<close>, what ends a
  wait, and what a cycle returns. A jitter is a function on durations.
\<close>

section \<open>Waiting\<close>

text \<open>The three ways the \<open>select\<close> of \<open>wait\<close> ends.\<close>

datatype wake = Ended error | Changed | Tick

definition wait :: "wake \<Rightarrow> error option" where
  "wait w = (case w of Ended e \<Rightarrow> Some e | Changed \<Rightarrow> None | Tick \<Rightarrow> None)"

text \<open>
  \<open>Wait\<close> of a deferral. Between two turns of its loop other goroutines change the controller as \<open>others\<close> says;
  \<open>fuel\<close> counts the turns.
\<close>

record surroundings =
  sr_ctx :: "nat \<Rightarrow> error option"
  sr_now :: "nat \<Rightarrow> time"
  sr_wake :: "nat \<Rightarrow> wake"
  sr_others :: "nat \<Rightarrow> Controller \<Rightarrow> Controller"

fun deferral_Wait :: "nat \<Rightarrow> surroundings \<Rightarrow> nat \<Rightarrow> budgetDeferral \<Rightarrow> Controller \<Rightarrow> (Controller \<times> error option) option" where
  "deferral_Wait 0 env n d c = None"
| "deferral_Wait (Suc fuel) env n d c =
     (case sr_ctx env n of
        Some e \<Rightarrow> Some (c, Some e)
      | None \<Rightarrow>
        (case deferral_ready c d (sr_now env n) of
           (c, Inl e) \<Rightarrow> Some (c, Some e)
         | (c, Inr next) \<Rightarrow>
             if \<not> IsZero next \<and> \<not> next > sr_now env n then Some (c, None)
             else (case wait (sr_wake env n) of
                Some e \<Rightarrow> Some (c, Some e)
              | None \<Rightarrow> deferral_Wait fuel env (n + 1) d (sr_others env n c))))"

section \<open>Backoff\<close>

text \<open>The loop of \<open>backoff\<close>, with the turns left.\<close>

fun backoff_loop :: "duration \<Rightarrow> nat \<Rightarrow> duration \<Rightarrow> duration" where
  "backoff_loop maximum 0 bound = bound"
| "backoff_loop maximum (Suc n) bound =
     (if bound < maximum
      then backoff_loop maximum n (if bound > maximum sdiv 2 then maximum else bound * 2)
      else bound)"

definition backoff :: "Retry \<Rightarrow> int \<Rightarrow> (duration \<Rightarrow> duration) \<Rightarrow> duration" where
  "backoff settings failures jitter =
     (let bound = backoff_loop (ry_MaxBackoff settings) (nat (failures - 1))
            (min (ry_InitialBackoff settings) (ry_MaxBackoff settings))
      in max 0 (min bound (jitter bound)))"

section \<open>Gates\<close>

record CycleGate =
  cg_retry :: Retry
  cg_interval :: duration
  cg_failures :: int
  cg_next :: time
  cg_running :: bool
  cg_deferred :: "budgetDeferral option"

definition NewCycleGate :: "bool \<Rightarrow> bool \<Rightarrow> Retry \<Rightarrow> duration \<Rightarrow> CycleGate result" where
  "NewCycleGate clocked jittered retry interval =
     (if \<not> clocked \<or> \<not> jittered \<or> ry_InitialBackoff retry \<le> 0 \<or> ry_MaxBackoff retry < ry_InitialBackoff retry \<or> interval < 0
      then Inl (Plain ''invalid cycle backoff settings'')
      else Inr \<lparr>cg_retry = retry, cg_interval = interval, cg_failures = 0, cg_next = zero_time, cg_running = False,
        cg_deferred = None\<rparr>)"

text \<open>
  What one run of a gate meets: the answer of the deferral's \<open>Wait\<close>, \<open>ctx.Err()\<close> at its two readings, the clock before
  the timed wait, what ends that wait, and the clock and the jitter when the cycle is over.
\<close>

record cycle_env =
  ce_deferral :: "error option"
  ce_ctx1 :: "error option"
  ce_ctx2 :: "error option"
  ce_now :: time
  ce_wake :: wake
  ce_done :: time
  ce_jitter :: "duration \<Rightarrow> duration"

definition gate_wait :: "cycle_env \<Rightarrow> CycleGate \<Rightarrow> CycleGate \<times> error option" where
  "gate_wait env g =
     (let timed = (\<lambda>g'. case ce_ctx2 env of
            Some e \<Rightarrow> (g', Some e)
          | None \<Rightarrow> if \<not> cg_next g > ce_now env then (g', None) else (g', wait (ce_wake env)))
      in case cg_deferred g of
           None \<Rightarrow> timed g
         | Some d \<Rightarrow>
             if ce_deferral env \<noteq> None \<and> ce_ctx1 env \<noteq> None then (g, ce_ctx1 env)
             else timed (g\<lparr>cg_deferred := None\<rparr>))"

definition complete_cycle :: "(duration \<Rightarrow> duration) \<Rightarrow> time \<Rightarrow> bool \<Rightarrow> CycleGate \<Rightarrow> CycleGate" where
  "complete_cycle jitter now success g =
     (let failures = (if success then 0 else min (cg_failures g + 1) 64);
          delay = (if success then cg_interval g else max (cg_interval g) (backoff (cg_retry g) failures jitter))
      in g\<lparr>cg_failures := failures, cg_next := now + delay\<rparr>)"

text \<open>
  A cycle works on a state \<open>'s\<close> and returns an error together with the deferral \<open>DeferredRefresh\<close> finds in it, or
  panics. The flag of a running cycle is cleared either way.
\<close>

datatype answer = Answers "error option" "budgetDeferral option" | Panicked

definition CycleGate_Run :: "cycle_env \<Rightarrow> ('s \<Rightarrow> 's \<times> answer) \<Rightarrow> CycleGate \<Rightarrow> 's \<Rightarrow> CycleGate \<times> 's \<times> answer" where
  "CycleGate_Run env cycle g s =
     (if cg_running g then (g, s, Answers (Some (App ErrServiceOverloaded)) None)
      else case gate_wait env (g\<lparr>cg_running := True\<rparr>) of
        (g1, Some e) \<Rightarrow> (g1\<lparr>cg_running := False\<rparr>, s, Answers (Some e) None)
      | (g1, None) \<Rightarrow>
          (case cycle s of
             (s1, Panicked) \<Rightarrow> (g1\<lparr>cg_running := False\<rparr>, s1, Panicked)
           | (s1, Answers err (Some d)) \<Rightarrow> (g1\<lparr>cg_deferred := Some d, cg_running := False\<rparr>, s1, Answers err (Some d))
           | (s1, Answers err None) \<Rightarrow>
               ((complete_cycle (ce_jitter env) (ce_done env) (err = None) g1)\<lparr>cg_running := False\<rparr>, s1, Answers err None)))"

text \<open>\<open>BoundedCycle\<close>: one operation of the controller, at the address \<open>fresh\<close>, around the cycle.\<close>

definition BoundedCycle_Run :: "cycle_env \<Rightarrow> upstream_Scope \<Rightarrow> int \<Rightarrow> nat \<Rightarrow> (nat \<Rightarrow> duration \<Rightarrow> Controller \<Rightarrow> Controller \<times> answer)
    \<Rightarrow> CycleGate \<Rightarrow> Controller \<Rightarrow> CycleGate \<times> Controller \<times> answer" where
  "BoundedCycle_Run env scope kind fresh cycle g c =
     CycleGate_Run env (\<lambda>c. case Begin c scope kind fresh of
         (c, Inl err) \<Rightarrow> (c, Answers (Some err) None)
       | (c, Inr timeout) \<Rightarrow> cycle fresh timeout c) g c"

section \<open>Two schedules on one worker\<close>

record CatalogCycle =
  cc_scope :: upstream_Scope
  cc_instruments :: CycleGate
  cc_catalog :: CycleGate

definition NewCatalogCycle :: "bool \<Rightarrow> bool \<Rightarrow> upstream_Scope \<Rightarrow> Retry \<Rightarrow> duration \<Rightarrow> duration \<Rightarrow> CatalogCycle result" where
  "NewCatalogCycle clocked jittered scope retry instrumentInterval catalogInterval =
     (case NewCycleGate clocked jittered retry instrumentInterval of
        Inl e \<Rightarrow> Inl e
      | Inr instruments \<Rightarrow>
        (case NewCycleGate clocked jittered retry catalogInterval of
           Inl e \<Rightarrow> Inl e
         | Inr catalog \<Rightarrow> Inr \<lparr>cc_scope = scope, cc_instruments = instruments, cc_catalog = catalog\<rparr>))"

text \<open>When a gate is due, the zero time when only another change can tell.\<close>

definition due :: "Controller \<Rightarrow> CycleGate \<Rightarrow> time \<Rightarrow> Controller \<times> CycleGate \<times> time" where
  "due c gate now =
     (let moment = maxTime [now, cg_next gate]
      in case cg_deferred gate of
           None \<Rightarrow> (c, gate, moment)
         | Some d \<Rightarrow>
           (case deferral_ready c d now of
              (c, Inl _) \<Rightarrow> (c, gate\<lparr>cg_deferred := None\<rparr>, moment)
            | (c, Inr next) \<Rightarrow>
                if \<not> IsZero next \<and> \<not> next > now then (c, gate\<lparr>cg_deferred := None\<rparr>, moment)
                else if IsZero next then (c, gate, zero_time)
                else (c, gate, maxTime [moment, next])))"

text \<open>One turn of the loop of \<open>next\<close>: the chosen gate, \<open>True\<close> for the catalog, with the last catalog, or the time to wait for.\<close>

datatype turn = Stopped error | Chosen bool time | Idle time

definition next_turn :: "error option \<Rightarrow> time \<Rightarrow> CatalogCycle \<Rightarrow> Controller \<Rightarrow> CatalogCycle \<times> Controller \<times> turn" where
  "next_turn ctx now cc c =
     (case ctx of
        Some e \<Rightarrow> (cc, c, Stopped e)
      | None \<Rightarrow>
        (let lastCatalog = ss_catalogUpdatedAt (the_scope c (cc_scope cc)) in
         case due c (cc_instruments cc) now of (c, instruments, instrumentDue) \<Rightarrow>
         case due c (cc_catalog cc) now of (c, catalog, catalogDue) \<Rightarrow>
         let cc = cc\<lparr>cc_instruments := instruments, cc_catalog := catalog\<rparr>;
             catalogDue = (if \<not> IsZero catalogDue \<and> \<not> IsZero lastCatalog
                           then maxTime [catalogDue, lastCatalog + cg_interval catalog] else catalogDue);
             useCatalog = (IsZero instrumentDue \<or> \<not> IsZero catalogDue \<and> catalogDue < instrumentDue);
             moment = (if useCatalog then catalogDue else instrumentDue)
         in if \<not> IsZero moment \<and> \<not> moment > now then (cc, c, Chosen useCatalog lastCatalog) else (cc, c, Idle moment)))"

fun next_loop :: "nat \<Rightarrow> surroundings \<Rightarrow> nat \<Rightarrow> CatalogCycle \<Rightarrow> Controller
    \<Rightarrow> (CatalogCycle \<times> Controller \<times> (bool \<times> time) result) option" where
  "next_loop 0 env n cc c = None"
| "next_loop (Suc fuel) env n cc c =
     (case next_turn (sr_ctx env n) (sr_now env n) cc c of
        (cc, c, Stopped e) \<Rightarrow> Some (cc, c, Inl e)
      | (cc, c, Chosen useCatalog lastCatalog) \<Rightarrow> Some (cc, c, Inr (useCatalog, lastCatalog))
      | (cc, c, Idle moment) \<Rightarrow>
          (case wait (sr_wake env n) of
             Some e \<Rightarrow> Some (cc, c, Inl e)
           | None \<Rightarrow> next_loop fuel env (n + 1) cc (sr_others env n c)))"

text \<open>\<open>Run\<close> after \<open>next\<close> has chosen; the clock and the jitter of the catalog's own completion come last.\<close>

definition run_chosen :: "cycle_env \<Rightarrow> nat \<Rightarrow> (bool \<Rightarrow> nat \<Rightarrow> duration \<Rightarrow> Controller \<Rightarrow> Controller \<times> answer) \<Rightarrow> bool \<Rightarrow> time
    \<Rightarrow> (duration \<Rightarrow> duration) \<Rightarrow> time \<Rightarrow> CatalogCycle \<Rightarrow> Controller \<Rightarrow> CatalogCycle \<times> Controller \<times> answer" where
  "run_chosen env fresh refresh useCatalog lastCatalog jitter now cc c =
     (if useCatalog then
        (case BoundedCycle_Run env (cc_scope cc) (int (op_index Instruments)) fresh (refresh True) (cc_catalog cc) c of
           (g, c, out) \<Rightarrow> (cc\<lparr>cc_catalog := g\<rparr>, c, out))
      else
        (case BoundedCycle_Run env (cc_scope cc) (int (op_index Instruments)) fresh (refresh False) (cc_instruments cc) c of
           (g, c, Panicked) \<Rightarrow> (cc\<lparr>cc_instruments := g\<rparr>, c, Panicked)
         | (g, c, Answers err deferred) \<Rightarrow>
             let updatedAt = ss_catalogUpdatedAt (the_scope c (cc_scope cc));
                 catalog = cc_catalog cc;
                 catalog = (if updatedAt > lastCatalog
                            then catalog\<lparr>cg_failures := 0, cg_next := updatedAt + cg_interval catalog\<rparr>
                            else if deferred = None then complete_cycle jitter now (err = None) catalog
                            else catalog)
             in (cc\<lparr>cc_instruments := g, cc_catalog := catalog\<rparr>, c, Answers err deferred)))"

section \<open>The shape of the backoff\<close>

lemma backoff_loop_closed:
  assumes "0 < b" and "b \<le> m"
  shows "backoff_loop m n b = min m (b * 2 ^ n)"
  using assms
proof (induction n arbitrary: b)
  case (Suc n)
  have half: "m sdiv 2 = m div 2" using Suc.prems by (simp add: signed_divide_int_def sgn_if)
  show ?case
  proof (cases "b < m")
    case less: True
    show ?thesis
    proof (cases "b > m div 2")
      case True
      then have "m \<le> b * 2" by simp
      moreover have "b * 2 * 1 \<le> b * 2 * 2 ^ n" using Suc.prems by (intro mult_left_mono) simp_all
      ultimately have "m \<le> b * 2 * 2 ^ n" by simp
      then have "min m (b * 2 ^ Suc n) = m" by (simp add: mult.assoc)
      moreover have "m * 1 \<le> m * 2 ^ n" using Suc.prems by (intro mult_left_mono) simp_all
      ultimately show ?thesis using less True Suc.prems Suc.IH [of m] by (simp add: half)
    next
      case False
      then show ?thesis using less Suc.prems Suc.IH [of "b * 2"] by (simp add: half mult.assoc)
    qed
  next
    case False
    with Suc.prems have "b = m" by simp
    moreover have "m * 1 \<le> m * 2 ^ Suc n" using Suc.prems by (intro mult_left_mono) (simp_all del: power_Suc)
    ultimately show ?thesis by simp
  qed
qed simp

definition sound_retry :: "Retry \<Rightarrow> bool" where
  "sound_retry r \<longleftrightarrow> 0 < ry_InitialBackoff r \<and> ry_InitialBackoff r \<le> ry_MaxBackoff r \<and> ry_MaxBackoff r \<le> max_int64"

definition backoff_bound :: "Retry \<Rightarrow> nat \<Rightarrow> duration" where
  "backoff_bound r n = min (ry_MaxBackoff r) (ry_InitialBackoff r * 2 ^ (n - 1))"

lemma backoff_closed:
  "sound_retry r \<Longrightarrow> backoff r (int n) jitter = max 0 (min (backoff_bound r n) (jitter (backoff_bound r n)))"
  by (simp add: backoff_def backoff_bound_def sound_retry_def Let_def backoff_loop_closed nat_diff_distrib')

text \<open>From 64 failures on the bound is the maximum, which fits 63 bits.\<close>

lemma backoff_bound_saturates:
  assumes "sound_retry r" and "64 \<le> n"
  shows "backoff_bound r n = ry_MaxBackoff r"
proof -
  have "(2 :: int) ^ 63 \<le> 2 ^ (n - 1)" using assms(2) by (intro power_increasing) simp_all
  then have "1 * 2 ^ 63 \<le> ry_InitialBackoff r * 2 ^ (n - 1)"
    using assms(1) by (intro mult_mono) (simp_all add: sound_retry_def)
  then have "ry_MaxBackoff r \<le> ry_InitialBackoff r * 2 ^ (n - 1)"
    using assms(1) by (simp add: sound_retry_def)
  then show ?thesis by (simp add: backoff_bound_def)
qed

lemma backoff_capped:
  assumes "sound_retry r"
  shows "backoff r (min (int n) 64) jitter = backoff r (int n) jitter"
proof (cases "n \<le> 64")
  case False
  then have "min (int n) 64 = int 64" by simp
  with False show ?thesis using backoff_bound_saturates [OF assms] by (simp only: backoff_closed [OF assms])
qed simp

lemma backoff_range:
  assumes "sound_retry r"
  shows "0 \<le> backoff r (int n) jitter" and "backoff r (int n) jitter \<le> ry_MaxBackoff r"
  using assms by (auto simp: backoff_closed backoff_bound_def sound_retry_def)

text \<open>A gate after failed cycles that ended at the given times.\<close>

definition failed_cycles :: "((duration \<Rightarrow> duration) \<times> time) list \<Rightarrow> CycleGate \<Rightarrow> CycleGate" where
  "failed_cycles runs g = foldl (\<lambda>g (jitter, now). complete_cycle jitter now False g) g runs"

lemma failed_cycles_fields:
  assumes "cg_failures g = 0"
  shows "cg_failures (failed_cycles runs g) = min (int (length runs)) 64 \<and> cg_retry (failed_cycles runs g) = cg_retry g
    \<and> cg_interval (failed_cycles runs g) = cg_interval g"
  using assms by (induction runs rule: rev_induct) (auto simp: failed_cycles_def complete_cycle_def Let_def)

section \<open>Due gates\<close>

lemma due_facts:
  assumes "due c g now = (c', g', t)"
  shows "IsZero t \<or> now \<le> t \<and> cg_next g \<le> t" and "cg_next g' = cg_next g" and "cg_interval g' = cg_interval g"
    and "cg_deferred g = None \<Longrightarrow> c' = c \<and> g' = g \<and> t = maxTime [now, cg_next g]"
proof -
  have ge: "now \<le> maxTime [now, cg_next g]" "cg_next g \<le> maxTime [now, cg_next g]" by (rule maxTime_ge, simp)+
  have ge': "maxTime [now, cg_next g] \<le> maxTime [maxTime [now, cg_next g], u]" for u by (rule maxTime_ge) simp
  show "IsZero t \<or> now \<le> t \<and> cg_next g \<le> t"
    using assms ge order_trans [OF ge(1) ge'] order_trans [OF ge(2) ge']
    by (auto simp: due_def Let_def IsZero_def split: option.splits prod.splits sum.splits if_splits)
  show "cg_next g' = cg_next g" "cg_interval g' = cg_interval g" "cg_deferred g = None \<Longrightarrow> c' = c \<and> g' = g \<and> t = maxTime [now, cg_next g]"
    using assms by (auto simp: due_def Let_def split: option.splits prod.splits sum.splits if_splits)
qed

lemma maxTime_2 [simp]: "zero_time \<le> a \<Longrightarrow> maxTime [a, b] = max a b"
  by (auto simp: maxTime_def max_def)

section \<open>Properties\<close>

text \<open>
  The delay after failed cycles. After any number of failed cycles in a row, the gate opens again no earlier than its
  interval, and after a backoff that doubles from the initial to the maximal one, shortened only by the
  jitter: exactly what an unbounded failure counter would give, although the counter stops at 64 and no
  intermediate product leaves 64 bits. The delay lies between the interval and the larger of the interval and the
  maximal backoff.
\<close>

theorem backoff_schedule:
  assumes "sound_retry (cg_retry g)" and "cg_failures g = 0"
  shows "let g' = failed_cycles (runs @ [(jitter, now)]) g; n = length runs + 1;
      bound = min (ry_MaxBackoff (cg_retry g)) (ry_InitialBackoff (cg_retry g) * 2 ^ (n - 1))
    in cg_next g' = now + max (cg_interval g) (max 0 (min bound (jitter bound)))
     \<and> cg_interval g \<le> cg_next g' - now \<and> cg_next g' - now \<le> max (cg_interval g) (ry_MaxBackoff (cg_retry g))
     \<and> cg_next ((complete_cycle jitter now True) g') = now + cg_interval g"
proof -
  let ?n = "length runs + 1"
  note fields = failed_cycles_fields [OF assms(2), of runs]
  have "min (int (length runs)) 64 + 1 = min (int ?n) 65" by simp
  then have "min (min (int (length runs)) 64 + 1) 64 = min (int ?n) 64" by simp
  then have opens: "cg_next (failed_cycles (runs @ [(jitter, now)]) g)
      = now + max (cg_interval g) (backoff (cg_retry g) (int ?n) jitter)"
    using fields backoff_capped [OF assms(1), of ?n jitter] by (simp add: failed_cycles_def complete_cycle_def Let_def)
  have kept: "cg_interval (failed_cycles (runs @ [(jitter, now)]) g) = cg_interval g"
    using failed_cycles_fields [OF assms(2)] by blast
  have closed: "backoff (cg_retry g) (int ?n) jitter = (let bound = min (ry_MaxBackoff (cg_retry g)) (ry_InitialBackoff (cg_retry g) * 2 ^ (?n - 1))
      in max 0 (min bound (jitter bound)))"
    by (simp only: backoff_closed [OF assms(1)] backoff_bound_def Let_def)
  show ?thesis
    using backoff_range [OF assms(1), of ?n jitter]
    unfolding Let_def opens closed [unfolded Let_def, symmetric] by (simp add: complete_cycle_def kept)
qed

theorem backoff_schedule_witness:
  "let retry = \<lparr>ry_MaxAttempts = 3, ry_InitialBackoff = 100, ry_MaxBackoff = 1000\<rparr>;
      g = \<lparr>cg_retry = retry, cg_interval = 50, cg_failures = 0, cg_next = 0, cg_running = False, cg_deferred = None\<rparr>
    in cg_next (failed_cycles ([((\<lambda>d. d), 1), ((\<lambda>d. d), 2)] @ [((\<lambda>d. d), 10)]) g) = 410"
proof -
  let ?retry = "\<lparr>ry_MaxAttempts = 3, ry_InitialBackoff = 100, ry_MaxBackoff = 1000\<rparr>"
  let ?g = "\<lparr>cg_retry = ?retry, cg_interval = 50, cg_failures = 0, cg_next = 0, cg_running = False, cg_deferred = None\<rparr>"
  have "sound_retry (cg_retry ?g)" "cg_failures ?g = 0" by (simp_all add: sound_retry_def)
  from backoff_schedule [OF this, of "[((\<lambda>d. d), 1), ((\<lambda>d. d), 2)]" "\<lambda>d. d" 10] show ?thesis
    by (simp add: Let_def)
qed

text \<open>
  The instrument and the catalog schedule share a worker without starving or hurrying each other. A chosen gate has
  served its interval and its backoff, and the catalog is chosen only when none was read yet or its interval has
  passed since. And as soon as the instrument gate is open and carries no deferral, or the
  catalog gate is and its interval has passed, the worker runs one of the two at once, even when the other is blocked on
  its budget.
\<close>

theorem catalog_schedule:
  assumes "zero_time < now"
  shows "case next_turn None now cc c of (cc', c', out) \<Rightarrow>
     (let last = ss_catalogUpdatedAt (the_scope c (cc_scope cc)) in
      (case out of
         Stopped e \<Rightarrow> False
       | Chosen useCatalog t \<Rightarrow> t = last \<and>
           (if useCatalog then cg_next (cc_catalog cc) \<le> now \<and> (IsZero last \<or> last + cg_interval (cc_catalog cc) \<le> now)
            else cg_next (cc_instruments cc) \<le> now)
       | Idle t \<Rightarrow>
           \<not> (cg_deferred (cc_instruments cc) = None \<and> cg_next (cc_instruments cc) \<le> now)
         \<and> \<not> (cg_deferred (cc_catalog cc) = None \<and> cg_next (cc_catalog cc) \<le> now
              \<and> (IsZero last \<or> last + cg_interval (cc_catalog cc) \<le> now))))"
proof -
  define last where "last = ss_catalogUpdatedAt (the_scope c (cc_scope cc))"
  obtain c1 i di where i: "due c (cc_instruments cc) now = (c1, i, di)" by (metis prod.collapse)
  obtain c2 k dk where k: "due c1 (cc_catalog cc) now = (c2, k, dk)" by (metis prod.collapse)
  note fi = due_facts [OF i] and fk = due_facts [OF k]
  define dk' where "dk' = (if \<not> IsZero dk \<and> \<not> IsZero last then maxTime [dk, last + cg_interval k] else dk)"
  have late: "\<not> IsZero dk \<Longrightarrow> zero_time < dk" using fk(1) assms by auto
  have dk': "(IsZero dk' \<longleftrightarrow> IsZero dk) \<and> (IsZero dk \<or> dk \<le> dk' \<and> (IsZero last \<or> last + cg_interval k \<le> dk'))"
  proof (cases "IsZero dk \<or> IsZero last")
    case False
    then have "dk' = max dk (last + cg_interval k)" using late by (simp add: dk'_def)
    then show ?thesis using False late by (auto simp: IsZero_def)
  qed (auto simp: dk'_def)
  have open_i: "di = now" if "cg_deferred (cc_instruments cc) = None" "cg_next (cc_instruments cc) \<le> now"
    using fi(4) that assms by simp
  have open_k: "dk' = now" if "cg_deferred (cc_catalog cc) = None" "cg_next (cc_catalog cc) \<le> now"
      "IsZero last \<or> last + cg_interval (cc_catalog cc) \<le> now"
  proof -
    have "dk = now" using fk(4) that(1,2) assms by simp
    then show ?thesis using that(3) assms by (auto simp: dk'_def fk(3) max_def)
  qed
  have nz: "\<not> IsZero now" using assms by (simp add: IsZero_def)
  define use where "use = (IsZero di \<or> \<not> IsZero dk' \<and> dk' < di)"
  define m where "m = (if use then dk' else di)"
  have idle: "\<not> IsZero m \<and> \<not> m > now" if "di = now \<or> dk' = now"
    using that nz fi(1) fk(1) dk' by (auto simp: m_def use_def)
  have chosen: "if use then cg_next (cc_catalog cc) \<le> now \<and> (IsZero last \<or> last + cg_interval (cc_catalog cc) \<le> now)
      else cg_next (cc_instruments cc) \<le> now" if "\<not> IsZero m" "\<not> m > now"
    using that fi(1) fk(1,3) dk' by (cases use) (auto simp: m_def)
  show ?thesis
    unfolding next_turn_def option.case i k prod.case Let_def last_def [symmetric] dk'_def [symmetric] use_def [symmetric] m_def [symmetric]
    using idle chosen open_i open_k by (cases "\<not> IsZero m \<and> \<not> m > now") auto
qed


definition demo_gate :: "time \<Rightarrow> CycleGate" where
  "demo_gate next = \<lparr>cg_retry = \<lparr>ry_MaxAttempts = 3, ry_InitialBackoff = 100, ry_MaxBackoff = 1000\<rparr>, cg_interval = 50,
     cg_failures = 0, cg_next = next, cg_running = False, cg_deferred = None\<rparr>"

definition demo_cycle :: CatalogCycle where
  "demo_cycle = \<lparr>cc_scope = BinanceSpot, cc_instruments = demo_gate 3, cc_catalog = demo_gate 90\<rparr>"

theorem catalog_schedule_witness:
  "case next_turn None 5 demo_cycle (set_scope (empty_Controller Defaults) BinanceSpot demo_scope) of
     (cc, c, Chosen useCatalog t) \<Rightarrow> \<not> useCatalog \<and> cg_next (cc_instruments demo_cycle) \<le> 5 | _ \<Rightarrow> False"
proof -
  let ?run = "next_turn None 5 demo_cycle (set_scope (empty_Controller Defaults) BinanceSpot demo_scope)"
  have "(case ?run of (cc, c, Chosen useCatalog t) \<Rightarrow> \<not> useCatalog | _ \<Rightarrow> False)" by code_simp
  moreover have "zero_time < 5" by (simp add: zero_time_def)
  note catalog_schedule [OF this, where cc = demo_cycle and c = "set_scope (empty_Controller Defaults) BinanceSpot demo_scope"]
  ultimately show ?thesis by (simp add: Let_def split: prod.splits turn.splits)
qed

end
