(* ===== verification/Upstream_Safety.thy ===== *)
theory Upstream_Safety
  imports Upstream_Controller
begin

text \<open>
  Every interleaving of the critical sections of the admission controller as a step relation, and what
  holds in every reachable state: the rate limits, the capacity limits and the accounting of attempts.

  The relation carries two ghosts beside the controller: the last reading of the clock, which
  never goes back, and the log of admissions, from which only a rolled back attempt disappears. The
  ledger forgets old entries, the log does not.
\<close>

section \<open>The ledger of one scope\<close>

type_synonym admission = "nat \<times> time \<times> cost"

definition entry_key :: "entry \<Rightarrow> admission" where
  "entry_key e = (en_ref e, en_at e, en_cost e)"

definition recent :: "scopeState \<Rightarrow> time \<Rightarrow> admission \<Rightarrow> bool" where
  "recent s seen x \<longleftrightarrow> fst (snd x) + longest_window s > seen"

text \<open>What the admissions of the window that ends at \<open>t\<close> cost, counting the operations in \<open>ops\<close>.\<close>

definition window_total :: "window \<Rightarrow> Operation set \<Rightarrow> time \<Rightarrow> admission list \<Rightarrow> int" where
  "window_total w ops t adm = sum_list (map (\<lambda>(r, a, c). window_cost w c)
     (filter (\<lambda>(r, a, c). t - w_duration w < a \<and> a \<le> t \<and> cost_operation c \<in> ops) adm))"

definition within_limits :: "scopeState \<Rightarrow> admission list \<Rightarrow> bool" where
  "within_limits s adm \<longleftrightarrow> (\<forall>(name, w) \<in> set (ss_windows s). \<forall>t.
     (\<not> ss_keepInflight s \<longrightarrow> window_total w UNIV t adm \<le> w_limit w)
   \<and> (w_split w \<longrightarrow> (\<forall>op. window_total w {op} t adm \<le> percent (w_limit w) (ss_shares s op))))"

definition windows_ok :: "scopeState \<Rightarrow> bool" where
  "windows_ok s \<longleftrightarrow> (\<forall>(name, w) \<in> set (ss_windows s). 0 \<le> w_limit w \<and> w_limit w \<le> max_int64)
     \<and> (\<forall>op. 0 \<le> ss_shares s op \<and> ss_shares s op \<le> 100) \<and> sum_list (map (ss_shares s) operations) \<le> 100"

definition ledger_ok :: "scopeState \<Rightarrow> time \<Rightarrow> admission list \<Rightarrow> bool" where
  "ledger_ok s seen adm \<longleftrightarrow>
     (\<forall>e \<in> set (ss_history s). entry_ok e \<and> en_at e \<le> seen) \<and> distinct (map en_ref (ss_history s))
   \<and> filter (recent s seen) (map entry_key (ss_history s)) = filter (recent s seen) adm
   \<and> (\<forall>(r, a, c) \<in> set adm. a \<le> seen \<and> cost_ok c)
   \<and> windows_ok s \<and> within_limits s adm"

lemma longest_ge:
  assumes "(name, w) \<in> set (ss_windows s)"
  shows "w_duration w \<le> longest_window s"
proof -
  have "acc \<le> foldl (\<lambda>longest (name, w). max longest (w_duration w)) acc ws
      \<and> (\<forall>(name, w) \<in> set ws. w_duration w \<le> foldl (\<lambda>longest (name, w). max longest (w_duration w)) acc ws)"
    for acc :: int and ws :: "(string, window) gomap"
    by (induction ws arbitrary: acc) (auto, (meson max.bounded_iff)+)
  with assms show ?thesis unfolding longest_window_def by fastforce
qed

lemma window_total_Nil [simp]: "window_total w ops t [] = 0"
  by (simp add: window_total_def)

lemma window_total_append [simp]: "window_total w ops t (l @ l') = window_total w ops t l + window_total w ops t l'"
  by (simp add: window_total_def)

lemma window_total_drop:
  assumes "\<forall>(r, a, c) \<in> set adm. cost_ok c"
  shows "window_total w ops t (filter P adm) \<le> window_total w ops t adm"
proof -
  have "window_total w ops t (filter P adm) = sum_list (map (\<lambda>(r, a, c). window_cost w c)
      (filter (\<lambda>x. P x \<and> (case x of (r, a, c) \<Rightarrow> t - w_duration w < a \<and> a \<le> t \<and> cost_operation c \<in> ops)) adm))"
    by (simp add: window_total_def filter_filter conj_commute)
  also have "\<dots> \<le> window_total w ops t adm"
    unfolding window_total_def using assms by (intro sum_filter_mono) (auto simp: window_cost_nonneg)
  finally show ?thesis .
qed

lemma filter_recent_later: "seen \<le> now \<Longrightarrow> filter (recent s now) (filter (recent s seen) xs) = filter (recent s now) xs"
  by (induction xs) (auto simp: recent_def)

lemma ledger_later: "ledger_ok s seen adm \<Longrightarrow> seen \<le> now \<Longrightarrow> ledger_ok s now adm"
  unfolding ledger_ok_def by (auto dest: order_trans) (metis filter_recent_later)

text \<open>Only the windows, the shares, the history and \<open>keepInflight\<close> matter.\<close>

lemma ledger_cong:
  assumes "ss_windows s' = ss_windows s" "ss_keepInflight s' = ss_keepInflight s"
    "ss_shares s' = ss_shares s" "ss_history s' = ss_history s"
  shows "ledger_ok s' seen adm = ledger_ok s seen adm"
proof -
  have "longest_window s' = longest_window s" by (simp add: longest_window_def assms(1))
  with assms show ?thesis
    by (simp add: ledger_ok_def within_limits_def windows_ok_def recent_def [abs_def])
qed

lemma prune_fields [simp]:
  "ss_windows (prune s now) = ss_windows s" "ss_keepInflight (prune s now) = ss_keepInflight s"
  "ss_shares (prune s now) = ss_shares s" "longest_window (prune s now) = longest_window s"
  "ss_spacing (prune s now) = ss_spacing s" "ss_next (prune s now) = ss_next s" "ss_cooldown (prune s now) = ss_cooldown s"
  by (simp_all add: prune_def Let_def longest_window_def)

lemma prune_history:
  "ss_history (prune s now) = map (\<lambda>e. e\<lparr>en_observations := filter (\<lambda>(d, ob). ob_expires ob > now) (en_observations e)\<rparr>)
     (filter (\<lambda>e. en_inflight e \<or> en_at e > now - longest_window s
        \<or> filter (\<lambda>(d, ob). ob_expires ob > now) (en_observations e) \<noteq> []) (ss_history s))"
  by (auto simp: prune_def Let_def filter_map comp_def not_le intro!: filter_cong)

lemma prune_subset:
  assumes "e' \<in> set (ss_history (prune s now))"
  obtains e where "e \<in> set (ss_history s)" "entry_key e' = entry_key e" "en_inflight e' = en_inflight e"
    "set (en_observations e') \<subseteq> set (en_observations e)"
  using assms that by (auto simp: prune_history entry_key_def)

lemma filter_swap: "filter P (filter Q xs) = filter Q (filter P xs)"
  by (induction xs) auto

lemma entry_ok_subset:
  "entry_ok e \<Longrightarrow> en_cost e' = en_cost e \<Longrightarrow> set (en_observations e') \<subseteq> set (en_observations e) \<Longrightarrow> entry_ok e'"
  by (auto simp: entry_ok_def)

lemma ledger_prune:
  assumes "ledger_ok s seen adm" and "seen \<le> now"
  shows "ledger_ok (prune s now) now adm"
proof -
  have s: "ledger_ok s now adm" using assms by (rule ledger_later)
  have refs: "distinct (map en_ref (ss_history (prune s now)))"
    using s by (simp add: prune_history ledger_ok_def comp_def distinct_map_filter)
  have "filter (recent s now) (map entry_key (ss_history (prune s now))) = filter (recent s now) (map entry_key (ss_history s))"
    by (auto simp: prune_history filter_map comp_def entry_key_def [abs_def] recent_def intro!: arg_cong [where f = "map _"] filter_cong)
  then have "filter (recent (prune s now) now) (map entry_key (ss_history (prune s now))) = filter (recent (prune s now) now) adm"
    using s by (simp add: ledger_ok_def recent_def [abs_def])
  moreover have "entry_ok e \<and> en_at e \<le> now" if "e \<in> set (ss_history (prune s now))" for e
    using that s by (elim prune_subset) (auto simp: ledger_ok_def entry_key_def intro: entry_ok_subset)
  moreover have "windows_ok (prune s now)" "within_limits (prune s now) adm"
    using s by (simp_all add: ledger_ok_def windows_ok_def within_limits_def)
  ultimately show ?thesis using s refs by (simp add: ledger_ok_def)
qed

lemma ledger_update_entry:
  assumes "ledger_ok s seen adm" and "\<And>e. e \<in> set (ss_history s) \<Longrightarrow> en_ref e = r \<Longrightarrow> entry_key (f e) = entry_key e"
    and "\<And>e. e \<in> set (ss_history s) \<Longrightarrow> entry_ok e \<Longrightarrow> entry_ok (f e)"
  shows "ledger_ok (update_entry s r f) seen adm"
proof -
  have keys: "map entry_key (ss_history (update_entry s r f)) = map entry_key (ss_history s)"
    using assms(2) by (auto simp: update_entry_def)
  have "map en_ref (ss_history (update_entry s r f)) = map fst (map entry_key (ss_history (update_entry s r f)))"
    by (simp add: entry_key_def comp_def)
  also have "\<dots> = map en_ref (ss_history s)" unfolding keys by (simp add: entry_key_def comp_def)
  finally have refs: "map en_ref (ss_history (update_entry s r f)) = map en_ref (ss_history s)" .
  have at: "en_at (f e) = en_at e" if "e \<in> set (ss_history s)" "en_ref e = r" for e
    using assms(2) [OF that] by (simp add: entry_key_def)
  have "longest_window (update_entry s r f) = longest_window s" by (simp add: update_entry_def longest_window_def)
  then have rec: "recent (update_entry s r f) seen = recent s seen" by (simp add: recent_def fun_eq_iff)
  have "\<forall>e \<in> set (ss_history (update_entry s r f)). entry_ok e \<and> en_at e \<le> seen"
    using assms(1,3) at by (auto simp: update_entry_def ledger_ok_def)
  moreover have "windows_ok (update_entry s r f)" "within_limits (update_entry s r f) adm"
    using assms(1) by (simp_all add: ledger_ok_def windows_ok_def within_limits_def update_entry_def)
  ultimately show ?thesis using assms(1) unfolding ledger_ok_def keys refs rec by blast
qed

lemma ledger_remove:
  assumes "ledger_ok s seen adm"
  shows "ledger_ok (s\<lparr>ss_history := filter (\<lambda>e. en_ref e \<noteq> r) (ss_history s)\<rparr>) seen (filter (\<lambda>(r', a, c). r' \<noteq> r) adm)"
proof -
  let ?s = "s\<lparr>ss_history := filter (\<lambda>e. en_ref e \<noteq> r) (ss_history s)\<rparr>"
  let ?P = "\<lambda>(r', a, c). r' \<noteq> r"
  have rec: "recent ?s seen = recent s seen" by (simp add: recent_def longest_window_def fun_eq_iff)
  have "map entry_key (ss_history ?s) = filter ?P (map entry_key (ss_history s))"
    by (simp add: filter_map comp_def entry_key_def)
  then have "filter (recent ?s seen) (map entry_key (ss_history ?s)) = filter ?P (filter (recent s seen) (map entry_key (ss_history s)))"
    by (simp add: rec conj_commute)
  also have "\<dots> = filter (recent ?s seen) (filter ?P adm)"
    using assms filter_swap [of ?P "recent s seen" adm] by (simp only: ledger_ok_def rec)
  finally have keys: "filter (recent ?s seen) (map entry_key (ss_history ?s)) = filter (recent ?s seen) (filter ?P adm)" .
  have ok: "\<forall>(r, a, c) \<in> set adm. cost_ok c" using assms by (auto simp: ledger_ok_def)
  have "within_limits ?s (filter ?P adm)"
    using assms window_total_drop [OF ok, of _ _ _ ?P] by (fastforce simp: ledger_ok_def within_limits_def intro: order_trans)
  with assms keys show ?thesis
    by (auto simp: ledger_ok_def windows_ok_def distinct_map_filter)
qed

section \<open>What an admission has checked\<close>

definition passes :: "scopeState \<Rightarrow> time \<Rightarrow> cost \<Rightarrow> window \<Rightarrow> bool" where
  "passes s now request w \<longleftrightarrow>
     (let amount = window_cost w request; op = cost_operation request; u = usage s w now;
          allowance = percent (w_limit w) (ss_shares s op)
      in amount = 0 \<or>
         amount \<le> w_limit w \<and> us_common u \<le> (if ss_keepInflight s then w_limit w else w_limit w - amount)
       \<and> (w_split w \<longrightarrow> us_operations u op \<le> allowance - amount))"

lemma usage_next: "IsZero (us_next (usage s w now)) \<or> us_next (usage s w now) > now"
proof -
  let ?P = "\<lambda>v. IsZero (us_next v) \<or> us_next v > now"
  have count: "?P v \<Longrightarrow> ?P (foldl (count_entry s w now) v es)" for v es
  proof (induction es arbitrary: v)
    case (Cons e es)
    then have "?P (count_entry s w now v e)"
      by (auto simp: count_entry_def Let_def earlier_def live_def)
    with Cons.IH show ?case by simp
  qed simp
  have observe: "?P v \<Longrightarrow> ?P (foldl (observe_entry s w now) v es)" for v es
  proof (induction es arbitrary: v)
    case (Cons e es)
    then have "?P (observe_entry s w now v e)"
      by (auto simp: observe_entry_def Let_def earlier_def split: option.split)
    with Cons.IH show ?case by simp
  qed simp
  define v0 where "v0 = \<lparr>us_common = 0, us_local = 0, us_observed = 0, us_reserved = 0, us_operations = (\<lambda>_. 0),
    us_next = zero_time, us_uncertain = False, us_incompleteHistory = (ss_historySince s > now - w_duration w)\<rparr>"
  define v where "v = foldl (count_entry s w now) v0 (ss_history s)"
  have v: "?P v" unfolding v_def by (rule count) (simp add: v0_def IsZero_def)
  then have "?P (foldl (observe_entry s w now) (v\<lparr>us_common := us_local v\<rparr>) (ss_history s))"
    by (intro observe) simp
  with v show ?thesis unfolding usage_def v0_def [symmetric] Let_def v_def [symmetric] by simp
qed

lemma ready_window_passes:
  assumes "ready_window s w now name limit (r, b) = Inr (r', b')"
  shows "r \<le> r'" and "b' = None \<Longrightarrow> b = None"
    and "b' = None \<Longrightarrow> r' \<le> now \<Longrightarrow> now < wt_expires w \<Longrightarrow> cost_ok (wt_cost w) \<Longrightarrow> passes s now (wt_cost w) limit"
proof -
  note eq = assms [unfolded ready_window_def Let_def, simplified]
  show "r \<le> r'" "b' = None \<Longrightarrow> b = None"
    using eq maxTime_ge [of r "[r, _]"] by (auto split: if_splits)
  assume "b' = None" "r' \<le> now" "now < wt_expires w" "cost_ok (wt_cost w)"
  moreover from this(4) have "0 \<le> window_cost limit (wt_cost w)" by (rule window_cost_nonneg)
  moreover have "wt_expires w \<le> maxTime [r, wt_expires w]"
    "us_next (usage s limit now) \<le> maxTime [r, us_next (usage s limit now)]"
    by (simp_all add: maxTime_ge)
  ultimately show "passes s now (wt_cost w) limit"
    using eq usage_next [of s limit now] by (auto simp: passes_def Let_def split: if_splits)
qed

lemma ready_loop_passes:
  assumes "ready_loop s w now limits (r, b) = Inr (r', b')"
  shows "r \<le> r' \<and> (b' = None \<longrightarrow> b = None) \<and>
    (b' = None \<longrightarrow> r' \<le> now \<longrightarrow> now < wt_expires w \<longrightarrow> cost_ok (wt_cost w) \<longrightarrow> (\<forall>(name, limit) \<in> set limits. passes s now (wt_cost w) limit))"
  using assms
proof (induction limits arbitrary: r b)
  case (Cons nl limits)
  obtain name limit where nl: "nl = (name, limit)" by fastforce
  with Cons.prems obtain r1 b1 where step: "ready_window s w now name limit (r, b) = Inr (r1, b1)"
    and rest: "ready_loop s w now limits (r1, b1) = Inr (r', b')"
    by (auto split: sum.splits)
  show ?case
    using ready_window_passes [OF step] Cons.IH [OF rest] by (auto simp: nl)
qed simp

lemma ready_in_passes:
  assumes "ready_in s w now = Ready t" and "t \<le> now" and "now < wt_expires w" and "cost_ok (wt_cost w)"
  shows "\<forall>(name, limit) \<in> set (ss_windows s). passes s now (wt_cost w) limit"
    and "ss_next s \<le> now" "ss_cooldown s \<le> now" "wt_notBefore w \<le> now"
proof -
  from assms(1) have loop: "ready_loop s w now (ss_windows s) (maxTime [ss_next s, ss_cooldown s, wt_notBefore w], None) = Inr (t, None)"
    by (auto simp: ready_in_def split: sum.splits option.splits prod.splits)
  note facts = ready_loop_passes [OF loop]
  from facts assms show "\<forall>(name, limit) \<in> set (ss_windows s). passes s now (wt_cost w) limit" by blast
  have "maxTime [ss_next s, ss_cooldown s, wt_notBefore w] \<le> now" using facts assms(2) by linarith
  then show "ss_next s \<le> now" "ss_cooldown s \<le> now" "wt_notBefore w \<le> now"
    using maxTime_ge [of _ "[ss_next s, ss_cooldown s, wt_notBefore w]"] by force+
qed

text \<open>
  The admissions of a window that ends now or later and is still open are all in the ledger and live,
  so that the usage counts them.
\<close>

lemma window_counted:
  assumes ok: "ledger_ok s now adm" and w: "(name, w) \<in> set (ss_windows s)" and t: "now \<le> t" "t - w_duration w < now"
  shows "window_total w ops t adm \<le> live_cost s w now (\<lambda>e. cost_operation (en_cost e) \<in> ops)"
proof -
  let ?in = "\<lambda>(r, a, c). t - w_duration w < a \<and> a \<le> t \<and> cost_operation c \<in> ops"
  have "?in x \<Longrightarrow> recent s now x" for x
    using longest_ge [OF w] t by (auto simp: recent_def)
  then have sub: "filter ?in xs = filter ?in (filter (recent s now) xs)" for xs
    by (auto intro!: filter_cong simp: filter_filter)
  have "filter ?in adm = filter ?in (map entry_key (ss_history s))"
    using ok sub [of adm] sub [of "map entry_key (ss_history s)"] by (simp only: ledger_ok_def)
  then have "window_total w ops t adm = sum_list (map (\<lambda>e. window_cost w (en_cost e))
      (filter (\<lambda>e. t - w_duration w < en_at e \<and> en_at e \<le> t \<and> cost_operation (en_cost e) \<in> ops) (ss_history s)))"
    by (simp add: window_total_def filter_map comp_def entry_key_def)
  also have "\<dots> \<le> live_cost s w now (\<lambda>e. cost_operation (en_cost e) \<in> ops)"
    unfolding live_cost_def using ok t
    by (intro sum_filter_mono) (auto simp: ledger_ok_def entry_ok_def window_cost_nonneg live_def)
  finally show ?thesis .
qed

lemma ledger_reserve:
  assumes ok: "ledger_ok s now adm" and passes: "\<forall>(name, limit) \<in> set (ss_windows s). passes s now (en_cost e) limit"
    and e: "en_at e = now" "cost_ok (en_cost e)" "en_observations e = []" "en_ref e \<notin> en_ref ` set (ss_history s)"
  shows "ledger_ok (s\<lparr>ss_history := ss_history s @ [e]\<rparr>) now (adm @ [entry_key e])"
proof -
  let ?s = "s\<lparr>ss_history := ss_history s @ [e]\<rparr>" and ?adm = "adm @ [entry_key e]"
  have rec: "recent ?s now = recent s now" by (simp add: recent_def longest_window_def fun_eq_iff)
  have entries: "\<forall>e \<in> set (ss_history s). entry_ok e" using ok by (simp add: ledger_ok_def)
  have step: "window_total w ops t ?adm \<le> limit"
    if w: "(name, w) \<in> set (ss_windows s)" and old: "window_total w ops t adm \<le> limit"
      and bound: "cost_operation (en_cost e) \<in> ops \<Longrightarrow> window_cost w (en_cost e) \<noteq> 0 \<Longrightarrow>
        live_cost s w now (\<lambda>e. cost_operation (en_cost e) \<in> ops) + window_cost w (en_cost e) \<le> limit"
    for name w ops t limit
  proof (cases "t - w_duration w < now \<and> now \<le> t \<and> cost_operation (en_cost e) \<in> ops \<and> window_cost w (en_cost e) \<noteq> 0")
    case True
    then have "window_total w ops t adm \<le> live_cost s w now (\<lambda>e. cost_operation (en_cost e) \<in> ops)"
      by (intro window_counted [OF ok w]) auto
    with True bound e(1) show ?thesis by (simp add: window_total_def entry_key_def)
  next
    case False
    with old e(1) show ?thesis by (auto simp: window_total_def entry_key_def)
  qed
  have limits: "\<forall>(name, w) \<in> set (ss_windows s). 0 \<le> w_limit w \<and> w_limit w \<le> max_int64"
    and shares: "\<forall>op. 0 \<le> ss_shares s op \<and> ss_shares s op \<le> 100"
    using ok by (simp_all add: ledger_ok_def windows_ok_def)
  have old: "within_limits s adm" using ok by (simp add: ledger_ok_def)
  have "within_limits ?s ?adm"
    unfolding within_limits_def
  proof (intro ballI, clarify)
    fix name w t assume "(name, w) \<in> set (ss_windows ?s)"
    then have w: "(name, w) \<in> set (ss_windows s)" by simp
    have lim: "0 \<le> w_limit w" "w_limit w \<le> max_int64" using limits w by auto
    have pos: "0 \<le> window_cost w (en_cost e)" using e(2) by (rule window_cost_nonneg)
    have p: "passes s now (en_cost e) w" using passes w by auto
    have local: "live_cost s w now (\<lambda>_. True) + window_cost w (en_cost e) \<le> w_limit w"
      if "\<not> ss_keepInflight s" "window_cost w (en_cost e) \<noteq> 0"
    proof -
      have "us_local (usage s w now) \<le> w_limit w - window_cost w (en_cost e)"
        using p that common_le_iff by (auto simp: passes_def Let_def)
      with lim pos that(2) show ?thesis unfolding usage_local(1) [OF entries] by (simp add: min_def split: if_splits)
    qed
    have oplocal: "live_cost s w now (\<lambda>x. cost_operation (en_cost x) = cost_operation (en_cost e)) + window_cost w (en_cost e)
        \<le> percent (w_limit w) (ss_shares s (cost_operation (en_cost e)))"
      if "w_split w" "window_cost w (en_cost e) \<noteq> 0"
    proof -
      have "us_operations (usage s w now) (cost_operation (en_cost e))
          \<le> percent (w_limit w) (ss_shares s (cost_operation (en_cost e))) - window_cost w (en_cost e)"
        using p that by (auto simp: passes_def Let_def)
      moreover have "percent (w_limit w) (ss_shares s (cost_operation (en_cost e))) \<le> w_limit w"
        using lim shares by (simp add: percent_percentage percentage_bounds)
      ultimately show ?thesis using lim pos that(2) unfolding usage_local(2) [OF entries] by (simp add: min_def split: if_splits)
    qed
    show "(\<not> ss_keepInflight ?s \<longrightarrow> window_total w UNIV t ?adm \<le> w_limit w) \<and>
        (w_split w \<longrightarrow> (\<forall>op. window_total w {op} t ?adm \<le> percent (w_limit w) (ss_shares ?s op)))"
    proof (intro conjI impI allI)
      assume "\<not> ss_keepInflight ?s"
      with old w local show "window_total w UNIV t ?adm \<le> w_limit w"
        by (intro step [OF w]) (auto simp: within_limits_def)
    next
      fix op assume "w_split w"
      with old w oplocal show "window_total w {op} t ?adm \<le> percent (w_limit w) (ss_shares ?s op)"
        by (intro step [OF w]) (auto simp: within_limits_def)
    qed
  qed
  moreover have "windows_ok ?s" using ok by (simp add: ledger_ok_def windows_ok_def)
  ultimately show ?thesis
    using ok e unfolding ledger_ok_def rec by (auto simp: entry_ok_def entry_key_def)
qed

section \<open>Sections that leave the accounting alone\<close>

text \<open>
  Checking readiness prunes ledgers and reporting keeps notes; neither touches what the invariants speak
  of.
\<close>

definition quiet_scope :: "scopeState \<Rightarrow> time \<Rightarrow> scopeState \<Rightarrow> bool" where
  "quiet_scope s now s' \<longleftrightarrow> ss_windows s' = ss_windows s \<and> ss_keepInflight s' = ss_keepInflight s
     \<and> ss_shares s' = ss_shares s \<and> ss_cooldown s \<le> ss_cooldown s'
     \<and> (ss_history s' = ss_history s \<or> ss_history s' = ss_history (prune s now))"

definition quiet :: "Controller \<Rightarrow> time \<Rightarrow> Controller \<Rightarrow> bool" where
  "quiet c now c' \<longleftrightarrow>
     c'\<lparr>ct_scopes := [], ct_events := [], ct_changed := 0\<rparr> = c\<lparr>ct_scopes := [], ct_events := [], ct_changed := 0\<rparr>
   \<and> map fst (ct_scopes c') = map fst (ct_scopes c)
   \<and> (\<forall>sc s'. map_of (ct_scopes c') sc = Some s' \<longrightarrow> (\<exists>s. map_of (ct_scopes c) sc = Some s \<and> quiet_scope s now s'))"

lemma prune_again:
  assumes "ss_history s' = ss_history (prune s now)" and "ss_windows s' = ss_windows s"
  shows "ss_history (prune s' now) = ss_history s'"
proof -
  have "longest_window s' = longest_window s" by (simp add: longest_window_def assms(2))
  then show ?thesis
    unfolding prune_history [of s'] assms(1) unfolding prune_history
    by (auto simp: filter_map comp_def filter_filter intro!: filter_cong)
qed

lemma quiet_scope_trans: "quiet_scope s now s' \<Longrightarrow> quiet_scope s' now s'' \<Longrightarrow> quiet_scope s now s''"
proof -
  assume a: "quiet_scope s now s'" and b: "quiet_scope s' now s''"
  have "ss_history (prune s' now) = ss_history (prune s now)"
    if "ss_history s' = ss_history s" "ss_windows s' = ss_windows s"
    using that by (simp add: prune_history longest_window_def)
  with a b show ?thesis unfolding quiet_scope_def using prune_again [of s' s now] order_trans [of "ss_cooldown s"] by metis
qed

lemma quiet_refl: "quiet c now c"
  by (simp add: quiet_def quiet_scope_def)

lemma quiet_trans:
  assumes "quiet c now c'" and "quiet c' now c''"
  shows "quiet c now c''"
  using assms unfolding quiet_def by (metis (no_types, lifting) quiet_scope_trans)

lemma map_fst_update: "ghas m k \<Longrightarrow> map fst (AList.update k v m) = map fst m"
  by (induction m) (auto simp: ghas_def split: if_splits)

lemma quiet_set:
  assumes "map_of (ct_scopes c) sc = Some s" and "quiet_scope s now s'"
  shows "quiet c now (set_scope c sc s')"
  using assms map_fst_update [of "ct_scopes c" sc s']
  by (auto simp: quiet_def set_scope_def ghas_def quiet_scope_def split: if_splits)

lemma the_scope_Some: "map_of (ct_scopes c) sc = Some s \<Longrightarrow> the_scope c sc = s"
  by (simp add: the_scope_def)

lemma quiet_events: "quiet c now (diagnostic c event)"
  by (simp add: quiet_def diagnostic_def quiet_scope_def)

lemma quiet_notify: "quiet c now (notify c)"
  by (simp add: quiet_def notify_def quiet_scope_def)

lemma quiet_ready:
  assumes "ghas (ct_scopes c) (wt_scope w)"
  shows "quiet c now (fst (ready c w now))"
proof -
  obtain s where s: "map_of (ct_scopes c) (wt_scope w) = Some s" using assms by (auto simp: ghas_def)
  show ?thesis
    unfolding ready_def Let_def fst_conv the_scope_Some [OF s] by (rule quiet_set [OF s]) (simp add: quiet_scope_def)
qed

lemma quiet_admission:
  assumes "ghas (ct_scopes c) scope"
  shows "quiet c now (admissionDiagnostic c scope request reason next)"
proof -
  obtain s where s: "map_of (ct_scopes c) scope = Some s" using assms by (auto simp: ghas_def)
  have "quiet c now (set_scope c scope (s\<lparr>ss_lastAdmission := x\<rparr>))" for x
    by (rule quiet_set [OF s]) (simp add: quiet_scope_def)
  then show ?thesis
    unfolding admissionDiagnostic_def Let_def the_scope_Some [OF s]
    by (auto intro: quiet_refl quiet_trans quiet_events)
qed

lemma quiet_fields:
  assumes "quiet c now c'"
  shows "ct_lanes c' = ct_lanes c" "ct_active c' = ct_active c" "ct_queued c' = ct_queued c"
    "ct_settings c' = ct_settings c" "ct_operations c' = ct_operations c" "ct_nextLane c' = ct_nextLane c"
    "ct_attempts c' = ct_attempts c" "map fst (ct_scopes c') = map fst (ct_scopes c)"
proof -
  let ?z = "\<lambda>c. c\<lparr>ct_scopes := [], ct_events := [], ct_changed := 0\<rparr>"
  have z: "?z c' = ?z c" using assms by (simp add: quiet_def)
  show "ct_lanes c' = ct_lanes c" using arg_cong [OF z, of ct_lanes] by simp
  show "ct_active c' = ct_active c" using arg_cong [OF z, of ct_active] by simp
  show "ct_queued c' = ct_queued c" using arg_cong [OF z, of ct_queued] by simp
  show "ct_settings c' = ct_settings c" using arg_cong [OF z, of ct_settings] by simp
  show "ct_operations c' = ct_operations c" using arg_cong [OF z, of ct_operations] by simp
  show "ct_nextLane c' = ct_nextLane c" using arg_cong [OF z, of ct_nextLane] by simp
  show "ct_attempts c' = ct_attempts c" using arg_cong [OF z, of ct_attempts] by simp
  show "map fst (ct_scopes c') = map fst (ct_scopes c)" using assms by (simp add: quiet_def)
qed

lemma ghas_keys: "map fst m = map fst m' \<Longrightarrow> ghas m = ghas m'"
  by (simp add: fun_eq_iff ghas_iff flip: set_map)

lemma quiet_keys:
  assumes "quiet c now c'"
  shows "ghas (ct_scopes c') = ghas (ct_scopes c)" "gwf (ct_scopes c') = gwf (ct_scopes c)"
  by (rule ghas_keys [OF quiet_fields(8) [OF assms]]) (simp only: gwf_def quiet_fields(8) [OF assms])

lemma quiet_scopes:
  assumes "quiet c now c'" and "map_of (ct_scopes c') sc = Some s'"
  shows "\<exists>s. map_of (ct_scopes c) sc = Some s \<and> quiet_scope s now s'"
  using assms by (simp add: quiet_def)

section \<open>The choice of a lane\<close>

definition heads_known :: "Controller \<Rightarrow> bool" where
  "heads_known c \<longleftrightarrow> (\<forall>l \<in> set (ct_lanes c). \<forall>w \<in> set (ln_queue l). ghas (ct_scopes c) (wt_scope w))"

lemma selected_loop_choice:
  assumes "selected_loop c errs now offsets = (c', chosen)" and "heads_known c" and "ct_lanes c \<noteq> []"
  shows "quiet c now c' \<and> (\<forall>index. chosen = Some index \<longrightarrow> index < length (ct_lanes c)
    \<and> (let l = ct_lanes c ! index; w = hd (ln_queue l) in ln_queue l \<noteq> [] \<and> ln_active l < ln_slots l \<and> now < wt_expires w
        \<and> op_attempts (the_operation c (wt_operation w)) < op_maximum (the_operation c (wt_operation w))
        \<and> (\<exists>t \<le> now. ready_in (the_scope c' (wt_scope w)) w now = Ready t)))"
  using assms
proof (induction offsets arbitrary: c)
  case Nil
  then show ?case by (simp add: quiet_refl)
next
  case (Cons offset offsets)
  define index where "index = (ct_nextLane c + offset) mod length (ct_lanes c)"
  define l where "l = ct_lanes c ! index"
  define w where "w = hd (ln_queue l)"
  have index: "index < length (ct_lanes c)" using Cons.prems(3) by (simp add: index_def)
  have skip: ?case if "selected_loop c errs now offsets = (c', chosen)"
    by (rule Cons.IH [OF that Cons.prems(2,3)])
  let ?busy = "ln_queue l = [] \<or> ln_active l \<ge> ln_slots l"
  let ?dead = "errs (wt_id w) \<noteq> None \<or> \<not> now < wt_expires w \<or> op_attempts (the_operation c (wt_operation w)) \<ge> op_maximum (the_operation c (wt_operation w))"
  show ?case
  proof (cases "?busy \<or> ?dead")
    case True
    with Cons.prems(1) have "selected_loop c errs now offsets = (c', chosen)"
      by (auto simp: Let_def index_def [symmetric] l_def [symmetric] w_def [symmetric] split: if_splits)
    then show ?thesis by (rule skip)
  next
    case False
    then have "w \<in> set (ln_queue l)" unfolding w_def by (intro hd_in_set) auto
    moreover have "l \<in> set (ct_lanes c)" using index unfolding l_def by simp
    ultimately have known: "ghas (ct_scopes c) (wt_scope w)" using Cons.prems(2) by (auto simp: heads_known_def)
    obtain c1 r where step: "ready c w now = (c1, r)" by fastforce
    have q: "quiet c now c1" using quiet_ready [OF known, of now] step by simp
    have known1: "heads_known c1" "ct_lanes c1 \<noteq> []"
      using Cons.prems(2,3) by (simp_all add: heads_known_def quiet_fields [OF q] quiet_keys [OF q])
    have ready: "ready_in (the_scope c1 (wt_scope w)) w now = r"
      using step by (auto simp: ready_def Let_def set_scope_def the_scope_def)
    have run: "(case r of Ready t \<Rightarrow> if \<not> t > now then (c1, Some index) else selected_loop c1 errs now offsets
        | _ \<Rightarrow> selected_loop c1 errs now offsets) = (c', chosen)"
      using Cons.prems(1) False step
      by (auto simp: Let_def index_def [symmetric] l_def [symmetric] w_def [symmetric] split: readiness.splits if_splits)
    show ?thesis
    proof (cases "\<exists>t \<le> now. r = Ready t")
      case True
      with run have "c' = c1" "chosen = Some index" by auto
      with True False ready q index show ?thesis by (auto simp: Let_def l_def w_def)
    next
      case notyet: False
      with run have rest: "selected_loop c1 errs now offsets = (c', chosen)" by (cases r) (auto split: if_splits)
      from Cons.IH [OF rest known1] quiet_trans [OF q] show ?thesis
        by (simp add: quiet_fields [OF q] the_operation_def)
    qed
  qed
qed

section \<open>Counting attempts in flight\<close>

definition inflight_in :: "(cost \<Rightarrow> bool) \<Rightarrow> scopeState \<Rightarrow> int" where
  "inflight_in Q s = int (length (filter (\<lambda>e. en_inflight e \<and> Q (en_cost e)) (ss_history s)))"

definition flights :: "Controller \<Rightarrow> (upstream_Scope \<Rightarrow> cost \<Rightarrow> bool) \<Rightarrow> int" where
  "flights c P = (\<Sum>sc \<in> fst ` set (ct_scopes c). inflight_in (P sc) (the_scope c sc))"

definition in_lane :: "nat \<Rightarrow> upstream_Scope \<Rightarrow> cost \<Rightarrow> bool" where
  "in_lane i sc k \<longleftrightarrow> laneIndex sc (cost_operation k) = i"

definition queue_at :: "Controller \<Rightarrow> nat \<Rightarrow> waiter list" where
  "queue_at c i = ln_queue (ct_lanes c ! i)"

text \<open>The queue and the counters of one lane, against the attempts in flight.\<close>

definition lane_ok :: "Controller \<Rightarrow> nat \<Rightarrow> bool" where
  "lane_ok c i \<longleftrightarrow> distinct (map wt_id (queue_at c i)) \<and> (\<forall>w \<in> set (queue_at c i). in_lane i (wt_scope w) (wt_cost w)
        \<and> ghas (ct_scopes c) (wt_scope w) \<and> cost_ok (wt_cost w))
     \<and> flights c (in_lane i) = ln_active (ct_lanes c ! i) \<and> ln_active (ct_lanes c ! i) \<le> ln_slots (ct_lanes c ! i)
     \<and> int (length (queue_at c i)) \<le> ln_capacity (ct_lanes c ! i)"

definition refs_ok :: "Controller \<Rightarrow> bool" where
  "refs_ok c \<longleftrightarrow> (\<forall>sc s. map_of (ct_scopes c) sc = Some s \<longrightarrow> distinct (map en_ref (ss_history s)))"

definition waiting :: "Controller \<Rightarrow> int" where
  "waiting c = (\<Sum>i < 8. int (length (queue_at c i)))"

definition capacity_ok :: "Controller \<Rightarrow> bool" where
  "capacity_ok c \<longleftrightarrow> gwf (ct_scopes c) \<and> length (ct_lanes c) = 8 \<and> refs_ok c \<and> (\<forall>i < 8. lane_ok c i)
   \<and> flights c (\<lambda>_ _. True) = ct_active c \<and> ct_active c \<le> up_MaxHTTPInflight (ct_settings c)
   \<and> waiting c = ct_queued c \<and> ct_queued c \<le> up_MaxAdmissionWaiters (ct_settings c)"

lemma lane_ok_cong:
  "ct_lanes c' ! i = ct_lanes c ! i \<Longrightarrow> ghas (ct_scopes c') = ghas (ct_scopes c) \<Longrightarrow>
   flights c' (in_lane i) = flights c (in_lane i) \<Longrightarrow> lane_ok c' i = lane_ok c i"
  by (simp add: lane_ok_def queue_at_def)

lemma capacity_cong:
  assumes "capacity_ok c" and "ct_lanes c' = ct_lanes c" "ct_active c' = ct_active c" "ct_queued c' = ct_queued c"
    "ct_settings c' = ct_settings c" "ghas (ct_scopes c') = ghas (ct_scopes c)" "gwf (ct_scopes c')" "refs_ok c'"
    "\<And>P. flights c' P = flights c P"
  shows "capacity_ok c'"
proof -
  have "lane_ok c' i = lane_ok c i" for i using assms by (intro lane_ok_cong) auto
  moreover have "waiting c' = waiting c" using assms(2) by (simp add: waiting_def queue_at_def)
  ultimately show ?thesis using assms by (simp add: capacity_ok_def)
qed

lemma laneIndex_bound: "laneIndex sc op < 8"
  by (cases op) (simp_all add: laneIndex_def operationCount_def)

lemma the_scope_set [simp]: "the_scope (set_scope c sc s) sc' = (if sc' = sc then s else the_scope c sc')"
  by (simp add: the_scope_def set_scope_def)

lemma flights_set:
  assumes "map_of (ct_scopes c) sc = Some s" and "ct_scopes c' = ct_scopes (set_scope c sc s')"
  shows "flights c' P = flights c P - inflight_in (P sc) s + inflight_in (P sc) s'"
proof -
  let ?K = "fst ` set (ct_scopes c)"
  have sc: "sc \<in> ?K" using assms(1) by (metis map_of_SomeD fst_conv image_eqI)
  have "map fst (ct_scopes c') = map fst (ct_scopes c)"
    using map_fst_update [of "ct_scopes c" sc s'] assms by (simp add: ghas_def set_scope_def)
  then have keys: "fst ` set (ct_scopes c') = ?K" by (metis list.set_map)
  have c': "the_scope c' sc' = (if sc' = sc then s' else the_scope c sc')" for sc'
    using the_scope_set [of c sc s' sc'] assms(2) by (simp add: the_scope_def)
  have "flights c' P = inflight_in (P sc) s' + (\<Sum>sc' \<in> ?K - {sc}. inflight_in (P sc') (the_scope c sc'))"
    unfolding flights_def keys using sc by (subst sum.remove [of _ sc]) (auto simp: c')
  moreover have "flights c P = inflight_in (P sc) s + (\<Sum>sc' \<in> ?K - {sc}. inflight_in (P sc') (the_scope c sc'))"
    unfolding flights_def using sc by (subst sum.remove [of _ sc]) (auto simp: the_scope_Some [OF assms(1)])
  ultimately show ?thesis by simp
qed

lemma inflight_quiet: "quiet_scope s now s' \<Longrightarrow> inflight_in Q s' = inflight_in Q s"
proof -
  have "inflight_in Q (prune s now) = inflight_in Q s"
    by (auto simp: inflight_in_def prune_history filter_map comp_def filter_filter intro!: arg_cong [where f = length] filter_cong)
  then show "quiet_scope s now s' \<Longrightarrow> inflight_in Q s' = inflight_in Q s"
    by (auto simp: quiet_scope_def inflight_in_def)
qed

lemma flights_quiet: "quiet c now c' \<Longrightarrow> flights c' P = flights c P"
proof -
  assume q: "quiet c now c'"
  have keys: "fst ` set (ct_scopes c') = fst ` set (ct_scopes c)"
    using quiet_fields(8) [OF q] by (metis list.set_map)
  have "inflight_in (P sc) (the_scope c' sc) = inflight_in (P sc) (the_scope c sc)" if "sc \<in> fst ` set (ct_scopes c')" for sc
  proof -
    from that obtain s' where s': "map_of (ct_scopes c') sc = Some s'" by (metis map_of_eq_None_iff not_None_eq)
    with quiet_scopes [OF q s'] show ?thesis by (auto simp: the_scope_def inflight_quiet)
  qed
  with keys show ?thesis unfolding flights_def by (intro sum.cong) auto
qed

lemma quiet_refs:
  assumes "quiet_scope s now s'"
  shows "en_ref ` set (ss_history s') \<subseteq> en_ref ` set (ss_history s)"
    and "distinct (map en_ref (ss_history s)) \<Longrightarrow> distinct (map en_ref (ss_history s'))"
  using assms by (auto simp: quiet_scope_def prune_history comp_def distinct_map_filter)

lemma capacity_quiet:
  assumes ok: "capacity_ok c" and q: "quiet c now c'"
  shows "capacity_ok c'"
proof (rule capacity_cong [OF ok])
  show "refs_ok c'"
    unfolding refs_ok_def
  proof (intro allI impI)
    fix sc s' assume s': "map_of (ct_scopes c') sc = Some s'"
    with quiet_scopes [OF q s'] ok show "distinct (map en_ref (ss_history s'))"
      by (auto simp: capacity_ok_def refs_ok_def intro: quiet_refs(2))
  qed
  show "gwf (ct_scopes c')" using ok quiet_keys [OF q] by (simp add: capacity_ok_def)
qed (simp_all add: quiet_fields [OF q] quiet_keys [OF q] flights_quiet [OF q])

text \<open>A change of one ledger that keeps what is in flight.\<close>

lemma ghas_set: "map_of (ct_scopes c) sc = Some s \<Longrightarrow> ghas (ct_scopes (set_scope c sc s')) = ghas (ct_scopes c)"
  by (auto simp: fun_eq_iff set_scope_def ghas_def)

lemma refs_set: "refs_ok c \<Longrightarrow> distinct (map en_ref (ss_history s')) \<Longrightarrow> refs_ok (set_scope c sc s')"
  by (simp add: refs_ok_def set_scope_def)

lemma set_scope_fields [simp]:
  "ct_lanes (set_scope c sc s) = ct_lanes c" "ct_active (set_scope c sc s) = ct_active c"
  "ct_queued (set_scope c sc s) = ct_queued c" "ct_settings (set_scope c sc s) = ct_settings c"
  "ct_operations (set_scope c sc s) = ct_operations c" "gwf (ct_scopes c) \<Longrightarrow> gwf (ct_scopes (set_scope c sc s))"
  by (simp_all add: set_scope_def)

lemma capacity_set:
  assumes ok: "capacity_ok c" and s: "map_of (ct_scopes c) sc = Some s"
    and "distinct (map en_ref (ss_history s'))" and "\<And>Q. inflight_in Q s' = inflight_in Q s"
  shows "capacity_ok (set_scope c sc s')"
proof (rule capacity_cong [OF ok])
  show "flights (set_scope c sc s') P = flights c P" for P
    using flights_set [OF s refl, of s' P] assms(4) by simp
  show "refs_ok (set_scope c sc s')" using ok assms(3) by (simp add: capacity_ok_def refs_set)
  show "ghas (ct_scopes (set_scope c sc s')) = ghas (ct_scopes c)" using s by (rule ghas_set)
  show "gwf (ct_scopes (set_scope c sc s'))" using ok by (simp add: capacity_ok_def)
qed simp_all

section \<open>The queue\<close>

lemma queue_update:
  assumes "i < length (ct_lanes c)"
  shows "queue_at (update_lane c i f) j = (if j = i then ln_queue (f (ct_lanes c ! i)) else queue_at c j)"
  using assms by (auto simp: queue_at_def update_lane_def nth_list_update)

lemma waiting_update:
  assumes "length (ct_lanes c) = 8" and "i < 8"
  shows "waiting (update_lane c i f) = waiting c - int (length (queue_at c i)) + int (length (ln_queue (f (ct_lanes c ! i))))"
proof -
  have "waiting (update_lane c i f) = int (length (ln_queue (f (ct_lanes c ! i))))
      + (\<Sum>j \<in> {..<8} - {i}. int (length (queue_at c j)))"
    unfolding waiting_def using assms by (subst sum.remove [of _ i]) (auto simp: queue_update)
  moreover have "waiting c = int (length (queue_at c i)) + (\<Sum>j \<in> {..<8} - {i}. int (length (queue_at c j)))"
    unfolding waiting_def using assms by (subst sum.remove [of _ i]) auto
  ultimately show ?thesis by simp
qed

lemma flights_scopes: "ct_scopes c' = ct_scopes c \<Longrightarrow> flights c' P = flights c P"
  by (simp add: flights_def the_scope_def)

text \<open>A change of one queue, with the count of waiters kept in step.\<close>

lemma capacity_queue:
  assumes ok: "capacity_ok c" and i: "i < 8" and f: "\<And>l. f l = l\<lparr>ln_queue := g (ln_queue l)\<rparr>"
    and g: "distinct (map wt_id (g (queue_at c i)))" "int (length (g (queue_at c i))) \<le> ln_capacity (ct_lanes c ! i)"
      "\<forall>w \<in> set (g (queue_at c i)). in_lane i (wt_scope w) (wt_cost w) \<and> ghas (ct_scopes c) (wt_scope w) \<and> cost_ok (wt_cost w)"
    and n: "n = ct_queued c - int (length (queue_at c i)) + int (length (g (queue_at c i)))" "n \<le> up_MaxAdmissionWaiters (ct_settings c)"
  shows "capacity_ok ((update_lane c i f)\<lparr>ct_queued := n\<rparr>)"
proof -
  let ?c = "(update_lane c i f)\<lparr>ct_queued := n\<rparr>"
  have len: "length (ct_lanes c) = 8" using ok by (simp add: capacity_ok_def)
  have same: "ct_scopes ?c = ct_scopes c" "ct_active ?c = ct_active c" "ct_settings ?c = ct_settings c" "length (ct_lanes ?c) = 8"
    "ct_queued ?c = n" using len by (simp_all add: update_lane_def)
  have fl: "flights ?c P = flights c P" for P by (rule flights_scopes) (rule same)
  have here: "ct_lanes ?c ! i = (ct_lanes c ! i)\<lparr>ln_queue := g (queue_at c i)\<rparr>"
    using len i by (simp add: update_lane_def f queue_at_def)
  have lanes: "lane_ok ?c j" if j: "j < 8" for j
  proof (cases "j = i")
    case True
    have "lane_ok c i" using ok i by (simp add: capacity_ok_def)
    then show ?thesis using g unfolding True lane_ok_def fl same(1) queue_at_def here by (simp add: queue_at_def)
  next
    case False
    then have "ct_lanes ?c ! j = ct_lanes c ! j" by (simp add: update_lane_def)
    then have "lane_ok ?c j = lane_ok c j" by (rule lane_ok_cong) (simp_all only: fl same(1))
    then show ?thesis using ok j by (simp add: capacity_ok_def)
  qed
  have "waiting ?c = waiting (update_lane c i f)" by (simp add: waiting_def queue_at_def)
  also have "\<dots> = n" using waiting_update [OF len i, of f] ok n(1) by (simp add: f capacity_ok_def queue_at_def)
  finally have "waiting ?c = n" .
  moreover have "refs_ok ?c = refs_ok c" by (simp add: refs_ok_def same(1))
  ultimately show ?thesis using ok n(2) lanes unfolding capacity_ok_def same fl by blast
qed

lemma capacity_enqueue:
  assumes ok: "capacity_ok c" and w: "ghas (ct_scopes c) (wt_scope w)" "cost_ok (wt_cost w)"
    and i: "i = laneIndex (wt_scope w) (cost_operation (wt_cost w))" and fresh: "wt_id w \<notin> wt_id ` set (queue_at c i)"
    and room: "\<not> ln_capacity (ct_lanes c ! i) \<le> int (length (queue_at c i))" "\<not> ct_queued c \<ge> up_MaxAdmissionWaiters (ct_settings c)"
  shows "capacity_ok ((update_lane c i (\<lambda>l. l\<lparr>ln_queue := ln_queue l @ [w]\<rparr>))\<lparr>ct_queued := ct_queued c + 1\<rparr>)"
  using ok w fresh room laneIndex_bound [of "wt_scope w" "cost_operation (wt_cost w)"] i
  by (intro capacity_queue [where g = "\<lambda>q. q @ [w]"]) (auto simp: capacity_ok_def lane_ok_def in_lane_def)

lemma length_filter_id:
  assumes "distinct (map f xs)" and "x \<in> set xs"
  shows "Suc (length (filter (\<lambda>y. f y \<noteq> f x) xs)) = length xs"
  using assms
proof (induction xs)
  case (Cons y xs)
  show ?case
  proof (cases "f y = f x")
    case True
    then have "f x \<notin> f ` set xs" using Cons.prems(1) by simp
    then have "\<forall>z \<in> set xs. f z \<noteq> f x" by (metis image_eqI)
    then have "filter (\<lambda>y. f y \<noteq> f x) xs = xs" by simp
    with True show ?thesis by simp
  next
    case False
    with Cons show ?thesis by auto
  qed
qed simp

lemma capacity_leave:
  assumes ok: "capacity_ok c" and i: "i = laneIndex (wt_scope w) (cost_operation (wt_cost w))" and w: "w \<in> set (queue_at c i)"
  shows "capacity_ok ((update_lane c i (\<lambda>l. l\<lparr>ln_queue := filter (\<lambda>v. wt_id v \<noteq> wt_id w) (ln_queue l)\<rparr>))\<lparr>ct_queued := ct_queued c - 1\<rparr>)"
proof (rule capacity_queue [OF ok, where g = "filter (\<lambda>v. wt_id v \<noteq> wt_id w)"])
  show bound: "i < 8" using i laneIndex_bound by simp
  have lane: "lane_ok c i" using ok bound by (simp add: capacity_ok_def)
  then have d: "distinct (map wt_id (queue_at c i))" by (simp add: lane_ok_def)
  note len = length_filter_id [OF d w]
  show "distinct (map wt_id (filter (\<lambda>v. wt_id v \<noteq> wt_id w) (queue_at c i)))" using d by (rule distinct_map_filter)
  show "int (length (filter (\<lambda>v. wt_id v \<noteq> wt_id w) (queue_at c i))) \<le> ln_capacity (ct_lanes c ! i)"
    using len lane by (simp add: lane_ok_def)
  show "ct_queued c - 1 = ct_queued c - int (length (queue_at c i)) + int (length (filter (\<lambda>v. wt_id v \<noteq> wt_id w) (queue_at c i)))"
    using len by simp
  show "ct_queued c - 1 \<le> up_MaxAdmissionWaiters (ct_settings c)" using ok by (simp add: capacity_ok_def)
  show "\<forall>v \<in> set (filter (\<lambda>v. wt_id v \<noteq> wt_id w) (queue_at c i)). in_lane i (wt_scope v) (wt_cost v)
      \<and> ghas (ct_scopes c) (wt_scope v) \<and> cost_ok (wt_cost v)"
    using lane by (simp add: lane_ok_def)
qed simp

section \<open>Reserving, releasing and rolling back\<close>

text \<open>One attempt more (\<open>d = 1\<close>) or less (\<open>d = -1\<close>) in flight.\<close>

lemma capacity_flight:
  assumes ok: "capacity_ok c" and s: "map_of (ct_scopes c) sc = Some s"
    and refs: "distinct (map en_ref (ss_history s'))"
    and change: "\<And>Q. inflight_in Q s' = inflight_in Q s + (if Q k then d else 0)"
    and i: "i = laneIndex sc (cost_operation k)"
    and bounds: "ct_active c + d \<le> up_MaxHTTPInflight (ct_settings c)" "ln_active (ct_lanes c ! i) + d \<le> ln_slots (ct_lanes c ! i)"
    and c': "ct_scopes c' = ct_scopes (set_scope c sc s')" "ct_active c' = ct_active c + d" "ct_queued c' = ct_queued c"
      "ct_settings c' = ct_settings c" "ct_lanes c' = (ct_lanes c)[i := (ct_lanes c ! i)\<lparr>ln_active := ln_active (ct_lanes c ! i) + d\<rparr>]"
  shows "capacity_ok c'"
proof -
  have len: "length (ct_lanes c) = 8" and lanes: "\<forall>i < 8. lane_ok c i" using ok by (simp_all add: capacity_ok_def)
  have bound: "i < 8" using i laneIndex_bound by simp
  have fl: "flights c' P = flights c P + (if P sc k then d else 0)" for P
    using flights_set [OF s c'(1), of P] change by simp
  have keys: "ghas (ct_scopes c') = ghas (ct_scopes c)" unfolding c'(1) using s by (rule ghas_set)
  have queue: "queue_at c' j = queue_at c j" for j
    using len bound by (cases "j = i") (simp_all add: queue_at_def c'(5))
  have "lane_ok c' j" if j: "j < 8" for j
  proof (cases "j = i")
    case True
    have here: "ct_lanes c' ! i = (ct_lanes c ! i)\<lparr>ln_active := ln_active (ct_lanes c ! i) + d\<rparr>"
      using len bound by (simp add: c'(5))
    have "in_lane i sc k" by (simp add: in_lane_def i)
    moreover have "lane_ok c i" using lanes bound by simp
    ultimately show ?thesis using bounds(2) unfolding True lane_ok_def fl queue here keys by simp
  next
    case False
    then have "\<not> in_lane j sc k" by (simp add: in_lane_def i)
    then have "lane_ok c' j = lane_ok c j" using False by (intro lane_ok_cong) (simp_all add: c'(5) keys fl)
    then show ?thesis using lanes j by simp
  qed
  moreover have "waiting c' = waiting c" by (simp add: waiting_def queue)
  moreover have "refs_ok (set_scope c sc s')" using ok refs by (simp add: capacity_ok_def refs_set)
  then have "refs_ok c'" by (simp add: refs_ok_def c'(1))
  moreover have "gwf (ct_scopes c')" "length (ct_lanes c') = 8" using ok by (simp_all add: capacity_ok_def c'(1,5))
  ultimately show ?thesis using ok bounds(1) fl [of "\<lambda>_ _. True"] by (simp add: capacity_ok_def c'(2-4))
qed

lemma find_entry_Some: "find_entry s r = Some e \<Longrightarrow> e \<in> set (ss_history s) \<and> en_ref e = r"
  by (auto simp: find_entry_def find_Some_iff)

lemma length_update_inflight:
  assumes "distinct (map en_ref es)" and "e \<in> set es" and "en_inflight e" and "en_ref e = r"
  shows "int (length (filter (\<lambda>x. en_inflight x \<and> Q (en_cost x)) (map (\<lambda>x. if en_ref x = r then x\<lparr>en_inflight := False\<rparr> else x) es)))
     = int (length (filter (\<lambda>x. en_inflight x \<and> Q (en_cost x)) es)) - (if Q (en_cost e) then 1 else 0)"
    and "int (length (filter (\<lambda>x. en_inflight x \<and> Q (en_cost x)) (filter (\<lambda>x. en_ref x \<noteq> r) es)))
     = int (length (filter (\<lambda>x. en_inflight x \<and> Q (en_cost x)) es)) - (if Q (en_cost e) then 1 else 0)"
  using assms
proof (induction es)
  case (Cons x es)
  have others: "map (\<lambda>x. if en_ref x = r then x\<lparr>en_inflight := False\<rparr> else x) es = es" "filter (\<lambda>x. en_ref x \<noteq> r) es = es"
    if "en_ref x = r" "distinct (map en_ref (x # es))"
    using that by (force simp: image_iff intro!: map_idI filter_True)+
  { case 1 then show ?case using Cons.IH(1) others by (cases "x = e") auto
  next case 2 then show ?case using Cons.IH(2) others by (cases "x = e") auto }
qed simp_all

lemma capacity_release:
  assumes ok: "capacity_ok c" and known: "ghas (ct_scopes c) sc"
  shows "capacity_ok (release c sc r now)"
proof -
  obtain s where s: "map_of (ct_scopes c) sc = Some s" using known by (auto simp: ghas_def)
  show ?thesis
  proof (cases "find_entry s r")
    case None
    then show ?thesis using ok by (simp add: release_def the_scope_Some [OF s])
  next
    case (Some e)
    then have e: "e \<in> set (ss_history s)" "en_ref e = r" using find_entry_Some by auto
    show ?thesis
    proof (cases "en_inflight e")
      case True
      have refs: "distinct (map en_ref (ss_history s))" using ok s by (simp add: capacity_ok_def refs_ok_def)
      let ?s1 = "update_entry s r (\<lambda>e. e\<lparr>en_inflight := False\<rparr>)" and ?i = "laneIndex sc (cost_operation (en_cost e))"
      have q: "quiet_scope ?s1 now (prune ?s1 now)" by (simp add: quiet_scope_def)
      have "lane_ok c ?i" using ok laneIndex_bound by (simp add: capacity_ok_def)
      have "map en_ref (ss_history ?s1) = map en_ref (ss_history s)" by (auto simp: update_entry_def)
      then have "distinct (map en_ref (ss_history (prune ?s1 now)))" using quiet_refs(2) [OF q] refs by simp
      moreover have "inflight_in Q (prune ?s1 now) = inflight_in Q s + (if Q (en_cost e) then - 1 else 0)" for Q
        using inflight_quiet [OF q, of Q] length_update_inflight(1) [OF refs e(1) True e(2), of Q]
        by (simp add: inflight_in_def update_entry_def)
      ultimately show ?thesis
        using Some True ok \<open>lane_ok c ?i\<close>
        by (intro capacity_flight [OF ok s, of _ "en_cost e" "- 1" ?i])
          (simp_all add: release_def the_scope_Some [OF s] Let_def notify_def set_scope_def update_lane_def capacity_ok_def lane_ok_def)
    next
      case False
      then show ?thesis using ok Some by (simp add: release_def the_scope_Some [OF s])
    qed
  qed
qed

lemma capacity_rollback:
  assumes ok: "capacity_ok c" and s: "map_of (ct_scopes c) sc = Some s"
    and e: "find_entry s r = Some e" "en_inflight e"
  shows "capacity_ok (rollback c sc opr r)"
proof (cases "en_dispatched e")
  case True
  then show ?thesis using ok e by (simp add: rollback_def the_scope_Some [OF s])
next
  case False
  have mem: "e \<in> set (ss_history s)" "en_ref e = r" using find_entry_Some e(1) by auto
  have refs: "distinct (map en_ref (ss_history s))" using ok s by (simp add: capacity_ok_def refs_ok_def)
  have lane: "lane_ok c (laneIndex sc (cost_operation (en_cost e)))" using ok laneIndex_bound by (simp add: capacity_ok_def)
  let ?s1 = "s\<lparr>ss_history := filter (\<lambda>e. en_ref e \<noteq> r) (ss_history s),
    ss_next := (if ss_next s = en_at e + ss_spacing s
      then (if filter (\<lambda>e. en_ref e \<noteq> r) (ss_history s) = [] then zero_time
            else en_at (last (filter (\<lambda>e. en_ref e \<noteq> r) (ss_history s))) + ss_spacing s) else ss_next s)\<rparr>"
  have "distinct (map en_ref (ss_history ?s1))" using refs by (simp add: distinct_map_filter)
  moreover have "inflight_in Q ?s1 = inflight_in Q s + (if Q (en_cost e) then - 1 else 0)" for Q
    using length_update_inflight(2) [OF refs mem(1) e(2) mem(2), of Q] by (simp add: inflight_in_def)
  ultimately show ?thesis
    using False ok e lane
    by (intro capacity_flight [OF ok s, of ?s1 "en_cost e" "- 1" "laneIndex sc (cost_operation (en_cost e))"])
      (simp_all add: rollback_def the_scope_Some [OF s] Let_def notify_def set_scope_def update_lane_def capacity_ok_def lane_ok_def)
qed

lemma capacity_reserve:
  assumes ok: "capacity_ok c" and s: "map_of (ct_scopes c) (wt_scope w) = Some s"
    and i: "i = laneIndex (wt_scope w) (cost_operation (wt_cost w))" and fresh: "fresh \<notin> en_ref ` set (ss_history s)"
    and room: "ct_active c < up_MaxHTTPInflight (ct_settings c)" "ln_active (ct_lanes c ! i) < ln_slots (ct_lanes c ! i)"
  shows "capacity_ok (fst (reserve c w i now fresh))"
proof -
  let ?e = "\<lparr>en_ref = fresh, en_at = now, en_cost = wt_cost w, en_received = zero_time,
    en_dispatched = False, en_inflight = True, en_observations = []\<rparr>"
  let ?s1 = "s\<lparr>ss_history := ss_history s @ [?e], ss_next := now + ss_spacing s\<rparr>"
  have "distinct (map en_ref (ss_history ?s1))" using ok s fresh by (simp add: capacity_ok_def refs_ok_def)
  moreover have "inflight_in Q ?s1 = inflight_in Q s + (if Q (wt_cost w) then 1 else 0)" for Q
    by (simp add: inflight_in_def)
  ultimately show ?thesis using room i
    by (intro capacity_flight [OF ok s, of ?s1 "wt_cost w" 1 i])
      (simp_all add: reserve_def the_scope_def s Let_def set_scope_def update_lane_def)
qed

section \<open>One pass of the waiting loop\<close>

lemma usage_lastAdmission [simp]: "usage (s\<lparr>ss_lastAdmission := x\<rparr>) w now = usage s w now"
proof -
  let ?s = "s\<lparr>ss_lastAdmission := x\<rparr>"
  have "live ?s e w now = live s e w now" for e by (simp add: live_def)
  then have "count_entry ?s w now = count_entry s w now" "observe_entry ?s w now = observe_entry s w now"
    by (simp_all add: fun_eq_iff count_entry_def observe_entry_def)
  then show ?thesis by (simp add: usage_def Let_def)
qed

lemma passes_lastAdmission [simp]: "passes (s\<lparr>ss_lastAdmission := x\<rparr>) now k w = passes s now k w"
  by (simp add: passes_def)

lemma admission_scope:
  assumes "map_of (ct_scopes c) scope = Some s"
  shows "\<exists>x. map_of (ct_scopes (admissionDiagnostic c scope request reason next)) scope = Some (s\<lparr>ss_lastAdmission := x\<rparr>)"
proof (cases "(ss_lastAdmission s (cost_operation request) \<noteq> []) = (reason \<noteq> [])")
  case True
  then have "map_of (ct_scopes (admissionDiagnostic c scope request reason next)) scope = Some (s\<lparr>ss_lastAdmission := ss_lastAdmission s\<rparr>)"
    using assms by (simp add: admissionDiagnostic_def the_scope_Some [OF assms])
  then show ?thesis by blast
next
  case False
  then show ?thesis
    using assms by (auto simp: admissionDiagnostic_def the_scope_Some [OF assms] Let_def diagnostic_def set_scope_def)
qed

lemma quiet_admission_after:
  assumes "quiet c now c'" and "ghas (ct_scopes c) scope"
  shows "quiet c now (admissionDiagnostic c' scope request reason next)"
proof (rule quiet_trans [OF assms(1)], rule quiet_admission)
  show "ghas (ct_scopes c') scope" unfolding quiet_keys(1) [OF assms(1)] by (rule assms(2))
qed

lemma selected_choice:
  assumes "selected c errs now = (c', Some index)" and "heads_known c" and "ct_lanes c \<noteq> []"
  shows "quiet c now c'" and "ct_active c < up_MaxHTTPInflight (ct_settings c)" and "index < length (ct_lanes c)"
    and "ln_active (ct_lanes c ! index) < ln_slots (ct_lanes c ! index)"
    and "now < wt_expires (hd (queue_at c index))"
    and "\<exists>t \<le> now. ready_in (the_scope c' (wt_scope (hd (queue_at c index)))) (hd (queue_at c index)) now = Ready t"
  using selected_loop_choice [of c errs now "[0..<length (ct_lanes c)]" c' "Some index"] assms
  by (auto simp: selected_def Let_def queue_at_def split: if_splits)

lemma capacity_heads: "capacity_ok c \<Longrightarrow> heads_known c \<and> ct_lanes c \<noteq> []"
  by (fastforce simp: heads_known_def capacity_ok_def lane_ok_def queue_at_def in_set_conv_nth)

lemma selected_quiet:
  assumes "selected c errs now = (c', chosen)" and "capacity_ok c"
  shows "quiet c now c'"
  using selected_loop_choice [of c errs now "[0..<length (ct_lanes c)]" c' chosen] assms capacity_heads [OF assms(2)]
  by (auto simp: selected_def quiet_refl split: if_splits)

text \<open>What the state shows when an attempt is admitted.\<close>

definition admits :: "Controller \<Rightarrow> time \<Rightarrow> nat \<Rightarrow> waiter \<Rightarrow> scopeState \<Rightarrow> bool" where
  "admits c now i w s \<longleftrightarrow> map_of (ct_scopes c) (wt_scope w) = Some s
     \<and> ct_active c < up_MaxHTTPInflight (ct_settings c) \<and> ln_active (ct_lanes c ! i) < ln_slots (ct_lanes c ! i)
     \<and> (\<forall>(name, limit) \<in> set (ss_windows s). passes s now (wt_cost w) limit)
     \<and> ss_next s \<le> now \<and> ss_cooldown s \<le> now \<and> wt_notBefore w \<le> now"

lemma hd_unique: "distinct (map f xs) \<Longrightarrow> x \<in> set xs \<Longrightarrow> f (hd xs) = f x \<Longrightarrow> hd xs = x"
  by (cases xs) (force simp: image_iff)+

lemma acquire_admits:
  assumes ok: "capacity_ok c" and w: "i < 8" "w \<in> set (queue_at c i)" and sel: "selected c errs now = (c', Some i)"
    and hd: "wt_id (hd (queue_at c i)) = wt_id w"
  shows "\<exists>s. admits (admissionDiagnostic c' (wt_scope w) (wt_cost w) [] now) now i w s"
proof -
  have lane: "lane_ok c i" using ok w(1) by (simp add: capacity_ok_def)
  then have same: "hd (queue_at c i) = w" using w(2) hd by (intro hd_unique [of wt_id]) (auto simp: lane_ok_def)
  note choice = selected_choice [OF sel capacity_heads [OF ok, THEN conjunct1] capacity_heads [OF ok, THEN conjunct2], unfolded same]
  have known: "ghas (ct_scopes c) (wt_scope w)" "cost_ok (wt_cost w)" using lane w(2) by (auto simp: lane_ok_def)
  then obtain s where s: "map_of (ct_scopes c') (wt_scope w) = Some s"
    using quiet_keys(1) [OF choice(1)] by (auto simp: ghas_def fun_eq_iff)
  obtain t where t: "t \<le> now" "ready_in s w now = Ready t" using choice(6) by (auto simp: the_scope_Some [OF s])
  note facts = ready_in_passes [OF t(2,1) choice(5) known(2)]
  obtain x where s': "map_of (ct_scopes (admissionDiagnostic c' (wt_scope w) (wt_cost w) [] now)) (wt_scope w) = Some (s\<lparr>ss_lastAdmission := x\<rparr>)"
    using admission_scope [OF s] by blast
  have "quiet c now (admissionDiagnostic c' (wt_scope w) (wt_cost w) [] now)"
    by (rule quiet_admission_after [OF choice(1) known(1)])
  note same = quiet_fields [OF this]
  from s' facts choice(2,4) have "admits (admissionDiagnostic c' (wt_scope w) (wt_cost w) [] now) now i w (s\<lparr>ss_lastAdmission := x\<rparr>)"
    by (simp add: admits_def same)
  then show ?thesis by blast
qed

lemma acquire_try_cases:
  assumes ok: "capacity_ok c" and w: "i < 8" "w \<in> set (queue_at c i)"
    and run: "acquire_try c errs deadline now fresh w = (c', out)"
  obtains (idle) "quiet c now c'" "\<forall>e. out \<noteq> Admitted e"
  | (admitted) c2 s e where "out = Admitted e" "quiet c now c2" "admits c2 now i w s" "reserve c2 w i now fresh = (c', e)"
proof -
  have lane: "lane_ok c i" using ok w(1) by (simp add: capacity_ok_def)
  then have known: "ghas (ct_scopes c) (wt_scope w)" and i: "laneIndex (wt_scope w) (cost_operation (wt_cost w)) = i"
    using w(2) by (auto simp: lane_ok_def in_lane_def)
  obtain c1 r where ready: "ready c w now = (c1, r)" by fastforce
  have q1: "quiet c now c1" using quiet_ready [OF known, of now] ready by simp
  note ok1 = capacity_quiet [OF ok q1]
  have diag: "quiet c now (admissionDiagnostic c1 (wt_scope w) (wt_cost w) reason t)" for reason t
    by (rule quiet_admission_after [OF q1 known])
  note run = run [unfolded acquire_try_def Let_def i ready, simplified]
  show thesis
  proof (cases "\<exists>e. out = Admitted e")
    case False
    have "quiet c now c'"
      using run False q1 diag quiet_trans [OF q1 selected_quiet [OF _ ok1]]
      by (auto simp: quiet_refl split: option.splits if_splits readiness.splits prod.splits)
    with False idle show ?thesis by blast
  next
    case True
    then obtain e where e: "out = Admitted e" by blast
    with run obtain c2 where sel: "selected c1 errs now = (c2, Some i)" and hd: "wt_id (hd (queue_at c1 i)) = wt_id w"
      and res: "reserve (admissionDiagnostic c2 (wt_scope w) (wt_cost w) [] now) w i now fresh = (c', e)"
      by (auto simp: queue_at_def split: option.splits if_splits readiness.splits prod.splits)
    have q2: "quiet c now c2" using quiet_trans [OF q1 selected_quiet [OF sel ok1]] .
    have w1: "w \<in> set (queue_at c1 i)" using w(2) by (simp add: queue_at_def quiet_fields [OF q1])
    obtain s where "admits (admissionDiagnostic c2 (wt_scope w) (wt_cost w) [] now) now i w s"
      using acquire_admits [OF ok1 w(1) w1 sel hd] by blast
    moreover have "quiet c now (admissionDiagnostic c2 (wt_scope w) (wt_cost w) [] now)"
      by (rule quiet_admission_after [OF q2 known])
    ultimately show ?thesis using admitted [OF e] res by blast
  qed
qed

section \<open>The step relation\<close>

type_synonym ctl_state = "Controller \<times> time \<times> (upstream_Scope \<times> admission) list"

definition of_scope :: "upstream_Scope \<Rightarrow> (upstream_Scope \<times> admission) list \<Rightarrow> admission list" where
  "of_scope sc adm = map snd (filter (\<lambda>x. fst x = sc) adm)"

definition fresh_ref :: "Controller \<Rightarrow> nat \<Rightarrow> bool" where
  "fresh_ref c r \<longleftrightarrow> (\<forall>sc s. map_of (ct_scopes c) sc = Some s \<longrightarrow> r \<notin> en_ref ` set (ss_history s))"

text \<open>
  Sections may interleave in any order and at any non-decreasing times. New waiters and entries get fresh
  addresses; the transport rolls back only attempts it still holds in flight; catalogs, which only
  Binance scopes have, are part of a run when \<open>catalogs\<close> says so.
\<close>

inductive ctl_step :: "bool \<Rightarrow> ctl_state \<Rightarrow> ctl_state \<Rightarrow> bool" for catalogs :: bool where
  step_enter: "seen \<le> now \<Longrightarrow> cost_ok request \<Longrightarrow> \<forall>i < 8. wid \<notin> wt_id ` set (queue_at c i) \<Longrightarrow>
    acquire_enter c err sc request opr notBefore made now wid = (c', res) \<Longrightarrow> ctl_step catalogs (c, seen, adm) (c', now, adm)"
| step_pass: "seen \<le> now \<Longrightarrow> i < 8 \<Longrightarrow> w \<in> set (queue_at c i) \<Longrightarrow> fresh_ref c fresh \<Longrightarrow>
    acquire_pass c errs deadline now fresh w = (c', out) \<Longrightarrow>
    ctl_step catalogs (c, seen, adm) (c', now, adm @ (case out of Admitted e \<Rightarrow> [(wt_scope w, entry_key e)] | _ \<Rightarrow> []))"
| step_dispatch: "ghas (ct_scopes c) sc \<Longrightarrow> dispatch c err sc r = (c', derr) \<Longrightarrow>
    ctl_step catalogs (c, seen, adm) (c', seen, adm)"
| step_release: "seen \<le> now \<Longrightarrow> ghas (ct_scopes c) sc \<Longrightarrow> ctl_step catalogs (c, seen, adm) (release c sc r now, now, adm)"
| step_rollback: "map_of (ct_scopes c) sc = Some s \<Longrightarrow> find_entry s r = Some e \<Longrightarrow> en_inflight e \<Longrightarrow>
    ctl_step catalogs (c, seen, adm) (rollback c sc opr r, seen,
      if en_dispatched e then adm else filter (\<lambda>(sc', r', a). \<not> (sc' = sc \<and> r' = r)) adm)"
| step_headers: "seen \<le> now \<Longrightarrow> ghas (ct_scopes c) sc \<Longrightarrow>
    ctl_step catalogs (c, seen, adm) (usageHeaders c sc path headers r now, now, adm)"
| step_cooldown: "ctl_step catalogs (c, seen, adm) (Cooldown c sc until, seen, adm)"
| step_begin: "ctl_step catalogs (c, seen, adm) (fst (Begin c sc kind fresh), seen, adm)"
| step_deferral: "seen \<le> now \<Longrightarrow> ghas (ct_scopes c) (bd_scope d) \<Longrightarrow>
    ctl_step catalogs (c, seen, adm) (fst (deferral_ready c d now), now, adm)"
| step_catalog: "catalogs \<Longrightarrow> seen \<le> now \<Longrightarrow> ghas (ct_scopes c) sc \<Longrightarrow> sc \<noteq> Bybit \<Longrightarrow>
    ctl_step catalogs (c, seen, adm) (fst (updateCatalog c sc started catalog now), now, adm)"
| step_failure: "seen \<le> now \<Longrightarrow> ghas (ct_scopes c) sc \<Longrightarrow>
    ctl_step catalogs (c, seen, adm) (catalogFailure c sc started reason now, now, adm)"

definition ledgers_ok :: "bool \<Rightarrow> Controller \<Rightarrow> time \<Rightarrow> (upstream_Scope \<times> admission) list \<Rightarrow> bool" where
  "ledgers_ok catalogs c seen adm \<longleftrightarrow> (\<forall>sc s. map_of (ct_scopes c) sc = Some s \<longrightarrow> (catalogs \<longrightarrow> sc = Bybit) \<longrightarrow>
     ledger_ok s seen (of_scope sc adm))"

lemma ledger_quiet:
  assumes "ledger_ok s seen adm" and "seen \<le> now" and "quiet_scope s now s'"
  shows "ledger_ok s' now adm"
proof (cases "ss_history s' = ss_history s")
  case True
  with assms(3) have "ledger_ok s' now adm = ledger_ok s now adm" by (intro ledger_cong) (auto simp: quiet_scope_def)
  with ledger_later [OF assms(1,2)] show ?thesis by simp
next
  case False
  with assms(3) have "ledger_ok s' now adm = ledger_ok (prune s now) now adm" by (intro ledger_cong) (auto simp: quiet_scope_def)
  with ledger_prune [OF assms(1,2)] show ?thesis by simp
qed

lemma ledgers_quiet:
  assumes "ledgers_ok catalogs c seen adm" and "seen \<le> now" and "quiet c now c'"
  shows "ledgers_ok catalogs c' now adm"
  unfolding ledgers_ok_def
proof (intro allI impI)
  fix sc s' assume s': "map_of (ct_scopes c') sc = Some s'" and cov: "catalogs \<longrightarrow> sc = Bybit"
  from quiet_scopes [OF assms(3) s'] obtain s where s: "map_of (ct_scopes c) sc = Some s" "quiet_scope s now s'" by blast
  with assms(1) cov have "ledger_ok s seen (of_scope sc adm)" by (simp add: ledgers_ok_def)
  from ledger_quiet [OF this assms(2) s(2)] show "ledger_ok s' now (of_scope sc adm)" .
qed

lemma ledgers_set:
  assumes "ledgers_ok catalogs c seen adm" and "seen \<le> now" and "map_of (ct_scopes c) sc = Some s"
    and "ct_scopes c' = ct_scopes (set_scope c sc s')"
    and "(catalogs \<longrightarrow> sc = Bybit) \<Longrightarrow> ledger_ok s seen (of_scope sc adm) \<Longrightarrow> ledger_ok s' now (of_scope sc adm')"
    and "\<And>sc'. sc' \<noteq> sc \<Longrightarrow> of_scope sc' adm' = of_scope sc' adm"
  shows "ledgers_ok catalogs c' now adm'"
  unfolding ledgers_ok_def assms(4)
proof (intro allI impI)
  fix sc' t assume t: "map_of (ct_scopes (set_scope c sc s')) sc' = Some t" and cov: "catalogs \<longrightarrow> sc' = Bybit"
  show "ledger_ok t now (of_scope sc' adm')"
  proof (cases "sc' = sc")
    case True
    then show ?thesis using t cov assms(1,3,5) by (simp add: set_scope_def ledgers_ok_def)
  next
    case False
    then have "ledger_ok t seen (of_scope sc' adm)" using t cov assms(1) by (simp add: set_scope_def ledgers_ok_def)
    then show ?thesis using False assms(2,6) by (auto intro: ledger_later)
  qed
qed

lemma leave_scopes: "ct_scopes (acquire_leave c w) = ct_scopes c"
  by (simp add: acquire_leave_def notify_def update_lane_def)

lemma capacity_leave_step:
  assumes "capacity_ok c" and "i < 8" and "w \<in> set (queue_at c i)"
  shows "capacity_ok (acquire_leave c w)"
proof -
  have "lane_ok c i" using assms(1,2) by (simp add: capacity_ok_def)
  then have i: "i = laneIndex (wt_scope w) (cost_operation (wt_cost w))" using assms(3) by (auto simp: lane_ok_def in_lane_def)
  show ?thesis unfolding acquire_leave_def
    by (rule capacity_quiet [OF _ quiet_notify]) (use assms i in \<open>blast intro: capacity_leave\<close>)
qed

lemma reserve_queue: "queue_at (fst (reserve c w i now fresh)) j = queue_at c j"
  by (cases "i < length (ct_lanes c)"; cases "i = j")
    (simp_all add: reserve_def Let_def queue_at_def update_lane_def set_scope_def list_update_beyond not_less)

lemma reserve_parts:
  assumes "reserve c w i now fresh = (c', e)" and "map_of (ct_scopes c) (wt_scope w) = Some s"
  shows "e = \<lparr>en_ref = fresh, en_at = now, en_cost = wt_cost w, en_received = zero_time,
      en_dispatched = False, en_inflight = True, en_observations = []\<rparr>"
    and "ct_scopes c' = ct_scopes (set_scope c (wt_scope w) (s\<lparr>ss_history := ss_history s @ [e], ss_next := now + ss_spacing s\<rparr>))"
  using assms by (auto simp: reserve_def Let_def the_scope_def update_lane_def set_scope_def)

lemma of_scope_append [simp]: "of_scope sc (a @ b) = of_scope sc a @ of_scope sc b"
  by (simp add: of_scope_def)

lemma pass_invariant:
  assumes cap: "capacity_ok c" and led: "ledgers_ok catalogs c seen adm" and seen: "seen \<le> now"
    and w: "i < 8" "w \<in> set (queue_at c i)" and fresh: "fresh_ref c fresh"
    and run: "acquire_pass c errs deadline now fresh w = (c', out)"
  shows "capacity_ok c' \<and> ledgers_ok catalogs c' now (adm @ (case out of Admitted e \<Rightarrow> [(wt_scope w, entry_key e)] | _ \<Rightarrow> []))"
proof -
  obtain c1 where c1: "acquire_try c errs deadline now fresh w = (c1, out)" and c': "c' = c1 \<or> c' = acquire_leave c1 w"
    and leave: "\<forall>t. out \<noteq> Waits t \<Longrightarrow> c' = acquire_leave c1 w"
    using run by (auto simp: acquire_pass_def split: prod.splits pass.splits)
  show ?thesis
    using cap w c1
  proof (cases rule: acquire_try_cases)
    case idle
    have "capacity_ok c1" using cap idle(1) by (rule capacity_quiet)
    moreover have "w \<in> set (queue_at c1 i)" using w(2) by (simp add: queue_at_def quiet_fields [OF idle(1)])
    ultimately have "capacity_ok c'" using c' capacity_leave_step w(1) by blast
    moreover have "ledgers_ok catalogs c' now adm"
      using c' ledgers_quiet [OF led seen idle(1)] by (auto simp: ledgers_ok_def leave_scopes)
    ultimately show ?thesis using idle(2) by (auto split: pass.splits)
  next
    case (admitted c2 s e)
    note adm2 = admitted(3) [unfolded admits_def]
    have cap2: "capacity_ok c2" using cap admitted(2) by (rule capacity_quiet)
    have led2: "ledgers_ok catalogs c2 now adm" by (rule ledgers_quiet [OF led seen admitted(2)])
    have s: "map_of (ct_scopes c2) (wt_scope w) = Some s" using adm2 by blast
    have lane: "lane_ok c i" using cap w(1) by (simp add: capacity_ok_def)
    then have i: "i = laneIndex (wt_scope w) (cost_operation (wt_cost w))" and cost: "cost_ok (wt_cost w)"
      using w(2) by (auto simp: lane_ok_def in_lane_def)
    have new: "fresh \<notin> en_ref ` set (ss_history s)"
    proof -
      obtain s0 where s0: "map_of (ct_scopes c) (wt_scope w) = Some s0" "quiet_scope s0 now s"
        using quiet_scopes [OF admitted(2) s] by blast
      then have "fresh \<notin> en_ref ` set (ss_history s0)" using fresh by (simp add: fresh_ref_def)
      then show ?thesis using quiet_refs(1) [OF s0(2)] by blast
    qed
    note parts = reserve_parts [OF admitted(4) s]
    have "capacity_ok c1" using capacity_reserve [OF cap2 s i new] adm2 admitted(4) by (metis fst_conv)
    moreover have "w \<in> set (queue_at c1 i)"
      using w(2) reserve_queue [of c2 w i now fresh i] admitted(4) by (simp add: queue_at_def quiet_fields [OF admitted(2)])
    ultimately have "capacity_ok c'" using leave admitted(1) capacity_leave_step w(1) by simp
    moreover have "ledgers_ok catalogs c1 now (adm @ [(wt_scope w, entry_key e)])"
    proof (rule ledgers_set [OF led2 order_refl s parts(2)])
      assume "ledger_ok s now (of_scope (wt_scope w) adm)"
      then have "ledger_ok (s\<lparr>ss_history := ss_history s @ [e]\<rparr>) now (of_scope (wt_scope w) adm @ [entry_key e])"
        using adm2 cost new by (intro ledger_reserve) (auto simp: parts(1))
      moreover have "ledger_ok (s\<lparr>ss_history := ss_history s @ [e], ss_next := now + ss_spacing s\<rparr>) now adm' =
          ledger_ok (s\<lparr>ss_history := ss_history s @ [e]\<rparr>) now adm'" for adm'
        by (rule ledger_cong) simp_all
      ultimately show "ledger_ok (s\<lparr>ss_history := ss_history s @ [e], ss_next := now + ss_spacing s\<rparr>) now
          (of_scope (wt_scope w) (adm @ [(wt_scope w, entry_key e)]))"
        by (simp add: of_scope_def)
    qed (simp add: of_scope_def)
    ultimately show ?thesis using leave admitted(1) by (simp add: ledgers_ok_def leave_scopes)
  qed
qed

section \<open>The other sections\<close>

lemma enter_invariant:
  assumes cap: "capacity_ok c" and led: "ledgers_ok catalogs c seen adm" and seen: "seen \<le> now" and cost: "cost_ok request"
    and fresh: "\<forall>i < 8. wid \<notin> wt_id ` set (queue_at c i)"
    and run: "acquire_enter c err sc request opr notBefore made now wid = (c', res)"
  shows "capacity_ok c' \<and> ledgers_ok catalogs c' now adm"
proof (cases "\<not> ghas (ct_scopes c) sc \<or> err \<noteq> None")
  case True
  then have "c' = c" using run by (auto simp: acquire_enter_def Let_def split: if_splits option.splits)
  then show ?thesis using cap ledgers_quiet [OF led seen quiet_refl] by simp
next
  case False
  define w where "w = \<lparr>wt_id = wid, wt_scope = sc, wt_cost = request, wt_operation = opr,
    wt_expires = made + up_AdmissionTimeout (ct_settings c), wt_notBefore = notBefore\<rparr>"
  define i where "i = laneIndex sc (cost_operation request)"
  have known: "ghas (ct_scopes c) (wt_scope w)" and sc: "wt_scope w = sc" "wt_cost w = request" using False by (simp_all add: w_def)
  obtain c1 r where ready: "ready c w now = (c1, r)" by fastforce
  have q: "quiet c now c1" using quiet_ready [OF known, of now] ready by simp
  note cap1 = capacity_quiet [OF cap q]
  let ?full = "ln_capacity (ct_lanes c1 ! i) \<le> int (length (ln_queue (ct_lanes c1 ! i))) \<or> ct_queued c1 \<ge> up_MaxAdmissionWaiters (ct_settings c1)"
  let ?in = "notify ((update_lane c1 i (\<lambda>l. l\<lparr>ln_queue := ln_queue l @ [w]\<rparr>))\<lparr>ct_queued := ct_queued c1 + 1\<rparr>)"
  have "c' = (case r of Impossible e \<Rightarrow> c1 | Blocked d \<Rightarrow> admissionDiagnostic c1 sc request (bd_reason d) (bd_next d)
      | Ready t \<Rightarrow> if ?full then c1 else ?in)"
    using run False ready
    by (auto simp: acquire_enter_def Let_def w_def [symmetric] i_def [symmetric] split: readiness.splits if_splits)
  moreover have "quiet c now (admissionDiagnostic c1 sc request a b)" for a b
    using quiet_admission_after [OF q known] by (simp add: sc)
  moreover have "capacity_ok ?in" if "\<not> ?full"
  proof (rule capacity_quiet [OF capacity_enqueue [OF cap1] quiet_notify])
    show "ghas (ct_scopes c1) (wt_scope w)" unfolding quiet_keys(1) [OF q] by (rule known)
    show "wt_id w \<notin> wt_id ` set (queue_at c1 i)"
      using fresh laneIndex_bound by (simp add: queue_at_def quiet_fields [OF q] w_def i_def)
    show "\<not> ln_capacity (ct_lanes c1 ! i) \<le> int (length (queue_at c1 i))" using that by (simp add: queue_at_def)
    show "\<not> ct_queued c1 \<ge> up_MaxAdmissionWaiters (ct_settings c1)" using that by simp
  qed (simp_all add: sc i_def cost)
  moreover have "ledgers_ok catalogs ?in now adm"
    using ledgers_quiet [OF led seen q] by (simp add: ledgers_ok_def notify_def update_lane_def)
  ultimately show ?thesis
    using cap1 ledgers_quiet [OF led seen] q capacity_quiet [OF cap, of now] by (auto split: readiness.splits)
qed

text \<open>A change of an entry that keeps its identity, its cost and whether it is in flight.\<close>

lemma entry_update_invariant:
  assumes cap: "capacity_ok c" and led: "ledgers_ok catalogs c seen adm" and seen: "seen \<le> now"
    and s: "map_of (ct_scopes c) sc = Some s" and q: "quiet_scope s now s1"
    and f: "\<And>e. entry_key (f e) = entry_key e \<and> en_inflight (f e) = en_inflight e" "\<And>e. entry_ok e \<Longrightarrow> entry_ok (f e)"
  shows "capacity_ok (set_scope c sc (update_entry s1 r f)) \<and> ledgers_ok catalogs (set_scope c sc (update_entry s1 r f)) now adm"
proof
  have same: "en_ref (f e) = en_ref e" "en_cost (f e) = en_cost e" for e using f(1) [of e] by (auto simp: entry_key_def)
  have "map en_ref (ss_history (update_entry s1 r f)) = map en_ref (ss_history s1)" by (simp add: update_entry_def same)
  moreover have "inflight_in Q (update_entry s1 r f) = inflight_in Q s1" for Q
    using f(1) by (auto simp: inflight_in_def update_entry_def filter_map comp_def same intro!: arg_cong [where f = length] filter_cong)
  moreover have "distinct (map en_ref (ss_history s))" using cap s by (simp add: capacity_ok_def refs_ok_def)
  ultimately show "capacity_ok (set_scope c sc (update_entry s1 r f))"
    using quiet_refs(2) [OF q] inflight_quiet [OF q] by (intro capacity_set [OF cap s]) simp_all
  show "ledgers_ok catalogs (set_scope c sc (update_entry s1 r f)) now adm"
  proof (rule ledgers_set [OF led seen s refl])
    assume "ledger_ok s seen (of_scope sc adm)"
    from ledger_quiet [OF this seen q] show "ledger_ok (update_entry s1 r f) now (of_scope sc adm)"
      by (rule ledger_update_entry) (use f in auto)
  qed simp
qed

lemma record_window_keeps:
  "entry_key (record_window headers e kw) = entry_key e \<and> en_inflight (record_window headers e kw) = en_inflight e"
  by (simp add: record_window_def Let_def entry_key_def split: option.split)

lemma record_window_ok:
  assumes "entry_ok e"
  shows "entry_ok (record_window headers e kw)"
proof -
  have "0 \<le> window_cost (snd kw) (en_cost e)" using assms by (simp add: entry_ok_def window_cost_nonneg)
  then have "0 \<le> used" if "\<not> used < window_cost (snd kw) (en_cost e)" for used using that by linarith
  with assms show ?thesis
    unfolding record_window_def Let_def
    by (auto simp: entry_ok_def dest!: set_update_cases split: option.split)
qed

lemma record_fold:
  "entry_key (foldl (record_window headers) e ws) = entry_key e \<and> en_inflight (foldl (record_window headers) e ws) = en_inflight e
   \<and> (entry_ok e \<longrightarrow> entry_ok (foldl (record_window headers) e ws))"
  by (induction ws arbitrary: e) (simp_all add: record_window_keeps record_window_ok)

lemma headers_invariant:
  assumes "capacity_ok c" and "ledgers_ok catalogs c seen adm" and "seen \<le> now" and "ghas (ct_scopes c) sc"
  shows "capacity_ok (usageHeaders c sc path headers r now) \<and> ledgers_ok catalogs (usageHeaders c sc path headers r now) now adm"
proof (cases "sc = BinanceLinear \<and> (path = ''/fapi/v2/ticker/price'' \<or> path = ''/fapi/v1/ticker/bookTicker'')")
  case True
  then have "usageHeaders c sc path headers r now = c" by (simp add: usageHeaders_def)
  then show ?thesis using assms ledgers_quiet [OF assms(2,3) quiet_refl] by simp
next
  case False
  obtain s where s: "map_of (ct_scopes c) sc = Some s" using assms(4) by (auto simp: ghas_def)
  let ?f = "\<lambda>e. foldl (record_window headers) (if IsZero (en_received e) then e\<lparr>en_received := now\<rparr> else e) (ss_windows (prune s now))"
  have eq: "usageHeaders c sc path headers r now = notify (set_scope c sc (update_entry (prune s now) r ?f))"
    using False by (auto simp: usageHeaders_def Let_def the_scope_Some [OF s])
  have key: "entry_key (if b then e\<lparr>en_received := now\<rparr> else e) = entry_key e" "en_inflight (if b then e\<lparr>en_received := now\<rparr> else e) = en_inflight e"
    "entry_ok (if b then e\<lparr>en_received := now\<rparr> else e) = entry_ok e" for b e
    by (simp_all add: entry_key_def entry_ok_def)
  have "capacity_ok (set_scope c sc (update_entry (prune s now) r ?f)) \<and> ledgers_ok catalogs (set_scope c sc (update_entry (prune s now) r ?f)) now adm"
    by (rule entry_update_invariant [OF assms(1-3) s]) (simp_all add: quiet_scope_def record_fold key)
  then show ?thesis unfolding eq using capacity_quiet quiet_notify ledgers_quiet by blast
qed

lemma dispatch_invariant:
  assumes "capacity_ok c" and "ledgers_ok catalogs c seen adm" and "ghas (ct_scopes c) sc" and "dispatch c err sc r = (c', derr)"
  shows "capacity_ok c' \<and> ledgers_ok catalogs c' seen adm"
proof (cases err)
  case None
  obtain s where s: "map_of (ct_scopes c) sc = Some s" using assms(3) by (auto simp: ghas_def)
  have "c' = set_scope c sc (update_entry s r (\<lambda>e. e\<lparr>en_dispatched := True\<rparr>))"
    using assms(4) None by (simp add: dispatch_def the_scope_Some [OF s])
  then show ?thesis
    using entry_update_invariant [OF assms(1,2) order_refl s, of s "\<lambda>e. e\<lparr>en_dispatched := True\<rparr>" r]
    by (simp add: quiet_scope_def entry_key_def entry_ok_def)
next
  case (Some e)
  then show ?thesis using assms by (simp add: dispatch_def)
qed

lemma rollback_invariant:
  assumes cap: "capacity_ok c" and led: "ledgers_ok catalogs c seen adm" and s: "map_of (ct_scopes c) sc = Some s"
    and e: "find_entry s r = Some e" "en_inflight e"
  shows "capacity_ok (rollback c sc opr r) \<and> ledgers_ok catalogs (rollback c sc opr r) seen
      (if en_dispatched e then adm else filter (\<lambda>(sc', r', a). \<not> (sc' = sc \<and> r' = r)) adm)"
proof (cases "en_dispatched e")
  case True
  then have "rollback c sc opr r = c" using e by (simp add: rollback_def the_scope_Some [OF s])
  then show ?thesis using cap led True by simp
next
  case False
  let ?adm = "filter (\<lambda>(sc', r', a). \<not> (sc' = sc \<and> r' = r)) adm"
  let ?hist = "filter (\<lambda>e. en_ref e \<noteq> r) (ss_history s)"
  define s1 where "s1 = s\<lparr>ss_history := ?hist, ss_next := (if ss_next s = en_at e + ss_spacing s
      then (if ?hist = [] then zero_time else en_at (last ?hist) + ss_spacing s) else ss_next s)\<rparr>"
  have scopes: "ct_scopes (rollback c sc opr r) = ct_scopes (set_scope c sc s1)"
    using False e by (simp add: rollback_def the_scope_Some [OF s] Let_def notify_def update_lane_def set_scope_def s1_def)
  have here: "of_scope sc ?adm = filter (\<lambda>(r', a, c). r' \<noteq> r) (of_scope sc adm)"
    by (auto simp: of_scope_def filter_map comp_def filter_filter intro!: arg_cong [where f = "map snd"] filter_cong)
  have elsewhere: "of_scope sc' ?adm = of_scope sc' adm" if "sc' \<noteq> sc" for sc'
    using that by (auto simp: of_scope_def filter_filter intro!: arg_cong [where f = "map snd"] filter_cong)
  have "ledgers_ok catalogs (rollback c sc opr r) seen ?adm"
  proof (rule ledgers_set [OF led order_refl s scopes _ elsewhere])
    assume "ledger_ok s seen (of_scope sc adm)"
    then have "ledger_ok (s\<lparr>ss_history := ?hist\<rparr>) seen (of_scope sc ?adm)" unfolding here by (rule ledger_remove)
    moreover have "ledger_ok s1 seen x = ledger_ok (s\<lparr>ss_history := ?hist\<rparr>) seen x" for x
      by (rule ledger_cong) (simp_all add: s1_def)
    ultimately show "ledger_ok s1 seen (of_scope sc ?adm)" by simp
  qed
  then show ?thesis using capacity_rollback [OF cap s e] False by simp
qed

lemma release_invariant:
  assumes cap: "capacity_ok c" and led: "ledgers_ok catalogs c seen adm" and seen: "seen \<le> now" and known: "ghas (ct_scopes c) sc"
  shows "capacity_ok (release c sc r now) \<and> ledgers_ok catalogs (release c sc r now) now adm"
proof
  show "capacity_ok (release c sc r now)" using cap known by (rule capacity_release)
  obtain s where s: "map_of (ct_scopes c) sc = Some s" using known by (auto simp: ghas_def)
  let ?s1 = "prune (update_entry s r (\<lambda>e. e\<lparr>en_inflight := False\<rparr>)) now"
  have "ct_scopes (release c sc r now) = ct_scopes c \<or> ct_scopes (release c sc r now) = ct_scopes (set_scope c sc ?s1)"
    by (auto simp: release_def the_scope_Some [OF s] Let_def notify_def set_scope_def update_lane_def split: option.split)
  then show "ledgers_ok catalogs (release c sc r now) now adm"
  proof
    assume "ct_scopes (release c sc r now) = ct_scopes c"
    then show ?thesis using ledgers_quiet [OF led seen quiet_refl] by (simp add: ledgers_ok_def)
  next
    assume "ct_scopes (release c sc r now) = ct_scopes (set_scope c sc ?s1)"
    then show ?thesis
    proof (rule ledgers_set [OF led seen s])
      assume "ledger_ok s seen (of_scope sc adm)"
      then have "ledger_ok (update_entry s r (\<lambda>e. e\<lparr>en_inflight := False\<rparr>)) seen (of_scope sc adm)"
        by (rule ledger_update_entry) (simp_all add: entry_key_def entry_ok_def)
      then show "ledger_ok ?s1 now (of_scope sc adm)" using seen by (rule ledger_prune)
    qed simp
  qed
qed

lemma quiet_invariant:
  assumes "capacity_ok c" and "ledgers_ok catalogs c seen adm" and "seen \<le> now" and "quiet c now c'"
  shows "capacity_ok c' \<and> ledgers_ok catalogs c' now adm"
  using capacity_quiet [OF assms(1,4)] ledgers_quiet [OF assms(2,3,4)] by blast

lemma quiet_Cooldown: "quiet c now (Cooldown c sc until)"
proof (cases "map_of (ct_scopes c) sc")
  case None
  then show ?thesis by (simp add: Cooldown_def quiet_refl)
next
  case (Some s)
  define c1 where "c1 = (if until > ss_cooldown s then diagnostic c
    (zero_event\<lparr>de_Scope := sc, de_Reason := ''exchange_cooldown'', de_NextEligible := until\<rparr>) else c)"
  have q: "quiet c now c1" by (simp add: c1_def quiet_refl quiet_events)
  have "ct_scopes c1 = ct_scopes c" by (simp add: c1_def diagnostic_def)
  then have "map_of (ct_scopes c1) sc = Some s" using Some by simp
  then have "quiet c1 now (set_scope c1 sc (s\<lparr>ss_cooldown := maxTime [ss_cooldown s, until]\<rparr>))"
    by (rule quiet_set) (simp add: quiet_scope_def maxTime_ge)
  with q have "quiet c now (notify (set_scope c1 sc (s\<lparr>ss_cooldown := maxTime [ss_cooldown s, until]\<rparr>)))"
    by (blast intro: quiet_trans quiet_notify)
  then show ?thesis using Some by (simp add: Cooldown_def c1_def Let_def)
qed

lemma begin_fields:
  "ct_lanes (fst (Begin c sc kind fresh)) = ct_lanes c" "ct_active (fst (Begin c sc kind fresh)) = ct_active c"
  "ct_queued (fst (Begin c sc kind fresh)) = ct_queued c" "ct_settings (fst (Begin c sc kind fresh)) = ct_settings c"
  "ct_scopes (fst (Begin c sc kind fresh)) = ct_scopes c"
  by (simp_all add: Begin_def Let_def)

lemma begin_invariant:
  assumes "capacity_ok c" and "ledgers_ok catalogs c seen adm"
  shows "capacity_ok (fst (Begin c sc kind fresh)) \<and> ledgers_ok catalogs (fst (Begin c sc kind fresh)) seen adm"
proof
  show "ledgers_ok catalogs (fst (Begin c sc kind fresh)) seen adm"
    using assms(2) by (simp add: ledgers_ok_def begin_fields)
  have gwf: "gwf (ct_scopes c)" "refs_ok c" using assms(1) by (simp_all add: capacity_ok_def)
  show "capacity_ok (fst (Begin c sc kind fresh))"
  proof (rule capacity_cong [OF assms(1)])
    show "flights (fst (Begin c sc kind fresh)) P = flights c P" for P by (rule flights_scopes) (rule begin_fields)
    show "refs_ok (fst (Begin c sc kind fresh))" using gwf(2) by (simp only: refs_ok_def begin_fields)
  qed (simp_all only: begin_fields gwf)
qed

lemma quiet_report: "quiet c now (notify (if a then diagnostic c e1 else if b then diagnostic c e2 else c))"
  by (auto intro: quiet_trans [OF quiet_events quiet_notify] quiet_notify)

text \<open>A catalog leaves the history of its scope alone.\<close>

lemma catalog_scopes:
  assumes "map_of (ct_scopes c) sc = Some s"
  shows "\<exists>s'. ss_history s' = ss_history s \<and> quiet (set_scope c sc s') now (fst (updateCatalog c sc started catalog now))"
proof -
  have keys: "map fst (AList.update sc s (ct_scopes c)) = map fst (ct_scopes c)"
    using assms by (intro map_fst_update) (simp add: ghas_def)
  have same: "map_of (ct_scopes (set_scope c sc s)) = map_of (ct_scopes c)"
    by (rule ext) (simp add: set_scope_def assms)
  have "quiet (set_scope c sc s) now c"
    unfolding quiet_def same by (simp add: set_scope_def keys quiet_scope_def)
  then have self: "quiet (set_scope c sc s) now c" "quiet (set_scope c sc s) now (notify c)"
    by (blast intro: quiet_trans quiet_notify)+
  show ?thesis
  proof (cases "started < ss_catalogStart s")
    case True
    then show ?thesis using self by (intro exI [of _ s]) (simp add: updateCatalog_def the_scope_Some [OF assms])
  next
    case False
    show ?thesis
    proof (cases "\<exists>limits updates. catalog = Some limits \<and> catalog_loop sc (ct_settings c) s now limits [] = Inr updates")
      case True
      then obtain limits updates where cat: "catalog = Some limits" "catalog_loop sc (ct_settings c) s now limits [] = Inr updates" by blast
      define s1 where "s1 = s\<lparr>ss_windows := foldl (\<lambda>m (key, w). AList.update key w m) (ss_windows s) updates,
        ss_catalogStart := started, ss_catalogUpdatedAt := now\<rparr>"
      define s2 where "s2 = (if \<not> started < ss_catalogErrorStart s
        then s1\<lparr>ss_catalogError := [], ss_catalogErrorAt := zero_time, ss_catalogErrorStart := zero_time\<rparr> else s1)"
      have "\<exists>a b e1 e2. fst (updateCatalog c sc started catalog now) =
          notify (if a then diagnostic (set_scope c sc s2) e1 else if b then diagnostic (set_scope c sc s2) e2 else set_scope c sc s2)"
        unfolding updateCatalog_def Let_def the_scope_Some [OF assms] s2_def s1_def cat(1)
        by (simp only: False cat(2) if_False option.case sum.case fst_conv) (intro exI, rule refl)
      then have "quiet (set_scope c sc s2) now (fst (updateCatalog c sc started catalog now))"
        using quiet_report by metis
      moreover have "ss_history s2 = ss_history s" by (simp add: s2_def s1_def)
      ultimately show ?thesis by blast
    next
      case bad: False
      then have "fst (updateCatalog c sc started catalog now) = notify c"
        using False by (auto simp: updateCatalog_def the_scope_Some [OF assms] Let_def split: option.splits sum.splits)
      then show ?thesis using self by (intro exI [of _ s]) simp
    qed
  qed
qed

lemma catalog_invariant:
  assumes cap: "capacity_ok c" and led: "ledgers_ok True c seen adm" and seen: "seen \<le> now"
    and known: "ghas (ct_scopes c) sc" "sc \<noteq> Bybit"
  shows "capacity_ok (fst (updateCatalog c sc started catalog now)) \<and> ledgers_ok True (fst (updateCatalog c sc started catalog now)) now adm"
proof -
  obtain s where s: "map_of (ct_scopes c) sc = Some s" using known by (auto simp: ghas_def)
  obtain s' where s': "ss_history s' = ss_history s" "quiet (set_scope c sc s') now (fst (updateCatalog c sc started catalog now))"
    using catalog_scopes [OF s] by blast
  have "capacity_ok (set_scope c sc s')"
    using cap s s'(1) by (intro capacity_set) (auto simp: capacity_ok_def refs_ok_def inflight_in_def)
  moreover have "ledgers_ok True (set_scope c sc s') now adm"
    by (rule ledgers_set [OF led seen s refl]) (use known in auto)
  ultimately show ?thesis using quiet_invariant [OF _ _ order_refl s'(2)] by blast
qed

section \<open>Every reachable state\<close>

lemma step_invariant:
  assumes "ctl_step catalogs st st'" and "capacity_ok (fst st)" and "ledgers_ok catalogs (fst st) (fst (snd st)) (snd (snd st))"
  shows "capacity_ok (fst st') \<and> ledgers_ok catalogs (fst st') (fst (snd st')) (snd (snd st'))"
  using assms
proof (induction rule: ctl_step.induct)
  case step_enter
  show ?case unfolding fst_conv snd_conv
    by (rule enter_invariant [OF step_enter.prems [unfolded fst_conv snd_conv] step_enter.hyps])
next
  case step_pass
  show ?case unfolding fst_conv snd_conv
    by (rule pass_invariant [OF step_pass.prems [unfolded fst_conv snd_conv] step_pass.hyps])
next
  case step_dispatch
  show ?case unfolding fst_conv snd_conv
    by (rule dispatch_invariant [OF step_dispatch.prems [unfolded fst_conv snd_conv] step_dispatch.hyps])
next
  case step_release
  show ?case unfolding fst_conv snd_conv
    by (rule release_invariant [OF step_release.prems [unfolded fst_conv snd_conv] step_release.hyps])
next
  case step_rollback
  show ?case unfolding fst_conv snd_conv
    by (rule rollback_invariant [OF step_rollback.prems [unfolded fst_conv snd_conv] step_rollback.hyps])
next
  case step_headers
  show ?case unfolding fst_conv snd_conv
    by (rule headers_invariant [OF step_headers.prems [unfolded fst_conv snd_conv] step_headers.hyps])
next
  case step_cooldown
  show ?case unfolding fst_conv snd_conv
    by (rule quiet_invariant [OF step_cooldown.prems [unfolded fst_conv snd_conv] order_refl quiet_Cooldown])
next
  case step_begin
  show ?case unfolding fst_conv snd_conv by (rule begin_invariant [OF step_begin.prems [unfolded fst_conv snd_conv]])
next
  case (step_deferral seen now c d adm)
  let ?w = "\<lparr>wt_id = 0, wt_scope = bd_scope d, wt_cost = bd_cost d, wt_operation = 0, wt_expires = zero_time, wt_notBefore = zero_time\<rparr>"
  have "quiet c now (fst (ready c ?w now))" using step_deferral.hyps by (intro quiet_ready) simp
  moreover have "fst (deferral_ready c d now) = fst (ready c ?w now)"
    by (auto simp: deferral_ready_def split: prod.split readiness.split)
  ultimately have "quiet c now (fst (deferral_ready c d now))" by simp
  then show ?case unfolding fst_conv snd_conv
    by (rule quiet_invariant [OF step_deferral.prems [unfolded fst_conv snd_conv] step_deferral.hyps(1)])
next
  case (step_catalog seen now c sc adm started catalog)
  from step_catalog.prems step_catalog.hyps(1) have "ledgers_ok True c seen adm" "catalogs = True" by simp_all
  with catalog_invariant [OF _ this(1) step_catalog.hyps(2-4)] step_catalog.prems(1) show ?case by simp
next
  case (step_failure seen now c sc adm started reason)
  then obtain s where s: "map_of (ct_scopes c) sc = Some s" by (auto simp: ghas_def)
  have "quiet c now (set_scope c sc (s\<lparr>ss_catalogError := reason, ss_catalogErrorAt := now, ss_catalogErrorStart := started\<rparr>))"
    by (rule quiet_set [OF s]) (simp add: quiet_scope_def)
  then have "quiet c now (catalogFailure c sc started reason now)"
    by (auto simp: catalogFailure_def the_scope_Some [OF s] Let_def intro: quiet_refl quiet_trans quiet_events)
  then show ?case unfolding fst_conv snd_conv
    by (rule quiet_invariant [OF step_failure.prems [unfolded fst_conv snd_conv] step_failure.hyps(1)])
qed

end
