(* ===== verification/Upstream_Transport.thy ===== *)
theory Upstream_Transport
  imports Upstream_Cycle Upstream_Run
begin

text \<open>
  The HTTP transport of \<open>upstream/transport.go\<close>, the reading of responses of \<open>response.go\<close> and \<open>body.go\<close>, and the
  capture of \<open>capture.go\<close>. A round trip is a sequence of critical sections of the controller; between them other
  goroutines change the controller as the surroundings say. Its own calls on an attempt are kept as a trace.

  A body is described by what the decoders of the standard library say about it, a stream by the data before
  its end and the error that ends it, a network by what \<open>base.RoundTrip\<close> answers to each attempt.
\<close>

section \<open>Responses\<close>

text \<open>
  \<open>hb_retCode\<close> is \<open>None\<close> when the body does not decode into the Bybit envelope, \<open>Some None\<close> when the code is absent;
  \<open>hb_retMsg\<close> is the decoded message, if the body decodes; \<open>hb_Valid\<close> is \<open>json.Valid\<close>.
\<close>

record http_body =
  hb_text :: string
  hb_Valid :: bool
  hb_retCode :: "int option option"
  hb_retMsg :: "string option"
  hb_rateLimits :: "catalogLimit list option"

record stream =
  sm_body :: http_body
  sm_length :: int
  sm_error :: "error option"

text \<open>\<open>rs_decoded\<close> is the stream a decoder makes of the raw one, \<open>None\<close> when it refuses its header.\<close>

record response =
  rs_StatusCode :: int
  rs_Header :: "(string, string list) gomap"
  rs_Body :: "stream option"
  rs_decoded :: "string \<Rightarrow> stream option"
  rs_brotli :: stream

text \<open>\<open>http.ParseTime\<close>, the dates of HTTP.\<close>

type_synonym parse_time = "string \<Rightarrow> time option"

definition retryableStatus :: "int \<Rightarrow> bool" where
  "retryableStatus status \<longleftrightarrow> status = 500 \<or> status = 502 \<or> status = 503 \<or> status = 504"

definition retryAfter :: "parse_time \<Rightarrow> string \<Rightarrow> time \<Rightarrow> time \<times> bool" where
  "retryAfter parse val now =
     (let dated = (case parse val of None \<Rightarrow> (zero_time, False) | Some until \<Rightarrow> (until, until > now))
      in case Atoi val of
           None \<Rightarrow> dated
         | Some secs \<Rightarrow>
             if secs \<ge> 0 \<and> secs \<le> max_int64 sdiv Second
             then (let until = now + secs * Second in (until, until > now))
             else dated)"

text \<open>
  Trimming spaces cannot change whether the phrase occurs, and no letter outside ASCII lowers to one of its
  letters, so that the message is compared byte by byte.
\<close>

definition contains :: "string \<Rightarrow> string \<Rightarrow> bool" where
  "contains s sub = list_ex (\<lambda>i. take (length sub) (drop i s) = sub) [0..<length s + 1]"

definition accessTooFrequent :: "http_body \<Rightarrow> bool" where
  "accessTooFrequent body =
     (let message = (case hb_retMsg body of None \<Rightarrow> hb_text body | Some m \<Rightarrow> m)
      in contains (map ascii_lower message) ''access too frequent'')"

text \<open>The fallback and the minimal cooldown of a rate-limit response, a zero fallback for any other.\<close>

definition signal_cooldown :: "cfg_Cooldown \<Rightarrow> upstream_Scope \<Rightarrow> int \<Rightarrow> http_body \<Rightarrow> int \<Rightarrow> duration \<times> duration" where
  "signal_cooldown settings scope status body code =
     (if scope = Bybit then
        (if status = 403 \<and> accessTooFrequent body then (cd_Bybit403AccessTooFrequent settings, 10 * Minute)
         else if status = 429 then (cd_Bybit429 settings, 0)
         else if code = 10006 then (cd_Bybit10006 settings, 0)
         else (0, 0))
      else if status = 429 then (cd_Binance429 settings, 0)
      else if status = 418 then (cd_Binance418 settings, 0)
      else (0, 0))"

definition signal_until :: "parse_time \<Rightarrow> upstream_Scope \<Rightarrow> response \<Rightarrow> duration \<times> duration \<Rightarrow> time \<Rightarrow> time" where
  "signal_until parse scope response fm now =
     (let (until, valid) = retryAfter parse (query_Get (rs_Header response) ''Retry-After'') now;
          (until, valid) =
            (if scope = Bybit then
               (case Atoi (query_Get (rs_Header response) ''X-Bapi-Limit-Reset-Timestamp'') of
                  None \<Rightarrow> (until, valid)
                | Some ms \<Rightarrow>
                    if ms > 0 \<and> of_UnixMilli ms > now then (maxTime [until, of_UnixMilli ms], True) else (until, valid))
             else (until, valid));
          until = (if valid then until else now + fst fm)
      in maxTime [until, now + snd fm])"

definition rateSignal :: "parse_time \<Rightarrow> upstream_Scope \<Rightarrow> response \<Rightarrow> http_body \<Rightarrow> int \<Rightarrow> time \<Rightarrow> Controller
    \<Rightarrow> Controller \<times> bool" where
  "rateSignal parse scope response body code now c =
     (let fm = signal_cooldown (up_Cooldown (ct_settings c)) scope (rs_StatusCode response) body code
      in if fst fm = 0 then (c, False)
         else (Cooldown c scope (signal_until parse scope response fm now), True))"

definition catalog_path :: "upstream_Scope \<Rightarrow> string \<Rightarrow> bool" where
  "catalog_path scope path \<longleftrightarrow> scope \<noteq> Bybit \<and> length path \<ge> length ''/exchangeInfo''
     \<and> drop (length path - length ''/exchangeInfo'') path = ''/exchangeInfo''"

text \<open>The answer is the exchange code, the error, and whether another attempt may help.\<close>

definition classify :: "parse_time \<Rightarrow> upstream_Scope \<Rightarrow> string \<Rightarrow> response \<Rightarrow> http_body \<Rightarrow> entry \<Rightarrow> (nat \<Rightarrow> time) \<Rightarrow> Controller
    \<Rightarrow> Controller \<times> int \<times> error option \<times> bool" where
  "classify parse scope path response body attempt clock c =
     (let status = rs_StatusCode response; success = (status \<ge> 200 \<and> status < 300);
          decoded = (case hb_retCode body of Some (Some k) \<Rightarrow> Some k | _ \<Rightarrow> None);
          code = (if scope = Bybit then (case decoded of None \<Rightarrow> 0 | Some k \<Rightarrow> k) else 0)
      in if scope = Bybit \<and> decoded = None \<and> success then (c, 0, Some (App ErrInvalidUpstreamData), False)
         else case rateSignal parse scope response body code (clock 3) c of
           (c, True) \<Rightarrow> (c, code, Some (App ErrUpstream), True)
         | (c, False) \<Rightarrow>
           if \<not> success \<or> code \<noteq> 0 then (c, code, Some (App ErrUpstream), retryableStatus status)
           else
             let valid = (\<lambda>c. if hb_Valid body then (c, code, None, False)
                              else (c, code, Some (App ErrInvalidUpstreamData), False))
             in if catalog_path scope path then
                  (case updateCatalog c scope (en_at attempt) (hb_rateLimits body) (clock 4) of
                     (c, Some e) \<Rightarrow> (c, code, Some e, False)
                   | (c, None) \<Rightarrow> valid (usageHeaders c scope path (rs_Header response) (en_ref attempt) (clock 5)))
                else valid c)"

definition responseHeaders :: "parse_time \<Rightarrow> upstream_Scope \<Rightarrow> string \<Rightarrow> response \<Rightarrow> entry \<Rightarrow> (nat \<Rightarrow> time) \<Rightarrow> Controller \<Rightarrow> Controller" where
  "responseHeaders parse scope path response attempt clock c =
     (let c = (if scope \<noteq> Bybit then usageHeaders c scope path (rs_Header response) (en_ref attempt) (clock 0) else c)
      in if retryableStatus (rs_StatusCode response) then
           (case retryAfter parse (query_Get (rs_Header response) ''Retry-After'') (clock 1) of
              (until, True) \<Rightarrow> Cooldown c scope until
            | (until, False) \<Rightarrow> c)
         else c)"

section \<open>Bodies\<close>

definition errResponseTooLarge :: error where
  "errResponseTooLarge = Wrapped ''response body exceeds byte limit'' [App ErrInvalidUpstreamData]"

definition responseBody :: "response \<Rightarrow> stream \<Rightarrow> (response \<times> stream) result" where
  "responseBody response raw =
     (let encoding = map ascii_lower (query_Get (rs_Header response) ''Content-Encoding'');
          plain = response\<lparr>rs_Header := AList.delete ''Content-Encoding'' (AList.delete ''Content-Length'' (rs_Header response))\<rparr>
      in if encoding = [] \<or> encoding = ''identity'' then Inr (response, raw)
         else if encoding = ''gzip'' \<or> encoding = ''deflate'' then
           (case rs_decoded response encoding of
              None \<Rightarrow> Inl (App ErrInvalidUpstreamData)
            | Some decoded \<Rightarrow> Inr (plain, decoded))
         else if encoding = ''br'' then Inr (plain, rs_brotli response)
         else Inl (App ErrInvalidUpstreamData))"

definition readBody :: "stream \<Rightarrow> int \<Rightarrow> error option \<Rightarrow> http_body option \<times> error option" where
  "readBody s maximum transportError =
     (if sm_length s < maximum then
        (case sm_error s of Some e \<Rightarrow> (None, Some e) | None \<Rightarrow> (Some (sm_body s), transportError))
      else if sm_length s > maximum then (None, Some errResponseTooLarge)
      else (case sm_error s of
              Some e \<Rightarrow> if errors_Is e (Net EOF) then (Some (sm_body s), transportError) else (None, Some e)
            | None \<Rightarrow> (Some (sm_body s), transportError)))"

text \<open>The first error of the tree that satisfies a test, as \<open>errors.As\<close> finds it.\<close>

fun errors_As :: "(error \<Rightarrow> bool) \<Rightarrow> error \<Rightarrow> error option" where
  "errors_As p (Wrapped m es) =
     (if p (Wrapped m es) then Some (Wrapped m es)
      else case List.map_filter (\<lambda>x. x) (map (errors_As p) es) of [] \<Rightarrow> None | e # _ \<Rightarrow> Some e)"
| "errors_As p (Deferral r t e) = (if p (Deferral r t e) then Some (Deferral r t e) else errors_As p e)"
| "errors_As p e = (if p e then Some e else None)"

definition is_DNSError :: "error \<Rightarrow> bool" where
  "is_DNSError e = (case e of Net (DNSError _ _) \<Rightarrow> True | _ \<Rightarrow> False)"

definition is_NetError :: "error \<Rightarrow> bool" where
  "is_NetError e = (case e of DeadlineExceeded \<Rightarrow> True | Net (DNSError _ _) \<Rightarrow> True | Net (NetError _) \<Rightarrow> True
     | Net ECONNRESET \<Rightarrow> True | Net ECONNREFUSED \<Rightarrow> True | Net EPIPE \<Rightarrow> True | _ \<Rightarrow> False)"

definition net_Timeout :: "error \<Rightarrow> bool" where
  "net_Timeout e = (case e of DeadlineExceeded \<Rightarrow> True | Net (DNSError _ timeout) \<Rightarrow> timeout | Net (NetError timeout) \<Rightarrow> timeout | _ \<Rightarrow> False)"

definition temporary :: "error \<Rightarrow> bool" where
  "temporary err =
     (if errors_Is err Canceled then False
      else if errors_Is err DeadlineExceeded \<or> errors_Is err (Net EOF) \<or> errors_Is err (Net ErrUnexpectedEOF)
        \<or> errors_Is err (Net ECONNRESET) \<or> errors_Is err (Net ECONNREFUSED) \<or> errors_Is err (Net EPIPE) then True
      else if (case errors_As is_DNSError err of Some (Net (DNSError isTemporary _)) \<Rightarrow> isTemporary | _ \<Rightarrow> False) then True
      else (case errors_As is_NetError err of Some e \<Rightarrow> net_Timeout e | None \<Rightarrow> False))"


section \<open>Round trips\<close>

record upstream_Event =
  ue_FailureReason :: string
  ue_Scope :: upstream_Scope
  ue_Market :: string
  ue_Operation :: Operation
  ue_Path :: string
  ue_StartedAt :: time
  ue_Duration :: duration
  ue_Status :: int
  ue_Code :: int
  ue_Header :: "(string, string list) gomap"
  ue_Error :: "error option"

record Transport =
  tp_scope :: upstream_Scope
  tp_settings :: HTTPClient
  tp_maxQuery :: int
  tp_observed :: bool
  tp_pageLimits :: "(string, int) gomap"

definition NewTransport :: "go_parsers \<Rightarrow> bool \<Rightarrow> Controller \<Rightarrow> upstream_Scope \<Rightarrow> Config \<Rightarrow> bool \<Rightarrow> Transport result" where
  "NewTransport go given controller scope cfg observed =
     (if \<not> given then Inl (Plain ''upstream dependencies are required'')
      else case Config_Validate go cfg of
        Some err \<Rightarrow> Inl err
      | None \<Rightarrow>
        if \<not> ghas (ct_scopes controller) scope then Inl (App ErrUnsupportedOperation)
        else
          let bybit = xs_Bybit (c_Exchanges cfg);
              bybitMax = pg_MaxCandlesPerRequest (yb_Klines bybit);
              binanceMax = pg_MaxCandlesPerRequest (bn_Klines (xs_Binance (c_Exchanges cfg)))
          in Inr \<lparr>tp_scope = scope, tp_settings = c_HTTPClient cfg, tp_maxQuery = hs_MaxQueryBytes (sr_HTTP (c_Server cfg)),
               tp_observed = observed,
               tp_pageLimits =
                 (if scope = Bybit
                  then foldl (\<lambda>m market. AList.update market (if market = ''linear'' then mk_Linear bybitMax else mk_Spot bybitMax) m)
                    [] (yb_Markets bybit)
                  else [([], if scope = BinanceLinear then mk_Linear binanceMax else mk_Spot binanceMax)])\<rparr>)"

text \<open>What \<open>base.RoundTrip\<close> does with an attempt, and the calls of a round trip on its attempts.\<close>

datatype reply = Replies "response option" "error option" | Crashes

datatype action = Reserved nat | RolledBack nat | Dispatched nat | Released nat

text \<open>
  The surroundings of a round trip: \<open>ns_ctx2\<close> is \<open>ctx.Err()\<close> right after an admission, \<open>ns_ctx3\<close> at the dispatch, under the
  timeout of the attempt, and \<open>ns_ctx4\<close> after a failed attempt; \<open>ns_clock\<close> gives the readings of the clock
  during an attempt; \<open>ns_errs\<close> is \<open>ctx.Err()\<close> of the other waiters; \<open>ns_fresh\<close> gives the addresses of new objects.
\<close>

record network = surroundings +
  ns_ctx2 :: "nat \<Rightarrow> error option"
  ns_ctx3 :: "nat \<Rightarrow> error option"
  ns_ctx4 :: "nat \<Rightarrow> error option"
  ns_deadline :: "time option"
  ns_errs :: "nat \<Rightarrow> nat \<Rightarrow> error option"
  ns_clock :: "nat \<Rightarrow> nat \<Rightarrow> time"
  ns_jitter :: "nat \<Rightarrow> duration \<Rightarrow> duration"
  ns_reply :: "nat \<Rightarrow> reply"
  ns_fresh :: "nat \<Rightarrow> nat"

text \<open>The whole of \<open>acquire\<close>, over its sections; \<open>n\<close> counts the moments of the run.\<close>

fun acquire_loop :: "nat \<Rightarrow> network \<Rightarrow> nat \<Rightarrow> waiter \<Rightarrow> Controller \<Rightarrow> (Controller \<times> nat \<times> entry result) option" where
  "acquire_loop 0 env n w c = None"
| "acquire_loop (Suc fuel) env n w c =
     (case acquire_pass c (\<lambda>i. if i = wt_id w then sr_ctx env n else ns_errs env n i) (ns_deadline env) (sr_now env n) (ns_fresh env n) w of
        (c, Refused e) \<Rightarrow> Some (c, n + 1, Inl e)
      | (c, Admitted e) \<Rightarrow> Some (c, n + 1, Inr e)
      | (c, Waits t) \<Rightarrow>
          (case wait (sr_wake env n) of
             Some e \<Rightarrow> Some (acquire_leave c w, n + 1, Inl e)
           | None \<Rightarrow> acquire_loop fuel env (n + 1) w (sr_others env n c)))"

definition acquire :: "nat \<Rightarrow> network \<Rightarrow> nat \<Rightarrow> upstream_Scope \<Rightarrow> cost \<Rightarrow> nat \<Rightarrow> time \<Rightarrow> Controller
    \<Rightarrow> (Controller \<times> nat \<times> entry result) option" where
  "acquire fuel env n scope request opr notBefore c =
     (case acquire_enter c (sr_ctx env n) scope request opr notBefore (sr_now env n) (sr_now env n) (ns_fresh env n) of
        (c, Inl e) \<Rightarrow> Some (c, n + 1, Inl e)
      | (c, Inr w) \<Rightarrow> acquire_loop fuel env (n + 1) w (sr_others env n c))"

definition blank_event :: "Transport \<Rightarrow> string \<Rightarrow> cost \<Rightarrow> string \<Rightarrow> time \<Rightarrow> upstream_Event" where
  "blank_event t market request path started = \<lparr>ue_FailureReason = [], ue_Scope = tp_scope t, ue_Market = market,
     ue_Operation = cost_operation request, ue_Path = path, ue_StartedAt = started, ue_Duration = 0, ue_Status = 0,
     ue_Code = 0, ue_Header = [], ue_Error = None\<rparr>"

definition no_body :: http_body where
  "no_body = \<lparr>hb_text = [], hb_Valid = False, hb_retCode = None, hb_retMsg = None, hb_rateLimits = None\<rparr>"

text \<open>The part of \<open>attempt\<close> after \<open>base.RoundTrip\<close> has answered; \<open>clock 2\<close> is when the answer was received.\<close>

definition read_reply :: "parse_time \<Rightarrow> Transport \<Rightarrow> string \<Rightarrow> response option \<Rightarrow> error option \<Rightarrow> entry \<Rightarrow> (nat \<Rightarrow> time) \<Rightarrow> Controller
    \<Rightarrow> upstream_Event \<Rightarrow> Controller \<times> (response \<times> http_body) option \<times> upstream_Event \<times> bool" where
  "read_reply parse t path response err reservation clock c event =
     (let event = (case response of None \<Rightarrow> event
                   | Some r \<Rightarrow> event\<lparr>ue_Status := rs_StatusCode r, ue_Header := rs_Header r\<rparr>);
          (c, resp, body, err) =
            (case response of
               None \<Rightarrow> (c, None, None, err)
             | Some r \<Rightarrow>
                 let c = responseHeaders parse (tp_scope t) path r reservation clock c
                 in case rs_Body r of
                      None \<Rightarrow> (c, Some r, None, (if err = None then Some (App ErrInvalidUpstreamData) else err))
                    | Some raw \<Rightarrow>
                      (case responseBody r raw of
                         Inl e \<Rightarrow> (c, Some r, None, Some e)
                       | Inr (r, reader) \<Rightarrow>
                           (case readBody reader (hc_MaxResponseBytes (tp_settings t)) err of
                              (body, err) \<Rightarrow> (c, Some r, body, err))));
          seen = (case body of None \<Rightarrow> no_body | Some b \<Rightarrow> b);
          (c, event, retryable) =
            (case err of
               Some e \<Rightarrow>
                 (c, (if errors_Is e (App ErrInvalidUpstreamData)
                      then event\<lparr>ue_Error := Some (App ErrInvalidUpstreamData),
                             ue_FailureReason := (if errors_Is e errResponseTooLarge then ''oversized_body'' else [])\<rparr>
                      else event\<lparr>ue_Error := Some (Wrapped ''exchange transport'' [Wrapped [] [App ErrUpstream, e]])\<rparr>), temporary e)
             | None \<Rightarrow>
               (case resp of
                  None \<Rightarrow> (c, event\<lparr>ue_Error := Some (App ErrInvalidUpstreamData)\<rparr>, False)
                | Some r \<Rightarrow>
                  (case classify parse (tp_scope t) path r seen reservation clock c of
                     (c, code, e, retryable) \<Rightarrow> (c, event\<lparr>ue_Code := code, ue_Error := e\<rparr>, retryable))));
          c = (case resp of
                 Some r \<Rightarrow> if err \<noteq> None then fst (rateSignal parse (tp_scope t) r seen (ue_Code event) (clock 6) c) else c
               | None \<Rightarrow> c);
          failed = (catalog_path (tp_scope t) path \<and> ue_Error event \<noteq> None);
          event = (if failed \<and> ue_FailureReason event = [] then event\<lparr>ue_FailureReason := ''catalog_refresh_failed''\<rparr> else event);
          c = (if failed then catalogFailure c (tp_scope t) (en_at reservation) (ue_FailureReason event) (clock 7) else c)
      in (c, (case resp of Some r \<Rightarrow> Some (r, seen) | None \<Rightarrow> None),
          event\<lparr>ue_Duration := max 0 (time_Sub (clock 2) (en_at reservation))\<rparr>, retryable))"

text \<open>
  One turn of the retry loop after the admission: the second reading of the context, the attempt with its dispatch, and the
  release that is deferred past it, also past a panic.
\<close>

datatype trip_end = Fails error | Succeeds response http_body upstream_Event | Retries | Unwinds

record trip =
  tr_ctl :: Controller
  tr_events :: "upstream_Event list"
  tr_trace :: "action list"

definition observe :: "Transport \<Rightarrow> upstream_Event \<Rightarrow> trip \<Rightarrow> trip" where
  "observe t event s = (if tp_observed t then s\<lparr>tr_events := tr_events s @ [event]\<rparr> else s)"

definition note_action :: "action \<Rightarrow> trip \<Rightarrow> trip" where
  "note_action a s = s\<lparr>tr_trace := tr_trace s @ [a]\<rparr>"

definition on_ctl :: "(Controller \<Rightarrow> Controller) \<Rightarrow> trip \<Rightarrow> trip" where
  "on_ctl f s = s\<lparr>tr_ctl := f (tr_ctl s)\<rparr>"

definition attempt_turn :: "parse_time \<Rightarrow> Transport \<Rightarrow> network \<Rightarrow> nat \<Rightarrow> string \<Rightarrow> string \<Rightarrow> nat \<Rightarrow> entry \<Rightarrow> int \<Rightarrow> trip
    \<Rightarrow> trip \<times> trip_end" where
  "attempt_turn parse t env n market path opr reservation k s =
     (let r = en_ref reservation; scope = tp_scope t; clock = ns_clock env n;
          event = blank_event t market (en_cost reservation) path (en_at reservation)
      in case ns_ctx2 env n of
           Some e \<Rightarrow> (note_action (RolledBack r) (on_ctl (\<lambda>c. rollback c scope opr r) s), Fails e)
         | None \<Rightarrow>
           (case ns_ctx3 env n of
              Some e \<Rightarrow>
                (on_ctl (\<lambda>c. release c scope r (clock 8))
                  (note_action (RolledBack r) (on_ctl (\<lambda>c. rollback c scope opr r) s)), Fails e)
            | None \<Rightarrow>
              let s = note_action (Dispatched r) (on_ctl (\<lambda>c. fst (dispatch c None scope r)) s)
              in case ns_reply env n of
                   Crashes \<Rightarrow>
                     (note_action (Released r) (on_ctl (\<lambda>c. release c scope r (clock 8))
                        (observe t (event\<lparr>ue_Duration := max 0 (time_Sub (clock 9) (en_at reservation)), ue_Error := Some (App ErrInternal)\<rparr>) s)),
                      Unwinds)
                 | Replies response err \<Rightarrow>
                   (case read_reply parse t path response err reservation clock (sr_others env n (tr_ctl s)) event of
                      (c, answer, event, retryable) \<Rightarrow>
                        let s = observe t event (note_action (Released r) (s\<lparr>tr_ctl := release c scope r (clock 8)\<rparr>))
                        in case ue_Error event of
                             None \<Rightarrow> (s, (case answer of Some (resp, body) \<Rightarrow> Succeeds resp body event | None \<Rightarrow> Unwinds))
                           | Some e \<Rightarrow>
                             (case ns_ctx4 env n of
                                Some e' \<Rightarrow> (s, Fails e')
                              | None \<Rightarrow>
                                  if \<not> retryable \<or> k = ry_MaxAttempts (hc_Retry (tp_settings t)) then (s, Fails e)
                                  else (s, Retries)))))"

text \<open>The retry loop; \<open>left\<close> are the attempts still allowed, \<open>k\<close> the number of this one.\<close>

fun trip_loop :: "nat \<Rightarrow> parse_time \<Rightarrow> Transport \<Rightarrow> network \<Rightarrow> string \<Rightarrow> string \<Rightarrow> cost \<Rightarrow> nat \<Rightarrow> nat \<Rightarrow> nat \<Rightarrow> int \<Rightarrow> time \<Rightarrow> trip
    \<Rightarrow> (trip \<times> trip_end) option" where
  "trip_loop fuel parse t env market path request opr 0 n k notBefore s = Some (s, Fails (App ErrUpstream))"
| "trip_loop fuel parse t env market path request opr (Suc left) n k notBefore s =
     (case acquire fuel env n (tp_scope t) request opr notBefore (tr_ctl s) of
        None \<Rightarrow> None
      | Some (c, n, Inl e) \<Rightarrow> Some (s\<lparr>tr_ctl := c\<rparr>, Fails e)
      | Some (c, n, Inr reservation) \<Rightarrow>
          (case attempt_turn parse t env n market path opr reservation k
              (note_action (Reserved (en_ref reservation)) (s\<lparr>tr_ctl := c\<rparr>)) of
             (s, Retries) \<Rightarrow>
               trip_loop fuel parse t env market path request opr left (n + 1) (k + 1)
                 (ns_clock env n 10 + backoff (hc_Retry (tp_settings t)) k (ns_jitter env n)) (on_ctl (sr_others env n) s)
           | (s, out) \<Rightarrow> Some (s, out)))"

text \<open>\<open>bound\<close> is the operation the context carries, \<open>rawLength\<close> the bytes of the raw query.\<close>

definition RoundTrip :: "nat \<Rightarrow> parse_time \<Rightarrow> Transport \<Rightarrow> network \<Rightarrow> request \<Rightarrow> int \<Rightarrow> nat option \<Rightarrow> trip
    \<Rightarrow> (trip \<times> trip_end) option" where
  "RoundTrip fuel parse t env request rawLength bound s =
     (if rawLength > tp_maxQuery t then Some (s, Fails (App ErrRequestTooLarge))
      else case parseQuery request of
        Inl e \<Rightarrow> Some (s, Fails e)
      | Inr q \<Rightarrow>
        let market = (if tp_scope t = Bybit then query_Get q ''category'' else [])
        in case map_of (tp_pageLimits t) market of
             None \<Rightarrow> Some (s, Fails (App ErrUnsupportedOperation))
           | Some maximum \<Rightarrow>
             (case resolveCost (tp_scope t) request maximum of
                Inl e \<Rightarrow> Some (s, Fails e)
              | Inr cost \<Rightarrow>
                (case operation (tr_ctl s) bound (tp_scope t) (cost_operation cost) of
                   Inl e \<Rightarrow> Some (s, Fails e)
                 | Inr opr \<Rightarrow>
                     trip_loop fuel parse t env market (r_Path request) cost opr
                       (nat (ry_MaxAttempts (hc_Retry (tp_settings t)))) 0 1 zero_time s)))"

section \<open>Captured responses\<close>

record Response =
  cp_Body :: http_body
  cp_Header :: "(string, string list) gomap"
  cp_Status :: int
  cp_StartedAt :: time
  cp_FetchedAt :: time

text \<open>What \<open>record\<close> stores for a finished round trip: its error, or its response.\<close>

definition record_trip :: "trip_end \<Rightarrow> (Response result) option" where
  "record_trip out =
     (case out of
        Fails e \<Rightarrow> Some (Inl e)
      | Succeeds response body event \<Rightarrow> Some (Inr \<lparr>cp_Body = body, cp_Header = rs_Header response, cp_Status = rs_StatusCode response,
          cp_StartedAt = ue_StartedAt event, cp_FetchedAt = ue_StartedAt event + ue_Duration event\<rparr>)
      | _ \<Rightarrow> None)"

text \<open>\<open>captured\<close> is the last thing recorded during the call, \<open>err\<close> what the SDK returned.\<close>

definition Execute :: "(Response result) option \<Rightarrow> error option \<Rightarrow> error option \<Rightarrow> Response result" where
  "Execute captured err ctx =
     (case captured of
        Some (Inl e) \<Rightarrow> Inl e
      | _ \<Rightarrow>
        (case err of
           Some e \<Rightarrow> (case ctx of Some x \<Rightarrow> Inl x | None \<Rightarrow> Inl (App ErrInvalidUpstreamData))
         | None \<Rightarrow> (case captured of Some (Inr response) \<Rightarrow> Inr response | _ \<Rightarrow> Inl (App ErrInvalidUpstreamData))))"

section \<open>The calls of a round trip\<close>

text \<open>The calls on the attempts of one round trip; a flag says whether the attempt was dispatched.\<close>

definition settled :: "(nat \<times> bool) list \<Rightarrow> action list" where
  "settled ds = concat (map (\<lambda>(r, sent). if sent then [Reserved r, Dispatched r, Released r] else [Reserved r, RolledBack r]) ds)"

lemma settled_Cons [simp]:
  "settled [] = []"
  "settled ((r, sent) # ds) = (if sent then [Reserved r, Dispatched r, Released r] else [Reserved r, RolledBack r]) @ settled ds"
  by (simp_all add: settled_def)

lemma trip_fields [simp]:
  "tr_trace (note_action a s) = tr_trace s @ [a]" "tr_events (note_action a s) = tr_events s" "tr_ctl (note_action a s) = tr_ctl s"
  "tr_trace (on_ctl f s) = tr_trace s" "tr_events (on_ctl f s) = tr_events s" "tr_ctl (on_ctl f s) = f (tr_ctl s)"
  "tr_trace (observe t e s) = tr_trace s" "tr_ctl (observe t e s) = tr_ctl s"
  by (simp_all add: note_action_def on_ctl_def observe_def)

lemma observe_events: "tr_events (observe t e s) = tr_events s @ (if tp_observed t then [e] else [])"
  by (simp add: observe_def)

lemma attempt_turn_cases:
  assumes "attempt_turn parse t env n market path opr reservation k s = (s', out)"
  obtains (unsent) e where "out = Fails e" "tr_trace s' = tr_trace s @ [RolledBack (en_ref reservation)]" "tr_events s' = tr_events s"
  | (sent) ev where "tr_trace s' = tr_trace s @ [Dispatched (en_ref reservation), Released (en_ref reservation)]"
      "tr_events s' = tr_events s @ (if tp_observed t then [ev] else [])"
      "out = Retries \<longrightarrow> k \<noteq> ry_MaxAttempts (hc_Retry (tp_settings t))"
proof -
  note run = assms [unfolded attempt_turn_def Let_def]
  show thesis
  proof (cases "ns_ctx2 env n = None \<and> ns_ctx3 env n = None")
    case False
    then obtain e where "out = Fails e" "tr_trace s' = tr_trace s @ [RolledBack (en_ref reservation)]" "tr_events s' = tr_events s"
      using run by (auto split: option.splits)
    then show ?thesis by (rule unsent)
  next
    case True
    show ?thesis
    proof (cases "ns_reply env n")
      case Crashes
      with run True show ?thesis by (intro sent) (auto simp: observe_events)
    next
      case (Replies response err)
      let ?s = "note_action (Dispatched (en_ref reservation)) (on_ctl (\<lambda>c. fst (dispatch c None (tp_scope t) (en_ref reservation))) s)"
      obtain c answer event retryable where read: "read_reply parse t path response err reservation (ns_clock env n)
          (sr_others env n (tr_ctl ?s)) (blank_event t market (en_cost reservation) path (en_at reservation)) = (c, answer, event, retryable)"
        by (metis prod.collapse)
      let ?s' = "observe t event (note_action (Released (en_ref reservation))
        (?s\<lparr>tr_ctl := release c (tp_scope t) (en_ref reservation) (ns_clock env n 8)\<rparr>))"
      have "s' = ?s' \<and> (out = Retries \<longrightarrow> k \<noteq> ry_MaxAttempts (hc_Retry (tp_settings t)))"
        using run True Replies read by (auto split: option.splits if_splits)
      then show ?thesis by (intro sent [of event]) (auto simp: observe_events)
    qed
  qed
qed

lemma trip_loop_accounting:
  assumes "trip_loop fuel parse t env market path request opr left n k notBefore s = Some (s', out)"
    and "int left + k = ry_MaxAttempts (hc_Retry (tp_settings t)) + 1"
  shows "\<exists>ds evs. tr_trace s' = tr_trace s @ settled ds \<and> tr_events s' = tr_events s @ evs \<and> length ds \<le> left
    \<and> list_all snd (butlast ds) \<and> length evs = (if tp_observed t then length (filter snd ds) else 0) \<and> out \<noteq> Retries"
  using assms
proof (induction left arbitrary: n k notBefore s)
  case 0
  then show ?case by (intro exI [of _ "[]"]) auto
next
  case (Suc left)
  show ?case
  proof (cases "acquire fuel env n (tp_scope t) request opr notBefore (tr_ctl s)")
    case None
    with Suc.prems show ?thesis by simp
  next
    case (Some a)
    obtain c m res where a: "a = (c, m, res)" by (metis prod.collapse)
    show ?thesis
    proof (cases res)
      case (Inl e)
      with Suc.prems Some a show ?thesis by (intro exI [of _ "[]"]) auto
    next
      case (Inr reservation)
      let ?s = "note_action (Reserved (en_ref reservation)) (s\<lparr>tr_ctl := c\<rparr>)"
      obtain s1 out1 where turn: "attempt_turn parse t env m market path opr reservation k ?s = (s1, out1)" by fastforce
      have step: "trip_loop fuel parse t env market path request opr (Suc left) n k notBefore s =
          (if out1 = Retries then trip_loop fuel parse t env market path request opr left (m + 1) (k + 1)
             (ns_clock env m 10 + backoff (hc_Retry (tp_settings t)) k (ns_jitter env m)) (on_ctl (sr_others env m) s1)
           else Some (s1, out1))"
        using Some a Inr turn by (simp split: trip_end.split)
      show ?thesis
        using turn
      proof (cases rule: attempt_turn_cases)
        case (unsent e)
        then have "(s', out) = (s1, out1)" using Suc.prems(1) step by simp
        with unsent show ?thesis by (intro exI [of _ "[(en_ref reservation, False)]"] exI [of _ "[]"]) simp
      next
        case (sent ev)
        show ?thesis
        proof (cases "out1 = Retries")
          case False
          then have "(s', out) = (s1, out1)" using Suc.prems(1) step by simp
          with sent False show ?thesis
            by (intro exI [of _ "[(en_ref reservation, True)]"] exI [of _ "if tp_observed t then [ev] else []"]) simp
        next
          case True
          with Suc.prems(1) step obtain m' nb where rest: "trip_loop fuel parse t env market path request opr left m' (k + 1) nb
              (on_ctl (sr_others env m) s1) = Some (s', out)" by simp
          from Suc.IH [OF this] Suc.prems(2) obtain ds evs where ih: "tr_trace s' = tr_trace s1 @ settled ds"
              "tr_events s' = tr_events s1 @ evs" "length ds \<le> left" "list_all snd (butlast ds)"
              "length evs = (if tp_observed t then length (filter snd ds) else 0)" "out \<noteq> Retries"
            by auto
          then show ?thesis using sent
            by (intro exI [of _ "(en_ref reservation, True) # ds"] exI [of _ "(if tp_observed t then [ev] else []) @ evs"]) simp
        qed
      qed
    qed
  qed
qed

section \<open>Admission ends\<close>

text \<open>Once the clock has passed the expiry of a waiter, a pass of the waiting loop does not wait.\<close>

lemma expired_pass:
  assumes "\<not> now < wt_expires w"
  shows "\<exists>c' e. acquire_pass c errs deadline now fresh w = (c', Refused e)"
proof -
  obtain c1 r where ready: "ready c w now = (c1, r)" by fastforce
  have "\<exists>c' e. acquire_try c errs deadline now fresh w = (c', Refused e)"
    using assms by (cases "errs (wt_id w)"; cases r) (simp_all add: acquire_try_def Let_def ready)
  then show ?thesis by (auto simp: acquire_pass_def)
qed

lemma acquire_loop_ends:
  assumes "\<not> sr_now env (n + d) < wt_expires w" and "d < fuel"
  shows "acquire_loop fuel env n w c \<noteq> None"
  using assms
proof (induction fuel arbitrary: n d c)
  case (Suc fuel)
  show ?case
  proof (cases d)
    case 0
    with Suc.prems have "\<not> sr_now env n < wt_expires w" by simp
    from expired_pass [OF this, of c "\<lambda>i. if i = wt_id w then sr_ctx env n else ns_errs env n i" "ns_deadline env" "ns_fresh env n"]
    show ?thesis by (elim exE) simp
  next
    case (Suc d')
    then have "acquire_loop fuel env (n + 1) w c' \<noteq> None" for c'
      using Suc.IH [of "n + 1" d' c'] \<open>\<not> sr_now env (n + d) < wt_expires w\<close> \<open>d < Suc fuel\<close> by simp
    then show ?thesis by (auto split: prod.splits pass.splits option.splits)
  qed
qed simp


lemma acquire_ends:
  assumes "\<forall>limit. \<exists>m. \<forall>i \<ge> m. limit \<le> sr_now env i"
  shows "\<exists>fuel. acquire fuel env n scope request opr notBefore c \<noteq> None"
proof -
  obtain c1 r where enter: "acquire_enter c (sr_ctx env n) scope request opr notBefore (sr_now env n) (sr_now env n) (ns_fresh env n) = (c1, r)"
    by fastforce
  show ?thesis
  proof (cases r)
    case (Inl e)
    with enter show ?thesis by (simp add: acquire_def)
  next
    case (Inr w)
    obtain m where "\<forall>i \<ge> m. wt_expires w \<le> sr_now env i" using assms by blast
    then have "\<not> sr_now env (n + 1 + m) < wt_expires w" by (simp add: not_less)
    from acquire_loop_ends [OF this, of "m + 1" "sr_others env n c1"] Inr enter show ?thesis
      by (intro exI [of _ "m + 1"]) (simp add: acquire_def)
  qed
qed

lemma acquire_loop_fuel: "acquire_loop fuel env n w c = Some x \<Longrightarrow> fuel \<le> fuel' \<Longrightarrow> acquire_loop fuel' env n w c = Some x"
proof (induction fuel arbitrary: n c fuel')
  case (Suc fuel)
  then obtain more where more: "fuel' = Suc more" "fuel \<le> more" by (cases fuel') auto
  obtain c1 out where pass: "acquire_pass c (\<lambda>i. if i = wt_id w then sr_ctx env n else ns_errs env n i) (ns_deadline env)
      (sr_now env n) (ns_fresh env n) w = (c1, out)" by fastforce
  show ?case
    using Suc.prems Suc.IH [OF _ more(2)] by (cases out; cases "wait (sr_wake env n)") (simp_all add: more(1) pass)
qed simp

lemma acquire_fuel: "acquire fuel env n scope request opr notBefore c = Some x \<Longrightarrow> fuel \<le> fuel' \<Longrightarrow>
    acquire fuel' env n scope request opr notBefore c = Some x"
  by (auto simp: acquire_def split: prod.splits sum.splits intro: acquire_loop_fuel)

lemma trip_loop_fuel: "trip_loop fuel parse t env market path request opr left n k notBefore s = Some x \<Longrightarrow> fuel \<le> fuel' \<Longrightarrow>
    trip_loop fuel' parse t env market path request opr left n k notBefore s = Some x"
proof (induction left arbitrary: n k notBefore s)
  case (Suc left)
  show ?case
  proof (cases "acquire fuel env n (tp_scope t) request opr notBefore (tr_ctl s)")
    case None
    with Suc.prems show ?thesis by simp
  next
    case (Some a)
    from acquire_fuel [OF this Suc.prems(2)] Some Suc.prems Suc.IH show ?thesis
      by (auto split: prod.splits sum.splits trip_end.splits)
  qed
qed simp

lemma trip_loop_ends:
  assumes "\<forall>limit. \<exists>m. \<forall>i \<ge> m. limit \<le> sr_now env i"
  shows "\<exists>fuel. trip_loop fuel parse t env market path request opr left n k notBefore s \<noteq> None"
proof (induction left arbitrary: n k notBefore s)
  case (Suc left)
  obtain f1 a where a: "acquire f1 env n (tp_scope t) request opr notBefore (tr_ctl s) = Some a"
    using acquire_ends [OF assms] by blast
  obtain c m res where am: "a = (c, m, res)" by (metis prod.collapse)
  show ?case
  proof (cases res)
    case (Inl e)
    with a am show ?thesis by (intro exI [of _ f1]) simp
  next
    case (Inr reservation)
    obtain s1 out where turn: "attempt_turn parse t env m market path opr reservation k
        (note_action (Reserved (en_ref reservation)) (s\<lparr>tr_ctl := c\<rparr>)) = (s1, out)" by fastforce
    obtain f2 x where f2: "trip_loop f2 parse t env market path request opr left (m + 1) (k + 1)
        (ns_clock env m 10 + backoff (hc_Retry (tp_settings t)) k (ns_jitter env m)) (on_ctl (sr_others env m) s1) = Some x"
      using Suc.IH by blast
    have "acquire (max f1 f2) env n (tp_scope t) request opr notBefore (tr_ctl s) = Some (c, m, Inr reservation)"
      using acquire_fuel [OF a, of "max f1 f2"] am Inr by simp
    with trip_loop_fuel [OF f2, of "max f1 f2"] turn show ?thesis
      by (intro exI [of _ "max f1 f2"]) (cases out; simp)
  qed
qed simp

end
