(* ===== verification/Upstream_Trips.thy ===== *)
theory Upstream_Trips
  imports Upstream_Transport
begin

text \<open>
  The guarantees of the transport: a round trip settles every attempt it reserves and ends, and a rate-limit response
  silences its scope. They rest on \<open>Upstream_Transport\<close> and, for the last, on the runs of the controller: no step of
  a run shortens a cooldown.
\<close>

section \<open>Cooldowns only grow\<close>

definition cooler :: "Controller \<Rightarrow> Controller \<Rightarrow> bool" where
  "cooler c c' \<longleftrightarrow> (\<forall>sc s. map_of (ct_scopes c) sc = Some s \<longrightarrow>
     (\<exists>s'. map_of (ct_scopes c') sc = Some s' \<and> ss_cooldown s \<le> ss_cooldown s'))"

lemma cooler_refl: "cooler c c"
  by (simp add: cooler_def)

lemma cooler_trans: "cooler c c1 \<Longrightarrow> cooler c1 c2 \<Longrightarrow> cooler c c2"
  unfolding cooler_def by (meson order_trans)

lemma cooler_scopes: "cooler c c1 \<Longrightarrow> ct_scopes c2 = ct_scopes c1 \<Longrightarrow> cooler c c2"
  by (simp add: cooler_def)

lemma cooler_set:
  assumes "map_of (ct_scopes c) sc = Some s" and "ss_cooldown s \<le> ss_cooldown s'"
  shows "cooler c (set_scope c sc s')"
  using assms by (auto simp: cooler_def set_scope_def)

lemma cooler_quiet:
  assumes "quiet c now c'"
  shows "cooler c c'"
  unfolding cooler_def
proof (intro allI impI)
  fix sc s assume s: "map_of (ct_scopes c) sc = Some s"
  then have "ghas (ct_scopes c') sc" using quiet_keys(1) [OF assms] by (simp add: ghas_def)
  then obtain s' where s': "map_of (ct_scopes c') sc = Some s'" by (auto simp: ghas_def)
  from quiet_scopes [OF assms this] s have "ss_cooldown s \<le> ss_cooldown s'" by (auto simp: quiet_scope_def)
  with s' show "\<exists>s'. map_of (ct_scopes c') sc = Some s' \<and> ss_cooldown s \<le> ss_cooldown s'" by blast
qed

lemma update_entry_cooldown [simp]: "ss_cooldown (update_entry s r f) = ss_cooldown s"
  by (simp add: update_entry_def)

lemma cooler_pass:
  assumes "capacity_ok c" "i < 8" "w \<in> set (queue_at c i)" and run: "acquire_pass c errs deadline now fresh w = (c', out)"
  shows "cooler c c'"
proof -
  obtain c1 where c1: "acquire_try c errs deadline now fresh w = (c1, out)" and c': "ct_scopes c' = ct_scopes c1"
    using run by (auto simp: acquire_pass_def leave_scopes split: prod.splits pass.splits)
  from assms(1-3) c1 have "cooler c c1"
  proof (cases rule: acquire_try_cases)
    case idle
    then show ?thesis by (intro cooler_quiet)
  next
    case (admitted c2 s e)
    then have s: "map_of (ct_scopes c2) (wt_scope w) = Some s" by (simp add: admits_def)
    have "cooler c2 c1"
      by (rule cooler_scopes [OF cooler_set [OF s] reserve_parts(2) [OF admitted(4) s]]) simp
    with cooler_quiet [OF admitted(2)] show ?thesis by (rule cooler_trans)
  qed
  then show ?thesis using c' by (rule cooler_scopes)
qed

lemma cooler_enter: "acquire_enter c err sc k opr nb made now wid = (c', res) \<Longrightarrow> cooler c c'"
proof -
  assume run: "acquire_enter c err sc k opr nb made now wid = (c', res)"
  show ?thesis
  proof (cases "ghas (ct_scopes c) sc \<and> err = None")
    case False
    then show ?thesis using run by (auto simp: acquire_enter_def Let_def cooler_refl split: option.splits if_splits)
  next
    case True
    let ?w = "\<lparr>wt_id = wid, wt_scope = sc, wt_cost = k, wt_operation = opr,
      wt_expires = made + up_AdmissionTimeout (ct_settings c), wt_notBefore = nb\<rparr>"
    obtain c1 r where ready: "ready c ?w now = (c1, r)" by fastforce
    have q: "quiet c now c1" using quiet_ready [of c ?w now] True ready by simp
    have "quiet c now (admissionDiagnostic c1 sc k reason t)" for reason t
      by (rule quiet_admission_after [OF q]) (use True in simp)
    note quiet = cooler_quiet [OF q] cooler_quiet [OF this]
    show ?thesis
      using run True quiet cooler_scopes [OF quiet(1)]
      by (auto simp: acquire_enter_def Let_def ready notify_def update_lane_def split: readiness.splits if_splits)
  qed
qed

lemma cooler_catalog:
  assumes "map_of (ct_scopes c) sc = Some s"
  shows "cooler c (fst (updateCatalog c sc started catalog now))"
  using assms
  by (auto simp: updateCatalog_def the_scope_Some [OF assms] Let_def notify_def diagnostic_def set_scope_def cooler_def
      split: option.splits sum.splits)

lemma cooler_step:
  assumes "ctl_step catalogs st st'" and "capacity_ok (fst st)"
  shows "cooler (fst st) (fst st')"
  using assms
proof (induction rule: ctl_step.induct)
  case step_enter
  then show ?case using cooler_enter by simp
next
  case step_pass
  then show ?case using cooler_pass by simp
next
  case (step_dispatch c sc err r c' derr seen adm)
  then obtain s where s: "map_of (ct_scopes c) sc = Some s" by (auto simp: ghas_def)
  with step_dispatch cooler_set [OF s] cooler_refl show ?case
    by (auto simp: dispatch_def the_scope_Some [OF s] split: option.splits)
next
  case (step_release seen now c sc adm r)
  then obtain s where s: "map_of (ct_scopes c) sc = Some s" by (auto simp: ghas_def)
  have "cooler c (release c sc r now)"
  proof (cases "\<exists>e. find_entry s r = Some e \<and> en_inflight e")
    case True
    then show ?thesis
      by (intro cooler_scopes [OF cooler_set [OF s, of "prune (update_entry s r (\<lambda>e. e\<lparr>en_inflight := False\<rparr>)) now"]])
        (auto simp: release_def the_scope_Some [OF s] Let_def notify_def set_scope_def update_lane_def)
  next
    case False
    then show ?thesis by (auto simp: release_def the_scope_Some [OF s] cooler_refl split: option.splits)
  qed
  then show ?case by simp
next
  case (step_rollback c sc s r e seen adm opr)
  note s = step_rollback(1)
  have "cooler c (rollback c sc opr r)"
  proof (cases "en_dispatched e")
    case False
    then show ?thesis
      using step_rollback(2)
      by (intro cooler_scopes [OF cooler_set [OF s, of "s\<lparr>ss_history := filter (\<lambda>e. en_ref e \<noteq> r) (ss_history s),
          ss_next := (if ss_next s = en_at e + ss_spacing s
            then (if filter (\<lambda>e. en_ref e \<noteq> r) (ss_history s) = [] then zero_time
                  else en_at (last (filter (\<lambda>e. en_ref e \<noteq> r) (ss_history s))) + ss_spacing s) else ss_next s)\<rparr>"]])
        (simp_all add: rollback_def the_scope_Some [OF s] Let_def notify_def set_scope_def update_lane_def)
  qed (simp add: rollback_def the_scope_Some [OF s] step_rollback(2) cooler_refl)
  then show ?case by simp
next
  case (step_headers seen now c sc adm path headers r)
  then obtain s where s: "map_of (ct_scopes c) sc = Some s" by (auto simp: ghas_def)
  have "cooler c (set_scope c sc (update_entry (prune s now) r f))" for f by (rule cooler_set [OF s]) simp
  note cooler_scopes [OF this]
  then show ?case by (auto simp: usageHeaders_def the_scope_Some [OF s] Let_def cooler_refl notify_def)
next
  case (step_deferral seen now c d adm)
  let ?w = "\<lparr>wt_id = 0, wt_scope = bd_scope d, wt_cost = bd_cost d, wt_operation = 0, wt_expires = zero_time, wt_notBefore = zero_time\<rparr>"
  have "cooler c (fst (ready c ?w now))" using step_deferral by (intro cooler_quiet [OF quiet_ready]) simp
  then show ?case by (auto simp: deferral_ready_def split: prod.splits readiness.splits)
next
  case (step_catalog seen now c sc adm started catalog)
  then show ?case using cooler_catalog by (auto simp: ghas_def)
next
  case (step_failure seen now c sc adm started reason)
  then obtain s where s: "map_of (ct_scopes c) sc = Some s" by (auto simp: ghas_def)
  have "cooler c (set_scope c sc (s\<lparr>ss_catalogError := reason, ss_catalogErrorAt := now, ss_catalogErrorStart := started\<rparr>))"
    by (rule cooler_set [OF s]) simp
  note cooler_scopes [OF this]
  then show ?case by (auto simp: catalogFailure_def the_scope_Some [OF s] Let_def cooler_refl diagnostic_def)
qed (use cooler_quiet [OF quiet_Cooldown] cooler_scopes [OF cooler_refl] begin_fields in auto)

lemma cooler_run:
  assumes "(ctl_step catalogs)\<^sup>*\<^sup>* st st'" and "capacity_ok (fst st)" and "ledgers_ok catalogs (fst st) (fst (snd st)) (snd (snd st))"
  shows "cooler (fst st) (fst st')"
proof -
  from assms(1) have "cooler (fst st) (fst st') \<and> capacity_ok (fst st') \<and> ledgers_ok catalogs (fst st') (fst (snd st')) (snd (snd st'))"
  proof (induction rule: rtranclp_induct)
    case base
    then show ?case using assms(2,3) by (simp add: cooler_refl)
  next
    case (step y z)
    then show ?case using step_invariant cooler_step cooler_trans by blast
  qed
  then show ?thesis by blast
qed

section \<open>Rate-limit responses\<close>

lemma valid_cooldowns:
  assumes "validatePositiveValues c = None"
  defines "k \<equiv> up_Cooldown (c_Upstream c)"
  shows "0 < cd_Binance429 k" "0 < cd_Binance418 k" "0 < cd_Bybit429 k" "0 < cd_Bybit10006 k" "0 < cd_Bybit403AccessTooFrequent k"
  unfolding k_def
  by (rule positive_leaf [OF assms(1), where path = "''upstream.cooldown.binance_429''"], simp add: config_leaves, simp)
    (rule positive_leaf [OF assms(1), where path = "''upstream.cooldown.binance_418''"], simp add: config_leaves, simp,
     rule positive_leaf [OF assms(1), where path = "''upstream.cooldown.bybit_429''"], simp add: config_leaves, simp,
     rule positive_leaf [OF assms(1), where path = "''upstream.cooldown.bybit_10006''"], simp add: config_leaves, simp,
     rule positive_leaf [OF assms(1), where path = "''upstream.cooldown.bybit_403_access_too_frequent''"], simp add: config_leaves, simp)

lemma retryAfter_valid: "retryAfter parse val now = (until, True) \<Longrightarrow> now < until"
  by (auto simp: retryAfter_def Let_def split: option.splits if_splits)

lemma signal_until_later:
  assumes "0 < fst fm"
  shows "now < signal_until parse scope response fm now"
proof -
  obtain until valid where ra: "retryAfter parse (query_Get (rs_Header response) ''Retry-After'') now = (until, valid)" by fastforce
  have late: "valid \<Longrightarrow> now < until" using retryAfter_valid [of parse _ now until] ra by simp
  obtain until' valid' where step: "(if scope = Bybit then
        (case Atoi (query_Get (rs_Header response) ''X-Bapi-Limit-Reset-Timestamp'') of
           None \<Rightarrow> (until, valid)
         | Some ms \<Rightarrow> if ms > 0 \<and> of_UnixMilli ms > now then (maxTime [until, of_UnixMilli ms], True) else (until, valid))
      else (until, valid)) = (until', valid')" by fastforce
  have ge: "of_UnixMilli ms \<le> maxTime [until, of_UnixMilli ms]" for ms by (rule maxTime_ge) simp
  have "valid' \<Longrightarrow> now < until'"
    using step late ge by (auto split: if_splits option.splits dest: less_le_trans)
  then have "now < (if valid' then until' else now + fst fm)" using assms by simp
  moreover have "(if valid' then until' else now + fst fm) \<le> signal_until parse scope response fm now"
    unfolding signal_until_def ra Let_def prod.case step by (rule maxTime_ge) simp
  ultimately show ?thesis by (rule less_le_trans)
qed

lemma signal_cooldown_positive:
  assumes "validatePositiveValues cfg = None" and "fst (signal_cooldown (up_Cooldown (c_Upstream cfg)) scope status body code) \<noteq> 0"
  shows "0 < fst (signal_cooldown (up_Cooldown (c_Upstream cfg)) scope status body code)"
  using assms(2) valid_cooldowns [OF assms(1)] by (simp add: signal_cooldown_def split: if_splits)

lemma Cooldown_until:
  assumes "map_of (ct_scopes c) sc = Some s"
  shows "\<exists>s'. map_of (ct_scopes (Cooldown c sc until)) sc = Some s' \<and> until \<le> ss_cooldown s'"
  using assms maxTime_ge [of until "[ss_cooldown s, until]"]
  by (auto simp: Cooldown_def Let_def notify_def set_scope_def)

text \<open>A round trip fails before its retry loop, leaving its state alone, or is its retry loop.\<close>

lemma RoundTrip_cases:
  obtains (early) e where "\<And>fuel. RoundTrip fuel parse t env request rawLength bound s = Some (s, Fails e)"
  | (loop) market cost opr where "\<And>fuel. RoundTrip fuel parse t env request rawLength bound s = trip_loop fuel parse t env market
      (r_Path request) cost opr (nat (ry_MaxAttempts (hc_Retry (tp_settings t)))) 0 1 zero_time s"
proof (cases "rawLength > tp_maxQuery t")
  case True
  then show ?thesis by (intro early) (simp add: RoundTrip_def)
next
  case short: False
  show ?thesis
  proof (cases "parseQuery request")
    case (Inl e)
    with short show ?thesis by (intro early) (simp add: RoundTrip_def)
  next
    case q: (Inr q)
    define market where "market = (if tp_scope t = Bybit then query_Get q ''category'' else [])"
    note start = RoundTrip_def [of _ parse t env request rawLength bound s, unfolded q sum.case market_def [symmetric] Let_def]
    show ?thesis
    proof (cases "map_of (tp_pageLimits t) market")
      case None
      with short start show ?thesis by (intro early) simp
    next
      case page: (Some maximum)
      show ?thesis
      proof (cases "resolveCost (tp_scope t) request maximum")
        case (Inl e)
        with short start page show ?thesis by (intro early) simp
      next
        case cost: (Inr cost)
        with short start page show ?thesis
          by (cases "operation (tr_ctl s) bound (tp_scope t) (cost_operation cost)") (auto intro: early loop)
      qed
    qed
  qed
qed

section \<open>Properties\<close>

text \<open>
  C5. A rate-limit response silences its scope. When a response of a controller that \<open>New\<close> built signals a rate limit, then in every
  state that any interleaving reaches afterwards, no attempt of that scope is admitted before the announced or configured
  end of the cooldown, which lies after the response.
\<close>

theorem rate_signal_respected:
  assumes "New go cfg clocked start = Inr c0" and "(ctl_step catalogs)\<^sup>*\<^sup>* (c0, start, []) (c, seen, adm)"
    and "ghas (ct_scopes c) sc" and "rateSignal parse sc response body code now c = (c1, True)"
    and "(ctl_step catalogs)\<^sup>*\<^sup>* (c1, seen, adm) (c2, seen2, adm2)"
    and "i < 8" and "w \<in> set (queue_at c2 i)" and "wt_scope w = sc"
    and "acquire_pass c2 errs deadline later fresh w = (c3, Admitted e)"
  shows "now < later \<and> signal_until parse sc response
    (signal_cooldown (up_Cooldown (c_Upstream cfg)) sc (rs_StatusCode response) body code) now \<le> later"
proof -
  have valid: "validatePositiveValues cfg = None"
    using assms(1) by (auto simp: New_def Config_Validate_None split: option.splits)
  have settings: "ct_settings c = c_Upstream cfg"
    using shape_run [OF assms(2)] New_shape [OF assms(1)] by (simp add: shape_def empty_Controller_def Let_def)
  let ?fm = "signal_cooldown (up_Cooldown (c_Upstream cfg)) sc (rs_StatusCode response) body code"
  let ?until = "signal_until parse sc response ?fm now"
  have c1: "c1 = Cooldown c sc ?until" and "fst ?fm \<noteq> 0"
    using assms(4) by (auto simp: rateSignal_def settings Let_def split: if_splits)
  then have later: "now < ?until" using signal_until_later [OF signal_cooldown_positive [OF valid]] by blast
  have "ctl_step catalogs (c, seen, adm) (c1, seen, adm)" unfolding c1 by (rule step_cooldown)
  with assms(2) have run1: "(ctl_step catalogs)\<^sup>*\<^sup>* (c0, start, []) (c1, seen, adm)" by (rule rtranclp.rtrancl_into_rtrancl)
  note inv1 = run_invariant [OF run1 assms(1), unfolded fst_conv snd_conv]
  have inv2: "capacity_ok c2" using run_invariant [OF rtranclp_trans [OF run1 assms(5)] assms(1)] by simp
  obtain s where "map_of (ct_scopes c) sc = Some s" using assms(3) by (auto simp: ghas_def)
  from Cooldown_until [OF this, of ?until] obtain s1 where s1: "map_of (ct_scopes c1) sc = Some s1" "?until \<le> ss_cooldown s1"
    unfolding c1 by blast
  have "cooler c1 c2" using cooler_run [OF assms(5)] inv1 by simp
  with s1 obtain s2 where s2: "map_of (ct_scopes c2) sc = Some s2" "ss_cooldown s1 \<le> ss_cooldown s2"
    unfolding cooler_def by blast
  have "cost_ok (wt_cost w)" using inv2 assms(6,7) by (auto simp: capacity_ok_def lane_ok_def)
  moreover obtain c4 where "acquire_try c2 errs deadline later fresh w = (c4, Admitted e)" using pass_admitted [OF assms(9)] by blast
  ultimately have "ss_cooldown (the_scope c2 (wt_scope w)) \<le> later" using try_admitted(7) by blast
  then have "ss_cooldown s2 \<le> later" using s2(1) assms(8) by (simp add: the_scope_Some)
  with s1(2) s2(2) later show ?thesis by linarith
qed

text \<open>
  C10. A round trip settles every attempt it reserves. Whatever the exchange answers and whatever other goroutines do, each reserved attempt is
  either rolled back undispatched or dispatched and then released, once, before the next is reserved; only the last
  can be a rolled back one; there are at most the configured number of attempts; and the observer hears of each
  dispatched attempt once, a panic included.
\<close>

theorem round_trip_settles:
  assumes "RoundTrip fuel parse t env request rawLength bound s = Some (s', out)"
    and "0 \<le> ry_MaxAttempts (hc_Retry (tp_settings t))"
  shows "\<exists>ds evs. tr_trace s' = tr_trace s @ settled ds \<and> tr_events s' = tr_events s @ evs
    \<and> int (length ds) \<le> ry_MaxAttempts (hc_Retry (tp_settings t)) \<and> list_all snd (butlast ds)
    \<and> length evs = (if tp_observed t then length (filter snd ds) else 0) \<and> out \<noteq> Retries"
proof (cases rule: RoundTrip_cases [of parse t env request rawLength bound s])
  case (early e)
  then have "s' = s" "out = Fails e" using assms(1) by simp_all
  then show ?thesis using assms(2) by (intro exI [of _ "[]"]) simp
next
  case (loop market cost opr)
  then have "trip_loop fuel parse t env market (r_Path request) cost opr
      (nat (ry_MaxAttempts (hc_Retry (tp_settings t)))) 0 1 zero_time s = Some (s', out)" using assms(1) by simp
  from trip_loop_accounting [OF this] assms(2) show ?thesis by (auto simp: le_nat_iff)
qed

text \<open>
  C12. Every round trip ends. If the clock of the process passes every time, then waiting for admission ends by its timeout, and a round
  trip returns after finitely many turns: with enough fuel the model answers, for every exchange behaviour and every
  interleaving.
\<close>

theorem round_trip_ends:
  assumes "\<forall>limit. \<exists>m. \<forall>i \<ge> m. limit \<le> sr_now env i"
  shows "\<exists>fuel s' out. RoundTrip fuel parse t env request rawLength bound s = Some (s', out)"
proof (cases rule: RoundTrip_cases [of parse t env request rawLength bound s])
  case (early e)
  then show ?thesis by blast
next
  case (loop market cost opr)
  obtain fuel where "trip_loop fuel parse t env market (r_Path request) cost opr
      (nat (ry_MaxAttempts (hc_Retry (tp_settings t)))) 0 1 zero_time s \<noteq> None"
    using trip_loop_ends [OF assms] by blast
  then show ?thesis using loop [of fuel] by (intro exI [of _ fuel]) auto
qed

section \<open>Concrete runs\<close>

definition demo_limited :: response where
  "demo_limited = \<lparr>rs_StatusCode = 429, rs_Header = [], rs_Body = None, rs_decoded = (\<lambda>_. None),
     rs_brotli = \<lparr>sm_body = no_body, sm_length = 0, sm_error = None\<rparr>\<rparr>"

definition demo_cooled :: Controller where
  "demo_cooled = fst (rateSignal (\<lambda>_. None) Bybit demo_limited no_body 0 5 demo0)"

definition demo_late :: Controller where
  "demo_late = fst (acquire_enter (fst (Begin demo_cooled Bybit 1 0)) None Bybit (plain_cost Klines 1) 0 zero_time
     100000000000 100000000000 0)"

lemma demo_late_run: "(ctl_step catalogs)\<^sup>*\<^sup>* (demo_cooled, 0, []) (demo_late, 100000000000, [])"
proof -
  have "ctl_step catalogs (demo_cooled, 0, []) (fst (Begin demo_cooled Bybit 1 0), 0, [])" by (rule step_begin)
  moreover have "ctl_step catalogs (fst (Begin demo_cooled Bybit 1 0), 0, []) (demo_late, 100000000000, [])"
  proof (rule step_enter)
    show "acquire_enter (fst (Begin demo_cooled Bybit 1 0)) None Bybit (plain_cost Klines 1) 0 zero_time 100000000000 100000000000 0
        = (demo_late, snd (acquire_enter (fst (Begin demo_cooled Bybit 1 0)) None Bybit (plain_cost Klines 1) 0 zero_time 100000000000 100000000000 0))"
      by (simp add: demo_late_def)
    have "list_all (\<lambda>i. queue_at (fst (Begin demo_cooled Bybit 1 0)) i = []) [0..<8]" by code_simp
    then show "\<forall>i < 8. 0 \<notin> wt_id ` set (queue_at (fst (Begin demo_cooled Bybit 1 0)) i)" by (simp add: list_all_iff)
  qed (simp_all add: cost_ok_def plain_cost_def)
  ultimately show ?thesis by (meson converse_rtranclp_into_rtranclp rtranclp.rtrancl_refl)
qed

theorem rate_signal_respected_witness:
  "\<exists>c e. acquire_pass demo_late (\<lambda>_. None) None 100000000001 7 (hd (queue_at demo_late 5)) = (c, Admitted e)
    \<and> signal_until (\<lambda>_. None) Bybit demo_limited (signal_cooldown (up_Cooldown (c_Upstream Defaults)) Bybit 429 no_body 0) 5 \<le> 100000000001"
proof -
  let ?w = "hd (queue_at demo_late 5)"
  let ?pass = "acquire_pass demo_late (\<lambda>_. None) None 100000000001 7 ?w"
  have "(case snd ?pass of Admitted e \<Rightarrow> True | _ \<Rightarrow> False)" by code_simp
  then obtain e where e: "?pass = (fst ?pass, Admitted e)" by (auto split: pass.splits) (metis prod.collapse)
  have w: "queue_at demo_late 5 \<noteq> []" "wt_scope ?w = Bybit" by code_simp+
  have "snd (rateSignal (\<lambda>_. None) Bybit demo_limited no_body 0 5 demo0)" by code_simp
  then have signal: "rateSignal (\<lambda>_. None) Bybit demo_limited no_body 0 5 demo0 = (demo_cooled, True)"
    by (metis demo_cooled_def prod.collapse)
  have known: "ghas (ct_scopes demo0) Bybit" by code_simp
  have status: "rs_StatusCode demo_limited = 429" by (simp add: demo_limited_def)
  from rate_signal_respected [OF demo_New rtranclp.rtrancl_refl known signal demo_late_run [of True] _ _ w(2) e, of 5] w(1) e status
  show ?thesis by auto
qed

definition demo_transport :: Transport where
  "demo_transport = \<lparr>tp_scope = Bybit, tp_settings = \<lparr>hc_Timeout = Second, hc_MaxResponseBytes = 100,
     hc_Retry = \<lparr>ry_MaxAttempts = 2, ry_InitialBackoff = 1, ry_MaxBackoff = 4\<rparr>\<rparr>, tp_maxQuery = 100, tp_observed = True,
     tp_pageLimits = [(''spot'', 1000)]\<rparr>"

definition demo_network :: network where
  "demo_network = \<lparr>sr_ctx = (\<lambda>_. None), sr_now = (\<lambda>n. int n * Second), sr_wake = (\<lambda>_. Tick), sr_others = (\<lambda>_ c. c),
     ns_ctx2 = (\<lambda>_. None), ns_ctx3 = (\<lambda>_. None), ns_ctx4 = (\<lambda>_. None), ns_deadline = None, ns_errs = (\<lambda>_ _. None),
     ns_clock = (\<lambda>n _. int n * Second), ns_jitter = (\<lambda>_ d. d), ns_reply = (\<lambda>_. Replies None (Some (Net EOF))), ns_fresh = (\<lambda>n. n)\<rparr>"

definition demo_request :: request where
  "demo_request = \<lparr>r_Get = True, r_Body = False, r_Path = ''/v5/market/tickers'', r_Query = Some [(''category'', [''spot''])]\<rparr>"

definition demo_trip :: trip where
  "demo_trip = \<lparr>tr_ctl = fst (Begin demo0 Bybit 0 0), tr_events = [], tr_trace = []\<rparr>"

theorem round_trip_settles_witness:
  "\<exists>s' e ds. RoundTrip 1 (\<lambda>_. None) demo_transport demo_network demo_request 10 (Some 0) demo_trip = Some (s', Fails e)
    \<and> tr_trace s' = settled ds \<and> length (tr_trace s') = 6 \<and> length ds \<le> 2"
proof -
  let ?run = "RoundTrip 1 (\<lambda>_. None) demo_transport demo_network demo_request 10 (Some 0) demo_trip"
  have "(case ?run of Some (s', Fails e) \<Rightarrow> length (tr_trace s') = 6 | _ \<Rightarrow> False)" by code_simp
  then obtain s' e where run: "?run = Some (s', Fails e)" "length (tr_trace s') = 6"
    by (auto split: option.splits prod.splits trip_end.splits)
  have max: "ry_MaxAttempts (hc_Retry (tp_settings demo_transport)) = 2" "tr_trace demo_trip = []"
    by (simp_all add: demo_transport_def demo_trip_def)
  from round_trip_settles [OF run(1)] max run show ?thesis by auto
qed

theorem round_trip_ends_witness:
  "\<exists>fuel s' out. RoundTrip fuel (\<lambda>_. None) demo_transport demo_network demo_request 10 (Some 0) demo_trip = Some (s', out)"
proof (rule round_trip_ends, intro allI)
  fix limit :: time
  have "limit \<le> int i * Second" if "nat limit \<le> i" for i
    using that mult_left_mono [of 1 Second "int i"] by (simp add: Second_def)
  then show "\<exists>m. \<forall>i \<ge> m. limit \<le> sr_now demo_network i" by (auto simp: demo_network_def)
qed

end
