(* ===== verification/Upstream_Diagnostics.thy ===== *)
theory Upstream_Diagnostics
  imports Upstream_Safety
begin

text \<open>
  The admission snapshot of \<open>upstream/diagnostics.go\<close>. Windows and ages are kept as durations, where the
  snapshot converts them to seconds. The property says that the snapshot tells the truth about admission.
\<close>

section \<open>The snapshot\<close>

record OperationDiagnostic =
  od_Operation :: string
  od_RequestCost :: int
  od_Share :: int
  od_Local :: int
  od_Remaining :: int
  od_Reasons :: "string list"
  od_NextEligible :: time

record WindowDiagnostic =
  wd_Name :: string
  wd_Unit :: string
  wd_Window :: duration
  wd_Source :: string
  wd_UpdatedAt :: time
  wd_Age :: duration
  wd_ExchangeLimit :: int
  wd_UserCap :: int
  wd_ThresholdPercent :: int
  wd_StopLine :: int
  wd_Observed :: int
  wd_Local :: int
  wd_Accounted :: int
  wd_Reserved :: int
  wd_Remaining :: int
  wd_Uncertain :: bool
  wd_IncompleteHistory :: bool
  wd_HistorySince :: time
  wd_Operations :: "OperationDiagnostic list"

record ScopeDiagnostic =
  sd_Scope :: upstream_Scope
  sd_CatalogUpdatedAt :: time
  sd_CatalogError :: string
  sd_CatalogErrorAt :: time
  sd_CooldownUntil :: time
  sd_PacingUntil :: time
  sd_Windows :: "WindowDiagnostic list"

record AdmissionSnapshot =
  as_At :: time
  as_Scopes :: "ScopeDiagnostic list"

definition operationDiagnostic :: "scopeState \<Rightarrow> window \<Rightarrow> cost \<Rightarrow> usageView \<Rightarrow> time \<Rightarrow> OperationDiagnostic" where
  "operationDiagnostic s w request u now =
     (let amount = window_cost w request; op = cost_operation request;
          share = (if w_split w then percent (w_limit w) (ss_shares s op) else w_limit w);
          eligible = maxTime [now, ss_next s, ss_cooldown s];
          impossible = (amount > w_limit w \<or> amount > share);
          common = (amount > 0 \<and> us_common u > w_limit w);
          blocked = (amount > 0 \<and> w_split w \<and> us_operations u op > share - amount);
          next = budgetReady s w request now
      in \<lparr>od_Operation = operationLabel op, od_RequestCost = amount, od_Share = share, od_Local = us_operations u op,
          od_Remaining = max 0 (share - us_operations u op),
          od_Reasons = (if impossible then [''request_cost_exceeds_allowance''] else [])
            @ (if common then [''common_threshold''] else [])
            @ (if blocked \<and> \<not> impossible then [''operation_share''] else [])
            @ (if ss_cooldown s > now then [''exchange_cooldown''] else []),
          od_NextEligible =
            (if impossible then zero_time
             else if common \<or> blocked then (if IsZero next then zero_time else maxTime [eligible, next])
             else eligible)\<rparr>)"

definition windowDiagnostic :: "cfg_Upstream \<Rightarrow> scopeState \<Rightarrow> time \<Rightarrow> string \<times> window \<Rightarrow> WindowDiagnostic" where
  "windowDiagnostic settings s now kw =
     (let w = snd kw; u = usage s w now;
          ageFrom = (if IsZero (w_updatedAt w) then ss_startedAt s else w_updatedAt w)
      in \<lparr>wd_Name = fst kw, wd_Unit = w_unit w, wd_Window = w_duration w, wd_Source = w_source w, wd_UpdatedAt = w_updatedAt w,
          wd_Age = max 0 (time_Sub now ageFrom), wd_ExchangeLimit = w_ceiling w, wd_UserCap = w_userCap w,
          wd_ThresholdPercent = bu_StopThresholdPercent (up_Binance settings), wd_StopLine = w_limit w,
          wd_Observed = us_observed u, wd_Local = us_local u, wd_Accounted = us_common u, wd_Reserved = us_reserved u,
          wd_Remaining = max 0 (w_limit w - us_common u), wd_Uncertain = us_uncertain u,
          wd_IncompleteHistory = us_incompleteHistory u, wd_HistorySince = ss_historySince s,
          wd_Operations = map (\<lambda>op. operationDiagnostic s w
              \<lparr>cost_operation = op, cost_weight = ss_maxCosts s op, cost_funding = w_funding w\<rparr> u now)
            (filter (\<lambda>op. \<not> (w_funding w \<and> op \<noteq> Instruments)) operations)\<rparr>)"

definition scopeDiagnostic :: "cfg_Upstream \<Rightarrow> upstream_Scope \<Rightarrow> scopeState \<Rightarrow> time \<Rightarrow> ScopeDiagnostic" where
  "scopeDiagnostic settings scope s now =
     \<lparr>sd_Scope = scope, sd_CatalogUpdatedAt = ss_catalogUpdatedAt s, sd_CatalogError = ss_catalogError s,
      sd_CatalogErrorAt = ss_catalogErrorAt s,
      sd_CooldownUntil = (if ss_cooldown s > now then ss_cooldown s else zero_time),
      sd_PacingUntil = (if ss_next s > now then ss_next s else zero_time),
      sd_Windows = sort_key wd_Name (map (windowDiagnostic settings s now) (ss_windows s))\<rparr>"

definition Diagnostics :: "Controller \<Rightarrow> time \<Rightarrow> AdmissionSnapshot" where
  "Diagnostics c now = \<lparr>as_At = now, as_Scopes = List.map_filter (\<lambda>scope.
     map_option (\<lambda>s. scopeDiagnostic (ct_settings c) scope s now) (map_of (ct_scopes c) scope)) [BinanceSpot, BinanceLinear]\<rparr>"

section \<open>Properties\<close>

text \<open>
  C25. The snapshot agrees with admission. For every window of a Binance scope and every request, the operation diagnostic names an
  impossible cost exactly when admission would refuse the request for good, names the reason of the deferral and its next
  eligible time exactly when admission would defer it, and otherwise reports at most a cooldown and the time when pacing and
  cooldown end.
\<close>

theorem diagnostics_match_admission:
  assumes "windows_ok s" and "(name, w) \<in> set (ss_windows s)" and "ss_keepInflight s" and "cost_ok (wt_cost wt)"
  shows "let d = operationDiagnostic s w (wt_cost wt) (usage s w now) now; eligible = maxTime [now, ss_next s, ss_cooldown s]
    in case ready_window s wt now name w (t, None) of
         Inl _ \<Rightarrow> ''request_cost_exceeds_allowance'' \<in> set (od_Reasons d) \<and> od_NextEligible d = zero_time
       | Inr (t', Some b) \<Rightarrow> t' = t \<and> ''request_cost_exceeds_allowance'' \<notin> set (od_Reasons d) \<and> bd_reason b \<in> set (od_Reasons d)
           \<and> od_NextEligible d = (if IsZero (bd_next b) then zero_time else maxTime [eligible, bd_next b])
       | Inr (t', None) \<Rightarrow> t' = t \<and> set (od_Reasons d) \<subseteq> {''exchange_cooldown''} \<and> od_NextEligible d = eligible"
proof -
  define amount where "amount = window_cost w (wt_cost wt)"
  define op where "op = cost_operation (wt_cost wt)"
  define allowance where "allowance = percent (w_limit w) (ss_shares s op)"
  define u where "u = usage s w now"
  have pos: "0 \<le> amount" unfolding amount_def by (rule window_cost_nonneg [OF assms(4)])
  have lim: "0 \<le> w_limit w" "0 \<le> allowance"
    using assms(1,2) by (auto simp: windows_ok_def allowance_def percent_percentage percentage_bounds)
  define common where "common \<longleftrightarrow> amount > 0 \<and> us_common u > w_limit w"
  define blocked where "blocked \<longleftrightarrow> amount > 0 \<and> w_split w \<and> us_operations u op > allowance - amount"
  define impossible where "impossible \<longleftrightarrow> amount > w_limit w \<or> w_split w \<and> amount > allowance"
  have ready: "ready_window s wt now name w (t, None) =
      (if impossible then Inl (impossible_cost (wt_scope wt) name amount (if w_split w then min (w_limit w) allowance else w_limit w))
       else if common \<or> blocked then Inr (t, Some \<lparr>bd_scope = wt_scope wt, bd_cost = wt_cost wt,
         bd_reason = (if common then ''common_threshold'' else ''operation_share''), bd_next = budgetReady s w (wt_cost wt) now\<rparr>)
       else Inr (t, None))"
    using pos lim assms(3) unfolding ready_window_def Let_def amount_def [symmetric] op_def [symmetric] allowance_def [symmetric] u_def [symmetric]
      impossible_def common_def blocked_def by auto
  have share: "(amount > w_limit w \<or> amount > (if w_split w then allowance else w_limit w)) = impossible"
      "(amount > 0 \<and> w_split w \<and> us_operations u op > (if w_split w then allowance else w_limit w) - amount) = blocked"
    by (auto simp: impossible_def blocked_def)
  show ?thesis
    unfolding ready operationDiagnostic_def Let_def amount_def [symmetric] op_def [symmetric] allowance_def [symmetric] u_def [symmetric]
      share common_def [symmetric]
    by (cases impossible; cases common; cases blocked) (auto split: if_splits)
qed

theorem diagnostics_match_admission_witness:
  "\<exists>b. ready_window demo_scope \<lparr>wt_id = 0, wt_scope = BinanceSpot, wt_cost = plain_cost Klines 1, wt_operation = 0, wt_expires = 9,
        wt_notBefore = zero_time\<rparr> 7 ''w'' demo_window (0, None) = Inr (0, Some b)
     \<and> bd_reason b \<in> set (od_Reasons (operationDiagnostic demo_scope demo_window (plain_cost Klines 1) (usage demo_scope demo_window 7) 7))"
proof -
  let ?w = "\<lparr>wt_id = 0, wt_scope = BinanceSpot, wt_cost = plain_cost Klines 1, wt_operation = 0, wt_expires = 9, wt_notBefore = zero_time\<rparr>"
  have ok: "windows_ok demo_scope" "(''w'', demo_window) \<in> set (ss_windows demo_scope)" "ss_keepInflight demo_scope" "cost_ok (wt_cost ?w)"
    by (simp_all add: windows_ok_def demo_scope_def demo_window_def operations_def cost_ok_def plain_cost_def)
  have "(case ready_window demo_scope ?w 7 ''w'' demo_window (0, None) of Inr (t, Some b) \<Rightarrow> True | _ \<Rightarrow> False)" by code_simp
  then obtain t b where run: "ready_window demo_scope ?w 7 ''w'' demo_window (0, None) = Inr (t, Some b)"
    by (auto split: sum.splits prod.splits option.splits)
  from diagnostics_match_admission [OF ok, of 7 0] run show ?thesis by (simp add: Let_def)
qed

end
