(* ===== verification/Grpc_Messages.thy ===== *)
theory Grpc_Messages
  imports Normalization Kline_Service
begin

text \<open>
  The message layer of the gRPC transport: \<open>errors.go\<close>, \<open>conversion.go\<close>, \<open>handlers.go\<close> and the
  frame reader of \<open>request.go\<close> under \<open>src/internal/transport/grpc\<close>.

  Protocol buffers and the decimal package are third-party code. What the code calls of them is passed
  in: the record \<open>timestamps\<close> for \<open>timestamppb\<close>, the extension \<open>text_decimals\<close> of \<open>decimals\<close>, and the size
  functions of \<open>proto\<close> and \<open>protowire\<close>. A message is a record with the fields of the generated type.
\<close>

section \<open>Statuses\<close>

datatype rpc_code =
    Code_OK | Code_Canceled | Code_Unknown | Code_InvalidArgument | Code_DeadlineExceeded | Code_NotFound
  | Code_AlreadyExists | Code_PermissionDenied | Code_ResourceExhausted | Code_FailedPrecondition | Code_Aborted
  | Code_OutOfRange | Code_Unimplemented | Code_Internal | Code_Unavailable | Code_DataLoss | Code_Unauthenticated
  | Code_Other nat

text \<open>A status with its message and, where it carries an \<open>ErrorDetail\<close>, the reason.\<close>

record rpc_status =
  rs_Code :: rpc_code
  rs_Message :: string
  rs_Reason :: "string option"

definition Error_message :: "app_error \<Rightarrow> string" where
  "Error_message e = (case e of
     ErrInvalidParameter \<Rightarrow> ''Invalid parameter''
   | ErrInvalidFilter \<Rightarrow> ''Invalid filter''
   | ErrInvalidStatus \<Rightarrow> ''Invalid instrument status''
   | ErrUnsupportedWindow \<Rightarrow> ''Unsupported statistics window''
   | ErrInvalidInterval \<Rightarrow> ''Invalid or unsupported interval''
   | ErrInvalidRange \<Rightarrow> ''Invalid time range''
   | ErrRequestTooLarge \<Rightarrow> ''Request is too large''
   | ErrRangeOutOfRetention \<Rightarrow> ''Range is outside retained history''
   | ErrSymbolNotFound \<Rightarrow> ''Symbol not found''
   | ErrDataNotReady \<Rightarrow> ''Data is not ready''
   | ErrServiceOverloaded \<Rightarrow> ''Service is overloaded''
   | ErrUpstreamUnavailable \<Rightarrow> ''Upstream is unavailable''
   | ErrRequestTimeout \<Rightarrow> ''Request timed out''
   | ErrUpstream \<Rightarrow> ''Upstream request failed''
   | ErrInvalidUpstreamData \<Rightarrow> ''Invalid upstream data''
   | ErrUpstreamAttemptLimit \<Rightarrow> ''Upstream attempt limit reached''
   | ErrIncompleteData \<Rightarrow> ''Requested data is incomplete''
   | ErrInternal \<Rightarrow> ''Internal error''
   | ErrUnsupportedOperation \<Rightarrow> ''Unsupported operation'')"

definition rpc_errResponseTooLarge :: error where
  "rpc_errResponseTooLarge = Plain ''response is too large''"

definition error_mappings :: "(rpc_code \<times> app_error list) list" where
  "error_mappings = [
     (Code_InvalidArgument, [ErrInvalidParameter, ErrInvalidFilter, ErrInvalidStatus, ErrUnsupportedWindow,
        ErrInvalidInterval, ErrInvalidRange, ErrRequestTooLarge, ErrRangeOutOfRetention]),
     (Code_NotFound, [ErrSymbolNotFound]),
     (Code_Unavailable, [ErrDataNotReady, ErrUpstreamUnavailable, ErrUpstream]),
     (Code_ResourceExhausted, [ErrServiceOverloaded, ErrUpstreamAttemptLimit]),
     (Code_FailedPrecondition, [ErrIncompleteData]),
     (Code_DataLoss, [ErrInvalidUpstreamData]),
     (Code_Unimplemented, [ErrUnsupportedOperation])]"

definition status_of :: "rpc_code \<Rightarrow> string \<Rightarrow> string \<Rightarrow> rpc_status" where
  "status_of code reason message = \<lparr>rs_Code = code, rs_Message = message, rs_Reason = Some reason\<rparr>"

text \<open>
  The two nested loops of the default branch: every match overwrites the one before. Attaching the detail
  to a status fails only for the code OK, which \<open>mapError\<close> never uses.
\<close>

definition match_known :: "error \<Rightarrow> rpc_status \<Rightarrow> rpc_status" where
  "match_known err start =
     fold (\<lambda>(code, known). fold (\<lambda>e s. if errors_Is err (App e) then status_of code (Code e) (Error_message e) else s) known)
       error_mappings start"

definition mapError :: "error option \<Rightarrow> rpc_status option" where
  "mapError err =
     (case err of
        None \<Rightarrow> None
      | Some e \<Rightarrow> Some (
          if errors_Is e Canceled then status_of Code_Canceled ''request_canceled'' ''Request canceled''
          else if errors_Is e DeadlineExceeded \<or> errors_Is e (App ErrRequestTimeout)
          then status_of Code_DeadlineExceeded ''request_timeout'' ''Request timed out''
          else if errors_Is e rpc_errResponseTooLarge
          then status_of Code_ResourceExhausted ''response_too_large'' ''Response is too large''
          else match_known e (status_of Code_Internal ''internal_error'' ''Internal error'')))"

section \<open>Values\<close>

record 'ts timestamps =
  ts_New :: "time \<Rightarrow> 'ts"
  ts_CheckValid :: "'ts \<Rightarrow> bool"
  ts_Seconds :: "'ts \<Rightarrow> int"
  ts_AsTime :: "'ts \<Rightarrow> time"

record 'd text_decimals = "'d decimals" +
  dec_NumDigits :: "'d \<Rightarrow> int"
  dec_String :: "'d \<Rightarrow> string"

definition timestamp :: "'ts timestamps \<Rightarrow> time \<Rightarrow> 'ts result" where
  "timestamp T value =
     (let res = ts_New T value
      in if IsZero value \<or> \<not> ts_CheckValid T res \<or> ts_Seconds T res < 0 then Inl (App ErrInternal) else Inr res)"

definition optionalTimestamp :: "'ts timestamps \<Rightarrow> time option \<Rightarrow> 'ts option result" where
  "optionalTimestamp T value =
     (case value of
        None \<Rightarrow> Inr None
      | Some t \<Rightarrow> (case timestamp T t of Inl e \<Rightarrow> Inl e | Inr res \<Rightarrow> Inr (Some res)))"

definition decimal_length :: "'d text_decimals \<Rightarrow> 'd \<Rightarrow> int" where
  "decimal_length D value =
     (let digits = dec_NumDigits D value; exponent = dec_Exponent D value;
          len = (if exponent < 0 then (if - exponent \<ge> digits then 2 - exponent else digits + 1) else digits + exponent)
      in if dec_IsNegative D value then len + 1 else len)"

definition decimalText :: "'d text_decimals \<Rightarrow> 'd \<Rightarrow> string result" where
  "decimalText D value =
     (if decimal_length D value > 1024 then Inl (App ErrInternal) else Inr (dec_String D value))"

definition optionalDecimal :: "'d text_decimals \<Rightarrow> 'd option \<Rightarrow> string option result" where
  "optionalDecimal D value =
     (case value of
        None \<Rightarrow> Inr None
      | Some d \<Rightarrow> (case decimalText D d of Inl e \<Rightarrow> Inl e | Inr text \<Rightarrow> Inr (Some text)))"

definition duration_seconds :: "duration option \<Rightarrow> int option" where
  "duration_seconds value = (case value of None \<Rightarrow> None | Some d \<Rightarrow> Some (d sdiv Second))"

section \<open>Messages\<close>

record 'ts pb_Instrument =
  pi_Exchange :: string
  pi_Market :: string
  pi_Symbol :: string
  pi_BaseAsset :: string
  pi_QuoteAsset :: string
  pi_Status :: string
  pi_FundingIntervalSeconds :: "int option"
  pi_UpdatedAt :: 'ts
  pi_DelistingTime :: "'ts option"
  pi_PriceTick :: string
  pi_QtyStep :: string
  pi_MinQty :: "string option"
  pi_MaxQty :: "string option"
  pi_MinNotional :: "string option"

record 'ts pb_Ticker =
  pt_Exchange :: string
  pt_Market :: string
  pt_Symbol :: string
  pt_NextFundingInSeconds :: "int option"
  pt_FetchedAt :: 'ts
  pt_LastPrice :: string
  pt_BidPrice :: "string option"
  pt_BidSize :: "string option"
  pt_AskPrice :: "string option"
  pt_AskSize :: "string option"
  pt_FundingRate :: "string option"

record 'ts pb_MarketStats =
  ps_Exchange :: string
  ps_Market :: string
  ps_Symbol :: string
  ps_Window :: string
  ps_TradeCount :: "int option"
  ps_FetchedAt :: 'ts
  ps_High :: string
  ps_Low :: string
  ps_Volume :: string
  ps_Turnover :: string
  ps_PriceChange :: "string option"

record 'ts pb_Kline =
  pk_TradesCount :: "int option"
  pk_OpenTime :: 'ts
  pk_CloseTime :: 'ts
  pk_FetchedAt :: 'ts
  pk_Open :: string
  pk_High :: string
  pk_Low :: string
  pk_Close :: string
  pk_Volume :: string
  pk_Turnover :: string

text \<open>The fields are converted one after the other and the first error ends the conversion.\<close>

fun decimal_texts :: "'d text_decimals \<Rightarrow> 'd list \<Rightarrow> string list result" where
  "decimal_texts D [] = Inr []"
| "decimal_texts D (v # vs) =
     (case decimalText D v of
        Inl e \<Rightarrow> Inl e
      | Inr text \<Rightarrow> (case decimal_texts D vs of Inl e \<Rightarrow> Inl e | Inr texts \<Rightarrow> Inr (text # texts)))"

fun optional_texts :: "'d text_decimals \<Rightarrow> 'd option list \<Rightarrow> string option list result" where
  "optional_texts D [] = Inr []"
| "optional_texts D (v # vs) =
     (case optionalDecimal D v of
        Inl e \<Rightarrow> Inl e
      | Inr text \<Rightarrow> (case optional_texts D vs of Inl e \<Rightarrow> Inl e | Inr texts \<Rightarrow> Inr (text # texts)))"

definition instrumentMessage :: "'ts timestamps \<Rightarrow> 'd text_decimals \<Rightarrow> 'd Instrument \<Rightarrow> 'ts pb_Instrument result" where
  "instrumentMessage T D row =
     (case timestamp T (inst_UpdatedAt row) of
        Inl e \<Rightarrow> Inl e
      | Inr updatedAt \<Rightarrow>
        (case optionalTimestamp T (inst_DelistingTime row) of
           Inl e \<Rightarrow> Inl e
         | Inr delisting \<Rightarrow>
           (case decimal_texts D [inst_PriceTick row, inst_QtyStep row] of
              Inl e \<Rightarrow> Inl e
            | Inr steps \<Rightarrow>
              (case optional_texts D [inst_MinQty row, inst_MaxQty row, inst_MinNotional row] of
                 Inl e \<Rightarrow> Inl e
               | Inr limits \<Rightarrow> Inr \<lparr>
                   pi_Exchange = inst_Exchange row, pi_Market = inst_Market row, pi_Symbol = inst_Symbol row,
                   pi_BaseAsset = inst_BaseAsset row, pi_QuoteAsset = inst_QuoteAsset row, pi_Status = inst_Status row,
                   pi_FundingIntervalSeconds = duration_seconds (inst_FundingInterval row),
                   pi_UpdatedAt = updatedAt, pi_DelistingTime = delisting, pi_PriceTick = steps ! 0, pi_QtyStep = steps ! 1,
                   pi_MinQty = limits ! 0, pi_MaxQty = limits ! 1, pi_MinNotional = limits ! 2\<rparr>))))"

definition tickerMessage :: "'ts timestamps \<Rightarrow> 'd text_decimals \<Rightarrow> 'd ReadModel \<Rightarrow> 'ts pb_Ticker result" where
  "tickerMessage T D row =
     (case timestamp T (rm_FetchedAt row) of
        Inl e \<Rightarrow> Inl e
      | Inr fetchedAt \<Rightarrow>
        (case decimalText D (rm_LastPrice row) of
           Inl e \<Rightarrow> Inl e
         | Inr latest \<Rightarrow>
           (case optional_texts D [rm_BidPrice row, rm_BidSize row, rm_AskPrice row, rm_AskSize row, rm_FundingRate row] of
              Inl e \<Rightarrow> Inl e
            | Inr texts \<Rightarrow> Inr \<lparr>
                pt_Exchange = rm_Exchange row, pt_Market = rm_Market row, pt_Symbol = rm_Symbol row,
                pt_NextFundingInSeconds = duration_seconds (rm_NextFundingIn row), pt_FetchedAt = fetchedAt,
                pt_LastPrice = latest, pt_BidPrice = texts ! 0, pt_BidSize = texts ! 1, pt_AskPrice = texts ! 2,
                pt_AskSize = texts ! 3, pt_FundingRate = texts ! 4\<rparr>)))"

definition statsMessage :: "'ts timestamps \<Rightarrow> 'd text_decimals \<Rightarrow> 'd MarketStats \<Rightarrow> 'ts pb_MarketStats result" where
  "statsMessage T D row =
     (case timestamp T (ms_FetchedAt row) of
        Inl e \<Rightarrow> Inl e
      | Inr fetchedAt \<Rightarrow>
        (case decimal_texts D [ms_High row, ms_Low row, ms_Volume row, ms_Turnover row] of
           Inl e \<Rightarrow> Inl e
         | Inr texts \<Rightarrow>
           (case optionalDecimal D (ms_PriceChange row) of
              Inl e \<Rightarrow> Inl e
            | Inr change \<Rightarrow> Inr \<lparr>
                ps_Exchange = ms_Exchange row, ps_Market = ms_Market row, ps_Symbol = ms_Symbol row, ps_Window = ''24h'',
                ps_TradeCount = ms_TradeCount row, ps_FetchedAt = fetchedAt, ps_High = texts ! 0, ps_Low = texts ! 1,
                ps_Volume = texts ! 2, ps_Turnover = texts ! 3, ps_PriceChange = change\<rparr>)))"

definition klineMessage :: "'ts timestamps \<Rightarrow> 'd text_decimals \<Rightarrow> 'd Kline \<Rightarrow> 'ts pb_Kline result" where
  "klineMessage T D row =
     (case timestamp T (k_OpenTime row) of
        Inl e \<Rightarrow> Inl e
      | Inr openTime \<Rightarrow>
        (case timestamp T (k_CloseTime row) of
           Inl e \<Rightarrow> Inl e
         | Inr closeTime \<Rightarrow>
           (case timestamp T (k_FetchedAt row) of
              Inl e \<Rightarrow> Inl e
            | Inr fetchedAt \<Rightarrow>
              (case decimal_texts D [k_Open row, k_High row, k_Low row, k_Close row, k_Volume row, k_Turnover row] of
                 Inl e \<Rightarrow> Inl e
               | Inr texts \<Rightarrow> Inr \<lparr>
                   pk_TradesCount = k_TradesCount row, pk_OpenTime = openTime, pk_CloseTime = closeTime, pk_FetchedAt = fetchedAt,
                   pk_Open = texts ! 0, pk_High = texts ! 1, pk_Low = texts ! 2, pk_Close = texts ! 3, pk_Volume = texts ! 4,
                   pk_Turnover = texts ! 5\<rparr>))))"

text \<open>
  \<open>convertRows\<close> with its loop. The rows appended so far stay in the response when an error ends the
  loop. \<open>Size\<close> is \<open>proto.Size\<close> of a row message, \<open>SizeVarint\<close> that of \<open>protowire\<close>.
\<close>

fun convert_loop :: "('p \<Rightarrow> int) \<Rightarrow> (int \<Rightarrow> int) \<Rightarrow> ctx \<Rightarrow> nat \<Rightarrow> int \<Rightarrow> int \<Rightarrow> ('r \<Rightarrow> 'p result) \<Rightarrow> 'r list \<Rightarrow> 'p list
    \<Rightarrow> 'p list \<times> error option" where
  "convert_loop Size SizeVarint ctx k maximum used convert [] acc = (acc, ctx k)"
| "convert_loop Size SizeVarint ctx k maximum used convert (row # rows) acc =
     (case ctx k of
        Some e \<Rightarrow> (acc, Some e)
      | None \<Rightarrow>
        (case convert row of
           Inl e \<Rightarrow> (acc, Some e)
         | Inr message \<Rightarrow>
           (let n = Size message; n' = n + (1 + SizeVarint n) in
            if n' > maximum - used then (acc, Some rpc_errResponseTooLarge)
            else convert_loop Size SizeVarint ctx (k + 1) maximum (used + n') convert rows (acc @ [message]))))"

definition convertRows :: "('p \<Rightarrow> int) \<Rightarrow> (int \<Rightarrow> int) \<Rightarrow> ctx \<Rightarrow> 'r list \<Rightarrow> int \<Rightarrow> int \<Rightarrow> ('r \<Rightarrow> 'p result)
    \<Rightarrow> 'p list \<times> error option" where
  "convertRows Size SizeVarint ctx rows maximum header convert =
     (if header > maximum then ([], Some rpc_errResponseTooLarge)
      else convert_loop Size SizeVarint ctx 0 maximum header convert rows [])"

section \<open>Handlers\<close>

text \<open>An optional string field of a request, and its getter.\<close>

definition pb_get :: "string option \<Rightarrow> string" where
  "pb_get field = (case field of None \<Rightarrow> [] | Some s \<Rightarrow> s)"

definition emptyFilters :: "string option list \<Rightarrow> error option" where
  "emptyFilters vs = (if list_ex (\<lambda>v. v = Some []) vs then Some (App ErrInvalidParameter) else None)"

record ListRequest =
  lr_Exchange :: "string option"
  lr_Market :: "string option"
  lr_Symbol :: "string option"
  lr_Extra :: "string option"

text \<open>
  The four handlers. A reader is its \<open>Validate\<close> and its \<open>List\<close> or \<open>Get\<close>, called with the query; the
  extra field of a request is the status of instruments and the window of statistics. A handler answers with
  the rows of its response and an error.
\<close>

definition ListInstruments :: "(instrument_Query \<Rightarrow> error option) \<Rightarrow> (instrument_Query \<Rightarrow> 'd Instrument list result)
    \<Rightarrow> ('d Instrument \<Rightarrow> 'p result) \<Rightarrow> ('p \<Rightarrow> int) \<Rightarrow> (int \<Rightarrow> int) \<Rightarrow> int \<Rightarrow> ctx \<Rightarrow> ListRequest \<Rightarrow> 'p list \<times> error option" where
  "ListInstruments checkQuery readRows convert Size SizeVarint maximum ctx r =
     (case emptyFilters [lr_Exchange r, lr_Market r, lr_Symbol r] of
        Some e \<Rightarrow> ([], Some e)
      | None \<Rightarrow>
          if lr_Extra r = Some [] then ([], Some (App ErrInvalidStatus))
          else let query = \<lparr>iq_Exchange = pb_get (lr_Exchange r), iq_Market = pb_get (lr_Market r),
                 iq_Symbol = pb_get (lr_Symbol r), iq_Status = pb_get (lr_Extra r)\<rparr> in
            case checkQuery query of
              Some e \<Rightarrow> ([], Some e)
            | None \<Rightarrow>
              (case readRows query of
                 Inl e \<Rightarrow> ([], Some e)
               | Inr rows \<Rightarrow> convertRows Size SizeVarint ctx rows maximum 0 convert))"

definition ListTickers :: "(SnapshotQuery \<Rightarrow> error option) \<Rightarrow> (SnapshotQuery \<Rightarrow> 'd ReadModel list result)
    \<Rightarrow> ('d ReadModel \<Rightarrow> 'p result) \<Rightarrow> ('p \<Rightarrow> int) \<Rightarrow> (int \<Rightarrow> int) \<Rightarrow> int \<Rightarrow> ctx \<Rightarrow> ListRequest \<Rightarrow> 'p list \<times> error option" where
  "ListTickers checkQuery readRows convert Size SizeVarint maximum ctx r =
     (case emptyFilters [lr_Exchange r, lr_Market r, lr_Symbol r] of
        Some e \<Rightarrow> ([], Some e)
      | None \<Rightarrow>
         (let query = \<lparr>sq_Exchange = pb_get (lr_Exchange r), sq_Market = pb_get (lr_Market r), sq_Symbol = pb_get (lr_Symbol r)\<rparr> in
            case checkQuery query of
              Some e \<Rightarrow> ([], Some e)
            | None \<Rightarrow>
              (case readRows query of
                 Inl e \<Rightarrow> ([], Some e)
               | Inr rows \<Rightarrow> convertRows Size SizeVarint ctx rows maximum 0 convert)))"

definition ListMarketStats :: "(marketstats_Query \<Rightarrow> error option) \<Rightarrow> (marketstats_Query \<Rightarrow> 'd MarketStats list result)
    \<Rightarrow> ('d MarketStats \<Rightarrow> 'p result) \<Rightarrow> ('p \<Rightarrow> int) \<Rightarrow> (int \<Rightarrow> int) \<Rightarrow> int \<Rightarrow> ctx \<Rightarrow> ListRequest \<Rightarrow> 'p list \<times> error option" where
  "ListMarketStats checkQuery readRows convert Size SizeVarint maximum ctx r =
     (case emptyFilters [lr_Exchange r, lr_Market r, lr_Symbol r] of
        Some e \<Rightarrow> ([], Some e)
      | None \<Rightarrow>
          if lr_Extra r = Some [] then ([], Some (App ErrUnsupportedWindow))
          else let query = \<lparr>mq_Snapshot = \<lparr>sq_Exchange = pb_get (lr_Exchange r), sq_Market = pb_get (lr_Market r),
                 sq_Symbol = pb_get (lr_Symbol r)\<rparr>, mq_Window = pb_get (lr_Extra r)\<rparr> in
            case checkQuery query of
              Some e \<Rightarrow> ([], Some e)
            | None \<Rightarrow>
              (case readRows query of
                 Inl e \<Rightarrow> ([], Some e)
               | Inr rows \<Rightarrow> convertRows Size SizeVarint ctx rows maximum 0 convert))"

record 'ts GetKlinesRequest =
  gr_Exchange :: "string option"
  gr_Market :: "string option"
  gr_Symbol :: "string option"
  gr_Interval :: "string option"
  gr_From :: "'ts option"
  gr_To :: "'ts option"

definition klineQuery :: "'ts timestamps \<Rightarrow> (Series \<Rightarrow> error option) \<Rightarrow> 'ts GetKlinesRequest \<Rightarrow> Query result" where
  "klineQuery T checkSeries r =
     (if list_ex (\<lambda>field. field = None \<or> field = Some []) [gr_Exchange r, gr_Market r, gr_Symbol r]
      then Inl (App ErrInvalidParameter)
      else case gr_Interval r of
        None \<Rightarrow> Inl (App ErrInvalidParameter)
      | Some interval \<Rightarrow>
          if interval = [] then Inl (App ErrInvalidInterval)
          else case (gr_From r, gr_To r) of
            (Some from, Some to) \<Rightarrow>
              (let series = \<lparr>se_Scope = \<lparr>sc_Exchange = pb_get (gr_Exchange r), sc_Market = pb_get (gr_Market r)\<rparr>,
                     se_Symbol = pb_get (gr_Symbol r), se_Interval = interval\<rparr>
               in case checkSeries series of
                    Some e \<Rightarrow> Inl e
                  | None \<Rightarrow>
                      if list_ex (\<lambda>t. \<not> ts_CheckValid T t \<or> ts_Seconds T t < 0) [from, to] then Inl (App ErrInvalidRange)
                      else Inr \<lparr>q_Series = series, q_From = ts_AsTime T from, q_To = ts_AsTime T to\<rparr>)
          | _ \<Rightarrow> Inl (App ErrInvalidParameter))"


section \<open>Frames\<close>

text \<open>
  A request body: the bytes that arrive, and the error that follows them. \<open>ReadFull\<close> is \<open>io.ReadFull\<close>.
  A failed read is a stream error or a status of the transport.
\<close>

record byte_reader =
  br_bytes :: "nat list"
  br_end :: net_error

datatype read_error = Stream_error net_error | Status_error rpc_status

definition ReadFull :: "byte_reader \<Rightarrow> nat \<Rightarrow> nat list \<times> net_error option \<times> byte_reader" where
  "ReadFull b n =
     (let got = take n (br_bytes b); rest = b\<lparr>br_bytes := drop n (br_bytes b)\<rparr>
      in if length got = n then (got, None, rest)
         else (got, Some (if br_end b = EOF \<and> got \<noteq> [] then ErrUnexpectedEOF else br_end b), rest))"

definition big_endian :: "nat list \<Rightarrow> nat" where
  "big_endian bs = foldl (\<lambda>acc b. 256 * acc + b) 0 bs"

definition plain_status :: "rpc_code \<Rightarrow> string \<Rightarrow> rpc_status" where
  "plain_status code message = \<lparr>rs_Code = code, rs_Message = message, rs_Reason = None\<rparr>"

definition readUnary :: "byte_reader \<Rightarrow> nat \<Rightarrow> read_error + nat list" where
  "readUnary body maximum =
     (case ReadFull body 5 of
        (prefix, Some e, _) \<Rightarrow> Inl (Stream_error e)
      | (prefix, None, body1) \<Rightarrow>
        (let len = big_endian (drop 1 prefix) in
         if len > maximum \<or> int len > max_int64 - 5
         then Inl (Status_error (plain_status Code_ResourceExhausted ''Request is too large''))
         else case ReadFull body1 len of
           (payload, Some e, _) \<Rightarrow> Inl (Stream_error e)
         | (payload, None, body2) \<Rightarrow>
           (case ReadFull body2 1 of
              (extra, err, _) \<Rightarrow>
                if extra \<noteq> [] then Inl (Status_error (plain_status Code_InvalidArgument ''One request message is required''))
                else if err \<noteq> Some EOF then Inl (Stream_error (the err))
                else Inr (prefix @ payload))))"

section \<open>Lemmas\<close>

subsection \<open>Statuses\<close>

text \<open>The status a caller sees for an application error.\<close>

definition public_code :: "app_error \<Rightarrow> rpc_code" where
  "public_code a =
     (if a \<in> {ErrSymbolNotFound} then Code_NotFound
      else if a \<in> {ErrDataNotReady, ErrUpstreamUnavailable, ErrUpstream} then Code_Unavailable
      else if a \<in> {ErrServiceOverloaded, ErrUpstreamAttemptLimit} then Code_ResourceExhausted
      else if a = ErrIncompleteData then Code_FailedPrecondition
      else if a = ErrInvalidUpstreamData then Code_DataLoss
      else if a = ErrUnsupportedOperation then Code_Unimplemented
      else if a = ErrRequestTimeout then Code_DeadlineExceeded
      else if a = ErrInternal then Code_Internal
      else Code_InvalidArgument)"

abbreviation public_status :: "app_error \<Rightarrow> rpc_status" where
  "public_status a \<equiv> status_of (public_code a) (Code a) (Error_message a)"

definition transport_statuses :: "rpc_status list" where
  "transport_statuses = [status_of Code_Canceled ''request_canceled'' ''Request canceled'',
     status_of Code_ResourceExhausted ''response_too_large'' ''Response is too large'']"

text \<open>A loop that overwrites keeps its start or ends with one of the written values.\<close>

lemma fold_overwrite:
  "fold (\<lambda>e s. if P e then f e else s) xs start \<in> insert start (f ` {x \<in> set xs. P x})"
  by (induction xs arbitrary: start) auto

lemma fold_overwrite_none: "\<forall>x \<in> set xs. \<not> P x \<Longrightarrow> fold (\<lambda>e s. if P e then f e else s) xs start = start"
  by (induction xs) auto

text \<open>The two loops are one loop over the pairs of a code and an error.\<close>

definition mapping_pairs :: "(rpc_code \<times> app_error) list" where
  "mapping_pairs = concat (map (\<lambda>(code, known). map (Pair code) known) error_mappings)"

lemma fold_nested:
  "fold (\<lambda>(c, ks). fold (\<lambda>k. g c k) ks) ms start = fold (\<lambda>(c, k). g c k) (concat (map (\<lambda>(c, ks). map (Pair c) ks) ms)) start"
proof (induction ms arbitrary: start)
  case (Cons m ms)
  obtain c ks where m: "m = (c, ks)" by (cases m)
  have "fold (\<lambda>k. g c k) ks start = fold (\<lambda>(c, k). g c k) (map (Pair c) ks) start"
    by (simp add: fold_map comp_def)
  with Cons.IH m show ?case by simp
qed simp

lemma match_known_pairs:
  "match_known e start = fold (\<lambda>p s. if errors_Is e (App (snd p)) then public_status (snd p) else s) mapping_pairs start"
proof -
  let ?g = "\<lambda>c k s. if errors_Is e (App k) then status_of c (Code k) (Error_message k) else s"
  have pairs: "\<forall>p \<in> set mapping_pairs. fst p = public_code (snd p)"
    by (simp add: mapping_pairs_def error_mappings_def public_code_def)
  have "match_known e start = fold (\<lambda>(c, k). ?g c k) mapping_pairs start"
    unfolding match_known_def mapping_pairs_def by (rule fold_nested)
  also have "\<dots> = fold (\<lambda>p s. if errors_Is e (App (snd p)) then public_status (snd p) else s) mapping_pairs start"
    by (rule fold_cong) (use pairs in \<open>auto simp: fun_eq_iff\<close>)
  finally show ?thesis .
qed

lemma mapping_complete: "snd ` set mapping_pairs = UNIV - {ErrRequestTimeout, ErrInternal}"
proof -
  have "snd ` set mapping_pairs = set (map snd mapping_pairs)" by simp
  also have "\<dots> = UNIV - {ErrRequestTimeout, ErrInternal}"
  proof -
    have "a \<in> set (map snd mapping_pairs) \<longleftrightarrow> a \<notin> {ErrRequestTimeout, ErrInternal}" for a
      by (cases a) (simp_all add: mapping_pairs_def error_mappings_def)
    then show ?thesis by auto
  qed
  finally show ?thesis .
qed

lemma match_known_in:
  "match_known e start \<in> insert start (public_status ` {a. errors_Is e (App a)})"
  using fold_overwrite [of "\<lambda>p. errors_Is e (App (snd p))" "\<lambda>p. public_status (snd p)" mapping_pairs start]
  unfolding match_known_pairs by (elim insertE) (simp, blast)

lemma match_known_only:
  assumes "\<And>b. errors_Is e (App b) \<longleftrightarrow> b = a" and "a \<notin> {ErrRequestTimeout, ErrInternal}"
  shows "match_known e start = public_status a"
proof -
  have "a \<in> snd ` set mapping_pairs" using assms(2) unfolding mapping_complete by simp
  then obtain xs p ys where split: "mapping_pairs = xs @ p # ys" "snd p = a"
    by (metis imageE in_set_conv_decomp)
  have step: "fold (\<lambda>p s. if snd p = a then public_status (snd p) else s) ps (public_status a) = public_status a"
    for ps :: "(rpc_code \<times> app_error) list"
    by (induction ps) auto
  have "match_known e start = fold (\<lambda>p s. if snd p = a then public_status (snd p) else s) mapping_pairs start"
    unfolding match_known_pairs assms(1) ..
  also have "\<dots> = public_status a"
    unfolding split(1) by (simp add: split(2) step)
  finally show ?thesis .
qed

lemma match_known_nothing:
  assumes "\<And>b. errors_Is e (App b) \<Longrightarrow> b \<in> {ErrRequestTimeout, ErrInternal}"
  shows "match_known e start = start"
  unfolding match_known_pairs
proof (rule fold_overwrite_none, rule ballI)
  fix p assume "p \<in> set mapping_pairs"
  then have "snd p \<in> snd ` set mapping_pairs" by simp
  then show "\<not> errors_Is e (App (snd p))" using assms [of "snd p"] unfolding mapping_complete by auto
qed

text \<open>The errors the mapping looks for.\<close>

definition rpc_sentinels :: "error set" where
  "rpc_sentinels = {Canceled, DeadlineExceeded, rpc_errResponseTooLarge} \<union> range App"

lemma mapError_only:
  assumes "\<And>t. t \<in> rpc_sentinels \<Longrightarrow> errors_Is e t \<longleftrightarrow> t = App a"
  shows "mapError (Some e) = Some (public_status a)"
proof -
  have is_app: "errors_Is e (App b) \<longleftrightarrow> b = a" for b
    using assms [of "App b"] by (simp add: rpc_sentinels_def)
  have others: "\<not> errors_Is e Canceled" "\<not> errors_Is e DeadlineExceeded" "\<not> errors_Is e rpc_errResponseTooLarge"
    using assms [of Canceled] assms [of DeadlineExceeded] assms [of rpc_errResponseTooLarge]
    by (simp_all add: rpc_sentinels_def) (simp add: rpc_errResponseTooLarge_def)
  consider "a = ErrRequestTimeout" | "a = ErrInternal" | "a \<notin> {ErrRequestTimeout, ErrInternal}" by auto
  then show ?thesis
  proof cases
    case 1
    with is_app others show ?thesis by (simp add: mapError_def public_code_def Code_def Error_message_def)
  next
    case 2
    then have "match_known e start = start" for start by (intro match_known_nothing) (simp add: is_app)
    with is_app others 2 show ?thesis by (simp add: mapError_def public_code_def Code_def Error_message_def)
  next
    case 3
    with is_app others match_known_only [OF is_app 3] show ?thesis by (auto simp: mapError_def)
  qed
qed

lemma mapError_public:
  "mapError (Some e) \<in> Some ` (set transport_statuses \<union> range public_status)"
proof -
  have internal: "status_of Code_Internal ''internal_error'' ''Internal error'' = public_status ErrInternal"
    and timeout: "status_of Code_DeadlineExceeded ''request_timeout'' ''Request timed out'' = public_status ErrRequestTimeout"
    by (simp_all add: public_code_def Code_def Error_message_def)
  have "match_known e (public_status ErrInternal) \<in> range public_status"
    using match_known_in [of e "public_status ErrInternal"] by blast
  then show ?thesis
    unfolding mapError_def internal timeout by (simp add: transport_statuses_def)
qed

lemma mapError_depends:
  assumes "\<And>t. t \<in> rpc_sentinels \<Longrightarrow> errors_Is e t \<longleftrightarrow> errors_Is e' t"
  shows "mapError (Some e) = mapError (Some e')"
proof -
  have "match_known e = match_known e'"
    using assms by (intro ext) (simp add: match_known_pairs rpc_sentinels_def)
  then show ?thesis using assms by (simp add: mapError_def rpc_sentinels_def)
qed

subsection \<open>Rows\<close>







subsection \<open>Values\<close>

text \<open>
  What the code relies on: \<open>NumDigits\<close> of a non-negative decimal is the length of its coefficient; a
  timestamp made from a time has its seconds and its value and is valid in the years 1 to 9999.
\<close>

definition digit_law :: "'d text_decimals \<Rightarrow> bool" where
  "digit_law D \<longleftrightarrow> (\<forall>d. \<not> dec_IsNegative D d \<longrightarrow> dec_NumDigits D d = dec_digits D d)"

definition timestamp_laws :: "'ts timestamps \<Rightarrow> bool" where
  "timestamp_laws T \<longleftrightarrow> (\<forall>t. ts_Seconds T (ts_New T t) = Unix t \<and> (in_years t \<longrightarrow> ts_CheckValid T (ts_New T t)
     \<and> ts_AsTime T (ts_New T t) = t))"

text \<open>The part of the decimal package the adapters use.\<close>

abbreviation parsing :: "'d text_decimals \<Rightarrow> 'd decimals" where
  "parsing D \<equiv> decimals.truncate D"

lemma decimal_length_same:
  assumes "digit_law D" and "\<not> dec_IsNegative D d"
  shows "decimal_length D d = decimalCharacters (parsing D) d"
  using assms by (auto simp: decimal_length_def decimalCharacters_def digit_law_def Let_def decimals.truncate_def)

lemma decimalText_plain:
  assumes "digit_law D" and "plain_decimal (parsing D) d"
  shows "decimalText D d = Inr (dec_String D d)"
proof -
  from assms(2) have "\<not> dec_IsNegative D d" by (simp add: decimals.truncate_def)
  with assms decimal_length_same [OF assms(1) this] show ?thesis
    by (simp add: decimalText_def bounded_def maxDecimalCharacters_def)
qed

lemma decimal_texts_plain:
  assumes "digit_law D"
  shows "\<forall>d \<in> set ds. plain_decimal (parsing D) d \<Longrightarrow> decimal_texts D ds = Inr (map (dec_String D) ds)"
  by (induction ds) (simp_all add: decimalText_plain [OF assms])

lemma timestamp_served:
  assumes "timestamp_laws T" and "in_years t" and "0 \<le> Unix t"
  shows "timestamp T t = Inr (ts_New T t)"
proof -
  from assms(3) have "\<not> IsZero t" by (auto simp: IsZero_def zero_time_def Unix_def)
  with assms show ?thesis by (simp add: timestamp_def timestamp_laws_def Let_def)
qed

text \<open>The message of a candle whose values all print.\<close>

definition candle_message :: "'ts timestamps \<Rightarrow> 'd text_decimals \<Rightarrow> 'd Kline \<Rightarrow> 'ts pb_Kline" where
  "candle_message T D row = \<lparr>
     pk_TradesCount = k_TradesCount row, pk_OpenTime = ts_New T (k_OpenTime row), pk_CloseTime = ts_New T (k_CloseTime row),
     pk_FetchedAt = ts_New T (k_FetchedAt row), pk_Open = dec_String D (k_Open row), pk_High = dec_String D (k_High row),
     pk_Low = dec_String D (k_Low row), pk_Close = dec_String D (k_Close row), pk_Volume = dec_String D (k_Volume row),
     pk_Turnover = dec_String D (k_Turnover row)\<rparr>"

lemma klineMessage_good:
  assumes laws: "timestamp_laws T" "digit_law D" and cal: "request_calendar request = Inr calendar"
    and good: "good_candle (parsing D) request calendar row"
    and lo: "0 \<le> Unix (q_From (rq_Query request))" and fetched: "in_years (k_FetchedAt row)" "0 \<le> Unix (k_FetchedAt row)"
  shows "klineMessage T D row = Inr (candle_message T D row)"
proof -
  have nxt: "Next calendar (k_OpenTime row) = Inr (k_CloseTime row)"
    and lower: "q_From (rq_Query request) \<le> k_OpenTime row"
    and plain: "\<forall>d \<in> set [k_Open row, k_High row, k_Low row, k_Close row, k_Volume row, k_Turnover row]. plain_decimal (parsing D) d"
    using good unfolding good_candle_def Let_def by blast+
  obtain k where k: "k_OpenTime row = slot_start calendar k" "k_CloseTime row = slot_start calendar (k + 1)"
    "in_years (k_OpenTime row)" "in_years (k_CloseTime row)"
    by (rule Next_ok [OF NewCalendar_wf [OF cal] nxt])
  have mono: "0 \<le> Unix t" if "q_From (rq_Query request) \<le> t" for t
    using lo that unfolding Unix_def by (meson order_trans zdiv_mono1 zero_less_numeral)
  have "k_OpenTime row \<le> k_CloseTime row"
    using slot_step [OF NewCalendar_wf [OF cal], of k] k(1,2) by simp
  with lower mono have "0 \<le> Unix (k_OpenTime row)" "0 \<le> Unix (k_CloseTime row)" by (auto intro: order_trans)
  with k(3,4) fetched show ?thesis
    by (simp add: klineMessage_def candle_message_def timestamp_served [OF laws(1)]
        decimal_texts_plain [OF laws(2) plain] del: decimal_texts.simps)
qed

subsection \<open>Requests\<close>

lemma klineQuery_Inr:
  "klineQuery T check r = Inr q \<longleftrightarrow>
     (\<exists>e m s i from to. gr_Exchange r = Some e \<and> gr_Market r = Some m \<and> gr_Symbol r = Some s \<and> gr_Interval r = Some i
        \<and> gr_From r = Some from \<and> gr_To r = Some to \<and> e \<noteq> [] \<and> m \<noteq> [] \<and> s \<noteq> [] \<and> i \<noteq> []
        \<and> ts_CheckValid T from \<and> 0 \<le> ts_Seconds T from \<and> ts_CheckValid T to \<and> 0 \<le> ts_Seconds T to
        \<and> q = \<lparr>q_Series = \<lparr>se_Scope = \<lparr>sc_Exchange = e, sc_Market = m\<rparr>, se_Symbol = s, se_Interval = i\<rparr>,
                q_From = ts_AsTime T from, q_To = ts_AsTime T to\<rparr>
        \<and> check (q_Series q) = None)"
  by (cases "gr_Exchange r"; cases "gr_Market r"; cases "gr_Symbol r"; cases "gr_Interval r"; cases "gr_From r"; cases "gr_To r")
    (auto simp: klineQuery_def pb_get_def Let_def not_less split: option.splits if_splits)

lemma ReadFull_complete: "n \<le> length (br_bytes b) \<Longrightarrow>
    ReadFull b n = (take n (br_bytes b), None, b\<lparr>br_bytes := drop n (br_bytes b)\<rparr>)"
  by (simp add: ReadFull_def)

lemma ReadFull_short: "length (br_bytes b) < n \<Longrightarrow>
    ReadFull b n = (br_bytes b, Some (if br_end b = EOF \<and> br_bytes b \<noteq> [] then ErrUnexpectedEOF else br_end b),
      b\<lparr>br_bytes := []\<rparr>)"
  by (simp add: ReadFull_def Let_def)

text \<open>A unary frame: flag, four bytes of length, and that many bytes of message.\<close>

definition frame_length :: "nat list \<Rightarrow> nat" where
  "frame_length bs = big_endian (take 4 (drop 1 bs))"

definition one_frame :: "nat \<Rightarrow> nat list \<Rightarrow> bool" where
  "one_frame maximum bs \<longleftrightarrow> length bs = 5 + frame_length bs \<and> frame_length bs \<le> maximum
     \<and> int (frame_length bs) \<le> max_int64 - 5"

lemma readUnary_prefix:
  assumes "5 \<le> length (br_bytes b)"
  shows "readUnary b maximum =
    (let n = frame_length (br_bytes b) in
     if n > maximum \<or> int n > max_int64 - 5
     then Inl (Status_error (plain_status Code_ResourceExhausted ''Request is too large''))
     else case ReadFull (b\<lparr>br_bytes := drop 5 (br_bytes b)\<rparr>) n of
       (payload, Some e, _) \<Rightarrow> Inl (Stream_error e)
     | (payload, None, b2) \<Rightarrow>
       (case ReadFull b2 1 of
          (extra, err, _) \<Rightarrow>
            if extra \<noteq> [] then Inl (Status_error (plain_status Code_InvalidArgument ''One request message is required''))
            else if err \<noteq> Some EOF then Inl (Stream_error (the err))
            else Inr (take 5 (br_bytes b) @ payload)))"
proof -
  have "big_endian (drop 1 (take 5 (br_bytes b))) = frame_length (br_bytes b)"
    by (simp add: frame_length_def drop_take)
  then show ?thesis unfolding readUnary_def ReadFull_complete [OF assms] by simp
qed

definition frame_error :: "net_error \<Rightarrow> bool \<Rightarrow> read_error" where
  "frame_error e partial = Stream_error (if e = EOF \<and> partial then ErrUnexpectedEOF else e)"

lemma readUnary_cases:
  "readUnary b maximum =
     (let bs = br_bytes b; n = frame_length bs in
      if length bs < 5 then Inl (frame_error (br_end b) (bs \<noteq> []))
      else if n > maximum \<or> int n > max_int64 - 5 then Inl (Status_error (plain_status Code_ResourceExhausted ''Request is too large''))
      else if length bs < 5 + n then Inl (frame_error (br_end b) (length bs \<noteq> 5))
      else if length bs > 5 + n then Inl (Status_error (plain_status Code_InvalidArgument ''One request message is required''))
      else if br_end b = EOF then Inr bs else Inl (Stream_error (br_end b)))"
proof -
  let ?bs = "br_bytes b"
  let ?n = "frame_length ?bs"
  let ?b1 = "b\<lparr>br_bytes := drop 5 ?bs\<rparr>"
  consider "length ?bs < 5" | "5 \<le> length ?bs" "length ?bs < 5 + ?n" | "length ?bs = 5 + ?n" | "5 + ?n < length ?bs" by linarith
  then show ?thesis
  proof cases
    case 1
    then show ?thesis by (simp add: readUnary_def ReadFull_short Let_def frame_error_def)
  next
    case 2
    then have "ReadFull ?b1 ?n = (drop 5 ?bs, Some (if br_end b = EOF \<and> length ?bs \<noteq> 5 then ErrUnexpectedEOF else br_end b),
        b\<lparr>br_bytes := []\<rparr>)"
      by (subst ReadFull_short) auto
    with 2 show ?thesis by (simp add: readUnary_prefix Let_def frame_error_def)
  next
    case 3
    then have "ReadFull ?b1 ?n = (drop 5 ?bs, None, b\<lparr>br_bytes := []\<rparr>)" by (subst ReadFull_complete) simp_all
    moreover have "ReadFull (b\<lparr>br_bytes := []\<rparr>) 1 = ([], Some (br_end b), b\<lparr>br_bytes := []\<rparr>)"
      by (subst ReadFull_short) simp_all
    ultimately show ?thesis using 3 by (simp add: readUnary_prefix Let_def)
  next
    case 4
    then obtain next_byte rest where rest: "drop (5 + ?n) ?bs = next_byte # rest"
      by (metis Cons_nth_drop_Suc)
    then have "ReadFull ?b1 ?n = (take ?n (drop 5 ?bs), None, b\<lparr>br_bytes := next_byte # rest\<rparr>)"
      using 4 by (subst ReadFull_complete) (simp_all add: add.commute)
    moreover have "ReadFull (b\<lparr>br_bytes := next_byte # rest\<rparr>) 1 = ([next_byte], None, b\<lparr>br_bytes := rest\<rparr>)"
      by (subst ReadFull_complete) simp_all
    ultimately show ?thesis using 4 by (simp add: readUnary_prefix Let_def)
  qed
qed

lemma readUnary_Inr: "readUnary b maximum = Inr bs \<longleftrightarrow> br_end b = EOF \<and> bs = br_bytes b \<and> one_frame maximum bs"
  unfolding readUnary_cases Let_def one_frame_def by auto

text \<open>The reader looks at most one byte past the largest frame it accepts.\<close>

lemma frame_length_take: "5 \<le> n \<Longrightarrow> frame_length (take n bs) = frame_length bs"
  by (simp add: frame_length_def drop_take min_def)

lemma readUnary_lookahead:
  assumes "maximum + 6 \<le> length (br_bytes b)"
  shows "readUnary b maximum = readUnary \<lparr>br_bytes = take (maximum + 6) (br_bytes b) @ tail, br_end = e\<rparr> maximum"
proof -
  let ?c = "\<lparr>br_bytes = take (maximum + 6) (br_bytes b) @ tail, br_end = e\<rparr>"
  have "frame_length (br_bytes ?c) = frame_length (take (maximum + 6) (br_bytes ?c))"
    by (rule frame_length_take [symmetric]) simp
  also have "take (maximum + 6) (br_bytes ?c) = take (maximum + 6) (br_bytes b)" using assms by simp
  also have "frame_length \<dots> = frame_length (br_bytes b)" by (rule frame_length_take) simp
  finally have same: "frame_length (br_bytes ?c) = frame_length (br_bytes b)" .
  have len: "maximum + 6 \<le> length (br_bytes ?c)" using assms by simp
  show ?thesis
    unfolding readUnary_cases [of b] readUnary_cases [of ?c] Let_def same using assms len by auto
qed

section \<open>Properties\<close>

text \<open>Whole numbers with their text, and times that stand for their own timestamps.\<close>

definition whole_texts :: "int text_decimals" where
  "whole_texts = \<lparr>dec_NewFromString = Atoi, dec_zero = 0,
     dec_digits = (\<lambda>d. int (length (FormatInt \<bar>d\<bar>))), dec_Exponent = (\<lambda>_. 0),
     dec_IsNegative = (\<lambda>d. d < 0), dec_IsPositive = (\<lambda>d. 0 < d), dec_IsZero = (\<lambda>d. d = 0),
     dec_Neg = uminus, dec_Sub = (-), dec_GreaterThan = (>),
     dec_NumDigits = (\<lambda>d. int (length (FormatInt \<bar>d\<bar>))), dec_String = FormatInt\<rparr>"

definition plain_timestamps :: "time timestamps" where
  "plain_timestamps = \<lparr>ts_New = (\<lambda>t. t), ts_CheckValid = in_years, ts_Seconds = Unix, ts_AsTime = (\<lambda>t. t)\<rparr>"

lemma parsing_whole [simp]: "parsing whole_texts = whole_decimals"
  by (simp add: whole_texts_def whole_decimals_def decimals.truncate_def)

lemma whole_digit_law [simp]: "digit_law whole_texts"
  by (simp add: digit_law_def whole_texts_def)

lemma plain_timestamp_laws [simp]: "timestamp_laws plain_timestamps"
  by (simp add: timestamp_laws_def plain_timestamps_def)

text \<open>
  C32. The status of a failed call depends only on which of the public errors the failure matches: its code,
  reason and message come from a fixed table, whatever text, cause or order of wrapping the failure carries,
  and a failure that matches exactly one application error gets the status of that error.
\<close>

theorem rpc_errors_hide_details:
  assumes "\<forall>t \<in> rpc_sentinels. errors_Is e t \<longleftrightarrow> errors_Is e' t"
  shows "mapError (Some e) = mapError (Some e')
    \<and> mapError (Some e) \<in> Some ` (set transport_statuses \<union> range public_status)
    \<and> (\<forall>a. (\<forall>t \<in> rpc_sentinels. errors_Is e t \<longleftrightarrow> t = App a) \<longrightarrow> mapError (Some e) = Some (public_status a))"
proof (intro conjI allI impI)
  show "mapError (Some e) = mapError (Some e')" using assms by (intro mapError_depends) blast
  show "mapError (Some e) \<in> Some ` (set transport_statuses \<union> range public_status)" by (rule mapError_public)
  fix a assume "\<forall>t \<in> rpc_sentinels. errors_Is e t \<longleftrightarrow> t = App a"
  then show "mapError (Some e) = Some (public_status a)" by (intro mapError_only) blast
qed

theorem rpc_errors_hide_details_witness:
  "mapError (Some (Wrapped ''GET /v5/market: key=abc'' [App ErrUpstream])) = mapError (Some (App ErrUpstream))"
proof -
  have "\<forall>t \<in> rpc_sentinels. errors_Is (Wrapped ''GET /v5/market: key=abc'' [App ErrUpstream]) t \<longleftrightarrow> errors_Is (App ErrUpstream) t"
    by (auto simp: rpc_sentinels_def rpc_errResponseTooLarge_def)
  from rpc_errors_hide_details [OF this] show ?thesis by blast
qed





text \<open>
  C34. Every candle of a page that passed normalization can be served: its times are valid timestamps and
  its decimals are within the printing bound of the transport, which agrees with the parsing bound of the
  adapters. The message carries the candle's own times, count and printed values.
\<close>

theorem served_candles_convert:
  assumes "timestamp_laws T" and "digit_law D"
    and "normalize_Klines (parsing D) ctx k request sources startedAt fetchedAt = Inr page"
    and "0 \<le> Unix (q_From (rq_Query request))" and "in_years fetchedAt" and "0 \<le> Unix fetchedAt"
  shows "map (\<lambda>row. klineMessage T D (st_Candle row)) page = map (\<lambda>row. Inr (candle_message T D (st_Candle row))) page"
proof -
  obtain calendar where cal: "request_calendar request = Inr calendar"
    and rows: "\<forall>row \<in> set page. good_candle (parsing D) request calendar (st_Candle row)
         \<and> st_RequestStartedAt row = startedAt \<and> k_FetchedAt (st_Candle row) = fetchedAt"
    by (rule normalize_page_good [OF assms(3)])
  have "klineMessage T D (st_Candle row) = Inr (candle_message T D (st_Candle row))" if "row \<in> set page" for row
    using rows that assms(5,6) by (intro klineMessage_good [OF assms(1,2) cal _ assms(4)]) auto
  then show ?thesis by simp
qed

theorem served_candles_convert_witness:
  "\<exists>page. normalize_Klines whole_decimals background 0 demo_page demo_tuples (ex_open 2) (ex_open 2 + 7) = Inr page
     \<and> map (\<lambda>row. klineMessage plain_timestamps whole_texts (st_Candle row)) page
       = map (\<lambda>row. Inr (candle_message plain_timestamps whole_texts (st_Candle row))) page"
proof -
  let ?out = "normalize_Klines whole_decimals background 0 demo_page demo_tuples (ex_open 2) (ex_open 2 + 7)"
  have "\<not> isl ?out" by code_simp
  then have out: "?out = Inr (projr ?out)" by simp
  have "0 \<le> Unix (q_From (rq_Query demo_page))" "in_years (ex_open 2 + 7)" "0 \<le> Unix (ex_open 2 + 7)" by code_simp+
  with out served_candles_convert [of plain_timestamps whole_texts background 0 demo_page demo_tuples "ex_open 2" "ex_open 2 + 7"]
  show ?thesis by (intro exI [of _ "projr ?out"]) simp
qed

text \<open>
  The frame reader accepts a body exactly when it is one whole frame of at most the configured size
  followed by the end of the stream, and answers with those bytes. Of a longer body it looks at no more
  than one byte past the largest frame: what follows cannot change its answer.
\<close>

theorem one_frame_is_read:
  assumes "maximum + 6 \<le> length (br_bytes long)"
  shows "(readUnary b maximum = Inr bs \<longleftrightarrow> br_end b = EOF \<and> bs = br_bytes b \<and> one_frame maximum bs)
    \<and> readUnary long maximum = readUnary \<lparr>br_bytes = take (maximum + 6) (br_bytes long) @ tail, br_end = e\<rparr> maximum"
  using readUnary_Inr readUnary_lookahead [OF assms] by blast

theorem one_frame_is_read_witness:
  "readUnary \<lparr>br_bytes = [0, 0, 0, 0, 2, 8, 9], br_end = EOF\<rparr> 4 = Inr [0, 0, 0, 0, 2, 8, 9]
   \<and> readUnary \<lparr>br_bytes = replicate 10 0, br_end = EOF\<rparr> 4 = readUnary \<lparr>br_bytes = replicate 10 0, br_end = ECONNRESET\<rparr> 4"
proof -
  let ?b = "\<lparr>br_bytes = [0, 0, 0, 0, 2, 8, 9], br_end = EOF\<rparr>"
  have "4 + 6 \<le> length (br_bytes \<lparr>br_bytes = replicate 10 0, br_end = EOF\<rparr>)" by simp
  note read = one_frame_is_read [OF this, of ?b "br_bytes ?b" "[]" ECONNRESET]
  have "one_frame 4 (br_bytes ?b)" by (simp add: one_frame_def frame_length_def big_endian_def)
  with read show ?thesis by simp
qed

text \<open>The request a client sends for a query.\<close>

definition request_for :: "'ts timestamps \<Rightarrow> Query \<Rightarrow> 'ts GetKlinesRequest" where
  "request_for T q = \<lparr>gr_Exchange = Some (sc_Exchange (se_Scope (q_Series q))), gr_Market = Some (sc_Market (se_Scope (q_Series q))),
     gr_Symbol = Some (se_Symbol (q_Series q)), gr_Interval = Some (se_Interval (q_Series q)),
     gr_From = Some (ts_New T (q_From q)), gr_To = Some (ts_New T (q_To q))\<rparr>"

text \<open>
  A candle query survives its encoding as a request: whenever the names are not empty and the times
  are representable and not before 1970, the handler reads back the very query, provided the reader
  supports its series.
\<close>

theorem kline_request_roundtrip:
  assumes "timestamp_laws T"
    and "sc_Exchange (se_Scope (q_Series q)) \<noteq> []" and "sc_Market (se_Scope (q_Series q)) \<noteq> []"
    and "se_Symbol (q_Series q) \<noteq> []" and "se_Interval (q_Series q) \<noteq> []"
    and "in_years (q_From q)" and "in_years (q_To q)" and "0 \<le> Unix (q_From q)" and "0 \<le> Unix (q_To q)"
  shows "klineQuery T checkSeries (request_for T q) = (case checkSeries (q_Series q) of None \<Rightarrow> Inr q | Some e \<Rightarrow> Inl e)"
proof -
  have same: "\<lparr>se_Scope = \<lparr>sc_Exchange = sc_Exchange (se_Scope (q_Series q)), sc_Market = sc_Market (se_Scope (q_Series q))\<rparr>,
      se_Symbol = se_Symbol (q_Series q), se_Interval = se_Interval (q_Series q)\<rparr> = q_Series q" by simp
  show ?thesis
    using assms unfolding klineQuery_def request_for_def pb_get_def Let_def
    by (simp add: same timestamp_laws_def not_less split: option.splits)
qed

theorem kline_request_roundtrip_witness:
  "klineQuery plain_timestamps (\<lambda>_. None) (request_for plain_timestamps ex_query) = Inr ex_query"
proof -
  have "sc_Exchange (se_Scope (q_Series ex_query)) \<noteq> []" "sc_Market (se_Scope (q_Series ex_query)) \<noteq> []"
    "se_Symbol (q_Series ex_query) \<noteq> []" "se_Interval (q_Series ex_query) \<noteq> []"
    "in_years (q_From ex_query)" "in_years (q_To ex_query)" "0 \<le> Unix (q_From ex_query)" "0 \<le> Unix (q_To ex_query)"
    by code_simp+
  from kline_request_roundtrip [OF plain_timestamp_laws this, of "\<lambda>_. None"] show ?thesis by simp
qed

end
