(* ===== verification/Grpc_Server.thy ===== *)
theory Grpc_Server
  imports Grpc_Messages
begin

text \<open>
  The gRPC server of \<open>src/internal/transport/grpc/server.go\<close>, with \<open>writeStatus\<close> of \<open>request.go\<close>.

  One call passes through \<open>serveHTTP\<close> in segments: admission under the lock, deadlines, the choice of a slot,
  the reply or the native gRPC handler, the classification of the outcome, and the owner goroutine that
  waits for the stream to close and for the handler to end before it frees the slot. Each segment is a
  function on the server's counters and the state of the call; \<open>rpc_step\<close> interleaves the segments of all
  calls with \<open>StopAdmission\<close>.

  \<open>net/http\<close> and grpc-go are third-party code. What they contribute enters as an argument: the answers of
  contexts, the errors of reads, writes and flushes (\<open>deadline_error\<close> says which of those
  are deadline errors for \<open>errors.Is\<close>), the close notification of the stream, the callbacks of the statistics handler.
\<close>

section \<open>Settings and construction\<close>

record rpc_Settings =
  rg_SnapshotTimeout :: duration
  rg_KlineTimeout :: duration
  rg_WriteGrace :: duration
  rg_MaxSnapshots :: int
  rg_MaxKlines :: int
  rg_MaxRequestBytes :: int
  rg_MaxResponseBytes :: int
  rg_MaxHeaderBytes :: int
  rg_ReadHeaderTimeout :: duration
  rg_IdleTimeout :: duration

text \<open>An error as it stands in an event: one of the program, a status, or one of a stream.\<close>

datatype rpc_failure = Fail_error error | Fail_status rpc_status | Fail_stream net_error

record rpc_Event =
  re_Method :: string
  re_Code :: rpc_code
  re_Reason :: string
  re_Duration :: duration
  re_RequestBytes :: int
  re_ResponseBytes :: int
  re_Error :: "rpc_failure option"
  re_Panic :: bool
  re_TransportFailure :: bool

definition new_Event :: "string \<Rightarrow> rpc_Event" where
  "new_Event name = \<lparr>re_Method = name, re_Code = Code_OK, re_Reason = [], re_Duration = 0, re_RequestBytes = 0,
     re_ResponseBytes = 0, re_Error = None, re_Panic = False, re_TransportFailure = False\<rparr>"

text \<open>
  The state of a call: the fields of \<open>call\<close> (\<open>processingDone\<close> as a flag that says whether the channel is
  closed) and the local variables of \<open>serveHTTP\<close> that outlive a segment. \<open>rc_stage\<close> is the segment reached,
  \<open>rc_stream\<close> whether the stream has closed, \<open>rc_outcome\<close> the event \<open>serveHTTP\<close> returned with.
\<close>

datatype rpc_stage = Arrived | Serving | Handed

record rpc_call =
  rc_event :: rpc_Event
  rc_deadline :: time
  rc_writeDeadline :: time
  rc_started :: time
  rc_reject :: "error option"
  rc_closed :: bool
  rc_expectsEnd :: bool
  rc_processingDone :: bool
  rc_acquired :: bool
  rc_stage :: rpc_stage
  rc_stream :: bool
  rc_outcome :: rpc_Event

text \<open>
  \<open>rv_snapshots\<close> and \<open>rv_klines\<close> count the tokens in the two slot channels, \<open>rv_owned\<close> is the wait group,
  \<open>rv_calls\<close> holds the calls by stream, \<open>rv_log\<close> the events given to the observer.
\<close>

record rpc_server =
  rv_settings :: rpc_Settings
  rv_stopped :: bool
  rv_owned :: int
  rv_snapshots :: int
  rv_klines :: int
  rv_calls :: "(nat, rpc_call) gomap"
  rv_log :: "rpc_Event list"

definition NewServer :: "bool \<Rightarrow> bool \<Rightarrow> rpc_Settings \<Rightarrow> rpc_server result" where
  "NewServer has_root has_readers settings =
     (if \<not> has_root \<or> \<not> has_readers
         \<or> rg_SnapshotTimeout settings \<le> 0 \<or> rg_KlineTimeout settings \<le> 0 \<or> rg_WriteGrace settings \<le> 0
         \<or> rg_MaxSnapshots settings \<le> 0 \<or> rg_MaxKlines settings \<le> 0
         \<or> rg_MaxRequestBytes settings \<le> 0 \<or> rg_MaxResponseBytes settings \<le> 0
         \<or> rg_MaxHeaderBytes settings \<le> 0 \<or> rg_MaxHeaderBytes settings > 2147483647
         \<or> rg_ReadHeaderTimeout settings \<le> 0 \<or> rg_IdleTimeout settings \<le> 0
         \<or> rg_SnapshotTimeout settings > max_int64 - rg_WriteGrace settings
         \<or> rg_KlineTimeout settings > max_int64 - rg_WriteGrace settings
      then Inl (App ErrInvalidParameter)
      else Inr \<lparr>rv_settings = settings, rv_stopped = False, rv_owned = 0, rv_snapshots = 0, rv_klines = 0,
        rv_calls = [], rv_log = []\<rparr>)"

definition StopAdmission :: "rpc_server \<Rightarrow> rpc_server" where
  "StopAdmission s = s\<lparr>rv_stopped := True\<rparr>"

text \<open>
  What \<open>Shutdown\<close> returns: the error of \<open>http.Shutdown\<close>, joined with the context's error when the
  context ends before every owner has finished (\<open>finished\<close>).
\<close>

definition Shutdown :: "error option \<Rightarrow> bool \<Rightarrow> error option \<Rightarrow> rpc_server \<Rightarrow> rpc_server \<times> error option" where
  "Shutdown http_err finished ctx_err s =
     (StopAdmission s, if finished then http_err else errors_Join [http_err, ctx_err])"

definition methodName :: "string \<Rightarrow> string" where
  "methodName path =
     (if path = ''/marketdata.v1.MarketDataService/ListInstruments'' then ''ListInstruments''
      else if path = ''/marketdata.v1.MarketDataService/ListTickers'' then ''ListTickers''
      else if path = ''/marketdata.v1.MarketDataService/ListMarketStats'' then ''ListMarketStats''
      else if path = ''/marketdata.v1.MarketDataService/GetKlines'' then ''GetKlines''
      else ''unknown'')"

section \<open>Deadlines\<close>

definition timeout_unit :: "char \<Rightarrow> duration option" where
  "timeout_unit ch =
     (if ch = CHR ''H'' then Some Hour
      else if ch = CHR ''M'' then Some Minute
      else if ch = CHR ''S'' then Some Second
      else if ch = CHR ''m'' then Some 1000000
      else if ch = CHR ''u'' then Some 1000
      else if ch = CHR ''n'' then Some 1
      else None)"

text \<open>\<open>strconv.ParseUint\<close> in base 10 with the given number of bits.\<close>

definition ParseUint :: "nat \<Rightarrow> string \<Rightarrow> int option" where
  "ParseUint bits s =
     (if s = [] \<or> \<not> list_all digit s \<or> digits_value s \<ge> 2 ^ bits then None else Some (digits_value s))"

definition clientTimeout :: "string \<Rightarrow> duration option" where
  "clientTimeout value =
     (if length value < 2 \<or> length value > 9 then None
      else case timeout_unit (List.last value) of
        None \<Rightarrow> None
      | Some unit \<Rightarrow>
        (let digits = butlast value in
         if \<not> list_all digit digits then None
         else case ParseUint 64 digits of
           None \<Rightarrow> None
         | Some n \<Rightarrow> if n > max_int64 sdiv unit then Some max_int64 else Some (n * unit)))"

text \<open>A deadline given to a call shortens both of its deadlines.\<close>

definition shorten :: "time \<times> time \<Rightarrow> time option \<Rightarrow> time \<times> time" where
  "shorten d deadline =
     (case deadline of
        None \<Rightarrow> d
      | Some t \<Rightarrow> (if t < fst d then t else fst d, if t < snd d then t else snd d))"

definition call_deadlines :: "rpc_Settings \<Rightarrow> string \<Rightarrow> time \<Rightarrow> string \<Rightarrow> time option \<Rightarrow> time \<times> time" where
  "call_deadlines settings name started grpc_timeout ctx_deadline =
     (let lifetime = (if name = ''GetKlines'' then rg_KlineTimeout settings else rg_SnapshotTimeout settings);
          d = (started + lifetime, started + (lifetime + rg_WriteGrace settings));
          client = (case clientTimeout grpc_timeout of None \<Rightarrow> None | Some duration \<Rightarrow> Some (started + duration))
      in shorten (shorten d client) ctx_deadline)"

section \<open>Headers\<close>

record rpc_request =
  rr_Method :: string
  rr_Scheme :: string
  rr_Host :: string
  rr_RequestURI :: string
  rr_Header :: "(string, string list) gomap"

definition headerBytes :: "rpc_request \<Rightarrow> int" where
  "headerBytes r =
     (let base = int (length '':method'') + int (length (rr_Method r)) + 32 + int (length '':scheme'') + int (length (rr_Scheme r)) + 32
            + int (length '':authority'') + int (length (rr_Host r)) + 32 + int (length '':path'') + int (length (rr_RequestURI r)) + 32;
          start = (if rr_Scheme r = [] then base + int (length ''http'') else base)
      in fold (\<lambda>(name, vs) n. fold (\<lambda>v n. n + (int (length name) + int (length v) + 32)) vs n) (rr_Header r) start)"

definition header_Set :: "string \<Rightarrow> string \<Rightarrow> (string, string list) gomap \<Rightarrow> (string, string list) gomap" where
  "header_Set key value h = AList.update key [value] h"

definition header_Add :: "string \<Rightarrow> string \<Rightarrow> (string, string list) gomap \<Rightarrow> (string, string list) gomap" where
  "header_Add key value h = AList.update key (gget [] h key @ [value]) h"

definition code_number :: "rpc_code \<Rightarrow> nat" where
  "code_number c = (case c of
     Code_OK \<Rightarrow> 0 | Code_Canceled \<Rightarrow> 1 | Code_Unknown \<Rightarrow> 2 | Code_InvalidArgument \<Rightarrow> 3 | Code_DeadlineExceeded \<Rightarrow> 4
   | Code_NotFound \<Rightarrow> 5 | Code_AlreadyExists \<Rightarrow> 6 | Code_PermissionDenied \<Rightarrow> 7 | Code_ResourceExhausted \<Rightarrow> 8
   | Code_FailedPrecondition \<Rightarrow> 9 | Code_Aborted \<Rightarrow> 10 | Code_OutOfRange \<Rightarrow> 11 | Code_Unimplemented \<Rightarrow> 12
   | Code_Internal \<Rightarrow> 13 | Code_Unavailable \<Rightarrow> 14 | Code_DataLoss \<Rightarrow> 15 | Code_Unauthenticated \<Rightarrow> 16 | Code_Other n \<Rightarrow> 17 + n)"

definition code_of :: "nat \<Rightarrow> rpc_code" where
  "code_of n =
     (if n < 17 then [Code_OK, Code_Canceled, Code_Unknown, Code_InvalidArgument, Code_DeadlineExceeded, Code_NotFound,
        Code_AlreadyExists, Code_PermissionDenied, Code_ResourceExhausted, Code_FailedPrecondition, Code_Aborted,
        Code_OutOfRange, Code_Unimplemented, Code_Internal, Code_Unavailable, Code_DataLoss, Code_Unauthenticated] ! n
      else Code_Other (n - 17))"

text \<open>\<open>encode\<close> is \<open>proto.Marshal\<close> of a status with details, in base64.\<close>

definition writeStatus :: "(rpc_status \<Rightarrow> string option) \<Rightarrow> rpc_status \<Rightarrow> (string, string list) gomap \<Rightarrow> (string, string list) gomap" where
  "writeStatus encode st h =
     (let h = header_Set ''Content-Type'' ''application/grpc'' h;
          h = header_Add ''Trailer'' ''Grpc-Status'' h;
          h = header_Add ''Trailer'' ''Grpc-Message'' h;
          h = header_Add ''Trailer'' ''Grpc-Status-Details-Bin'' h;
          h = header_Set ''Grpc-Status'' (FormatInt (int (code_number (rs_Code st)))) h;
          h = header_Set ''Grpc-Message'' (rs_Message st) h
      in if rs_Reason st \<noteq> None
         then (case encode st of None \<Rightarrow> h | Some text \<Rightarrow> header_Set ''Grpc-Status-Details-Bin'' text h)
         else h)"

definition stopping_reply :: "(string, string list) gomap \<Rightarrow> (string, string list) gomap" where
  "stopping_reply h = header_Set ''Grpc-Message'' ''Service is stopping''
     (header_Set ''Grpc-Status'' ''14'' (header_Set ''Content-Type'' ''application/grpc'' h))"

text \<open>The wrapped response writer: the first final status wins, and the last write or flush error stays.\<close>

record response_writer =
  rw_err :: "net_error option"
  rw_status :: int

definition rw_WriteHeader :: "int \<Rightarrow> response_writer \<Rightarrow> response_writer" where
  "rw_WriteHeader code w = (if rw_status w = 0 \<and> code \<ge> 200 then w\<lparr>rw_status := code\<rparr> else w)"

definition rw_Write :: "net_error option \<Rightarrow> response_writer \<Rightarrow> response_writer" where
  "rw_Write err w =
     (let w = (if rw_status w = 0 then w\<lparr>rw_status := 200\<rparr> else w)
      in if err \<noteq> None then w\<lparr>rw_err := err\<rparr> else w)"

definition rw_Flush :: "net_error option \<Rightarrow> response_writer \<Rightarrow> response_writer" where
  "rw_Flush err w = (if err \<noteq> None then w\<lparr>rw_err := err\<rparr> else w)"

section \<open>Outcomes\<close>

definition status_code :: "rpc_status option \<Rightarrow> rpc_code" where
  "status_code st = (case st of None \<Rightarrow> Code_OK | Some s \<Rightarrow> rs_Code s)"

text \<open>The reason of a status detail, when there is one, replaces the reason of the event.\<close>

definition detail_reason :: "rpc_status option \<Rightarrow> rpc_Event \<Rightarrow> rpc_Event" where
  "detail_reason st ev =
     (case st of
        None \<Rightarrow> ev
      | Some s \<Rightarrow> (case rs_Reason s of None \<Rightarrow> ev | Some reason \<Rightarrow> ev\<lparr>re_Reason := reason\<rparr>))"

definition recordError :: "error \<Rightarrow> rpc_Event \<Rightarrow> rpc_Event" where
  "recordError err ev =
     (let mapped = mapError (Some err)
      in detail_reason mapped (ev\<lparr>re_Error := Some (Fail_error err), re_Code := status_code mapped\<rparr>))"

definition recordNativeError :: "rpc_status \<Rightarrow> rpc_Event \<Rightarrow> rpc_Event" where
  "recordNativeError st ev =
     detail_reason (Some st) (ev\<lparr>re_Error := Some (Fail_status st), re_Code := rs_Code st, re_TransportFailure := True,
       re_Reason := ''transport_error''\<rparr>)"

text \<open>\<open>early\<close> says whether the clock is still before the deadline of the work.\<close>

definition readFailure :: "(net_error \<Rightarrow> bool) \<Rightarrow> error option \<Rightarrow> bool \<Rightarrow> read_error \<Rightarrow> rpc_status" where
  "readFailure deadline_error ctx_err early err =
     (if ctx_err \<noteq> None \<and> early then the (mapError ctx_err)
      else case err of
        Stream_error e \<Rightarrow>
          if deadline_error e then the (mapError (Some DeadlineExceeded))
          else plain_status Code_Internal ''Invalid request frame''
      | Status_error st \<Rightarrow> st)"

definition httpFailureCode :: "int \<Rightarrow> rpc_code" where
  "httpFailureCode code =
     (if code = 400 then Code_Internal
      else if code = 401 then Code_Unauthenticated
      else if code = 403 then Code_PermissionDenied
      else if code = 404 then Code_Unimplemented
      else if code \<in> {429, 502, 503, 504} then Code_Unavailable
      else Code_Unknown)"

definition transport_failed :: "rpc_code \<Rightarrow> rpc_Event \<Rightarrow> rpc_Event" where
  "transport_failed code ev = ev\<lparr>re_Code := code, re_Reason := ''transport_error'',
     re_Error := Some (Fail_status (plain_status code ''RPC transport failed'')), re_TransportFailure := True\<rparr>"

definition timed_out :: "rpc_Event \<Rightarrow> rpc_Event" where
  "timed_out ev = ev\<lparr>re_Code := Code_DeadlineExceeded, re_Reason := ''request_timeout'',
     re_Error := Some (Fail_error DeadlineExceeded)\<rparr>"

text \<open>
  The classification at the end of \<open>serveHTTP\<close>, in its four steps: the native status header, an HTTP failure
  or a missing end, a failed flush or write, and a request context that has ended.
\<close>

definition native_status :: "string \<Rightarrow> rpc_Event \<Rightarrow> rpc_Event" where
  "native_status value ev =
     (if value \<noteq> [] then
        (case ParseUint 32 value of
           Some n \<Rightarrow> if code_of (nat n) \<noteq> Code_OK \<and> re_Code ev = Code_OK then transport_failed (code_of (nat n)) ev else ev
         | None \<Rightarrow> ev)
      else ev)"

definition http_outcome :: "bool \<Rightarrow> int \<Rightarrow> rpc_Event \<Rightarrow> rpc_Event" where
  "http_outcome expectsEnd http_status ev =
     (if re_Code ev = Code_OK \<and> (http_status \<ge> 400 \<or> \<not> expectsEnd) then transport_failed (httpFailureCode http_status) ev else ev)"

definition flush_outcome :: "(net_error \<Rightarrow> bool) \<Rightarrow> net_error option \<Rightarrow> rpc_Event \<Rightarrow> rpc_Event" where
  "flush_outcome deadline_error flushErr ev =
     (case flushErr of
        None \<Rightarrow> ev
      | Some e \<Rightarrow>
        (let ev = ev\<lparr>re_TransportFailure := True, re_Error := Some (Fail_stream e), re_Code := Code_Unavailable,
               re_Reason := ''transport_error''\<rparr>
         in if deadline_error e then timed_out ev else ev))"

definition context_outcome :: "error option \<Rightarrow> bool \<Rightarrow> rpc_Event \<Rightarrow> rpc_Event" where
  "context_outcome ctx_err early ev =
     (case ctx_err of
        None \<Rightarrow> ev
      | Some e \<Rightarrow>
        (let ev = (if errors_Is e Canceled \<and> early
              then ev\<lparr>re_Code := Code_Canceled, re_Reason := ''request_canceled'', re_Error := Some (Fail_error Canceled)\<rparr>
              else timed_out ev)
         in ev\<lparr>re_TransportFailure := True\<rparr>))"

text \<open>What the environment answers while \<open>serveHTTP\<close> returns.\<close>

record http_end =
  he_grpc_status :: string
  he_status :: int
  he_flush :: "net_error option"
  he_ctx :: "error option"
  he_early :: bool

definition call_outcome :: "(net_error \<Rightarrow> bool) \<Rightarrow> http_end \<Rightarrow> bool \<Rightarrow> rpc_Event \<Rightarrow> rpc_Event" where
  "call_outcome deadline_error h expectsEnd ev =
     context_outcome (he_ctx h) (he_early h)
       (flush_outcome deadline_error (he_flush h)
         (http_outcome expectsEnd (he_status h) (native_status (he_grpc_status h) ev)))"

section \<open>The interceptor\<close>

text \<open>A unary handler returns a response and an error, or panics.\<close>

datatype 'r handled = Handled "'r option" "error option" | Panicked

text \<open>
  \<open>intercept\<close> with its deferred function. \<open>work 0\<close> is the answer of the deadline context before the handler and
  \<open>work 1\<close> the one in the deferred function. Measuring a nil response panics.
\<close>

definition intercept_body :: "('r \<Rightarrow> int) \<Rightarrow> int \<Rightarrow> ctx \<Rightarrow> 'r handled \<Rightarrow> rpc_call \<Rightarrow> 'r handled" where
  "intercept_body Size maximum work handler c =
     (if rc_closed c then Handled None (Some Canceled)
      else case work 0 of
        Some e \<Rightarrow> Handled None (Some e)
      | None \<Rightarrow>
        (case rc_reject c of
           Some e \<Rightarrow> Handled None (Some e)
         | None \<Rightarrow>
           (case handler of
              Handled (Some response) None \<Rightarrow>
                if Size response > maximum then Handled None (Some rpc_errResponseTooLarge) else handler
            | Handled None None \<Rightarrow> Panicked
            | _ \<Rightarrow> handler)))"

definition intercept :: "('r \<Rightarrow> int) \<Rightarrow> int \<Rightarrow> ctx \<Rightarrow> 'r handled \<Rightarrow> rpc_call \<Rightarrow> ('r option \<times> rpc_status option) \<times> rpc_call" where
  "intercept Size maximum work handler c =
     (let body = intercept_body Size maximum work handler c;
          (response, err, panicked) =
            (case body of Handled response err \<Rightarrow> (response, err, False) | Panicked \<Rightarrow> (None, Some (App ErrInternal), True));
          err = (case err of None \<Rightarrow> work 1 | Some e \<Rightarrow> Some e);
          mapped = mapError err;
          ev = rc_event c\<lparr>re_Panic := re_Panic (rc_event c) \<or> panicked,
                 re_Error := (case err of None \<Rightarrow> None | Some e \<Rightarrow> Some (Fail_error e)), re_Code := status_code mapped\<rparr>
      in ((if mapped = None then response else None, mapped), c\<lparr>rc_event := detail_reason mapped ev\<rparr>))"

section \<open>Statistics callbacks\<close>

definition HandleConn :: "rpc_call \<Rightarrow> rpc_call" where
  "HandleConn c = c\<lparr>rc_expectsEnd := (re_Method (rc_event c) \<noteq> ''unknown'')\<rparr>"

datatype rpc_stats = InPayload int | OutPayload int | End "rpc_status option"

definition HandleRPC :: "rpc_stats \<Rightarrow> rpc_call \<Rightarrow> rpc_call" where
  "HandleRPC ev c =
     (case ev of
        InPayload n \<Rightarrow> c\<lparr>rc_event := (rc_event c)\<lparr>re_RequestBytes := re_RequestBytes (rc_event c) + n\<rparr>\<rparr>
      | OutPayload n \<Rightarrow> c\<lparr>rc_event := (rc_event c)\<lparr>re_ResponseBytes := re_ResponseBytes (rc_event c) + n\<rparr>\<rparr>
      | End err \<Rightarrow>
          (let c = c\<lparr>rc_processingDone := True\<rparr>
           in case err of
                Some st \<Rightarrow>
                  if re_Error (rc_event c) = None
                  then c\<lparr>rc_event := (rc_event c)\<lparr>re_Code := rs_Code st, re_Error := Some (Fail_status st),
                         re_TransportFailure := True, re_Reason := ''transport_error''\<rparr>\<rparr>
                  else c
              | None \<Rightarrow> c))"

section \<open>Calls\<close>

definition is_klines :: "rpc_call \<Rightarrow> bool" where
  "is_klines c \<longleftrightarrow> re_Method (rc_event c) = ''GetKlines''"

definition set_call :: "rpc_server \<Rightarrow> nat \<Rightarrow> rpc_call \<Rightarrow> rpc_server" where
  "set_call s stream c = s\<lparr>rv_calls := AList.update stream c (rv_calls s)\<rparr>"

text \<open>The locked test of \<open>serveHTTP\<close>: \<open>None\<close> is the reply of a stopping server.\<close>

definition admit :: "rpc_server \<Rightarrow> rpc_server option" where
  "admit s = (if rv_stopped s then None else Some (s\<lparr>rv_owned := rv_owned s + 1\<rparr>))"

definition new_call :: "rpc_Settings \<Rightarrow> string \<Rightarrow> time \<Rightarrow> string \<Rightarrow> time option \<Rightarrow> rpc_call" where
  "new_call settings path started grpc_timeout ctx_deadline =
     (let name = methodName path; d = call_deadlines settings name started grpc_timeout ctx_deadline
      in \<lparr>rc_event = new_Event name, rc_deadline = fst d, rc_writeDeadline = snd d, rc_started = started, rc_reject = None,
          rc_closed = False, rc_expectsEnd = False, rc_processingDone = False, rc_acquired = False, rc_stage = Arrived,
          rc_stream = False, rc_outcome = new_Event name\<rparr>)"

text \<open>A failed \<open>SetWriteDeadline\<close> gives the call up at once.\<close>

definition give_up :: "rpc_server \<Rightarrow> nat \<Rightarrow> rpc_server" where
  "give_up s stream = s\<lparr>rv_owned := rv_owned s - 1, rv_calls := AList.delete stream (rv_calls s)\<rparr>"

text \<open>The header budget, the second look at \<open>stopped\<close>, and the non-blocking send on the slot channel.\<close>

definition slot_choice :: "rpc_server \<Rightarrow> rpc_call \<Rightarrow> int \<Rightarrow> error option" where
  "slot_choice s c header_size =
     (if header_size > rg_MaxHeaderBytes (rv_settings s) then Some (App ErrRequestTooLarge)
      else if rv_stopped s then Some Canceled
      else if (if is_klines c then rv_klines s < rg_MaxKlines (rv_settings s)
               else rv_snapshots s < rg_MaxSnapshots (rv_settings s)) then None
      else Some (App ErrServiceOverloaded))"

definition take_slot :: "rpc_call \<Rightarrow> rpc_server \<Rightarrow> rpc_server" where
  "take_slot c s = (if is_klines c then s\<lparr>rv_klines := rv_klines s + 1\<rparr> else s\<lparr>rv_snapshots := rv_snapshots s + 1\<rparr>)"

definition free_slot :: "rpc_call \<Rightarrow> rpc_server \<Rightarrow> rpc_server" where
  "free_slot c s = (if is_klines c then s\<lparr>rv_klines := rv_klines s - 1\<rparr> else s\<lparr>rv_snapshots := rv_snapshots s - 1\<rparr>)"

definition reserve_call :: "rpc_server \<Rightarrow> nat \<Rightarrow> rpc_call \<Rightarrow> int \<Rightarrow> rpc_server" where
  "reserve_call s stream c header_size =
     (case slot_choice s c header_size of
        Some e \<Rightarrow> set_call s stream (c\<lparr>rc_reject := Some e, rc_stage := Serving, rc_event := recordError e (rc_event c)\<rparr>)
      | None \<Rightarrow> set_call (take_slot c s) stream (c\<lparr>rc_acquired := True, rc_stage := Serving\<rparr>))"

definition hand_over :: "(net_error \<Rightarrow> bool) \<Rightarrow> http_end \<Rightarrow> rpc_call \<Rightarrow> rpc_call" where
  "hand_over deadline_error h c =
     c\<lparr>rc_closed := True, rc_stage := Handed, rc_outcome := call_outcome deadline_error h (rc_expectsEnd c) (rc_event c)\<rparr>"

text \<open>The event the owner reports: the latest state of the call unless the transport failed.\<close>

definition final_event :: "rpc_call \<Rightarrow> duration \<Rightarrow> rpc_Event" where
  "final_event c elapsed =
     (let latest = rc_event c; event = rc_outcome c;
          latest = (if re_TransportFailure event
            then latest\<lparr>re_Code := re_Code event, re_Reason := re_Reason event, re_Error := re_Error event,
                   re_TransportFailure := True\<rparr>
            else latest)
      in latest\<lparr>re_Duration := elapsed\<rparr>)"

definition owner_done :: "rpc_server \<Rightarrow> nat \<Rightarrow> rpc_call \<Rightarrow> duration \<Rightarrow> rpc_server" where
  "owner_done s stream c elapsed =
     (let s = (if rc_acquired c then free_slot c s else s)
      in s\<lparr>rv_log := rv_log s @ [final_event c elapsed], rv_owned := rv_owned s - 1,
           rv_calls := AList.delete stream (rv_calls s)\<rparr>)"

text \<open>
  One step of the server. The callbacks of grpc-go come between the start of the native handler and its \<open>End\<close>,
  also after \<open>serveHTTP\<close> has returned. In \<open>handle\<close> a response is represented by its encoded size.
\<close>

definition may_run :: "rpc_call \<Rightarrow> bool" where
  "may_run c \<longleftrightarrow> rc_expectsEnd c \<and> \<not> rc_processingDone c"

inductive rpc_step :: "(net_error \<Rightarrow> bool) \<Rightarrow> rpc_server \<Rightarrow> rpc_server \<Rightarrow> bool" for deadline_error where
  stop: "rpc_step deadline_error s (StopAdmission s)"
| refuse: "admit s = None \<Longrightarrow> rpc_step deadline_error s s"
| arrive: "admit s = Some s' \<Longrightarrow> \<not> ghas (rv_calls s) stream \<Longrightarrow>
    rpc_step deadline_error s (set_call s' stream (new_call (rv_settings s) path started grpc_timeout ctx_deadline))"
| unsupported: "map_of (rv_calls s) stream = Some c \<Longrightarrow> rc_stage c = Arrived \<Longrightarrow>
    rpc_step deadline_error s (give_up s stream)"
| reserve: "map_of (rv_calls s) stream = Some c \<Longrightarrow> rc_stage c = Arrived \<Longrightarrow>
    rpc_step deadline_error s (reserve_call s stream c header_size)"
| bad_frame: "map_of (rv_calls s) stream = Some c \<Longrightarrow> rc_stage c = Serving \<Longrightarrow> rc_reject c = None \<Longrightarrow> \<not> rc_expectsEnd c \<Longrightarrow>
    rpc_step deadline_error s (set_call s stream (c\<lparr>rc_event :=
      recordNativeError (readFailure deadline_error ctx_err early err) (rc_event c)\<rparr>))"
| native: "map_of (rv_calls s) stream = Some c \<Longrightarrow> rc_stage c = Serving \<Longrightarrow> rc_reject c = None \<Longrightarrow> \<not> rc_expectsEnd c \<Longrightarrow>
    \<not> rc_processingDone c \<Longrightarrow> rpc_step deadline_error s (set_call s stream (HandleConn c))"
| handle: "map_of (rv_calls s) stream = Some c \<Longrightarrow> may_run c \<Longrightarrow>
    rpc_step deadline_error s (set_call s stream (snd (intercept (\<lambda>n. n) (rg_MaxResponseBytes (rv_settings s)) work handler c)))"
| callback: "map_of (rv_calls s) stream = Some c \<Longrightarrow> may_run c \<Longrightarrow>
    rpc_step deadline_error s (set_call s stream (HandleRPC ev c))"
| hand_over: "map_of (rv_calls s) stream = Some c \<Longrightarrow> rc_stage c = Serving \<Longrightarrow>
    rpc_step deadline_error s (set_call s stream (hand_over deadline_error h c))"
| close: "map_of (rv_calls s) stream = Some c \<Longrightarrow>
    rpc_step deadline_error s (set_call s stream (c\<lparr>rc_stream := True\<rparr>))"
| owner: "map_of (rv_calls s) stream = Some c \<Longrightarrow> rc_stage c = Handed \<Longrightarrow> rc_stream c \<Longrightarrow>
    (rc_expectsEnd c \<longrightarrow> rc_processingDone c) \<Longrightarrow> rpc_step deadline_error s (owner_done s stream c elapsed)"

section \<open>Capacity\<close>

subsection \<open>Counting\<close>

definition counted :: "('v \<Rightarrow> bool) \<Rightarrow> ('k, 'v) gomap \<Rightarrow> int" where
  "counted P m = int (length (filter (\<lambda>(k, v). P v) m))"

lemma counted_Nil [simp]: "counted P [] = 0"
  by (simp add: counted_def)

lemma counted_Cons [simp]: "counted P ((k, v) # m) = of_bool (P v) + counted P m"
  by (simp add: counted_def)

lemma counted_nonneg: "0 \<le> counted P m"
  by (simp add: counted_def)

lemma counted_mono: "(\<And>k v. (k, v) \<in> set m \<Longrightarrow> P v \<Longrightarrow> Q v) \<Longrightarrow> counted P m \<le> counted Q m"
proof (induction m)
  case (Cons kv m)
  obtain k v where kv: "kv = (k, v)" by (cases kv)
  have "counted P m \<le> counted Q m" by (rule Cons.IH) (use Cons.prems in auto)
  with Cons.prems [of k v] kv show ?case by auto
qed simp

lemma counted_new: "\<not> ghas m k \<Longrightarrow> counted P (AList.update k v m) = counted P m + of_bool (P v)"
  by (induction m) (auto simp: ghas_def split: if_splits)

lemma counted_old: "map_of m k = Some v0 \<Longrightarrow> counted P (AList.update k v m) = counted P m - of_bool (P v0) + of_bool (P v)"
  by (induction m) (auto split: if_splits)

lemma counted_delete:
  assumes "gwf m" and "map_of m k = Some v0"
  shows "counted P (AList.delete k m) = counted P m - of_bool (P v0)"
  using assms
proof (induction m)
  case (Cons kv m)
  obtain k' v' where kv: "kv = (k', v')" by (cases kv)
  from Cons.prems(1) have wf: "gwf m" and notin: "k' \<notin> fst ` set m" by (auto simp: gwf_def kv)
  show ?case
  proof (cases "k' = k")
    case True
    with notin have "AList.delete k m = m" by (simp add: AList.delete_id)
    with True Cons.prems(2) kv show ?thesis by simp
  next
    case False
    with Cons.IH [OF wf] Cons.prems(2) kv show ?thesis by simp
  qed
qed simp

lemma counted_all: "counted (\<lambda>_. True) m = int (length m)"
  by (induction m) auto

subsection \<open>The invariant\<close>

abbreviation kline_slot :: "rpc_call \<Rightarrow> bool" where
  "kline_slot c \<equiv> rc_acquired c \<and> is_klines c"

abbreviation snapshot_slot :: "rpc_call \<Rightarrow> bool" where
  "snapshot_slot c \<equiv> rc_acquired c \<and> \<not> is_klines c"

text \<open>A call that may run the application holds a slot; a slot is taken after arrival and only without a rejection.\<close>

definition call_ok :: "rpc_call \<Rightarrow> bool" where
  "call_ok c \<longleftrightarrow> (rc_expectsEnd c \<longrightarrow> rc_acquired c) \<and> (rc_stage c = Arrived \<longrightarrow> \<not> rc_acquired c \<and> rc_reject c = None)
     \<and> (rc_stage c \<noteq> Arrived \<longrightarrow> (rc_acquired c \<longleftrightarrow> rc_reject c = None))"

definition rpc_inv :: "rpc_server \<Rightarrow> bool" where
  "rpc_inv s \<longleftrightarrow> gwf (rv_calls s) \<and> rv_owned s = counted (\<lambda>_. True) (rv_calls s)
     \<and> rv_klines s = counted kline_slot (rv_calls s) \<and> rv_snapshots s = counted snapshot_slot (rv_calls s)
     \<and> rv_klines s \<le> rg_MaxKlines (rv_settings s) \<and> rv_snapshots s \<le> rg_MaxSnapshots (rv_settings s)
     \<and> (\<forall>stream c. map_of (rv_calls s) stream = Some c \<longrightarrow> call_ok c)"

lemma set_call_simps [simp]:
  "rv_settings (set_call s stream c) = rv_settings s" "rv_stopped (set_call s stream c) = rv_stopped s"
  "rv_owned (set_call s stream c) = rv_owned s" "rv_snapshots (set_call s stream c) = rv_snapshots s"
  "rv_klines (set_call s stream c) = rv_klines s" "rv_log (set_call s stream c) = rv_log s"
  "rv_calls (set_call s stream c) = AList.update stream c (rv_calls s)"
  by (simp_all add: set_call_def)

lemma take_slot_simps [simp]:
  "rv_settings (take_slot c s) = rv_settings s" "rv_stopped (take_slot c s) = rv_stopped s"
  "rv_owned (take_slot c s) = rv_owned s" "rv_calls (take_slot c s) = rv_calls s" "rv_log (take_slot c s) = rv_log s"
  "rv_klines (take_slot c s) = rv_klines s + of_bool (is_klines c)"
  "rv_snapshots (take_slot c s) = rv_snapshots s + of_bool (\<not> is_klines c)"
  by (simp_all add: take_slot_def)

lemma free_slot_simps [simp]:
  "rv_settings (free_slot c s) = rv_settings s" "rv_stopped (free_slot c s) = rv_stopped s"
  "rv_owned (free_slot c s) = rv_owned s" "rv_calls (free_slot c s) = rv_calls s" "rv_log (free_slot c s) = rv_log s"
  "rv_klines (free_slot c s) = rv_klines s - of_bool (is_klines c)"
  "rv_snapshots (free_slot c s) = rv_snapshots s - of_bool (\<not> is_klines c)"
  by (simp_all add: free_slot_def)

text \<open>The operations on a call keep the method it was admitted for.\<close>

lemma detail_reason_Method [simp]: "re_Method (detail_reason st ev) = re_Method ev"
  by (simp add: detail_reason_def split: option.splits)

lemma is_klines_event [simp]:
  "is_klines (c\<lparr>rc_event := recordError e (rc_event c)\<rparr>) = is_klines c"
  "is_klines (c\<lparr>rc_event := recordNativeError st (rc_event c)\<rparr>) = is_klines c"
  "is_klines (c\<lparr>rc_stream := b\<rparr>) = is_klines c"
  "is_klines (c\<lparr>rc_acquired := b, rc_stage := g\<rparr>) = is_klines c"
  "is_klines (c\<lparr>rc_reject := r, rc_stage := g, rc_event := recordError e (rc_event c)\<rparr>) = is_klines c"
  by (simp_all add: is_klines_def recordError_def recordNativeError_def Let_def)

text \<open>What the callbacks and the interceptor leave alone.\<close>

definition same_slot :: "rpc_call \<Rightarrow> rpc_call \<Rightarrow> bool" where
  "same_slot c c' \<longleftrightarrow> rc_acquired c' = rc_acquired c \<and> is_klines c' = is_klines c \<and> rc_reject c' = rc_reject c
     \<and> (rc_stage c' = Arrived \<longleftrightarrow> rc_stage c = Arrived)"

lemma same_slot_intercept: "same_slot c (snd (intercept Size maximum work handler c))
    \<and> rc_expectsEnd (snd (intercept Size maximum work handler c)) = rc_expectsEnd c"
  by (simp add: same_slot_def intercept_def is_klines_def Let_def split: prod.splits)

lemma same_slot_HandleRPC: "same_slot c (HandleRPC ev c) \<and> rc_expectsEnd (HandleRPC ev c) = rc_expectsEnd c"
  by (simp add: same_slot_def HandleRPC_def is_klines_def Let_def split: rpc_stats.splits option.splits)

lemma same_slot_HandleConn: "same_slot c (HandleConn c)"
  by (simp add: same_slot_def HandleConn_def is_klines_def)

lemma same_slot_hand_over: "rc_stage c \<noteq> Arrived \<Longrightarrow> same_slot c (hand_over de h c) \<and> rc_expectsEnd (hand_over de h c) = rc_expectsEnd c"
  by (simp add: same_slot_def hand_over_def is_klines_def)

lemma rpc_inv_same:
  assumes "rpc_inv s" and "map_of (rv_calls s) stream = Some c" and "same_slot c c'"
    and "rc_expectsEnd c' \<Longrightarrow> rc_acquired c"
  shows "rpc_inv (set_call s stream c')"
proof -
  have ok: "call_ok c" using assms(1,2) by (auto simp: rpc_inv_def)
  have "call_ok c'" using ok assms(3,4) by (auto simp: call_ok_def same_slot_def)
  with assms(1-3) show ?thesis by (auto simp: rpc_inv_def counted_old same_slot_def)
qed

lemma rpc_inv_arrive:
  assumes "rpc_inv s" and "admit s = Some s'" and "\<not> ghas (rv_calls s) stream"
  shows "rpc_inv (set_call s' stream (new_call settings path started t d))"
proof -
  let ?c = "new_call settings path started t d"
  have "call_ok ?c" "\<not> rc_acquired ?c" by (simp_all add: call_ok_def new_call_def Let_def)
  with assms show ?thesis by (auto simp: rpc_inv_def admit_def counted_new split: if_splits)
qed

lemma rpc_inv_reserve:
  assumes "rpc_inv s" and "map_of (rv_calls s) stream = Some c" and "rc_stage c = Arrived"
  shows "rpc_inv (reserve_call s stream c n)"
proof -
  have ok: "call_ok c" using assms(1,2) by (auto simp: rpc_inv_def)
  with assms(3) have free: "\<not> rc_acquired c" "\<not> rc_expectsEnd c" by (auto simp: call_ok_def)
  show ?thesis
  proof (cases "slot_choice s c n")
    case None
    then have room: "if is_klines c then rv_klines s < rg_MaxKlines (rv_settings s) else rv_snapshots s < rg_MaxSnapshots (rv_settings s)"
      by (auto simp: slot_choice_def split: if_splits)
    let ?c = "c\<lparr>rc_acquired := True, rc_stage := Serving\<rparr>"
    have "call_ok ?c \<longleftrightarrow> rc_reject c = None" using free by (simp add: call_ok_def)
    moreover have "rc_reject c = None" using ok assms(3) by (simp add: call_ok_def)
    ultimately show ?thesis
      using assms(1,2) free room None by (auto simp: rpc_inv_def reserve_call_def counted_old)
  next
    case (Some e)
    have "call_ok (c\<lparr>rc_reject := Some e, rc_stage := Serving, rc_event := recordError e (rc_event c)\<rparr>)"
      using free by (simp add: call_ok_def)
    with assms(1,2) free Some show ?thesis by (auto simp: rpc_inv_def reserve_call_def counted_old)
  qed
qed

lemma rpc_inv_delete:
  assumes "rpc_inv s" and "map_of (rv_calls s) stream = Some c"
    and "rv_settings s' = rv_settings s" and "rv_calls s' = AList.delete stream (rv_calls s)" and "rv_owned s' = rv_owned s - 1"
    and "rv_klines s' = rv_klines s - of_bool (kline_slot c)" and "rv_snapshots s' = rv_snapshots s - of_bool (snapshot_slot c)"
  shows "rpc_inv s'"
proof -
  have wf: "gwf (rv_calls s)" using assms(1) by (simp add: rpc_inv_def)
  show ?thesis
    using assms(1,3-7) by (auto simp: rpc_inv_def counted_delete [OF wf assms(2)] of_bool_def split: if_splits)
qed

lemma rpc_inv_owner:
  assumes "rpc_inv s" and "map_of (rv_calls s) stream = Some c"
  shows "rpc_inv (owner_done s stream c elapsed)"
  by (rule rpc_inv_delete [OF assms]) (simp_all add: owner_done_def Let_def)

lemma rpc_inv_give_up:
  assumes "rpc_inv s" and "map_of (rv_calls s) stream = Some c" and "rc_stage c = Arrived"
  shows "rpc_inv (give_up s stream)"
proof -
  have "\<not> rc_acquired c" using assms by (auto simp: rpc_inv_def call_ok_def)
  then show ?thesis by (intro rpc_inv_delete [OF assms(1,2)]) (simp_all add: give_up_def)
qed

lemma rpc_inv_step: "rpc_step de s s' \<Longrightarrow> rpc_inv s \<Longrightarrow> rpc_inv s'"
proof (induction rule: rpc_step.induct)
  case (stop s)
  then show ?case by (simp add: rpc_inv_def StopAdmission_def)
next
  case (arrive s s' stream path started grpc_timeout ctx_deadline)
  then show ?case by (intro rpc_inv_arrive)
next
  case (unsupported s stream c)
  then show ?case by (intro rpc_inv_give_up)
next
  case (reserve s stream c n)
  then show ?case by (intro rpc_inv_reserve)
next
  case (bad_frame s stream c ctx_err early err)
  then show ?case by (intro rpc_inv_same) (auto simp: same_slot_def)
next
  case (native s stream c)
  then have "rc_acquired c" by (auto simp: rpc_inv_def call_ok_def)
  with native show ?case by (intro rpc_inv_same [OF _ _ same_slot_HandleConn]) auto
next
  case (handle s stream c work handler)
  then have "rc_acquired c" by (auto simp: rpc_inv_def call_ok_def may_run_def)
  with handle show ?case by (intro rpc_inv_same [OF _ _ same_slot_intercept [THEN conjunct1]]) auto
next
  case (callback s stream c ev)
  then have "rc_acquired c" by (auto simp: rpc_inv_def call_ok_def may_run_def)
  with callback show ?case by (intro rpc_inv_same [OF _ _ same_slot_HandleRPC [THEN conjunct1]]) auto
next
  case (hand_over s stream c h)
  then have "same_slot c (hand_over de h c) \<and> rc_expectsEnd (hand_over de h c) = rc_expectsEnd c" by (intro same_slot_hand_over) simp
  moreover have "rc_expectsEnd c \<Longrightarrow> rc_acquired c" using hand_over by (auto simp: rpc_inv_def call_ok_def)
  ultimately show ?case using hand_over by (intro rpc_inv_same) auto
next
  case (close s stream c)
  moreover have "rc_expectsEnd c \<Longrightarrow> rc_acquired c" using close by (auto simp: rpc_inv_def call_ok_def)
  ultimately show ?case by (intro rpc_inv_same) (auto simp: same_slot_def)
next
  case (owner s stream c elapsed)
  then show ?case by (intro rpc_inv_owner)
qed simp

lemma rpc_inv_NewServer: "NewServer r rs settings = Inr s \<Longrightarrow> rpc_inv s \<and> rv_settings s = settings"
  by (auto simp: NewServer_def rpc_inv_def split: if_splits)

lemma rpc_settings_step: "rpc_step de s s' \<Longrightarrow> rv_settings s' = rv_settings s"
  by (induction rule: rpc_step.induct)
    (auto simp: StopAdmission_def admit_def give_up_def reserve_call_def owner_done_def Let_def split: option.splits if_splits)

lemma rpc_inv_reach: "(rpc_step de)\<^sup>*\<^sup>* s s' \<Longrightarrow> rpc_inv s \<Longrightarrow> rpc_inv s' \<and> rv_settings s' = rv_settings s"
  by (induction rule: rtranclp_induct) (auto dest: rpc_inv_step rpc_settings_step)

subsection \<open>Draining\<close>

text \<open>Once admission has stopped it stays stopped and no stream is added.\<close>

lemma stopped_step:
  "rpc_step de s s' \<Longrightarrow> rv_stopped s \<Longrightarrow> rv_stopped s' \<and> (\<forall>stream. ghas (rv_calls s') stream \<longrightarrow> ghas (rv_calls s) stream)"
  by (induction rule: rpc_step.induct)
    (auto simp: StopAdmission_def admit_def give_up_def reserve_call_def owner_done_def Let_def ghas_def split: option.splits if_splits)

lemma stopped_reach:
  "(rpc_step de)\<^sup>*\<^sup>* s s' \<Longrightarrow> rv_stopped s \<Longrightarrow> rv_stopped s' \<and> (\<forall>stream. ghas (rv_calls s') stream \<longrightarrow> ghas (rv_calls s) stream)"
  by (induction rule: rtranclp_induct) (auto dest: stopped_step)

lemma idle_server:
  assumes "rpc_inv s" and "rv_owned s = 0"
  shows "rv_calls s = [] \<and> rv_klines s = 0 \<and> rv_snapshots s = 0"
proof -
  have "rv_calls s = []" using assms by (simp add: rpc_inv_def counted_all)
  with assms(1) show ?thesis by (simp add: rpc_inv_def)
qed

text \<open>\<open>ends de s stream\<close>: the server can reach a state without the stream and otherwise with the same streams.\<close>

definition ends :: "(net_error \<Rightarrow> bool) \<Rightarrow> rpc_server \<Rightarrow> nat \<Rightarrow> bool" where
  "ends de s stream \<longleftrightarrow> (\<exists>s'. (rpc_step de)\<^sup>*\<^sup>* s s' \<and> rv_calls s' = AList.delete stream (rv_calls s))"

lemma ends_now: "rpc_step de s s' \<Longrightarrow> rv_calls s' = AList.delete stream (rv_calls s) \<Longrightarrow> ends de s stream"
  by (auto simp: ends_def)

lemma ends_later: "rpc_step de s (set_call s stream c) \<Longrightarrow> ends de (set_call s stream c) stream \<Longrightarrow> ends de s stream"
  unfolding ends_def by (auto simp: AList.delete_update_same intro: converse_rtranclp_into_rtranclp)

lemma closed_call_ends:
  assumes "map_of (rv_calls s) stream = Some c" and "rc_stage c = Handed" and "rc_stream c"
  shows "ends de s stream"
proof -
  have last_step: "ends de s stream" if "map_of (rv_calls s) stream = Some c" "rc_stage c = Handed" "rc_stream c"
      "rc_expectsEnd c \<longrightarrow> rc_processingDone c" for s c
    by (rule ends_now [OF rpc_step.owner [OF that, of de 0]]) (simp add: owner_done_def Let_def)
  show ?thesis
  proof (cases "may_run c")
    case True
    let ?c = "HandleRPC (End None) c"
    have same: "rc_stage ?c = rc_stage c" "rc_stream ?c = rc_stream c" "rc_processingDone ?c"
      by (simp_all add: HandleRPC_def Let_def)
    show ?thesis
      by (rule ends_later [OF rpc_step.callback [OF assms(1) True, of de "End None"]], rule last_step [where c = ?c])
        (use assms(2,3) same in simp_all)
  next
    case False
    with assms show ?thesis by (intro last_step) (auto simp: may_run_def)
  qed
qed

lemma handed_call_ends:
  assumes "map_of (rv_calls s) stream = Some c" and "rc_stage c = Handed"
  shows "ends de s stream"
  by (rule ends_later [OF rpc_step.close [OF assms(1)]], rule closed_call_ends [where c = "c\<lparr>rc_stream := True\<rparr>"])
    (use assms(2) in simp_all)

lemma call_can_end:
  fixes h :: http_end
  assumes "map_of (rv_calls s) stream = Some c"
  shows "ends de s stream"
proof (cases "rc_stage c")
  case Arrived
  then show ?thesis by (intro ends_now [OF rpc_step.unsupported [OF assms]]) (simp_all add: give_up_def)
next
  case Serving
  show ?thesis
    by (rule ends_later [OF rpc_step.hand_over [OF assms Serving, where h = h]], rule handed_call_ends [where c = "hand_over de h c"])
      (simp_all add: hand_over_def)
next
  case Handed
  with assms show ?thesis by (rule handed_call_ends)
qed

lemma server_can_drain: "\<exists>s'. (rpc_step de)\<^sup>*\<^sup>* s s' \<and> rv_calls s' = []"
proof (induction "length (rv_calls s)" arbitrary: s rule: less_induct)
  case less
  show ?case
  proof (cases "rv_calls s")
    case Nil
    then show ?thesis by auto
  next
    case (Cons kv m)
    obtain stream c where kv: "kv = (stream, c)" by (cases kv)
    then have "map_of (rv_calls s) stream = Some c" using Cons by simp
    from call_can_end [OF this, of de] obtain s1 where s1: "(rpc_step de)\<^sup>*\<^sup>* s s1" "rv_calls s1 = AList.delete stream (rv_calls s)"
      unfolding ends_def by blast
    have "length (AList.delete stream m) \<le> length m" by (rule AList.length_delete_le)
    then have "length (rv_calls s1) < length (rv_calls s)" using s1(2) Cons kv by simp
    from less.hyps [OF this] s1(1) show ?thesis by (meson rtranclp_trans)
  qed
qed

section \<open>Outcomes and deadlines\<close>

text \<open>The smaller of a time and an optional time.\<close>

definition min_time :: "time \<Rightarrow> time option \<Rightarrow> time" where
  "min_time t d = (case d of None \<Rightarrow> t | Some u \<Rightarrow> min t u)"

lemma shorten_min: "shorten d deadline = (min_time (fst d) deadline, min_time (snd d) deadline)"
  by (cases d) (auto simp: shorten_def min_time_def split: option.splits)

lemma digit_range: "digit ch \<Longrightarrow> of_char ch - 48 \<le> (9::nat)"
  by (auto simp: digit_def)

lemma digits_value_bound: "list_all digit s \<Longrightarrow> 0 \<le> digits_value s \<and> digits_value s < 10 ^ length s"
proof (induction s rule: rev_induct)
  case (snoc ch s)
  have "digits_value (s @ [ch]) = 10 * digits_value s + int (of_char ch - 48)" by (simp add: digits_value_def)
  with snoc digit_range [of ch] show ?case by (auto simp del: of_nat_diff)
qed (simp add: digits_value_def)

lemma timeout_unit_pos: "timeout_unit u = Some unit \<Longrightarrow> 0 < unit"
  by (auto simp: timeout_unit_def Hour_def Minute_def Second_def split: if_splits)

text \<open>The timeout of a well-formed header, without overflow.\<close>

lemma clientTimeout_parsed:
  assumes "digits \<noteq> []" and "length digits \<le> 8" and "list_all digit digits" and "timeout_unit u = Some unit"
  shows "clientTimeout (digits @ [u]) = Some (min max_int64 (digits_value digits * unit))"
proof -
  have n: "0 \<le> digits_value digits" "digits_value digits < 10 ^ length digits" using digits_value_bound [OF assms(3)] by simp_all
  have "(10::int) ^ length digits \<le> 10 ^ 8" using assms(2) by (intro power_increasing) simp_all
  with n have "ParseUint 64 digits = Some (digits_value digits)"
    using assms(1,3) by (simp add: ParseUint_def)
  moreover have "0 < unit" using assms(4) by (rule timeout_unit_pos)
  then have "digits_value digits > max_int64 sdiv unit \<longleftrightarrow> digits_value digits * unit > max_int64"
    by (simp add: sdiv_nonneg not_le [symmetric] le_div_iff)
  ultimately show ?thesis
    using assms by (cases digits) (auto simp: clientTimeout_def Let_def min_def)
qed

lemma clientTimeout_wellformed:
  assumes "clientTimeout value = Some d"
  obtains digits u unit where "value = digits @ [u]" and "digits \<noteq> []" and "length digits \<le> 8" and "list_all digit digits"
    and "timeout_unit u = Some unit" and "d = min max_int64 (digits_value digits * unit)"
proof -
  have len: "2 \<le> length value" "length value \<le> 9" using assms by (auto simp: clientTimeout_def split: if_splits)
  then have split: "value = butlast value @ [List.last value]" by (cases "value") simp_all
  from assms len obtain unit where unit: "timeout_unit (List.last value) = Some unit" "list_all digit (butlast value)"
    by (auto simp: clientTimeout_def Let_def split: option.splits if_splits)
  have digits: "butlast value \<noteq> []" "length (butlast value) \<le> 8" using len by (auto simp flip: length_greater_0_conv)
  have "clientTimeout (butlast value @ [List.last value]) = Some (min max_int64 (digits_value (butlast value) * unit))"
    by (rule clientTimeout_parsed [OF digits unit(2,1)])
  with split assms have "d = min max_int64 (digits_value (butlast value) * unit)" by simp
  with that split digits unit show thesis by blast
qed


lemma code_of_number: "code_of (code_number c) = c"
  by (cases c) (simp_all add: code_of_def code_number_def)








section \<open>Properties\<close>

definition demo_rpc_settings :: rpc_Settings where
  "demo_rpc_settings = \<lparr>rg_SnapshotTimeout = 5 * Second, rg_KlineTimeout = 30 * Second, rg_WriteGrace = Second,
     rg_MaxSnapshots = 2, rg_MaxKlines = 1, rg_MaxRequestBytes = 4096, rg_MaxResponseBytes = 65536, rg_MaxHeaderBytes = 8192,
     rg_ReadHeaderTimeout = Second, rg_IdleTimeout = 60 * Second\<rparr>"

definition demo_server :: rpc_server where
  "demo_server = projr (NewServer True True demo_rpc_settings)"

text \<open>A candle call that has arrived, holds a slot, and is in its native handler.\<close>

definition demo_call :: rpc_call where
  "demo_call = new_call demo_rpc_settings ''/marketdata.v1.MarketDataService/GetKlines'' (ex_open 0) ''10S'' None"

definition demo_arrived :: rpc_server where
  "demo_arrived = set_call (the (admit demo_server)) 7 demo_call"

definition demo_reserved :: rpc_server where
  "demo_reserved = reserve_call demo_arrived 7 demo_call 500"

definition demo_running :: rpc_server where
  "demo_running = set_call demo_reserved 7 (HandleConn (the (map_of (rv_calls demo_reserved) 7)))"

lemma demo_NewServer: "NewServer True True demo_rpc_settings = Inr demo_server"
proof -
  have "\<not> isl (NewServer True True demo_rpc_settings)" by code_simp
  then show ?thesis by (simp add: demo_server_def)
qed

lemma demo_runs: "(rpc_step (\<lambda>_. False))\<^sup>*\<^sup>* demo_server demo_running"
proof -
  have "admit demo_server = Some (the (admit demo_server)) \<and> \<not> ghas (rv_calls demo_server) 7
      \<and> rv_settings demo_server = demo_rpc_settings"
    by (simp add: demo_server_def NewServer_def demo_rpc_settings_def admit_def ghas_def Second_def)
  then have 1: "rpc_step (\<lambda>_. False) demo_server demo_arrived"
    unfolding demo_arrived_def demo_call_def by (metis rpc_step.arrive)
  have "map_of (rv_calls demo_arrived) 7 = Some demo_call \<and> rc_stage demo_call = Arrived"
    by (simp add: demo_arrived_def demo_call_def new_call_def Let_def)
  then have 2: "rpc_step (\<lambda>_. False) demo_arrived demo_reserved"
    unfolding demo_reserved_def by (metis rpc_step.reserve)
  have "slot_choice demo_arrived demo_call 500 = None" by code_simp
  then have c: "map_of (rv_calls demo_reserved) 7 = Some (demo_call\<lparr>rc_acquired := True, rc_stage := Serving\<rparr>)"
    by (simp add: demo_reserved_def reserve_call_def)
  have "rpc_step (\<lambda>_. False) demo_reserved demo_running"
    unfolding demo_running_def c option.sel
    by (rule rpc_step.native [OF c]) (simp_all add: demo_call_def new_call_def Let_def)
  with 1 2 show ?thesis by (meson converse_rtranclp_into_rtranclp rtranclp.rtrancl_refl)
qed

text \<open>
  C35. In every state the server can reach, at most \<open>MaxKlines\<close> candle calls and \<open>MaxSnapshots\<close> other calls
  can be inside the application, also after their streams were cancelled: each holds a slot until its native
  handler has ended. The slot channels count exactly the holders, the wait group counts exactly the
  admitted calls.
\<close>

theorem rpc_capacity:
  assumes "NewServer has_root has_readers settings = Inr s0" and "(rpc_step deadline_error)\<^sup>*\<^sup>* s0 s"
  shows "counted (\<lambda>c. may_run c \<and> is_klines c) (rv_calls s) \<le> rg_MaxKlines settings
    \<and> counted (\<lambda>c. may_run c \<and> \<not> is_klines c) (rv_calls s) \<le> rg_MaxSnapshots settings
    \<and> rv_klines s = counted kline_slot (rv_calls s) \<and> rv_snapshots s = counted snapshot_slot (rv_calls s)
    \<and> rv_owned s = int (length (rv_calls s))"
proof -
  have inv: "rpc_inv s" and settings: "rv_settings s = settings"
    using rpc_inv_reach [OF assms(2)] rpc_inv_NewServer [OF assms(1)] by simp_all
  have run: "rc_acquired c" if "(stream, c) \<in> set (rv_calls s)" "may_run c" for stream c
    using that inv by (auto simp: rpc_inv_def gwf_map_of may_run_def call_ok_def)
  have "counted (\<lambda>c. may_run c \<and> is_klines c) (rv_calls s) \<le> counted kline_slot (rv_calls s)"
    "counted (\<lambda>c. may_run c \<and> \<not> is_klines c) (rv_calls s) \<le> counted snapshot_slot (rv_calls s)"
    by (rule counted_mono, use run in blast)+
  with inv settings show ?thesis by (simp add: rpc_inv_def counted_all)
qed

theorem rpc_capacity_witness:
  "counted (\<lambda>c. may_run c \<and> is_klines c) (rv_calls demo_running) = 1 \<and> rv_klines demo_running = 1
   \<and> rg_MaxKlines demo_rpc_settings = 1 \<and> counted kline_slot (rv_calls demo_running) = 1"
proof -
  have "counted (\<lambda>c. may_run c \<and> is_klines c) (rv_calls demo_running) = 1" "counted kline_slot (rv_calls demo_running) = 1"
    by code_simp+
  with rpc_capacity [OF demo_NewServer demo_runs] show ?thesis by (simp add: demo_rpc_settings_def)
qed

text \<open>
  C36. After \<open>StopAdmission\<close> no call is ever admitted again, whatever the interleaving; once the wait group is
  back at zero no call and no slot is left; and the server can always get there, since every open call ends when
  its stream closes and its handler ends.
\<close>

theorem rpc_drain:
  assumes "NewServer has_root has_readers settings = Inr s0" and "(rpc_step deadline_error)\<^sup>*\<^sup>* s0 s"
    and "(rpc_step deadline_error)\<^sup>*\<^sup>* (StopAdmission s) s'"
  shows "admit s' = None \<and> (\<forall>stream. ghas (rv_calls s') stream \<longrightarrow> ghas (rv_calls s) stream)
    \<and> (rv_owned s' = 0 \<longrightarrow> rv_calls s' = [] \<and> rv_klines s' = 0 \<and> rv_snapshots s' = 0)
    \<and> (\<exists>s''. (rpc_step deadline_error)\<^sup>*\<^sup>* s' s'' \<and> rv_owned s'' = 0)"
proof -
  have inv: "rpc_inv s" using rpc_inv_reach [OF assms(2)] rpc_inv_NewServer [OF assms(1)] by simp
  have inv': "rpc_inv s'"
    using rpc_inv_reach [OF assms(3)] rpc_inv_step [OF rpc_step.stop inv] by blast
  have stopped: "rv_stopped s' \<and> (\<forall>stream. ghas (rv_calls s') stream \<longrightarrow> ghas (rv_calls s) stream)"
    using stopped_reach [OF assms(3)] by (simp add: StopAdmission_def)
  obtain s'' where s'': "(rpc_step deadline_error)\<^sup>*\<^sup>* s' s''" "rv_calls s'' = []" using server_can_drain by blast
  with rpc_inv_reach [OF s''(1) inv'] have "rv_owned s'' = 0" by (simp add: rpc_inv_def)
  with s''(1) stopped idle_server [OF inv'] show ?thesis by (auto simp: admit_def)
qed

theorem rpc_drain_witness:
  "admit (StopAdmission demo_running) = None \<and> (\<exists>s''. (rpc_step (\<lambda>_. False))\<^sup>*\<^sup>* (StopAdmission demo_running) s'' \<and> rv_owned s'' = 0)"
  using rpc_drain [OF demo_NewServer demo_runs rtranclp.rtrancl_refl] by blast


text \<open>
  A call whose header carries a gRPC timeout of one to eight digits and a unit works no longer than
  that timeout, the configured lifetime of its method and the deadline of its context, whichever comes first,
  and its writes end at most the grace period later; the product of digits and unit saturates instead of
  overflowing.
\<close>

theorem rpc_deadlines:
  assumes "digits \<noteq> []" and "length digits \<le> 8" and "list_all digit digits" and "timeout_unit u = Some unit"
    and "lifetime = (if name = ''GetKlines'' then rg_KlineTimeout settings else rg_SnapshotTimeout settings)"
    and "client = started + min max_int64 (digits_value digits * unit)" and "0 < rg_WriteGrace settings"
    and "call_deadlines settings name started (digits @ [u]) (Some limit) = (work, write)"
  shows "work = Min {started + lifetime, client, limit} \<and> write = Min {started + lifetime + rg_WriteGrace settings, client, limit}
    \<and> work \<le> write \<and> write \<le> work + rg_WriteGrace settings"
proof -
  have eq: "work = min (min (started + lifetime) client) limit"
    "write = min (min (started + (lifetime + rg_WriteGrace settings)) client) limit"
    using assms(8) by (simp_all add: call_deadlines_def clientTimeout_parsed [OF assms(1-4)] shorten_min min_time_def Let_def assms(5,6))
  then have "work = Min {started + lifetime, client, limit}" "write = Min {started + lifetime + rg_WriteGrace settings, client, limit}"
    by (simp_all add: min.assoc add.assoc)
  with eq assms(7) show ?thesis by (simp add: min_def)
qed

theorem rpc_deadlines_witness:
  "call_deadlines demo_rpc_settings ''GetKlines'' (ex_open 0) ''10S'' (Some (ex_open 1))
     = (ex_open 0 + 10 * Second, ex_open 0 + 10 * Second)"
proof -
  let ?d = "call_deadlines demo_rpc_settings ''GetKlines'' (ex_open 0) (''10'' @ [CHR ''S'']) (Some (ex_open 1))"
  have "''10'' \<noteq> []" "length ''10'' \<le> 8" "list_all digit ''10''" "timeout_unit (CHR ''S'') = Some Second"
    "0 < rg_WriteGrace demo_rpc_settings" by code_simp+
  note bound = rpc_deadlines [OF this(1-4) refl refl this(5), of _ "ex_open 0" "ex_open 1" "fst ?d" "snd ?d", simplified prod.collapse, OF refl]
  have "digits_value ''10'' = 10" by code_simp
  with bound show ?thesis
    by (simp add: prod_eq_iff demo_rpc_settings_def Second_def ex_open_def of_Unix_def)
qed

end
