(* ===== verification/Bootstrap.thy ===== *)
theory Bootstrap
  imports Kline_Service Current_Adapters Upstream_Transport Grpc_Server
begin

text \<open>
  How the process is put together: the composition of \<open>src/internal/bootstrap\<close> (\<open>instruments.go\<close>, \<open>current.go\<close>,
  \<open>klines.go\<close>, \<open>operations.go\<close>, \<open>exchanges.go\<close>, \<open>grpc.go\<close>, \<open>server.go\<close>) and the operational HTTP handler of
  \<open>src/internal/transport/http\<close>.

  The constructors of the other theories are called with the values the code takes from the configuration.
  Log lines, metrics and traces are left out; of the telemetry only the reports remain, as values.
\<close>

section \<open>Scopes and settings\<close>

definition enabledScopes :: "Config \<Rightarrow> Scope list" where
  "enabledScopes cfg =
     (let binance = xs_Binance (c_Exchanges cfg); bybit = xs_Bybit (c_Exchanges cfg)
      in (if bn_Enabled binance then map (\<lambda>market. \<lparr>sc_Exchange = ExchangeBinance, sc_Market = market\<rparr>) (bn_Markets binance) else [])
       @ (if yb_Enabled bybit then map (\<lambda>market. \<lparr>sc_Exchange = ExchangeBybit, sc_Market = market\<rparr>) (yb_Markets bybit) else []))"

definition transportScope :: "Scope \<Rightarrow> upstream_Scope" where
  "transportScope scope =
     (if sc_Exchange scope = ExchangeBinance then (if sc_Market scope = MarketLinear then BinanceLinear else BinanceSpot) else Bybit)"

definition configuredGRPC :: "Config \<Rightarrow> rpc_Settings" where
  "configuredGRPC cfg = \<lparr>
     rg_SnapshotTimeout = sr_SnapshotTimeout (c_Server cfg), rg_KlineTimeout = kl_RequestTimeout (c_Klines cfg),
     rg_WriteGrace = WriteGrace, rg_MaxSnapshots = sr_MaxSnapshotRequests (c_Server cfg), rg_MaxKlines = kl_MaxCallers (c_Klines cfg),
     rg_MaxRequestBytes = gs_MaxRequestBytes (sr_GRPC (c_Server cfg)), rg_MaxResponseBytes = gs_MaxResponseBytes (sr_GRPC (c_Server cfg)),
     rg_MaxHeaderBytes = gs_MaxHeaderBytes (sr_GRPC (c_Server cfg)),
     rg_ReadHeaderTimeout = hs_ReadHeaderTimeout (sr_HTTP (c_Server cfg)), rg_IdleTimeout = hs_IdleTimeout (sr_HTTP (c_Server cfg))\<rparr>"

definition collectStatistics :: "Config \<Rightarrow> bool" where
  "collectStatistics cfg \<longleftrightarrow> sx_Enabled (oy_Stats (c_Observability cfg)) \<or> sx_EndpointEnabled (oy_Stats (c_Observability cfg))
     \<or> pm_Enabled (oy_Prometheus (c_Observability cfg))"

text \<open>A loop that constructs one value per element; the first failure ends it.\<close>

fun collect :: "('a \<Rightarrow> 'b result) \<Rightarrow> 'a list \<Rightarrow> 'b list result" where
  "collect f [] = Inr []"
| "collect f (x # xs) =
     (case f x of
        Inl e \<Rightarrow> Inl e
      | Inr y \<Rightarrow> (case collect f xs of Inl e \<Rightarrow> Inl e | Inr ys \<Rightarrow> Inr (y # ys)))"

section \<open>Candles\<close>

definition kline_provider :: "Exchange \<Rightarrow> provider" where
  "kline_provider exchange =
     (if exchange = ExchangeBinance then \<lparr>pv_Exchange = ExchangeBinance, pv_SupportedTimeframes = binance_SupportedTimeframes\<rparr>
      else \<lparr>pv_Exchange = ExchangeBybit, pv_SupportedTimeframes = bybit_SupportedTimeframes\<rparr>)"

definition kline_scope :: "Config \<Rightarrow> Scope \<Rightarrow> ScopeSettings" where
  "kline_scope cfg scope =
     (let limits = (if sc_Exchange scope = ExchangeBinance then pg_MaxCandlesPerRequest (bn_Klines (xs_Binance (c_Exchanges cfg)))
            else pg_MaxCandlesPerRequest (yb_Klines (xs_Bybit (c_Exchanges cfg))));
          limit = (if sc_Market scope = MarketLinear then mk_Linear limits else mk_Spot limits)
      in \<lparr>ss_Scope = scope, ss_Provider = Some (kline_provider (sc_Exchange scope)), ss_PageLimit = limit\<rparr>)"

definition klineService :: "Config \<Rightarrow> kline_service result" where
  "klineService cfg = NewService True (map (kline_scope cfg) (enabledScopes cfg)) \<lparr>
     set_HistoryCandles = kl_MaxHistoryCandles (c_Klines cfg), set_MaxCallers = kl_MaxCallers (c_Klines cfg),
     set_MaxActiveFills = kl_MaxActiveFills (c_Klines cfg), set_MaxActiveFillsPerExchange = kl_MaxActiveFillsPerExchange (c_Klines cfg),
     set_MaxAttempts = la_MaxAttempts (ls_Klines (up_LanesPerExchange (c_Upstream cfg))), set_FillTimeout = kl_FillTimeout (c_Klines cfg)\<rparr>"

text \<open>The scopes the cleanup worker visits: every supported interval of every enabled scope.\<close>

definition retention_targets :: "Config \<Rightarrow> candleScope list result" where
  "retention_targets cfg =
     (case collect (\<lambda>scope. case pv_SupportedTimeframes (kline_provider (sc_Exchange scope)) (sc_Market scope) of
          Inl e \<Rightarrow> Inl e
        | Inr intervals \<Rightarrow> Inr (map (Pair scope) intervals)) (enabledScopes cfg) of
        Inl e \<Rightarrow> Inl e
      | Inr scopes \<Rightarrow> Inr (concat scopes))"

definition cleanup_worker :: "Config \<Rightarrow> Retention result" where
  "cleanup_worker cfg =
     (case retention_targets cfg of
        Inl e \<Rightarrow> Inl e
      | Inr scopes \<Rightarrow> NewRetention True scopes (kl_MaxHistoryCandles (c_Klines cfg)))"

text \<open>\<open>operationWorkers\<close>: the cleanup worker, and the routes the statistics are served on.\<close>

definition operationWorkers :: "Config \<Rightarrow> (Retention \<times> string list) result" where
  "operationWorkers cfg =
     (case cleanup_worker cfg of
        Inl e \<Rightarrow> Inl e
      | Inr retention \<Rightarrow>
          Inr (retention,
            (if pm_Enabled (oy_Prometheus (c_Observability cfg)) then [pm_Path (oy_Prometheus (c_Observability cfg))] else [])
            @ (if sx_EndpointEnabled (oy_Stats (c_Observability cfg)) then [''/debug/stats''] else [])))"

text \<open>The storage of the process: only the candle repository can refuse its settings.\<close>

definition newLocalState :: "int \<Rightarrow> error option" where
  "newLocalState historyCandles =
     (case (NewKlineRepository historyCandles True :: rat klineRepository result) of
        Inl e \<Rightarrow> Some (Wrapped ''initialize candle storage'' [e])
      | Inr klines \<Rightarrow> None)"

text \<open>
  \<open>klineOperations.Run\<close>: a fill runs inside an operation of the controller. What \<open>run\<close> does with the
  controller and answers is an argument; \<open>None\<close> is a panic.
\<close>

definition klineOperations_Run :: "Scope \<Rightarrow> nat \<Rightarrow> (duration \<Rightarrow> Controller \<Rightarrow> Controller \<times> error option option) \<Rightarrow> Controller
    \<Rightarrow> Controller \<times> error option" where
  "klineOperations_Run scope fresh run c =
     (case Begin c (transportScope scope) (int (op_index Klines)) fresh of
        (c, Inl err) \<Rightarrow> (c, Some err)
      | (c, Inr timeout) \<Rightarrow>
        (case run timeout c of
           (c, None) \<Rightarrow> (c, Some (App ErrInternal))
         | (c, Some err) \<Rightarrow> (c, err)))"

section \<open>Refresh workers\<close>

text \<open>The cycles of a worker: an operation behind a gate, or the two schedules of a catalogue.\<close>

datatype worker_cycles = Bounded upstream_Scope Operation CycleGate | Catalog CatalogCycle

definition instrumentProvider :: "Scope \<Rightarrow> error option" where
  "instrumentProvider scope =
     (if scope \<in> {\<lparr>sc_Exchange = ExchangeBinance, sc_Market = MarketSpot\<rparr>, \<lparr>sc_Exchange = ExchangeBinance, sc_Market = MarketLinear\<rparr>,
        \<lparr>sc_Exchange = ExchangeBybit, sc_Market = MarketSpot\<rparr>, \<lparr>sc_Exchange = ExchangeBybit, sc_Market = MarketLinear\<rparr>}
      then None else Some (App ErrUnsupportedOperation))"

definition instrument_worker :: "Config \<Rightarrow> Scope \<Rightarrow> worker_cycles result" where
  "instrument_worker cfg scope =
     (case instrumentProvider scope of
        Some e \<Rightarrow> Inl e
      | None \<Rightarrow>
        (let retry = hc_Retry (c_HTTPClient cfg);
             interval = (if sc_Exchange scope = ExchangeBinance then rf_RefreshInterval (bn_Instruments (xs_Binance (c_Exchanges cfg)))
               else rf_RefreshInterval (yb_Instruments (xs_Bybit (c_Exchanges cfg))))
         in case NewCycleGate True True retry interval of
              Inl e \<Rightarrow> Inl (Wrapped ''initialize instrument cycle'' [e])
            | Inr gate \<Rightarrow>
                if sc_Exchange scope = ExchangeBinance then
                  (case NewCatalogCycle True True (transportScope scope) retry interval
                       (bu_CatalogRefreshInterval (up_Binance (c_Upstream cfg))) of
                     Inl e \<Rightarrow> Inl (Wrapped ''initialize catalog cycle'' [e])
                   | Inr cycles \<Rightarrow> Inr (Catalog cycles))
                else Inr (Bounded (transportScope scope) Instruments gate)))"

definition instrumentWorkers :: "Config \<Rightarrow> worker_cycles list result" where
  "instrumentWorkers cfg = collect (instrument_worker cfg) (enabledScopes cfg)"

text \<open>A ticker worker per scope, and one for the statistics unless the ticker collection carries them.\<close>

definition current_worker :: "Config \<Rightarrow> Scope \<Rightarrow> worker_cycles list result" where
  "current_worker cfg scope =
     (let retry = hc_Retry (c_HTTPClient cfg);
          capabilities = (if sc_Exchange scope = ExchangeBinance then binance_Capabilities else bybit_Capabilities)
      in case NewCycleGate True True retry 0 of
           Inl e \<Rightarrow> Inl e
         | Inr gate \<Rightarrow>
             if MarketStatsWithTicker capabilities then Inr [Bounded (transportScope scope) Tickers gate]
             else (case NewCycleGate True True retry (rf_RefreshInterval (bn_MarketStats (xs_Binance (c_Exchanges cfg)))) of
                Inl e \<Rightarrow> Inl e
              | Inr statsGate \<Rightarrow> Inr [Bounded (transportScope scope) Tickers gate, Bounded (transportScope scope) MarketStats statsGate]))"

definition currentWorkers :: "Config \<Rightarrow> worker_cycles list result" where
  "currentWorkers cfg =
     (case collect (current_worker cfg) (enabledScopes cfg) of Inl e \<Rightarrow> Inl e | Inr workers \<Rightarrow> Inr (concat workers))"

section \<open>Exchange clients\<close>

text \<open>
  The transports the clients are built on. The base URLs are constants and pass the checks of the client
  constructors, which only wrap the exchange SDKs.
\<close>

definition exchange_transports :: "go_parsers \<Rightarrow> Config \<Rightarrow> bool \<Rightarrow> Controller \<Rightarrow> Transport list result" where
  "exchange_transports go cfg observed admission =
     (let binance = xs_Binance (c_Exchanges cfg); bybit = xs_Bybit (c_Exchanges cfg);
          wanted = (if bn_Enabled binance
              then map fst (filter (\<lambda>(scope, market). market \<in> set (bn_Markets binance)) [(BinanceSpot, ''spot''), (BinanceLinear, ''linear'')])
              else []) @ (if yb_Enabled bybit then [Bybit] else [])
      in collect (\<lambda>scope. NewTransport go True admission scope cfg observed) wanted)"

definition newExchangeClients :: "go_parsers \<Rightarrow> Config \<Rightarrow> bool \<Rightarrow> time \<Rightarrow> (Controller \<times> Transport list) result" where
  "newExchangeClients go cfg observed now =
     (case New go cfg True now of
        Inl e \<Rightarrow> Inl e
      | Inr admission \<Rightarrow>
        (case exchange_transports go cfg observed admission of
           Inl e \<Rightarrow> Inl e
         | Inr transports \<Rightarrow> Inr (admission, transports)))"

section \<open>A validated budget is feasible\<close>

lemma percentage_nonpos: "val \<le> 0 \<Longrightarrow> 0 \<le> p \<Longrightarrow> percentage val p \<le> 0"
proof -
  assume v: "val \<le> 0" and p: "0 \<le> p"
  have quot: "x sdiv 100 \<le> 0" and "x smod 100 \<le> 0" if "x \<le> 0" for x :: int
    using that by (auto simp: signed_divide_int_def signed_modulo_int_def sgn_if)
  with v p show ?thesis
    unfolding percentage_def by (intro add_nonpos_nonpos quot) (simp_all add: mult_nonpos_nonneg)
qed

lemma percentage_pos: "1 \<le> percentage val p \<Longrightarrow> 0 \<le> p \<Longrightarrow> 0 < val"
  using percentage_nonpos [of val p] by force

text \<open>The allowance of one operation as validation computes it, and the shares the controller uses.\<close>

definition scope_shares :: "Config \<Rightarrow> upstream_Scope \<Rightarrow> Operation \<Rightarrow> int" where
  "scope_shares c sid = (let sh = share_of (up_OperationSharePercent (c_Upstream c))
     in if sid = Bybit then sh(Tickers := sh Tickers + sh MarketStats, MarketStats := 0) else sh)"

definition stop_line :: "Config \<Rightarrow> upstream_Scope \<Rightarrow> int" where
  "stop_line c sid = (if sid = Bybit then 100 - up_SafetyMarginPercent (c_Upstream c) else bu_StopThresholdPercent (up_Binance (c_Upstream c)))"

lemma scope_shares_range:
  assumes "validateSharesAndCooldowns c = None"
  shows "0 \<le> scope_shares c sid op \<and> scope_shares c sid op \<le> 100"
  using valid_shares [OF assms] by (cases op) (auto simp: scope_shares_def Let_def share_of_def)

lemma allowances_split:
  assumes "allowances c w (sid = Bybit) = (common, a)" and "cw_SplitOperations w"
  shows "common = percentage (cw_Limit w) (stop_line c sid)" and "share_of a op = percentage common (scope_shares c sid op)"
  using assms by (auto simp: allowances_def Let_def stop_line_def scope_shares_def share_of_def split: Operation.splits if_splits)

lemma allowances_common: "fst (allowances c w (sid = Bybit)) = percentage (cw_Limit w) (stop_line c sid)"
  by (auto simp: allowances_def Let_def stop_line_def)

text \<open>What the two descriptions of a scope must have in common for the budget checks to agree.\<close>

definition same_budget :: "upstream_Scope \<Rightarrow> cfg_Scope \<Rightarrow> int Operations \<Rightarrow> (Operation \<Rightarrow> int) \<Rightarrow> bool" where
  "same_budget sid source costs maxCosts \<longleftrightarrow>
     1 \<le> o_Tickers costs \<and> (\<forall>key d. map_of (cs_Windows source) key = Some d \<longrightarrow>
        (key = ''funding_requests_5m'' \<longleftrightarrow> \<not> cw_SplitOperations d)
      \<and> (if cw_Unit d = ''weight'' then \<forall>op. maxCosts op \<le> share_of costs op else cw_Unit d = ''requests''))"

lemma effective_limit:
  assumes "map_of (cs_Windows source) key = Some d" and "0 < min (cw_Limit w) (cw_Limit d)"
  shows "w_limit (scope_window (c_Upstream c) sid source key w) = percentage (min (cw_Limit w) (cw_Limit d)) (stop_line c sid)"
  using assms by (auto simp: scope_window_def Let_def stop_line_def percent_percentage min_def)

lemma window_feasible:
  assumes valid: "validateSharesAndCooldowns c = None" and same: "same_budget sid source costs maxCosts"
    and ok: "window_error c name source True (sid = Bybit) costs (key, w) = None"
    and cap: "\<And>d. sid = Bybit \<Longrightarrow> map_of (cs_Windows source) key = Some d \<Longrightarrow> cw_Limit w \<le> cw_Limit d"
    and s: "ss_shares s = scope_shares c sid" "ss_maxCosts s = maxCosts"
  shows "feasible s (scope_window (c_Upstream c) sid source key w)"
proof -
  obtain d where d: "map_of (cs_Windows source) key = Some d" "cw_Unit w = cw_Unit d" "cw_SplitOperations w = cw_SplitOperations d"
    using ok by (auto simp: window_error_def Let_def split: option.splits if_splits)
  define v where "v = w\<lparr>cw_Limit := min (cw_Limit w) (cw_Limit d)\<rparr>"
  have v: "(if \<not> sid = Bybit then w\<lparr>cw_Limit := min (cw_Limit w) (cw_Limit d)\<rparr> else w) = v"
    using cap [OF _ d(1)] by (auto simp: v_def min_def)
  obtain common a where ca: "allowances c v (sid = Bybit) = (common, a)" by (cases "allowances c v (sid = Bybit)")
  have common: "common = percentage (min (cw_Limit w) (cw_Limit d)) (stop_line c sid)"
    using allowances_common [of c v sid] ca by (simp add: v_def)
  have line: "0 \<le> stop_line c sid" using valid_shares [OF valid] by (simp add: stop_line_def)
  let ?cost = "if cw_Unit w = ''requests''
      then \<lparr>o_Tickers = (if key = ''raw_requests_5m'' then 2 else 1), o_Klines = 1, o_Instruments = 1,
            o_MarketStats = (if sid = Bybit then 0 else 1)\<rparr> else costs"
  note checks = ok [unfolded window_error_def Let_def fst_conv snd_conv d(1) option.case v ca prod.case]
  have whole: "1 \<le> common" if "\<not> cw_SplitOperations w"
    using checks that d(2,3) by (auto simp: v_def split: if_splits)
  have parts: "share_of ?cost op \<le> share_of a op" if "cw_SplitOperations w" for op
    using checks that d(2,3) by (cases op) (auto simp: v_def share_of_def split: if_splits)
  have share: "share_of a op = percentage common (scope_shares c sid op)" if "cw_SplitOperations w" for op
    using allowances_split(2) [OF ca] that by (simp add: v_def)
  have pos: "1 \<le> common"
  proof (cases "cw_SplitOperations w")
    case True
    have "1 \<le> share_of ?cost Tickers" using same by (simp add: share_of_def same_budget_def)
    with parts [OF True, of Tickers] share [OF True, of Tickers] have "1 \<le> percentage common (scope_shares c sid Tickers)" by simp
    then show ?thesis using percentage_pos scope_shares_range [OF valid, of sid Tickers] by force
  qed (rule whole)
  then have "0 < min (cw_Limit w) (cw_Limit d)" unfolding common by (rule percentage_pos [OF _ line])
  then have limit: "w_limit (scope_window (c_Upstream c) sid source key w) = common"
    using effective_limit [OF d(1)] common by simp
  have fields: "w_funding (scope_window (c_Upstream c) sid source key w) = (key = ''funding_requests_5m'')"
    "w_unit (scope_window (c_Upstream c) sid source key w) = cw_Unit w"
    by (simp_all add: scope_window_def Let_def)
  show ?thesis
  proof (cases "cw_SplitOperations w")
    case False
    then have "key = ''funding_requests_5m''" using same d by (auto simp: same_budget_def)
    with pos limit fields show ?thesis by (simp add: feasible_def)
  next
    case True
    then have key: "key \<noteq> ''funding_requests_5m''" using same d by (auto simp: same_budget_def)
    have bound: "(if cw_Unit w = ''weight'' then maxCosts op else 1) \<le> share_of a op" if "scope_shares c sid op \<noteq> 0" for op
    proof -
      have "(if cw_Unit w = ''weight'' then maxCosts op else 1) \<le> share_of ?cost op"
      proof (cases "cw_Unit w = ''weight''")
        case True
        with same d have "maxCosts op \<le> share_of costs op" unfolding same_budget_def by auto
        with True show ?thesis by simp
      next
        case False
        with same d have "cw_Unit w = ''requests''" unfolding same_budget_def by auto
        with that show ?thesis by (cases op) (auto simp: share_of_def scope_shares_def Let_def split: if_splits)
      qed
      from order_trans [OF this parts [OF True]] show ?thesis .
    qed
    have le: "share_of a op \<le> common" for op
      unfolding share [OF True] using percentage_bounds(2) pos scope_shares_range [OF valid, of sid op] by simp
    have "(if cw_Unit w = ''weight'' then maxCosts op else 1) \<le> common
        \<and> (if cw_Unit w = ''weight'' then maxCosts op else 1) \<le> percentage common (scope_shares c sid op)"
      if "scope_shares c sid op \<noteq> 0" for op
      using order_trans [OF bound [OF that] le] bound [OF that] share [OF True, of op] by simp
    then show ?thesis
      unfolding feasible_def s limit fields percent_percentage Let_def list_all_iff using key by (simp add: not_less)
  qed
qed

lemma scope_feasible:
  assumes valid: "validateSharesAndCooldowns c = None" and same: "same_budget sid source costs maxCosts"
    and ok: "scope_error c name actual source True (sid = Bybit) costs = None"
    and cap: "sid = Bybit \<Longrightarrow> \<forall>(key, w) \<in> set (cs_Windows actual). \<forall>d. map_of (cs_Windows source) key = Some d \<longrightarrow> cw_Limit w \<le> cw_Limit d"
    and src: "source = (if sid = Bybit then lm_Bybit default_Limits else if sid = BinanceLinear then lm_BinanceLinear default_Limits
        else lm_BinanceSpot default_Limits)"
    and set: "ct_settings k = c_Upstream c"
  shows "\<exists>s. addScope now k sid actual maxCosts = set_scope k sid s \<and> (\<forall>(key, w) \<in> set (ss_windows s). feasible s w)"
proof -
  define s where "s = \<lparr>ss_windows = map (\<lambda>(key, w). (key, scope_window (c_Upstream c) sid source key w)) (cs_Windows actual),
         ss_keepInflight = (sid \<noteq> Bybit), ss_history = [], ss_historySince = now, ss_startedAt = now,
         ss_catalogError = [], ss_catalogErrorAt = zero_time, ss_catalogErrorStart = zero_time,
         ss_lastAdmission = (\<lambda>_. []), ss_spacing = cs_MinRequestSpacing actual, ss_next = zero_time,
         ss_cooldown = zero_time, ss_catalogUpdatedAt = zero_time, ss_catalogStart = zero_time,
         ss_shares = scope_shares c sid, ss_maxCosts = maxCosts\<rparr>"
  have "addScope now k sid actual maxCosts = set_scope k sid s"
    unfolding addScope_def Let_def s_def set src scope_shares_def by simp
  moreover have "feasible s (scope_window (c_Upstream c) sid source key w)" if "(key, w) \<in> set (cs_Windows actual)" for key w
  proof (rule window_feasible [OF valid same])
    show "window_error c name source True (sid = Bybit) costs (key, w) = None"
      using ok that by (auto simp: scope_error_def first_error_None split: if_splits)
    show "cw_Limit w \<le> cw_Limit d" if "sid = Bybit" "map_of (cs_Windows source) key = Some d" for d
      using cap [OF that(1)] \<open>(key, w) \<in> set (cs_Windows actual)\<close> that(2) by auto
  qed (simp_all add: s_def)
  then have "\<forall>(key, w) \<in> set (ss_windows s). feasible s w" by (auto simp: s_def)
  ultimately show ?thesis by blast
qed

lemma same_budgets:
  "same_budget BinanceSpot (lm_BinanceSpot default_Limits) \<lparr>o_Tickers = 8, o_Klines = 2, o_Instruments = 20, o_MarketStats = 80\<rparr> spot_costs"
  "same_budget BinanceLinear (lm_BinanceLinear default_Limits)
     \<lparr>o_Tickers = 17, o_Klines = linearKlineCost n, o_Instruments = 1, o_MarketStats = 40\<rparr> (linear_costs n)"
  "same_budget Bybit (lm_Bybit default_Limits) \<lparr>o_Tickers = 1, o_Klines = 1, o_Instruments = 1, o_MarketStats = 0\<rparr> (\<lambda>_. 0)"
  by (auto simp: same_budget_def default_Limits_def fixed_window_def share_of_def spot_costs_def linear_costs_def
      linearKlineCost_def linear_weight_def split: Operation.splits if_splits)

text \<open>
  The limits of Bybit within the ceiling the controller starts from. Validation does not compare them (it does
  for Binance), so that this is a separate condition.
\<close>

definition bybit_within_ceiling :: "Config \<Rightarrow> bool" where
  "bybit_within_ceiling c \<longleftrightarrow> list_all (\<lambda>(key, w).
     case map_of (cs_Windows (lm_Bybit default_Limits)) key of None \<Rightarrow> True | Some d \<Rightarrow> cw_Limit w \<le> cw_Limit d)
     (cs_Windows (lm_Bybit (up_Limits (c_Upstream c))))"

definition all_feasible :: "Controller \<Rightarrow> bool" where
  "all_feasible k \<longleftrightarrow> (\<forall>(sid, s) \<in> set (ct_scopes k). \<forall>(key, w) \<in> set (ss_windows s). feasible s w)"

lemma all_feasible_add:
  "all_feasible k \<Longrightarrow> \<forall>(key, w) \<in> set (ss_windows s). feasible s w \<Longrightarrow> all_feasible (set_scope k sid s)"
  unfolding all_feasible_def set_scope_def by (auto dest!: set_update_cases)

text \<open>Adding the scopes of the controller one after the other.\<close>

definition adds :: "Config \<Rightarrow> time \<Rightarrow> Controller \<Rightarrow> upstream_Scope \<Rightarrow> cfg_Scope \<Rightarrow> (Operation \<Rightarrow> int) \<Rightarrow> bool" where
  "adds c now k sid actual maxCosts \<longleftrightarrow> ct_settings k = c_Upstream c \<and> all_feasible k
     \<longrightarrow> (let k' = addScope now k sid actual maxCosts in ct_settings k' = c_Upstream c \<and> all_feasible k'
           \<and> ghas (ct_scopes k') sid \<and> (\<forall>other. ghas (ct_scopes k) other \<longrightarrow> ghas (ct_scopes k') other))"

lemma adds_scope:
  assumes "validateSharesAndCooldowns c = None" and "same_budget sid source costs maxCosts"
    and "scope_error c name actual source True (sid = Bybit) costs = None"
    and "sid = Bybit \<Longrightarrow> \<forall>(key, w) \<in> set (cs_Windows actual). \<forall>d. map_of (cs_Windows source) key = Some d \<longrightarrow> cw_Limit w \<le> cw_Limit d"
    and "source = (if sid = Bybit then lm_Bybit default_Limits else if sid = BinanceLinear then lm_BinanceLinear default_Limits
        else lm_BinanceSpot default_Limits)"
  shows "adds c now k sid actual maxCosts"
proof -
  have "ct_settings (addScope now k sid actual maxCosts) = ct_settings k" by (simp add: addScope_def Let_def set_scope_def)
  moreover have "all_feasible (addScope now k sid actual maxCosts) \<and> ghas (ct_scopes (addScope now k sid actual maxCosts)) sid
      \<and> (\<forall>other. ghas (ct_scopes k) other \<longrightarrow> ghas (ct_scopes (addScope now k sid actual maxCosts)) other)"
    if here: "ct_settings k = c_Upstream c" "all_feasible k"
  proof -
    obtain s where s: "addScope now k sid actual maxCosts = set_scope k sid s" "\<forall>(key, w) \<in> set (ss_windows s). feasible s w"
      using scope_feasible [OF assms(1-5) here(1)] by blast
    from all_feasible_add [OF here(2) s(2)] show ?thesis unfolding s(1) by (simp add: set_scope_def)
  qed
  ultimately show ?thesis by (simp add: adds_def Let_def)
qed

lemma validated_scopes:
  assumes "Config_Validate go c = None"
  shows "bn_Enabled (xs_Binance (c_Exchanges c)) \<Longrightarrow> ''spot'' \<in> set (bn_Markets (xs_Binance (c_Exchanges c))) \<Longrightarrow>
      adds c now k BinanceSpot (lm_BinanceSpot (up_Limits (c_Upstream c))) spot_costs"
    and "bn_Enabled (xs_Binance (c_Exchanges c)) \<Longrightarrow> ''linear'' \<in> set (bn_Markets (xs_Binance (c_Exchanges c))) \<Longrightarrow>
      adds c now k BinanceLinear (lm_BinanceLinear (up_Limits (c_Upstream c)))
        (linear_costs (mk_Linear (pg_MaxCandlesPerRequest (bn_Klines (xs_Binance (c_Exchanges c))))))"
    and "yb_Enabled (xs_Bybit (c_Exchanges c)) \<Longrightarrow> bybit_within_ceiling c \<Longrightarrow> adds c now k Bybit (lm_Bybit (up_Limits (c_Upstream c))) (\<lambda>_. 0)"
proof -
  have shares: "validateSharesAndCooldowns c = None" and budgets: "validateBudgets c = None"
    using assms by (simp_all add: Config_Validate_None)
  note errors = budgets [unfolded validateBudgets_def Let_def first_error_None]
  have distinct_ids: "BinanceSpot \<noteq> Bybit" "BinanceLinear \<noteq> Bybit" "BinanceSpot \<noteq> BinanceLinear" by code_simp+
  show "adds c now k BinanceSpot (lm_BinanceSpot (up_Limits (c_Upstream c))) spot_costs"
    if "bn_Enabled (xs_Binance (c_Exchanges c))" "''spot'' \<in> set (bn_Markets (xs_Binance (c_Exchanges c)))"
    by (rule adds_scope [OF shares same_budgets(1), where name = "''binance_spot''"]) (use errors that distinct_ids in simp_all)
  show "adds c now k BinanceLinear (lm_BinanceLinear (up_Limits (c_Upstream c)))
        (linear_costs (mk_Linear (pg_MaxCandlesPerRequest (bn_Klines (xs_Binance (c_Exchanges c))))))"
    if "bn_Enabled (xs_Binance (c_Exchanges c))" "''linear'' \<in> set (bn_Markets (xs_Binance (c_Exchanges c)))"
    by (rule adds_scope [OF shares same_budgets(2), where name = "''binance_linear''"]) (use errors that distinct_ids in simp_all)
  show "adds c now k Bybit (lm_Bybit (up_Limits (c_Upstream c))) (\<lambda>_. 0)"
    if "yb_Enabled (xs_Bybit (c_Exchanges c))" "bybit_within_ceiling c"
    by (rule adds_scope [OF shares same_budgets(3), where name = "''bybit''"])
      (use errors that in \<open>auto simp: bybit_within_ceiling_def list_all_iff split: option.splits\<close>)
qed

lemma New_starts:
  assumes "Config_Validate go c = None" and "yb_Enabled (xs_Bybit (c_Exchanges c)) \<longrightarrow> bybit_within_ceiling c"
  shows "\<exists>k. New go c True now = Inr k
    \<and> (bn_Enabled (xs_Binance (c_Exchanges c)) \<and> ''spot'' \<in> set (bn_Markets (xs_Binance (c_Exchanges c))) \<longrightarrow> ghas (ct_scopes k) BinanceSpot)
    \<and> (bn_Enabled (xs_Binance (c_Exchanges c)) \<and> ''linear'' \<in> set (bn_Markets (xs_Binance (c_Exchanges c))) \<longrightarrow> ghas (ct_scopes k) BinanceLinear)
    \<and> (yb_Enabled (xs_Bybit (c_Exchanges c)) \<longrightarrow> ghas (ct_scopes k) Bybit)"
proof -
  let ?b = "xs_Binance (c_Exchanges c)" and ?l = "up_Limits (c_Upstream c)"
  define add where "add on k sid actual costs = (if on then addScope now k sid actual costs else k)" for on k sid actual costs
  define good where "good k \<longleftrightarrow> ct_settings k = c_Upstream c \<and> all_feasible k" for k
  have keep: "good (add on k sid actual costs) \<and> (on \<longrightarrow> ghas (ct_scopes (add on k sid actual costs)) sid)
      \<and> (\<forall>other. ghas (ct_scopes k) other \<longrightarrow> ghas (ct_scopes (add on k sid actual costs)) other)"
    if "good k" "on \<Longrightarrow> adds c now k sid actual costs" for on k sid actual costs
    using that by (auto simp: add_def good_def adds_def Let_def)
  define k0 where "k0 = empty_Controller c"
  define k1 where "k1 = add (bn_Enabled ?b \<and> ''spot'' \<in> set (bn_Markets ?b)) k0 BinanceSpot (lm_BinanceSpot ?l) spot_costs"
  define k2 where "k2 = add (bn_Enabled ?b \<and> ''linear'' \<in> set (bn_Markets ?b)) k1 BinanceLinear (lm_BinanceLinear ?l)
     (linear_costs (mk_Linear (pg_MaxCandlesPerRequest (bn_Klines ?b))))"
  define k3 where "k3 = add (yb_Enabled (xs_Bybit (c_Exchanges c))) k2 Bybit (lm_Bybit ?l) (\<lambda>_. 0)"
  note adds = validated_scopes [OF assms(1)]
  have 0: "good k0" by (simp add: good_def k0_def all_feasible_def empty_Controller_def Let_def)
  note 1 = keep [OF 0, of "bn_Enabled ?b \<and> ''spot'' \<in> set (bn_Markets ?b)" BinanceSpot "lm_BinanceSpot ?l" spot_costs, folded k1_def]
  then have good1: "good k1" using adds(1) by blast
  note 2 = keep [OF good1, of "bn_Enabled ?b \<and> ''linear'' \<in> set (bn_Markets ?b)" BinanceLinear "lm_BinanceLinear ?l"
     "linear_costs (mk_Linear (pg_MaxCandlesPerRequest (bn_Klines ?b)))", folded k2_def]
  then have good2: "good k2" using adds(2) by blast
  note 3 = keep [OF good2, of "yb_Enabled (xs_Bybit (c_Exchanges c))" Bybit "lm_Bybit ?l" "\<lambda>_. 0", folded k3_def]
  then have good3: "good k3" using adds(3) assms(2) by blast
  have "filter (\<lambda>(sid, s). list_ex (\<lambda>(key, w). \<not> feasible s w) (ss_windows s)) (ct_scopes k3) = []"
    using good3 by (auto simp: good_def all_feasible_def filter_empty_conv list_ex_iff)
  then have "New go c True now = Inr k3"
    unfolding New_def assms(1) Let_def k3_def k2_def k1_def k0_def add_def by simp
  moreover have "bn_Enabled ?b \<and> ''spot'' \<in> set (bn_Markets ?b) \<Longrightarrow> ghas (ct_scopes k3) BinanceSpot"
    using 1 2 3 adds assms(2) by blast
  moreover have "bn_Enabled ?b \<and> ''linear'' \<in> set (bn_Markets ?b) \<Longrightarrow> ghas (ct_scopes k3) BinanceLinear"
    using 2 3 adds assms(2) by blast
  moreover have "yb_Enabled (xs_Bybit (c_Exchanges c)) \<Longrightarrow> ghas (ct_scopes k3) Bybit" using 3 adds assms(2) by blast
  ultimately show ?thesis by blast
qed

section \<open>A validated configuration starts\<close>

lemma collect_Inr: "(\<And>x. x \<in> set xs \<Longrightarrow> \<exists>y. f x = Inr y) \<Longrightarrow> \<exists>ys. collect f xs = Inr ys"
proof (induction xs)
  case (Cons x xs)
  obtain y where "f x = Inr y" using Cons.prems by fastforce
  moreover obtain ys where "collect f xs = Inr ys" using Cons by fastforce
  ultimately show ?case by simp
qed simp

lemma market_loop_None:
  "market_loop name markets seen = None \<longleftrightarrow>
     distinct markets \<and> set markets \<inter> set seen = {} \<and> set markets \<subseteq> {''spot'', ''linear''}"
  by (induction name markets seen rule: market_loop.induct) auto

text \<open>The four scopes the service knows.\<close>

definition known_scopes :: "Scope list" where
  "known_scopes = [\<lparr>sc_Exchange = ''binance'', sc_Market = ''spot''\<rparr>, \<lparr>sc_Exchange = ''binance'', sc_Market = ''linear''\<rparr>,
     \<lparr>sc_Exchange = ''bybit'', sc_Market = ''spot''\<rparr>, \<lparr>sc_Exchange = ''bybit'', sc_Market = ''linear''\<rparr>]"

lemma enabled_scopes_known:
  assumes "validateExchanges c = None"
  shows "enabledScopes c \<noteq> []" and "distinct (enabledScopes c)" and "set (enabledScopes c) \<subseteq> set known_scopes"
proof -
  let ?b = "xs_Binance (c_Exchanges c)" and ?y = "xs_Bybit (c_Exchanges c)"
  have some: "yb_Enabled ?y \<or> bn_Enabled ?b"
    and y: "market_loop ''bybit'' (yb_Markets ?y) [] = None" "yb_Enabled ?y \<longrightarrow> yb_Markets ?y \<noteq> []"
    and b: "market_loop ''binance'' (bn_Markets ?b) [] = None" "bn_Enabled ?b \<longrightarrow> bn_Markets ?b \<noteq> []"
    using assms by (auto simp: validateExchanges_def exchange_error_def Let_def first_error_None split: if_splits option.splits)
  have inj: "inj (\<lambda>market. \<lparr>sc_Exchange = exchange, sc_Market = market\<rparr>)" for exchange by (rule injI) simp
  show "enabledScopes c \<noteq> []" using some y(2) b(2) by (auto simp: enabledScopes_def Let_def)
  show "distinct (enabledScopes c)"
    using y(1) b(1) unfolding market_loop_None enabledScopes_def Let_def
    by (auto simp: distinct_map intro: inj_on_subset [OF inj])
  show "set (enabledScopes c) \<subseteq> set known_scopes"
    using y(1) b(1) unfolding market_loop_None enabledScopes_def Let_def by (auto simp: known_scopes_def)
qed

text \<open>Every interval a provider supports has a calendar, for each of the four scopes.\<close>

definition provider_frames :: "Scope \<Rightarrow> Timeframe list" where
  "provider_frames scope = projr (pv_SupportedTimeframes (kline_provider (sc_Exchange scope)) (sc_Market scope))"

lemma known_frames_all:
  "list_all (\<lambda>scope. \<not> isl (pv_SupportedTimeframes (kline_provider (sc_Exchange scope)) (sc_Market scope))
      \<and> provider_frames scope \<noteq> [] \<and> supported_calendars scope (provider_frames scope) = None
      \<and> retention_scopes (map (Pair scope) (provider_frames scope)) = None
      \<and> pv_Exchange (kline_provider (sc_Exchange scope)) = sc_Exchange scope
      \<and> Exchange_Valid (sc_Exchange scope) \<and> Market_Valid (sc_Market scope)) known_scopes"
  by code_simp

lemma known_frames:
  assumes "scope \<in> set known_scopes"
  shows "pv_SupportedTimeframes (kline_provider (sc_Exchange scope)) (sc_Market scope) = Inr (provider_frames scope)"
    and "provider_frames scope \<noteq> []" and "supported_calendars scope (provider_frames scope) = None"
    and "retention_scopes (map (Pair scope) (provider_frames scope)) = None"
    and "pv_Exchange (kline_provider (sc_Exchange scope)) = sc_Exchange scope"
    and "Exchange_Valid (sc_Exchange scope)" and "Market_Valid (sc_Market scope)"
proof -
  note here = known_frames_all [unfolded list_all_iff, rule_format, OF assms]
  then have "\<not> isl (pv_SupportedTimeframes (kline_provider (sc_Exchange scope)) (sc_Market scope))" by blast
  then show "pv_SupportedTimeframes (kline_provider (sc_Exchange scope)) (sc_Market scope) = Inr (provider_frames scope)"
    unfolding provider_frames_def by simp
qed (use known_frames_all [unfolded list_all_iff, rule_format, OF assms] in blast)+

lemma instrumentProvider_known: "scope \<in> set known_scopes \<Longrightarrow> instrumentProvider scope = None"
  by (auto simp: known_scopes_def instrumentProvider_def MarketSpot_def MarketLinear_def)

text \<open>The settings the constructors check are positive in a validated configuration.\<close>

lemma start_values:
  assumes "validatePositiveValues c = None"
  shows "0 < sr_SnapshotTimeout (c_Server c)"
    and "0 < sr_MaxSnapshotRequests (c_Server c)"
    and "0 < gs_MaxRequestBytes (sr_GRPC (c_Server c))"
    and "0 < gs_MaxResponseBytes (sr_GRPC (c_Server c))"
    and "0 < gs_MaxHeaderBytes (sr_GRPC (c_Server c))"
    and "0 < hs_ReadHeaderTimeout (sr_HTTP (c_Server c))"
    and "0 < hs_IdleTimeout (sr_HTTP (c_Server c))"
    and "0 < kl_RequestTimeout (c_Klines c)"
    and "0 < kl_MaxCallers (c_Klines c)"
    and "0 < kl_MaxActiveFills (c_Klines c)"
    and "0 < kl_MaxActiveFillsPerExchange (c_Klines c)"
    and "0 < kl_FillTimeout (c_Klines c)"
    and "0 < la_MaxAttempts (ls_Klines (up_LanesPerExchange (c_Upstream c)))"
    and "0 < ry_InitialBackoff (hc_Retry (c_HTTPClient c))"
    and "0 < rf_RefreshInterval (yb_Instruments (xs_Bybit (c_Exchanges c)))"
    and "0 < rf_RefreshInterval (bn_Instruments (xs_Binance (c_Exchanges c)))"
    and "0 < rf_RefreshInterval (bn_MarketStats (xs_Binance (c_Exchanges c)))"
    and "0 < bu_CatalogRefreshInterval (up_Binance (c_Upstream c))"
proof -
  note leaf = positive_leaf [OF assms]
  show "0 < sr_SnapshotTimeout (c_Server c)"
    by (rule leaf [where path = "''server.snapshot_timeout''"]) (simp_all add: config_leaves)
  show "0 < sr_MaxSnapshotRequests (c_Server c)"
    by (rule leaf [where path = "''server.max_snapshot_requests''"]) (simp_all add: config_leaves)
  show "0 < gs_MaxRequestBytes (sr_GRPC (c_Server c))"
    by (rule leaf [where path = "''server.grpc.max_request_bytes''"]) (simp_all add: config_leaves)
  show "0 < gs_MaxResponseBytes (sr_GRPC (c_Server c))"
    by (rule leaf [where path = "''server.grpc.max_response_bytes''"]) (simp_all add: config_leaves)
  show "0 < gs_MaxHeaderBytes (sr_GRPC (c_Server c))"
    by (rule leaf [where path = "''server.grpc.max_header_bytes''"]) (simp_all add: config_leaves)
  show "0 < hs_ReadHeaderTimeout (sr_HTTP (c_Server c))"
    by (rule leaf [where path = "''server.http.read_header_timeout''"]) (simp_all add: config_leaves)
  show "0 < hs_IdleTimeout (sr_HTTP (c_Server c))"
    by (rule leaf [where path = "''server.http.idle_timeout''"]) (simp_all add: config_leaves)
  show "0 < kl_RequestTimeout (c_Klines c)"
    by (rule leaf [where path = "''klines.request_timeout''"]) (simp_all add: config_leaves)
  show "0 < kl_MaxCallers (c_Klines c)"
    by (rule leaf [where path = "''klines.max_callers''"]) (simp_all add: config_leaves)
  show "0 < kl_MaxActiveFills (c_Klines c)"
    by (rule leaf [where path = "''klines.max_active_fills''"]) (simp_all add: config_leaves)
  show "0 < kl_MaxActiveFillsPerExchange (c_Klines c)"
    by (rule leaf [where path = "''klines.max_active_fills_per_exchange''"]) (simp_all add: config_leaves)
  show "0 < kl_FillTimeout (c_Klines c)"
    by (rule leaf [where path = "''klines.fill_timeout''"]) (simp_all add: config_leaves)
  show "0 < la_MaxAttempts (ls_Klines (up_LanesPerExchange (c_Upstream c)))"
    by (rule leaf [where path = "''upstream.lanes_per_exchange.klines.max_attempts''"]) (simp_all add: config_leaves)
  show "0 < ry_InitialBackoff (hc_Retry (c_HTTPClient c))"
    by (rule leaf [where path = "''http_client.retry.initial_backoff''"]) (simp_all add: config_leaves)
  show "0 < rf_RefreshInterval (yb_Instruments (xs_Bybit (c_Exchanges c)))"
    by (rule leaf [where path = "''exchanges.bybit.instruments.refresh_interval''"]) (simp_all add: config_leaves)
  show "0 < rf_RefreshInterval (bn_Instruments (xs_Binance (c_Exchanges c)))"
    by (rule leaf [where path = "''exchanges.binance.instruments.refresh_interval''"]) (simp_all add: config_leaves)
  show "0 < rf_RefreshInterval (bn_MarketStats (xs_Binance (c_Exchanges c)))"
    by (rule leaf [where path = "''exchanges.binance.market_stats.refresh_interval''"]) (simp_all add: config_leaves)
  show "0 < bu_CatalogRefreshInterval (up_Binance (c_Upstream c))"
    by (rule leaf [where path = "''upstream.binance.catalog_refresh_interval''"]) (simp_all add: config_leaves)
qed

lemma new_scopes_Inr:
  assumes "distinct scopes" and "set scopes \<subseteq> set known_scopes" and "0 < set_HistoryCandles settings"
    and "\<And>scope. scope \<in> set scopes \<Longrightarrow> 0 < ss_PageLimit (kline_scope c scope)" and "\<forall>scope \<in> set scopes. \<not> ghas m scope"
  shows "\<exists>m'. new_scopes settings (map (kline_scope c) scopes) m = Inr m'"
  using assms
proof (induction scopes arbitrary: m)
  case (Cons scope scopes)
  have known: "scope \<in> set known_scopes" using Cons.prems(2) by simp
  have fields: "ss_Scope (kline_scope c scope) = scope" "ss_Provider (kline_scope c scope) = Some (kline_provider (sc_Exchange scope))"
    by (simp_all add: kline_scope_def Let_def)
  obtain planner where "NewPlanner scope (provider_frames scope) (set_HistoryCandles settings) (ss_PageLimit (kline_scope c scope)) = Inr planner"
    using known_frames(2,3,6,7) [OF known] Cons.prems(3) Cons.prems(4) [of scope] by (simp add: NewPlanner_def)
  moreover have "\<exists>m'. new_scopes settings (map (kline_scope c) scopes) (AList.update scope planner m) = Inr m'"
    by (rule Cons.IH) (use Cons.prems in auto)
  moreover have "\<not> ghas m scope" using Cons.prems(5) by simp
  ultimately show ?case by (simp add: fields known_frames(1,5) [OF known])
qed simp

lemma page_limits_positive:
  assumes "validatePositiveValues c = None"
  shows "0 < ss_PageLimit (kline_scope c scope)"
  using valid_caps [OF assms] by (simp add: kline_scope_def Let_def)

lemma klineService_starts:
  assumes "Config_Validate go c = None"
  shows "\<exists>service. klineService c = Inr service"
proof -
  have pos: "validatePositiveValues c = None" and ex: "validateExchanges c = None" using assms by (simp_all add: Config_Validate_None)
  note scopes = enabled_scopes_known [OF ex]
  let ?settings = "\<lparr>set_HistoryCandles = kl_MaxHistoryCandles (c_Klines c), set_MaxCallers = kl_MaxCallers (c_Klines c),
     set_MaxActiveFills = kl_MaxActiveFills (c_Klines c), set_MaxActiveFillsPerExchange = kl_MaxActiveFillsPerExchange (c_Klines c),
     set_MaxAttempts = la_MaxAttempts (ls_Klines (up_LanesPerExchange (c_Upstream c))), set_FillTimeout = kl_FillTimeout (c_Klines c)\<rparr>"
  obtain m where "new_scopes ?settings (map (kline_scope c) (enabledScopes c)) [] = Inr m"
    using new_scopes_Inr [OF scopes(2,3), of ?settings c "[]"] valid_caps(3) [OF pos] page_limits_positive [OF pos]
    by (auto simp: ghas_def)
  then show ?thesis using scopes(1) start_values [OF pos] by (simp add: klineService_def NewService_def)
qed

lemma retention_scopes_append: "retention_scopes (xs @ ys) = None \<longleftrightarrow> retention_scopes xs = None \<and> retention_scopes ys = None"
  by (induction xs) (auto split: sum.splits)

lemma cleanup_starts:
  assumes "Config_Validate go c = None"
  shows "\<exists>retention. cleanup_worker c = Inr retention"
proof -
  have pos: "validatePositiveValues c = None" and ex: "validateExchanges c = None" using assms by (simp_all add: Config_Validate_None)
  let ?f = "\<lambda>scope. case pv_SupportedTimeframes (kline_provider (sc_Exchange scope)) (sc_Market scope) of
      Inl e \<Rightarrow> Inl e | Inr intervals \<Rightarrow> Inr (map (Pair scope) intervals)"
  have "\<exists>out. collect ?f scopes = Inr out \<and> retention_scopes (concat out) = None" if "set scopes \<subseteq> set known_scopes" for scopes
    using that
  proof (induction scopes)
    case (Cons scope scopes)
    then obtain out where "collect ?f scopes = Inr out" "retention_scopes (concat out) = None" by auto
    with Cons.prems show ?case by (simp add: known_frames(1,4) retention_scopes_append)
  qed simp
  from this [OF enabled_scopes_known(3) [OF ex]] show ?thesis
    using valid_caps(3) [OF pos] by (auto simp: cleanup_worker_def retention_targets_def NewRetention_def)
qed

lemma gate_starts:
  assumes "Config_Validate go c = None" and "0 \<le> interval"
  shows "\<exists>gate. NewCycleGate True True (hc_Retry (c_HTTPClient c)) interval = Inr gate"
proof -
  have "validatePositiveValues c = None" "validateLocalSettings go c = None" using assms(1) by (simp_all add: Config_Validate_None)
  moreover from this have "ry_InitialBackoff (hc_Retry (c_HTTPClient c)) \<le> ry_MaxBackoff (hc_Retry (c_HTTPClient c))"
    by (auto simp: validateLocalSettings_def Let_def split: if_splits option.splits)
  ultimately show ?thesis using start_values(14) [of c] assms(2) by (simp add: NewCycleGate_def)
qed

lemma workers_start:
  assumes "Config_Validate go c = None"
  shows "\<exists>workers. instrumentWorkers c = Inr workers" and "\<exists>workers. currentWorkers c = Inr workers"
proof -
  have pos: "validatePositiveValues c = None" and ex: "validateExchanges c = None" using assms by (simp_all add: Config_Validate_None)
  note gate = gate_starts [OF assms]
  note intervals = start_values(15-18) [OF pos]
  obtain g0 where g0: "NewCycleGate True True (hc_Retry (c_HTTPClient c)) 0 = Inr g0" using gate [of 0] by auto
  obtain gy where gy: "NewCycleGate True True (hc_Retry (c_HTTPClient c)) (rf_RefreshInterval (yb_Instruments (xs_Bybit (c_Exchanges c)))) = Inr gy"
    using gate intervals(1) by (meson less_imp_le)
  obtain gb where gb: "NewCycleGate True True (hc_Retry (c_HTTPClient c)) (rf_RefreshInterval (bn_Instruments (xs_Binance (c_Exchanges c)))) = Inr gb"
    using gate intervals(2) by (meson less_imp_le)
  obtain gs where gs: "NewCycleGate True True (hc_Retry (c_HTTPClient c)) (rf_RefreshInterval (bn_MarketStats (xs_Binance (c_Exchanges c)))) = Inr gs"
    using gate intervals(3) by (meson less_imp_le)
  obtain gc where gc: "NewCycleGate True True (hc_Retry (c_HTTPClient c)) (bu_CatalogRefreshInterval (up_Binance (c_Upstream c))) = Inr gc"
    using gate intervals(4) by (meson less_imp_le)
  note known = enabled_scopes_known(3) [OF ex]
  show "\<exists>workers. instrumentWorkers c = Inr workers"
    unfolding instrumentWorkers_def
    by (rule collect_Inr) (use known in \<open>auto simp: instrument_worker_def instrumentProvider_known NewCatalogCycle_def gy gb gc Let_def dest!: subsetD\<close>)
  have "\<exists>out. collect (current_worker c) (enabledScopes c) = Inr out"
    by (rule collect_Inr) (auto simp: current_worker_def Let_def g0 gs)
  then show "\<exists>workers. currentWorkers c = Inr workers" by (auto simp: currentWorkers_def)
qed

lemma server_starts:
  assumes "Config_Validate go c = None"
  shows "\<exists>server. NewServer True True (configuredGRPC c) = Inr server"
proof -
  have pos: "validatePositiveValues c = None" and local: "validateLocalSettings go c = None" using assms by (simp_all add: Config_Validate_None)
  have "gs_MaxHeaderBytes (sr_GRPC (c_Server c)) \<le> 2147483647"
    and "sr_SnapshotTimeout (c_Server c) \<le> max_int64 - WriteGrace" and "kl_RequestTimeout (c_Klines c) \<le> max_int64 - WriteGrace"
    using local by (auto simp: validateLocalSettings_def Let_def split: if_splits option.splits)
  with start_values [OF pos] show ?thesis
    by (simp add: NewServer_def configuredGRPC_def WriteGrace_def Second_def)
qed

lemma clients_start:
  assumes "Config_Validate go c = None" and "yb_Enabled (xs_Bybit (c_Exchanges c)) \<longrightarrow> bybit_within_ceiling c"
  shows "\<exists>clients. newExchangeClients go c observed now = Inr clients"
proof -
  obtain k where k: "New go c True now = Inr k"
    "bn_Enabled (xs_Binance (c_Exchanges c)) \<and> ''spot'' \<in> set (bn_Markets (xs_Binance (c_Exchanges c))) \<longrightarrow> ghas (ct_scopes k) BinanceSpot"
    "bn_Enabled (xs_Binance (c_Exchanges c)) \<and> ''linear'' \<in> set (bn_Markets (xs_Binance (c_Exchanges c))) \<longrightarrow> ghas (ct_scopes k) BinanceLinear"
    "yb_Enabled (xs_Bybit (c_Exchanges c)) \<longrightarrow> ghas (ct_scopes k) Bybit"
    using New_starts [OF assms] by blast
  have one: "\<exists>t. NewTransport go True k scope c observed = Inr t" if "ghas (ct_scopes k) scope" for scope
    using that assms(1) by (simp add: NewTransport_def Let_def)
  have "\<exists>ts. exchange_transports go c observed k = Inr ts"
    unfolding exchange_transports_def Let_def
    by (rule collect_Inr, rule one) (use k(2-4) in \<open>auto split: if_splits\<close>)
  with k(1) show ?thesis by (auto simp: newExchangeClients_def)
qed

section \<open>Workers and shutdown\<close>

text \<open>What a worker does: it returns, or it panics.\<close>

datatype worker_end = Returns "error option" | Panics

text \<open>\<open>runWorker\<close> answers with its error and what it reports to the telemetry (\<open>None\<close> for a panic).\<close>

definition runWorker :: "worker_end \<Rightarrow> error option \<times> error option option" where
  "runWorker w =
     (case w of
        Returns err \<Rightarrow> (err, Some err)
      | Panics \<Rightarrow> (Some (Wrapped ''worker panicked'' [App ErrInternal]), None))"

text \<open>
  \<open>periodic\<close>: \<open>Done e\<close> is a select that sees the context end, \<open>Fired poll\<close> one that sees the timer, with the context
  as the next test finds it. The answer is the number of passes and the error, \<open>None\<close> while it still waits.
\<close>

datatype periodic_wake = Done error | Fired "error option"

fun periodic_loop :: "periodic_wake list \<Rightarrow> nat \<Rightarrow> nat \<times> error option" where
  "periodic_loop [] runs = (runs, None)"
| "periodic_loop (Done e # wakes) runs = (runs, Some e)"
| "periodic_loop (Fired (Some e) # wakes) runs = (runs, Some e)"
| "periodic_loop (Fired None # wakes) runs = periodic_loop wakes (runs + 1)"

definition periodic :: "error option \<Rightarrow> bool \<Rightarrow> periodic_wake list \<Rightarrow> nat \<times> error option" where
  "periodic start immediate wakes = periodic_loop wakes (if immediate \<and> start = None then 1 else 0)"

text \<open>A server or worker that ends with an error other than a normal stop is a failure of the process.\<close>

definition ErrServerClosed :: error where
  "ErrServerClosed = Plain ''http: Server closed''"

definition failure :: "error option \<Rightarrow> error list" where
  "failure err = (case err of None \<Rightarrow> [] | Some e \<Rightarrow> if errors_Is e ErrServerClosed \<or> errors_Is e Canceled then [] else [e])"

text \<open>
  \<open>runDual\<close>. Its effects are a list of actions, what it meets is a record: the context at its two tests, the
  two listeners, what the servers and workers return in the order in which they end before the first
  \<open>select\<close>, whether that \<open>select\<close> takes the context, what ends later, and the drain: the two shutdown results in
  the order of their arrival, or the deadline.
\<close>

datatype lifecycle =
    Listen_grpc | Listen_http | Ready bool | Serve | Stop_admission | Cancel_root | Drain | Close_grpc | Close_http
  | Flush | Close_grpc_listener | Close_http_listener | Close_telemetry

datatype drain = Drained "error option" "error option" | Deadline error

record run_env =
  rn_before :: "error option"
  rn_grpc :: "error option"
  rn_http :: "error option"
  rn_after :: "error option"
  rn_ended :: "error option list"
  rn_context :: bool
  rn_late :: "error option list"
  rn_drain :: drain

text \<open>The channel of failures: the error the first \<open>select\<close> receives, and what is left in it.\<close>

definition failures :: "error option list \<Rightarrow> error list" where
  "failures results = concat (map failure results)"

text \<open>The first \<open>select\<close>; \<open>None\<close> while neither the context nor a failure is there.\<close>

definition awaited :: "run_env \<Rightarrow> (error option \<times> error list) option" where
  "awaited env =
     (if rn_context env then Some (None, failures (rn_ended env))
      else case failures (rn_ended env) of [] \<Rightarrow> None | e # rest \<Rightarrow> Some (Some e, rest))"

text \<open>The deferred calls that are always pending, last registered first.\<close>

definition closing :: "lifecycle list" where
  "closing = [Close_http, Close_grpc, Cancel_root, Ready False]"

definition shutdown_result :: "run_env \<Rightarrow> error option \<Rightarrow> error list \<Rightarrow> error option" where
  "shutdown_result env result queued =
     (case rn_drain env of
        Drained first second \<Rightarrow>
          foldl (\<lambda>result e. errors_Join [result, Some e]) (errors_Join [result, errors_Join [first, second]])
            (queued @ failures (rn_late env))
      | Deadline e \<Rightarrow> errors_Join [result, Some (Wrapped ''shutdown deadline'' [e])])"

definition stopping :: "run_env \<Rightarrow> lifecycle list" where
  "stopping env = [Ready False, Stop_admission, Cancel_root, Drain]
     @ (case rn_drain env of Drained _ _ \<Rightarrow> [] | Deadline _ \<Rightarrow> [Close_grpc, Close_http]) @ [Flush]"

text \<open>The result is \<open>None\<close> while the process still serves.\<close>

definition runDual :: "run_env \<Rightarrow> lifecycle list \<times> error option option" where
  "runDual env =
     (case rn_before env of
        Some e \<Rightarrow> (closing, Some (Some e))
      | None \<Rightarrow>
        (case rn_grpc env of
           Some e \<Rightarrow> (Listen_grpc # closing, Some (Some (Wrapped ''listen gRPC'' [e])))
         | None \<Rightarrow>
           (case rn_http env of
              Some e \<Rightarrow> ([Listen_grpc, Listen_http, Close_grpc_listener] @ closing, Some (Some (Wrapped ''listen operational HTTP'' [e])))
            | None \<Rightarrow>
                let opened = [Listen_grpc, Listen_http]; close = [Close_http_listener, Close_grpc_listener] @ closing in
                case rn_after env of
                  Some e \<Rightarrow> (opened @ close, Some (Some e))
                | None \<Rightarrow>
                  (case awaited env of
                     None \<Rightarrow> (opened @ [Ready True, Serve], None)
                   | Some (result, queued) \<Rightarrow>
                       (opened @ [Ready True, Serve] @ stopping env @ close, Some (shutdown_result env result queued))))))"

text \<open>\<open>serveGRPC\<close> and \<open>Run\<close>: every constructor in its order, then the lifecycle.\<close>

definition serveGRPC :: "Config \<Rightarrow> run_env \<Rightarrow> lifecycle list \<times> error option option" where
  "serveGRPC cfg env =
     (case klineService cfg of
        Inl e \<Rightarrow> ([Cancel_root], Some (Some e))
      | Inr service \<Rightarrow>
        (case NewServer True True (configuredGRPC cfg) of
           Inl e \<Rightarrow> ([Cancel_root], Some (Some e))
         | Inr data \<Rightarrow>
           (case operationWorkers cfg of
              Inl e \<Rightarrow> ([Close_grpc, Cancel_root], Some (Some e))
            | Inr operation_workers \<Rightarrow>
              (case runDual env of
                 (actions, None) \<Rightarrow> (actions, None)
               | (actions, Some result) \<Rightarrow> (actions @ [Cancel_root], Some result)))))"

text \<open>
  The context at the test of \<open>Run\<close> and the outcome of the Sentry client are arguments: the SDK decides whether a data
  source name is acceptable.
\<close>

definition NewSentry :: "Config \<Rightarrow> bool \<Rightarrow> error option" where
  "NewSentry cfg accepted =
     (if \<not> sn_Enabled (oy_Sentry (c_Observability cfg)) then None
      else if accepted then None else Some (Plain ''initialize Sentry: invalid client settings''))"

definition Bootstrap_Run :: "go_parsers \<Rightarrow> Config \<Rightarrow> error option \<Rightarrow> bool \<Rightarrow> time \<Rightarrow> run_env \<Rightarrow> lifecycle list \<times> error option option" where
  "Bootstrap_Run go cfg context sentry now env =
     (case Config_Validate go cfg of
        Some e \<Rightarrow> ([], Some (Some e))
      | None \<Rightarrow>
        (case context of
           Some e \<Rightarrow> ([], Some (Some e))
         | None \<Rightarrow>
           (case newLocalState (kl_MaxHistoryCandles (c_Klines cfg)) of
              Some e \<Rightarrow> ([], Some (Some e))
            | None \<Rightarrow>
              (case NewSentry cfg sentry of
                 Some e \<Rightarrow> ([], Some (Some e))
               | None \<Rightarrow>
                 (case newExchangeClients go cfg True now of
                    Inl e \<Rightarrow> ([Close_telemetry], Some (Some (Wrapped ''initialize exchange clients'' [e])))
                  | Inr clients \<Rightarrow>
                    (case instrumentWorkers cfg of
                       Inl e \<Rightarrow> ([Close_telemetry], Some (Some e))
                     | Inr instrument_workers \<Rightarrow>
                       (case currentWorkers cfg of
                          Inl e \<Rightarrow> ([Close_telemetry], Some (Some e))
                        | Inr current_workers \<Rightarrow>
                          (case serveGRPC cfg env of
                             (actions, None) \<Rightarrow> (actions, None)
                           | (actions, Some result) \<Rightarrow> (actions @ [Close_telemetry], Some result)))))))))"

definition reportRPCError :: "rpc_Event \<Rightarrow> bool" where
  "reportRPCError ev =
     (case re_Error ev of
        None \<Rightarrow> False
      | Some err \<Rightarrow>
          if (case err of Fail_error e \<Rightarrow> errors_Is e Canceled \<or> errors_Is e (App ErrDataNotReady) | _ \<Rightarrow> False) then False
          else re_Code ev \<notin> {Code_OK, Code_Canceled, Code_InvalidArgument, Code_NotFound, Code_Unimplemented})"

section \<open>The operational HTTP handler\<close>

record http_request =
  hr_Path :: string
  hr_Method :: string
  hr_RawQuery :: string
  hr_ContentLength :: int
  hr_TransferEncoding :: "string list"

text \<open>A reply of the handler: an error document, the answer of a registered route, or the health document.\<close>

datatype http_reply = Http_error int string string "(string \<times> string) list" | Routed string | Http_ok

definition NewAPIHandler :: "bool \<Rightarrow> int \<Rightarrow> string list \<Rightarrow> http_request \<Rightarrow> http_reply" where
  "NewAPIHandler is_ready maxQueryBytes routes r =
     (let json = (''Content-Type'', ''application/json'') in
      if hr_Path r \<noteq> ''/health'' \<and> hr_Path r \<noteq> ''/ready'' \<and> hr_Path r \<notin> set routes
      then Http_error 404 ''not_found'' ''Route not found'' [json]
      else if hr_Method r \<noteq> ''GET''
      then Http_error 405 ''method_not_allowed'' ''Method not allowed'' [json, (''Allow'', ''GET'')]
      else if int (length (hr_RawQuery r)) > maxQueryBytes
      then Http_error 414 ''request_too_large'' ''Query is too large'' [json]
      else if hr_ContentLength r \<noteq> 0 \<or> hr_TransferEncoding r \<noteq> []
      then Http_error 400 ''invalid_parameter'' ''GET body is not allowed'' [json]
      else if hr_Path r \<in> set routes then Routed (hr_Path r)
      else if hr_Path r = ''/ready'' \<and> \<not> is_ready
      then Http_error 503 ''data_not_ready'' ''Local initialization is not complete'' [json]
      else Http_ok)"












section \<open>A validated configuration starts\<close>

text \<open>
  A configuration that passes validation, with the limits of Bybit within the built-in ceiling, is
  enough to start the process: \<open>Run\<close> passes every constructor it calls (the storage, the admission controller and
  the transports of all enabled exchanges, the refresh workers, the candle service, the gRPC server and the
  cleanup) and enters the lifecycle. No value that passed the check is refused later. What remains open is the Sentry
  client, whose settings its SDK judges.
\<close>

lemma validated_configuration_starts:
  assumes "Config_Validate go c = None" and "yb_Enabled (xs_Bybit (c_Exchanges c)) \<longrightarrow> bybit_within_ceiling c"
    and "sn_Enabled (oy_Sentry (c_Observability c)) \<longrightarrow> accepted"
  shows "Bootstrap_Run go c None accepted now env =
    (case runDual env of (actions, None) \<Rightarrow> (actions, None) | (actions, Some result) \<Rightarrow> (actions @ [Cancel_root, Close_telemetry], Some result))"
proof -
  obtain clients service retention instrument_workers current_workers server where
    started: "newExchangeClients go c True now = Inr clients" "klineService c = Inr service" "cleanup_worker c = Inr retention"
    "instrumentWorkers c = Inr instrument_workers" "currentWorkers c = Inr current_workers"
    "NewServer True True (configuredGRPC c) = Inr server"
    using clients_start [OF assms(1,2)] klineService_starts [OF assms(1)] cleanup_starts [OF assms(1)] workers_start [OF assms(1)]
      server_starts [OF assms(1)] by blast
  have "0 < kl_MaxHistoryCandles (c_Klines c)" using assms(1) by (simp add: Config_Validate_None valid_caps(3))
  then have "newLocalState (kl_MaxHistoryCandles (c_Klines c)) = None" by (simp add: newLocalState_def NewKlineRepository_def)
  moreover have "NewSentry c accepted = None" using assms(3) by (simp add: NewSentry_def)
  ultimately show ?thesis using assms(1) started
    by (simp add: Bootstrap_Run_def serveGRPC_def operationWorkers_def split: prod.split option.split)
qed



section \<open>Properties\<close>



text \<open>
  The shutdown timeout of a validated configuration covers what may still be running: a call admitted
  before the stop has reached its write deadline, and a fill started before the stop its own deadline, when the
  shutdown deadline comes, whatever timeouts the clients asked for.
\<close>

theorem shutdown_covers_work:
  assumes "Config_Validate go c = None" and "started \<le> stop"
    and "call_deadlines (configuredGRPC c) name started header limit = (work, write)"
  shows "write \<le> stop + sr_ShutdownTimeout (c_Server c) \<and> started + kl_FillTimeout (c_Klines c) \<le> stop + sr_ShutdownTimeout (c_Server c)"
proof -
  have "validateLocalSettings go c = None" using assms(1) by (simp add: Config_Validate_None)
  then have cover: "sr_SnapshotTimeout (c_Server c) + WriteGrace \<le> sr_ShutdownTimeout (c_Server c)"
    "kl_RequestTimeout (c_Klines c) + WriteGrace \<le> sr_ShutdownTimeout (c_Server c)"
    "kl_FillTimeout (c_Klines c) + WriteGrace \<le> sr_ShutdownTimeout (c_Server c)"
    by (auto simp: validateLocalSettings_def Let_def split: if_splits option.splits)
  have "write \<le> started + ((if name = ''GetKlines'' then kl_RequestTimeout (c_Klines c) else sr_SnapshotTimeout (c_Server c)) + WriteGrace)"
    using assms(3) by (auto simp: call_deadlines_def configuredGRPC_def shorten_min min_time_def Let_def split: option.splits)
  with cover assms(2) show ?thesis by (auto simp: WriteGrace_def Second_def split: if_splits)
qed

theorem shutdown_covers_work_witness:
  "snd (call_deadlines (configuredGRPC Defaults) ''GetKlines'' (ex_open 0) [] None) \<le> ex_open 1 + sr_ShutdownTimeout (c_Server Defaults)"
proof -
  have "ex_open 0 \<le> ex_open 1" by code_simp
  from shutdown_covers_work [OF defaults_pass this, of "''GetKlines''" "[]" None] show ?thesis by (metis prod.collapse)
qed














end
