(* ===== verification/Config_Load.thy ===== *)
theory Config_Load
  imports MD_Config Upstream_Ledger
begin

text \<open>
  Loading the configuration: \<open>src/internal/config/load.go\<close>. The strict input contract is the service's own code: the
  walk over a YAML document against the document of the defaults, the checks of environment variables, the
  conversion of their texts, the marks of explicit limits and the final validation. Merging and decoding belong to
  third-party packages (koanf, mapstructure, yaml.v3), which are a record of functions here; parsers of the
  standard library that need more than a few lines are a second one.
\<close>

section \<open>Library functions\<close>

text \<open>\<open>strings.Cut\<close> at the first equals sign.\<close>

definition cut_entry :: "string \<Rightarrow> string \<times> string option" where
  "cut_entry entry = (takeWhile (\<lambda>ch. ch \<noteq> CHR ''='') entry,
     if CHR ''='' \<in> set entry then Some (tl (dropWhile (\<lambda>ch. ch \<noteq> CHR ''='') entry)) else None)"


text \<open>\<open>encoding/json\<close> decodes a text into a string slice; \<open>Some None\<close> is the nil slice of a JSON null.\<close>

record go_text =
  tx_ParseFloat :: "string \<Rightarrow> float64 option"
  tx_ParseDuration :: "string \<Rightarrow> duration option"
  tx_Strings :: "string \<Rightarrow> string list option option"

text \<open>The dynamic values a setting is loaded as.\<close>

datatype loaded = L_int int | L_bool bool | L_float float64 | L_strings "string list" | L_string string | L_nil

text \<open>A YAML node, as \<open>yaml.Node\<close> has it. The children of a mapping alternate between keys and values.\<close>

datatype node_kind = DocumentNode | SequenceNode | MappingNode | ScalarNode | AliasNode

datatype node = Node (nd_Kind: node_kind) (nd_Tag: string) (nd_Anchor: string) (nd_Value: string) (nd_Content: "node list")


text \<open>
  The third-party functions over their tree type \<open>'m\<close>: encoding the defaults as a node, decoding a node into a tree
  or a leaf, the environment provider with its transformation (which updates a state), merging a tree into
  another, existence of a path, and the decoding of a tree into a configuration.
\<close>

record 'm packages =
  pk_encode :: "Config \<Rightarrow> node result"
  pk_decode :: "node \<Rightarrow> 'm option"
  pk_leaf :: "node \<Rightarrow> reflect_type \<Rightarrow> bool"
  pk_environment :: "string list \<Rightarrow> (string \<Rightarrow> string \<Rightarrow> error option \<Rightarrow> (string \<times> loaded) \<times> error option) \<Rightarrow> error option
    \<Rightarrow> 'm result \<times> error option"
  pk_empty :: 'm
  pk_load :: "'m \<Rightarrow> 'm \<Rightarrow> 'm result"
  pk_exists :: "'m \<Rightarrow> string \<Rightarrow> bool"
  pk_unmarshal :: "'m \<Rightarrow> Config option"

section \<open>Settings and their names\<close>


type_synonym setting_types = "(string, reflect_type) gomap"
type_synonym setting_names = "(string, string) gomap"




section \<open>The environment\<close>

definition canonicalEnv :: "string \<Rightarrow> string" where
  "canonicalEnv name = (if name = ''MDS_SENTRY_DSN'' then ''MDS_OBSERVABILITY_SENTRY_DSN'' else name)"

definition parseEnvironment :: "go_text \<Rightarrow> string \<Rightarrow> reflect_type \<Rightarrow> loaded result" where
  "parseEnvironment tx raw typ =
     (case typ of
        Int_type \<Rightarrow> (case Atoi raw of None \<Rightarrow> Inl (Plain ''strconv.Atoi: parsing'') | Some n \<Rightarrow> Inr (L_int n))
      | Bool_type \<Rightarrow>
          if raw \<noteq> ''true'' \<and> raw \<noteq> ''false'' then Inl (Plain ''expected boolean'') else Inr (L_bool (raw = ''true''))
      | Float_type \<Rightarrow> (case tx_ParseFloat tx raw of None \<Rightarrow> Inl (Plain ''strconv.ParseFloat: parsing'') | Some x \<Rightarrow> Inr (L_float x))
      | Strings_type \<Rightarrow>
          (case tx_Strings tx raw of
             Some (Some xs) \<Rightarrow> Inr (L_strings xs)
           | _ \<Rightarrow> Inl (Plain ''expected JSON string array''))
      | Duration_type \<Rightarrow>
          (case tx_ParseDuration tx raw of None \<Rightarrow> Inl (Plain ''time: invalid duration'') | Some _ \<Rightarrow> Inr (L_string raw))
      | String_type \<Rightarrow> Inr (L_string raw))"

fun check_entries :: "setting_names \<Rightarrow> string list \<Rightarrow> string list \<Rightarrow> error option" where
  "check_entries names seen [] = None"
| "check_entries names seen (entry # environment) =
     (let (name, val) = cut_entry entry; canonical = canonicalEnv name in
      if \<not> HasPrefix name ''MDS_'' then check_entries names seen environment
      else if \<not> ghas names canonical then Some (Plain (''unknown environment setting '' @ name))
      else if val = None \<or> canonical \<in> set seen then Some (Plain (''invalid or duplicate environment setting '' @ name))
      else check_entries names (canonical # seen) environment)"

text \<open>
  \<open>TransformFunc\<close>: the first bad value is remembered. A value that comes with an error is never used.
\<close>

definition transform :: "go_text \<Rightarrow> setting_types \<Rightarrow> setting_names \<Rightarrow> string \<Rightarrow> string \<Rightarrow> error option
    \<Rightarrow> (string \<times> loaded) \<times> error option" where
  "transform tx leaves names name raw envError =
     (let path = (case map_of names (canonicalEnv name) of None \<Rightarrow> [] | Some p \<Rightarrow> p) in
      case parseEnvironment tx raw (case map_of leaves path of None \<Rightarrow> String_type | Some t \<Rightarrow> t) of
        Inl _ \<Rightarrow> ((path, L_nil), if envError = None then Some (Plain (''invalid environment setting '' @ name)) else envError)
      | Inr v \<Rightarrow> ((path, v), envError))"

definition readEnvironment :: "go_text \<Rightarrow> 'm packages \<Rightarrow> string list \<Rightarrow> setting_types \<Rightarrow> setting_names \<Rightarrow> 'm result" where
  "readEnvironment tx pk environment leaves names =
     (case check_entries names [] environment of
        Some e \<Rightarrow> Inl e
      | None \<Rightarrow>
        (case pk_environment pk environment (transform tx leaves names) None of
           (Inl e, _) \<Rightarrow> Inl e
         | (Inr v, Some e) \<Rightarrow> Inl e
         | (Inr v, None) \<Rightarrow> Inr v))"

section \<open>The document\<close>





section \<open>Loading\<close>






section \<open>What the environment checks accept\<close>

abbreviation is_setting :: "string \<Rightarrow> bool" where
  "is_setting entry \<equiv> HasPrefix entry ''MDS_''"

abbreviation entry_name :: "string \<Rightarrow> string" where
  "entry_name entry \<equiv> canonicalEnv (fst (cut_entry entry))"

lemma HasPrefix_name: "HasPrefix (fst (cut_entry entry)) ''MDS_'' \<longleftrightarrow> is_setting entry"
proof -
  have "take (length p) (takeWhile P entry) = p \<longleftrightarrow> take (length p) entry = p" if "\<forall>ch \<in> set p. P ch" for P and p :: string
    using that
  proof (induction p arbitrary: entry)
    case (Cons ch p)
    then show ?case by (cases entry) auto
  qed simp
  from this [of "''MDS_''" "\<lambda>ch. ch \<noteq> CHR ''=''"] show ?thesis by (simp add: HasPrefix_def cut_entry_def)
qed

lemma check_entries_None:
  "check_entries names seen environment = None \<longleftrightarrow>
     (\<forall>entry \<in> set environment. is_setting entry \<longrightarrow>
        ghas names (entry_name entry) \<and> snd (cut_entry entry) \<noteq> None \<and> entry_name entry \<notin> set seen)
     \<and> distinct (map entry_name (filter is_setting environment))"
proof (induction environment arbitrary: seen)
  case (Cons entry environment)
  have step: "check_entries names seen (entry # environment) =
     (if \<not> is_setting entry then check_entries names seen environment
      else if \<not> ghas names (entry_name entry) then Some (Plain (''unknown environment setting '' @ fst (cut_entry entry)))
      else if snd (cut_entry entry) = None \<or> entry_name entry \<in> set seen
      then Some (Plain (''invalid or duplicate environment setting '' @ fst (cut_entry entry)))
      else check_entries names (entry_name entry # seen) environment)"
    by (simp add: HasPrefix_name Let_def case_prod_unfold)
  show ?case
  proof (cases "is_setting entry")
    case True
    then show ?thesis unfolding step by (auto simp: Cons.IH image_iff)
  next
    case False
    then show ?thesis unfolding step by (simp add: Cons.IH)
  qed
qed simp

text \<open>
  The documented behaviour of koanf's environment provider: it hands every entry with the prefix, cut at
  the first equals sign, to the transformation, in order, and returns the values.
\<close>

definition setting_entries :: "string list \<Rightarrow> (string \<times> string) list" where
  "setting_entries environment =
     map (\<lambda>entry. (fst (cut_entry entry), case snd (cut_entry entry) of None \<Rightarrow> [] | Some raw \<Rightarrow> raw)) (filter is_setting environment)"

definition environment_contract :: "'m packages \<Rightarrow> bool" where
  "environment_contract pk \<longleftrightarrow> (\<forall>environment f st.
     (\<exists>v. fst (pk_environment pk environment f st) = Inr v)
     \<and> snd (pk_environment pk environment f st) = foldl (\<lambda>st (name, raw). snd (f name raw st)) st (setting_entries environment))"

definition text_type :: "setting_types \<Rightarrow> setting_names \<Rightarrow> string \<Rightarrow> reflect_type" where
  "text_type leaves names canonical =
     (case map_of leaves (case map_of names canonical of None \<Rightarrow> [] | Some p \<Rightarrow> p) of None \<Rightarrow> String_type | Some t \<Rightarrow> t)"

lemma transform_state:
  "snd (transform tx leaves names name raw st) = None \<longleftrightarrow>
     st = None \<and> (\<exists>v. parseEnvironment tx raw (text_type leaves names (canonicalEnv name)) = Inr v)"
  by (auto simp: transform_def text_type_def Let_def split: sum.splits)

lemma transform_states:
  "foldl (\<lambda>st (name, raw). snd (transform tx leaves names name raw st)) st entries = None \<longleftrightarrow>
     st = None \<and> (\<forall>(name, raw) \<in> set entries. \<exists>v. parseEnvironment tx raw (text_type leaves names (canonicalEnv name)) = Inr v)"
  by (induction entries arbitrary: st) (auto simp: transform_state)

lemma readEnvironment_Inr:
  assumes "environment_contract pk"
  shows "(\<exists>v. readEnvironment tx pk environment leaves names = Inr v) \<longleftrightarrow>
     (\<forall>entry \<in> set environment. is_setting entry \<longrightarrow> ghas names (entry_name entry) \<and>
        (\<exists>raw v. snd (cut_entry entry) = Some raw \<and> parseEnvironment tx raw (text_type leaves names (entry_name entry)) = Inr v))
     \<and> distinct (map entry_name (filter is_setting environment))"
proof -
  have fst_ok: "\<exists>v. fst (pk_environment pk environment f st) = Inr v"
    and snd_ok: "snd (pk_environment pk environment f st) = foldl (\<lambda>st (name, raw). snd (f name raw st)) st (setting_entries environment)" for f st
    using assms unfolding environment_contract_def by blast+
  obtain v st where run: "pk_environment pk environment (transform tx leaves names) None = (Inr v, st)"
    using fst_ok by (metis prod.collapse)
  have st: "st = None \<longleftrightarrow> (\<forall>(name, raw) \<in> set (setting_entries environment).
      \<exists>v. parseEnvironment tx raw (text_type leaves names (canonicalEnv name)) = Inr v)"
    using snd_ok [of "transform tx leaves names" None] run by (simp add: transform_states)
  have "(\<exists>v. readEnvironment tx pk environment leaves names = Inr v) \<longleftrightarrow> check_entries names [] environment = None \<and> st = None"
    by (auto simp: readEnvironment_def run split: option.splits)
  also have "\<dots> \<longleftrightarrow> (\<forall>entry \<in> set environment. is_setting entry \<longrightarrow> ghas names (entry_name entry) \<and>
        (\<exists>raw v. snd (cut_entry entry) = Some raw \<and> parseEnvironment tx raw (text_type leaves names (entry_name entry)) = Inr v))
     \<and> distinct (map entry_name (filter is_setting environment))"
    unfolding check_entries_None st setting_entries_def by (fastforce split: option.splits)
  finally show ?thesis .
qed

section \<open>What the document checks accept\<close>




section \<open>Loading as a whole\<close>




section \<open>Properties\<close>

text \<open>
  The environment is read strictly: with an environment provider that behaves as documented, the variables
  with the prefix of the service are accepted exactly when each of them names a setting, has a value that
  parses as the type of that setting, and no setting is given twice, the alias of the Sentry data source name
  counting as its setting. Variables without the prefix never matter. One bad variable makes the load fail.
\<close>

theorem environment_is_strict:
  assumes "environment_contract pk"
  shows "(\<exists>v. readEnvironment tx pk environment leaves names = Inr v) \<longleftrightarrow>
     (\<forall>entry \<in> set environment. HasPrefix entry ''MDS_'' \<longrightarrow> ghas names (canonicalEnv (fst (cut_entry entry))) \<and>
        (\<exists>raw v. snd (cut_entry entry) = Some raw
          \<and> parseEnvironment tx raw (text_type leaves names (canonicalEnv (fst (cut_entry entry)))) = Inr v))
     \<and> distinct (map (\<lambda>entry. canonicalEnv (fst (cut_entry entry))) (filter (\<lambda>entry. HasPrefix entry ''MDS_'') environment))"
  by (rule readEnvironment_Inr [OF assms])

text \<open>Packages that meet the contract, over lists of settings.\<close>

definition list_provider :: "string list \<Rightarrow> (string \<Rightarrow> string \<Rightarrow> error option \<Rightarrow> (string \<times> loaded) \<times> error option) \<Rightarrow> error option
    \<Rightarrow> (string \<times> loaded) list result \<times> error option" where
  "list_provider environment f st =
     (let (v, st) = foldl (\<lambda>(v, st) (name, raw). (fst (f name raw st) # v, snd (f name raw st))) ([], st) (setting_entries environment)
      in (Inr v, st))"

definition plain_schema :: node where
  "plain_schema = Node MappingNode ''!!map'' [] []
     [Node ScalarNode ''!!str'' [] ''klines'' [], Node MappingNode ''!!map'' [] []
        [Node ScalarNode ''!!str'' [] ''max_callers'' [], Node ScalarNode ''!!int'' [] ''64'' []]]"

definition list_packages :: "(string \<times> loaded) list packages" where
  "list_packages = \<lparr>pk_encode = \<lambda>_. Inr plain_schema, pk_decode = \<lambda>_. Some [], pk_leaf = \<lambda>_ _. True,
     pk_environment = list_provider, pk_empty = [], pk_load = \<lambda>m v. Inr (v @ m), pk_exists = \<lambda>m path. path \<in> fst ` set m,
     pk_unmarshal = \<lambda>_. Some Defaults\<rparr>"

lemma list_provider_state:
  "snd (foldl (\<lambda>(v, st) (name, raw). (fst (f name raw st) # v, snd (f name raw st))) (v, st) entries)
     = foldl (\<lambda>st (name, raw). snd (f name raw st)) st entries"
  by (induction entries arbitrary: v st) (auto simp: case_prod_unfold)

lemma list_provider_run:
  "list_provider environment f st = (Inr (fst (foldl (\<lambda>(v, st) (name, raw). (fst (f name raw st) # v, snd (f name raw st))) ([], st)
     (setting_entries environment))), foldl (\<lambda>st (name, raw). snd (f name raw st)) st (setting_entries environment))"
  unfolding list_provider_def Let_def case_prod_beta list_provider_state [unfolded case_prod_beta] ..

lemma list_packages_contract: "environment_contract list_packages"
  unfolding environment_contract_def by (simp add: list_packages_def list_provider_run)





definition plain_text :: go_text where
  "plain_text = \<lparr>tx_ParseFloat = \<lambda>_. None, tx_ParseDuration = \<lambda>_. None, tx_Strings = \<lambda>_. None\<rparr>"

theorem environment_is_strict_witness:
  "\<exists>v. readEnvironment plain_text list_packages [''PATH=/bin'', ''MDS_KLINES_MAX_CALLERS=32'']
      [(''klines.max_callers'', Int_type)] [(''MDS_KLINES_MAX_CALLERS'', ''klines.max_callers'')] = Inr v"
proof -
  have "parseEnvironment plain_text ''32'' (text_type [(''klines.max_callers'', Int_type)]
      [(''MDS_KLINES_MAX_CALLERS'', ''klines.max_callers'')] (canonicalEnv ''MDS_KLINES_MAX_CALLERS'')) = Inr (L_int 32)"
    and "cut_entry ''MDS_KLINES_MAX_CALLERS=32'' = (''MDS_KLINES_MAX_CALLERS'', Some ''32'')"
    and "\<not> HasPrefix ''PATH=/bin'' ''MDS_''"
    and "ghas [(''MDS_KLINES_MAX_CALLERS'', ''klines.max_callers'')] (canonicalEnv ''MDS_KLINES_MAX_CALLERS'')"
    by code_simp+
  then show ?thesis unfolding environment_is_strict [OF list_packages_contract] by auto
qed




end
