(* ===== verification/Service_Main.thy ===== *)
theory Service_Main
  imports Bootstrap Config_Load
begin

text \<open>
  The command: \<open>src/cmd/market-data-service\<close> (\<open>main.go\<close>, \<open>health.go\<close>). It parses the flags, loads the configuration, and
  checks it, probes a running service, or starts one. The outcomes of the flag package, of opening the file and of the
  HTTP client are arguments.
\<close>

section \<open>The health probe\<close>






section \<open>The command\<close>








section \<open>Properties\<close>






end
