(* ===== verification/Telemetry.thy ===== *)
theory Telemetry
  imports Upstream_Diagnostics Upstream_Transport Snapshot_Service Kline_Service Grpc_Server "HOL-Library.Word"
begin

text \<open>
  What the service reports about itself: the counters of \<open>src/internal/infrastructure/observability\<close>
  (\<open>exchange.go\<close>, \<open>instruments.go\<close>, \<open>current.go\<close>, \<open>klines.go\<close>, \<open>rpc.go\<close>), the samples made of them (\<open>statistics.go\<close>,
  \<open>admission.go\<close>) and the error reports and the HTTP wrapper of \<open>sentry.go\<close>.

  A counter is an unsigned 64-bit word. The arithmetic on \<open>float64\<close> is an argument, a record of the operations the code
  uses, so that every statement holds whatever they round to. A map is a \<open>gomap\<close>; where the code iterates over
  one the samples are sorted afterwards.
\<close>

section \<open>Counters\<close>

record 'f floats =
  fl_zero :: 'f
  fl_of_int :: "int \<Rightarrow> 'f"
  fl_add :: "'f \<Rightarrow> 'f \<Rightarrow> 'f"
  fl_max :: "'f \<Rightarrow> 'f \<Rightarrow> 'f"
  fl_Seconds :: "duration \<Rightarrow> 'f"
  fl_thousandth :: "int \<Rightarrow> 'f"
  fl_text :: "'f \<Rightarrow> string"

type_synonym uint64 = "64 word"

record 'f DurationStats =
  du_Count :: uint64
  du_Sum :: 'f
  du_Max :: 'f

definition no_durations :: "'f floats \<Rightarrow> 'f DurationStats" where
  "no_durations fl = \<lparr>du_Count = 0, du_Sum = fl_zero fl, du_Max = fl_zero fl\<rparr>"

definition duration_add :: "'f floats \<Rightarrow> duration \<Rightarrow> 'f DurationStats \<Rightarrow> 'f DurationStats" where
  "duration_add fl d s =
     (let secs = fl_max fl (fl_zero fl) (fl_Seconds fl d)
      in \<lparr>du_Count = du_Count s + 1, du_Sum = fl_add fl (du_Sum s) secs, du_Max = fl_max fl (du_Max s) secs\<rparr>)"

text \<open>Publications of instruments and of current data.\<close>

record InstrumentStats =
  ist_RefreshTotal :: uint64
  ist_RefreshErrorsTotal :: uint64
  ist_LastSuccessfulFetch :: time
  ist_SnapshotSize :: int

definition no_publications :: InstrumentStats where
  "no_publications = \<lparr>ist_RefreshTotal = 0, ist_RefreshErrorsTotal = 0, ist_LastSuccessfulFetch = zero_time, ist_SnapshotSize = 0\<rparr>"

type_synonym Instruments_metrics = "(Scope, InstrumentStats) gomap"

definition Instruments_Observe :: "instrument_RefreshEvent \<Rightarrow> Instruments_metrics \<Rightarrow> Instruments_metrics" where
  "Instruments_Observe ev m =
     (let stats = gget no_publications m (ie_Scope ev);
          stats = (if ie_Error ev \<noteq> None then stats\<lparr>ist_RefreshErrorsTotal := ist_RefreshErrorsTotal stats + 1\<rparr>
            else stats\<lparr>ist_RefreshTotal := ist_RefreshTotal stats + 1, ist_LastSuccessfulFetch := ie_UpdatedAt ev,
              ist_SnapshotSize := int (ie_Size ev)\<rparr>)
      in AList.update (ie_Scope ev) stats m)"

text \<open>\<open>CurrentStats\<close> has the fields of \<open>InstrumentStats\<close>; its key adds the window, zero for tickers.\<close>

type_synonym Current_metrics = "(Scope \<times> duration, InstrumentStats) gomap"

definition Current_Observe :: "RefreshEvent \<Rightarrow> Current_metrics \<Rightarrow> Current_metrics" where
  "Current_Observe ev m =
     (let key = (ev_Scope ev, ev_Window ev); stats = gget no_publications m key;
          stats = (if ev_Error ev \<noteq> None then stats\<lparr>ist_RefreshErrorsTotal := ist_RefreshErrorsTotal stats + 1\<rparr>
            else stats\<lparr>ist_RefreshTotal := ist_RefreshTotal stats + 1, ist_LastSuccessfulFetch := ev_FetchedAt ev,
              ist_SnapshotSize := int (ev_Size ev)\<rparr>)
      in AList.update key stats m)"

text \<open>Candles.\<close>

record 'f KlineStats =
  kst_CacheHits :: uint64
  kst_CacheMisses :: uint64
  kst_Fills :: uint64
  kst_SharedWaits :: uint64
  kst_Attempts :: uint64
  kst_Downloaded :: uint64
  kst_Duration :: "'f DurationStats"

definition no_fills :: "'f floats \<Rightarrow> 'f KlineStats" where
  "no_fills fl = \<lparr>kst_CacheHits = 0, kst_CacheMisses = 0, kst_Fills = 0, kst_SharedWaits = 0, kst_Attempts = 0, kst_Downloaded = 0,
     kst_Duration = no_durations fl\<rparr>"

definition Klines_Observe :: "'f floats \<Rightarrow> Event \<Rightarrow> (Scope, 'f KlineStats) gomap \<Rightarrow> (Scope, 'f KlineStats) gomap" where
  "Klines_Observe fl ev m =
     (let stats = gget (no_fills fl) m (e_Scope ev);
          stats = (if e_CacheRead ev then
              (if e_CacheHit ev then stats\<lparr>kst_CacheHits := kst_CacheHits stats + 1\<rparr>
               else stats\<lparr>kst_CacheMisses := kst_CacheMisses stats + 1\<rparr>) else stats);
          stats = (if e_FillStarted ev then stats\<lparr>kst_Fills := kst_Fills stats + 1\<rparr> else stats);
          stats = (if e_SharedWait ev then stats\<lparr>kst_SharedWaits := kst_SharedWaits stats + 1\<rparr> else stats);
          stats = stats\<lparr>kst_Attempts := kst_Attempts stats + word_of_int (e_Attempts ev),
            kst_Downloaded := kst_Downloaded stats + word_of_nat (e_Downloaded ev)\<rparr>;
          stats = (if e_Completed ev then stats\<lparr>kst_Duration := duration_add fl (e_Duration ev) (kst_Duration stats)\<rparr> else stats)
      in AList.update (e_Scope ev) stats m)"

text \<open>Requests to the exchanges.\<close>

definition operationName :: "Operation \<Rightarrow> string" where
  "operationName opr = (case opr of Tickers \<Rightarrow> ''tickers'' | Klines \<Rightarrow> ''klines'' | Instruments \<Rightarrow> ''instruments'' | MarketStats \<Rightarrow> ''market_stats'')"

record 'f ExchangeStats =
  xst_Requests :: uint64
  xst_Errors :: uint64
  xst_OversizedBodies :: uint64
  xst_Duration :: "'f DurationStats"

definition no_requests :: "'f floats \<Rightarrow> 'f ExchangeStats" where
  "no_requests fl = \<lparr>xst_Requests = 0, xst_Errors = 0, xst_OversizedBodies = 0, xst_Duration = no_durations fl\<rparr>"

definition exchangeScope :: "upstream_Event \<Rightarrow> Scope \<times> string" where
  "exchangeScope ev =
     (if ue_Scope ev \<noteq> Bybit
      then \<lparr>sc_Exchange = ExchangeBinance, sc_Market = (if ue_Scope ev = BinanceLinear then MarketLinear else MarketSpot)\<rparr>
      else \<lparr>sc_Exchange = ExchangeBybit, sc_Market = ue_Market ev\<rparr>, operationName (ue_Operation ev))"

definition Exchanges_Observe :: "'f floats \<Rightarrow> upstream_Event \<Rightarrow> (Scope \<times> string, 'f ExchangeStats) gomap \<Rightarrow> (Scope \<times> string, 'f ExchangeStats) gomap" where
  "Exchanges_Observe fl ev m =
     (let key = exchangeScope ev; stats = gget (no_requests fl) m key;
          stats = stats\<lparr>xst_Requests := xst_Requests stats + 1\<rparr>;
          stats = (if ue_Error ev \<noteq> None then stats\<lparr>xst_Errors := xst_Errors stats + 1\<rparr> else stats);
          stats = (if ue_FailureReason ev = ''oversized_body'' then stats\<lparr>xst_OversizedBodies := xst_OversizedBodies stats + 1\<rparr> else stats)
      in AList.update key (stats\<lparr>xst_Duration := duration_add fl (ue_Duration ev) (xst_Duration stats)\<rparr>) m)"

text \<open>Calls of the gRPC server.\<close>

record rpcKey =
  rk_method :: string
  rk_code :: string
  rk_reason :: string

record 'f rpcTotals =
  rt_count :: uint64
  rt_requestBytes :: uint64
  rt_responseBytes :: uint64
  rt_duration :: "'f DurationStats"

record 'f RPC =
  rpc_active :: "(string, int) gomap"
  rpc_totals :: "(rpcKey, 'f rpcTotals) gomap"

definition NewRPC :: "'f RPC" where
  "NewRPC = \<lparr>rpc_active = [], rpc_totals = []\<rparr>"

definition no_calls :: "'f floats \<Rightarrow> 'f rpcTotals" where
  "no_calls fl = \<lparr>rt_count = 0, rt_requestBytes = 0, rt_responseBytes = 0, rt_duration = no_durations fl\<rparr>"

definition metric_methods :: "string list" where
  "metric_methods = [''ListInstruments'', ''ListTickers'', ''ListMarketStats'', ''GetKlines'']"

definition metric_reasons :: "string list" where
  "metric_reasons = ['''', ''invalid_parameter'', ''invalid_filter'', ''invalid_status'', ''unsupported_window'', ''invalid_interval'', ''invalid_range'',
     ''request_too_large'', ''range_out_of_retention'', ''symbol_not_found'', ''data_not_ready'', ''upstream_unavailable'', ''upstream_error'',
     ''service_overloaded'', ''upstream_attempt_limit'', ''response_too_large'', ''incomplete_data'', ''invalid_upstream_data'', ''request_timeout'',
     ''request_canceled'', ''unsupported_operation'', ''internal_error'', ''transport_error'']"

text \<open>\<open>codes.Code.String\<close>; a code above \<open>Unauthenticated\<close> has been replaced by \<open>Unknown\<close>.\<close>

definition code_String :: "rpc_code \<Rightarrow> string" where
  "code_String c = (case c of Code_OK \<Rightarrow> ''OK'' | Code_Canceled \<Rightarrow> ''Canceled'' | Code_Unknown \<Rightarrow> ''Unknown'' | Code_InvalidArgument \<Rightarrow> ''InvalidArgument''
     | Code_DeadlineExceeded \<Rightarrow> ''DeadlineExceeded'' | Code_NotFound \<Rightarrow> ''NotFound'' | Code_AlreadyExists \<Rightarrow> ''AlreadyExists''
     | Code_PermissionDenied \<Rightarrow> ''PermissionDenied'' | Code_ResourceExhausted \<Rightarrow> ''ResourceExhausted'' | Code_FailedPrecondition \<Rightarrow> ''FailedPrecondition''
     | Code_Aborted \<Rightarrow> ''Aborted'' | Code_OutOfRange \<Rightarrow> ''OutOfRange'' | Code_Unimplemented \<Rightarrow> ''Unimplemented'' | Code_Internal \<Rightarrow> ''Internal''
     | Code_Unavailable \<Rightarrow> ''Unavailable'' | Code_DataLoss \<Rightarrow> ''DataLoss'' | Code_Unauthenticated \<Rightarrow> ''Unauthenticated'' | Code_Other n \<Rightarrow> ''Unknown'')"

definition metric_method :: "string \<Rightarrow> string" where
  "metric_method name = (if name \<in> set metric_methods then name else ''unknown'')"

definition metric_key :: "string \<Rightarrow> rpc_Event \<Rightarrow> rpcKey" where
  "metric_key name ev = \<lparr>rk_method = metric_method name, rk_code = code_String (re_Code ev),
     rk_reason = (if re_Reason ev \<in> set metric_reasons then re_Reason ev else ''unknown'')\<rparr>"

text \<open>\<open>Start\<close>, and the function it returns.\<close>

definition RPC_Start :: "string \<Rightarrow> 'f RPC \<Rightarrow> 'f RPC" where
  "RPC_Start name s = s\<lparr>rpc_active := AList.update (metric_method name) (gget 0 (rpc_active s) (metric_method name) + 1) (rpc_active s)\<rparr>"

definition RPC_finish :: "'f floats \<Rightarrow> string \<Rightarrow> rpc_Event \<Rightarrow> 'f RPC \<Rightarrow> 'f RPC" where
  "RPC_finish fl name ev s =
     (let key = metric_key name ev; totals = gget (no_calls fl) (rpc_totals s) key;
          totals = \<lparr>rt_count = rt_count totals + 1, rt_requestBytes = rt_requestBytes totals + word_of_int (max 0 (re_RequestBytes ev)),
            rt_responseBytes = rt_responseBytes totals + word_of_int (max 0 (re_ResponseBytes ev)),
            rt_duration = duration_add fl (re_Duration ev) (rt_duration totals)\<rparr>
      in s\<lparr>rpc_active := AList.update (metric_method name) (gget 0 (rpc_active s) (metric_method name) - 1) (rpc_active s),
           rpc_totals := AList.update key totals (rpc_totals s)\<rparr>)"

section \<open>Samples\<close>

type_synonym sample_labels = "(string, string) gomap"

record 'f Sample =
  sp_Name :: string
  sp_Labels :: sample_labels
  sp_Value :: 'f

definition sample :: "string \<Rightarrow> sample_labels \<Rightarrow> 'f \<Rightarrow> 'f Sample" where
  "sample name labels val = \<lparr>sp_Name = name, sp_Labels = labels, sp_Value = val\<rparr>"

definition count_of :: "'f floats \<Rightarrow> uint64 \<Rightarrow> 'f" where
  "count_of fl n = fl_of_int fl (uint n)"

definition RPC_Samples :: "'f floats \<Rightarrow> 'f RPC option \<Rightarrow> 'f Sample list" where
  "RPC_Samples fl s =
     (case s of
        None \<Rightarrow> []
      | Some s \<Rightarrow>
          map (\<lambda>(name, active). sample ''rpc_active'' [(''method'', name)] (fl_of_int fl active)) (rpc_active s)
          @ concat (map (\<lambda>(key, totals).
              (let labels = [(''method'', rk_method key), (''status'', rk_code key), (''reason'', rk_reason key)]
               in [sample ''rpc_total'' labels (count_of fl (rt_count totals)),
                   sample ''rpc_request_bytes_total'' labels (count_of fl (rt_requestBytes totals)),
                   sample ''rpc_response_bytes_total'' labels (count_of fl (rt_responseBytes totals)),
                   sample ''rpc_duration_seconds_count'' labels (count_of fl (du_Count (rt_duration totals))),
                   sample ''rpc_duration_seconds_sum'' labels (du_Sum (rt_duration totals)),
                   sample ''rpc_duration_seconds_max'' labels (du_Max (rt_duration totals))])) (rpc_totals s)))"

definition scopeLabels :: "Scope \<Rightarrow> sample_labels" where
  "scopeLabels scope = [(''exchange'', sc_Exchange scope), (''market'', sc_Market scope)]"

text \<open>\<open>UnixMilli\<close> rounds down; a zero time is zero.\<close>

definition sample_timestamp :: "'f floats \<Rightarrow> time \<Rightarrow> 'f" where
  "sample_timestamp fl t = (if IsZero t then fl_zero fl else fl_thousandth fl (t div 1000000))"

definition publication :: "'f floats \<Rightarrow> string \<Rightarrow> sample_labels \<Rightarrow> InstrumentStats \<Rightarrow> 'f Sample list" where
  "publication fl prefix labels st =
     [sample (prefix @ ''_refresh_total'') labels (count_of fl (ist_RefreshTotal st)),
      sample (prefix @ ''_refresh_errors_total'') labels (count_of fl (ist_RefreshErrorsTotal st)),
      sample (''last_successful_'' @ prefix @ ''_fetch'') labels (sample_timestamp fl (ist_LastSuccessfulFetch st)),
      sample (prefix @ ''_snapshot_size'') labels (fl_of_int fl (ist_SnapshotSize st))]"

definition kline_samples :: "'f floats \<Rightarrow> sample_labels \<Rightarrow> 'f KlineStats \<Rightarrow> int \<Rightarrow> 'f Sample list" where
  "kline_samples fl labels k stored =
     [sample ''kline_cache_hits_total'' labels (count_of fl (kst_CacheHits k)),
      sample ''kline_cache_misses_total'' labels (count_of fl (kst_CacheMisses k)),
      sample ''kline_upstream_requests_total'' labels (count_of fl (kst_Attempts k)),
      sample ''kline_candles_downloaded_total'' labels (count_of fl (kst_Downloaded k)),
      sample ''singleflight_shared_total'' labels (count_of fl (kst_SharedWaits k)),
      sample ''kline_count'' labels (fl_of_int fl stored),
      sample ''kline_fill_duration_seconds_count'' labels (count_of fl (du_Count (kst_Duration k))),
      sample ''kline_fill_duration_seconds_sum'' labels (du_Sum (kst_Duration k)),
      sample ''kline_fill_duration_seconds_max'' labels (du_Max (kst_Duration k))]"

definition exchange_samples :: "'f floats \<Rightarrow> sample_labels \<Rightarrow> 'f ExchangeStats \<Rightarrow> 'f Sample list" where
  "exchange_samples fl labels st =
     [sample ''exchange_requests_total'' labels (count_of fl (xst_Requests st)),
      sample ''exchange_errors_total'' labels (count_of fl (xst_Errors st)),
      sample ''exchange_oversized_bodies_total'' labels (count_of fl (xst_OversizedBodies st)),
      sample ''exchange_request_duration_seconds_count'' labels (count_of fl (du_Count (xst_Duration st))),
      sample ''exchange_request_duration_seconds_sum'' labels (du_Sum (xst_Duration st)),
      sample ''exchange_request_duration_seconds_max'' labels (du_Max (xst_Duration st))]"

text \<open>The admission view.\<close>

definition metricWindow :: "string \<Rightarrow> bool" where
  "metricWindow name \<longleftrightarrow> name = ''request_weight_1m'' \<or> name = ''raw_requests_5m'' \<or> name = ''funding_requests_5m''"

definition metric_flag :: "'f floats \<Rightarrow> bool \<Rightarrow> 'f" where
  "metric_flag fl b = fl_of_int fl (if b then 1 else 0)"

abbreviation admission_sample :: "string \<Rightarrow> sample_labels \<Rightarrow> 'f \<Rightarrow> 'f Sample" where
  "admission_sample name \<equiv> sample (''admission_'' @ name)"

definition window_samples :: "'f floats \<Rightarrow> upstream_Scope \<Rightarrow> WindowDiagnostic \<Rightarrow> 'f Sample list" where
  "window_samples fl scope w =
     (let labels = [(''scope'', scope), (''window'', wd_Name w)] in
      map (\<lambda>(name, val). admission_sample name labels val)
        [(''window_seconds'', fl_Seconds fl (wd_Window w)), (''limit_age_seconds'', fl_Seconds fl (wd_Age w)),
         (''limit_updated_timestamp_seconds'', sample_timestamp fl (wd_UpdatedAt w)), (''exchange_limit'', fl_of_int fl (wd_ExchangeLimit w)),
         (''user_cap'', fl_of_int fl (wd_UserCap w)), (''threshold_percent'', fl_of_int fl (wd_ThresholdPercent w)),
         (''stop_line'', fl_of_int fl (wd_StopLine w)), (''observed_usage'', fl_of_int fl (wd_Observed w)),
         (''local_usage'', fl_of_int fl (wd_Local w)), (''accounted_usage'', fl_of_int fl (wd_Accounted w)),
         (''reserved_cost'', fl_of_int fl (wd_Reserved w)), (''remaining_allowance'', fl_of_int fl (wd_Remaining w)),
         (''uncertain'', metric_flag fl (wd_Uncertain w)), (''incomplete_history'', metric_flag fl (wd_IncompleteHistory w)),
         (''history_since_timestamp_seconds'', sample_timestamp fl (wd_HistorySince w))]
      @ map (\<lambda>source. admission_sample ''limit_source'' (labels @ [(''source'', source)]) (metric_flag fl (wd_Source w = source)))
          [''bootstrap'', ''exchange_info'']
      @ concat (map (\<lambda>d. (let labels = labels @ [(''operation'', od_Operation d)]
          in [admission_sample ''operation_request_cost'' labels (fl_of_int fl (od_RequestCost d)),
              admission_sample ''operation_share'' labels (fl_of_int fl (od_Share d)),
              admission_sample ''operation_local_usage'' labels (fl_of_int fl (od_Local d)),
              admission_sample ''operation_remaining_allowance'' labels (fl_of_int fl (od_Remaining d))])) (wd_Operations w)))"

definition metric_operations :: "string list" where
  "metric_operations = [''tickers'', ''klines'', ''instruments'', ''market_stats'']"

definition blocking_reasons :: "string list" where
  "blocking_reasons = [''common_threshold'', ''operation_share'', ''request_cost_exceeds_allowance'', ''exchange_cooldown'']"

text \<open>When an operation may go next: the latest of its windows, unknown as soon as one of them does not know.\<close>

definition next_eligible :: "time \<Rightarrow> OperationDiagnostic list \<Rightarrow> time" where
  "next_eligible now ds = (if list_ex (\<lambda>d. IsZero (od_NextEligible d)) ds then zero_time
     else foldl (\<lambda>t d. if od_NextEligible d > t then od_NextEligible d else t) now ds)"

definition operation_samples :: "'f floats \<Rightarrow> time \<Rightarrow> ScopeDiagnostic \<Rightarrow> string \<Rightarrow> 'f Sample list" where
  "operation_samples fl now scope name =
     (let ds = filter (\<lambda>d. od_Operation d = name) (concat (map wd_Operations (sd_Windows scope)));
          labels = [(''scope'', sd_Scope scope), (''operation'', name)]
      in admission_sample ''next_eligible_timestamp_seconds'' labels (sample_timestamp fl (next_eligible now ds))
         # map (\<lambda>reason. admission_sample ''blocking_windows'' (labels @ [(''reason'', reason)])
              (fl_of_int fl (int (length (filter (\<lambda>d. reason \<in> set (od_Reasons d)) ds))))) blocking_reasons)"

definition scope_samples :: "'f floats \<Rightarrow> time \<Rightarrow> ScopeDiagnostic \<Rightarrow> 'f Sample list" where
  "scope_samples fl now scope =
     (let labels = [(''scope'', sd_Scope scope)] in
      [admission_sample ''catalog_updated_timestamp_seconds'' labels (sample_timestamp fl (sd_CatalogUpdatedAt scope)),
       admission_sample ''catalog_error_timestamp_seconds'' labels (sample_timestamp fl (sd_CatalogErrorAt scope)),
       admission_sample ''cooldown_until_timestamp_seconds'' labels (sample_timestamp fl (sd_CooldownUntil scope))]
      @ map (\<lambda>reason. admission_sample ''catalog_error'' (labels @ [(''reason'', reason)]) (metric_flag fl (sd_CatalogError scope = reason)))
          [''catalog_refresh_failed'', ''oversized_body'']
      @ map (\<lambda>unit. admission_sample ''discovered_windows'' (labels @ [(''unit'', unit)])
          (fl_of_int fl (int (length (filter (\<lambda>w. wd_Unit w = unit \<and> \<not> metricWindow (wd_Name w)) (sd_Windows scope)))))) [''weight'', ''requests'']
      @ concat (map (window_samples fl (sd_Scope scope)) (filter (\<lambda>w. metricWindow (wd_Name w)) (sd_Windows scope)))
      @ concat (map (operation_samples fl now scope) metric_operations))"

definition admissionSamples :: "'f floats \<Rightarrow> AdmissionSnapshot \<Rightarrow> 'f Sample list" where
  "admissionSamples fl snapshot = concat (map (scope_samples fl (as_At snapshot)) (as_Scopes snapshot))"

text \<open>The text of labels, in the order of their keys. \<open>strconv.Quote\<close> is an argument.\<close>

definition labelText :: "(string \<Rightarrow> string) \<Rightarrow> sample_labels \<Rightarrow> string" where
  "labelText quote labels =
     ''{'' @ concat (case map (\<lambda>key. key @ ''='' @ quote (gget [] labels key)) (sort (map fst labels)) of
        [] \<Rightarrow> [] | p # ps \<Rightarrow> p # map (\<lambda>q. '','' @ q) ps) @ ''}''"

text \<open>
  The sources of a statistics snapshot; the inventory and the controller are represented by what they answer
  when they are asked.
\<close>

record 'f Statistics =
  st_RPC :: "'f RPC option"
  st_Admission :: "AdmissionSnapshot option"
  st_Instruments :: Instruments_metrics
  st_Current :: Current_metrics
  st_Klines :: "(Scope, 'f KlineStats) gomap"
  st_Exchanges :: "(Scope \<times> string, 'f ExchangeStats) gomap"
  st_Inventory :: "(Scope, nat) gomap result"
  st_Scopes :: "Scope list"

definition scope_statistics :: "'f floats \<Rightarrow> 'f Statistics \<Rightarrow> (Scope, nat) gomap \<Rightarrow> Scope \<Rightarrow> 'f Sample list" where
  "scope_statistics fl s counts scope =
     publication fl ''instrument'' (scopeLabels scope) (gget no_publications (st_Instruments s) scope)
     @ publication fl ''ticker'' (scopeLabels scope) (gget no_publications (st_Current s) (scope, 0))
     @ publication fl ''market_stats'' (scopeLabels scope @ [(''window'', ''24h'')]) (gget no_publications (st_Current s) (scope, 24 * Hour))
     @ kline_samples fl (scopeLabels scope) (gget (no_fills fl) (st_Klines s) scope) (int (gget 0 counts scope))"

definition Statistics_Snapshot :: "(string \<Rightarrow> string) \<Rightarrow> 'f floats \<Rightarrow> 'f Statistics \<Rightarrow> 'f Sample list result" where
  "Statistics_Snapshot quote fl s =
     (case st_Inventory s of
        Inl e \<Rightarrow> Inl e
      | Inr counts \<Rightarrow>
          Inr (sort_key (\<lambda>x. sp_Name x @ labelText quote (sp_Labels x))
            (RPC_Samples fl (st_RPC s)
             @ concat (map (scope_statistics fl s counts) (st_Scopes s))
             @ concat (map (\<lambda>((scope, name), st). exchange_samples fl (scopeLabels scope @ [(''operation'', name)]) st) (st_Exchanges s))
             @ (case st_Admission s of None \<Rightarrow> [] | Some snapshot \<Rightarrow> admissionSamples fl snapshot))))"

datatype 'f stats_reply = Stats_json "'f Sample list" | Stats_admission AdmissionSnapshot | Stats_text string | Stats_unavailable

definition DebugHandler :: "(string \<Rightarrow> string) \<Rightarrow> 'f floats \<Rightarrow> 'f Statistics \<Rightarrow> string \<Rightarrow> 'f stats_reply" where
  "DebugHandler quote fl s view =
     (if view = ''admission'' then (case st_Admission s of None \<Rightarrow> Stats_unavailable | Some snapshot \<Rightarrow> Stats_admission snapshot)
      else case Statistics_Snapshot quote fl s of Inl _ \<Rightarrow> Stats_unavailable | Inr samples \<Rightarrow> Stats_json samples)"

definition HasSuffix :: "string \<Rightarrow> string \<Rightarrow> bool" where
  "HasSuffix s suffix \<longleftrightarrow> length suffix \<le> length s \<and> drop (length s - length suffix) s = suffix"

definition metric_kind :: "string \<Rightarrow> string" where
  "metric_kind name =
     (if HasSuffix name ''_total'' \<or> HasSuffix name ''_count'' \<and> name \<noteq> ''kline_count'' \<or> HasSuffix name ''_sum'' then ''counter'' else ''gauge'')"

definition newline :: string where "newline = [CHR 10]"

fun prometheus_lines :: "(string \<Rightarrow> string) \<Rightarrow> 'f floats \<Rightarrow> string \<Rightarrow> 'f Sample list \<Rightarrow> string" where
  "prometheus_lines quote fl previous [] = []"
| "prometheus_lines quote fl previous (x # xs) =
     (if sp_Name x \<noteq> previous then ''# TYPE '' @ sp_Name x @ '' '' @ metric_kind (sp_Name x) @ newline else [])
     @ sp_Name x @ labelText quote (sp_Labels x) @ '' '' @ fl_text fl (sp_Value x) @ newline
     @ prometheus_lines quote fl (sp_Name x) xs"

definition PrometheusHandler :: "(string \<Rightarrow> string) \<Rightarrow> 'f floats \<Rightarrow> 'f Statistics \<Rightarrow> 'f stats_reply" where
  "PrometheusHandler quote fl s =
     (case Statistics_Snapshot quote fl s of Inl _ \<Rightarrow> Stats_unavailable | Inr samples \<Rightarrow> Stats_text (prometheus_lines quote fl [] samples))"

section \<open>Reports\<close>

text \<open>\<open>errors.As\<close> for the public error type.\<close>

fun as_application :: "error \<Rightarrow> app_error option" where
  "as_application (App a) = Some a"
| "as_application (Wrapped m es) =
     (case List.map_filter (\<lambda>e. e) (map as_application es) of [] \<Rightarrow> None | a # _ \<Rightarrow> Some a)"
| "as_application (Deferral r t e) = as_application e"
| "as_application _ = None"

definition ErrorCode :: "error option \<Rightarrow> string" where
  "ErrorCode err =
     (case err of
        None \<Rightarrow> ''internal_error''
      | Some e \<Rightarrow>
          if errors_Is e Canceled then ''canceled''
          else if errors_Is e DeadlineExceeded then ''deadline_exceeded''
          else (case as_application e of Some a \<Rightarrow> Code a | None \<Rightarrow> ''internal_error''))"

text \<open>What reaches Sentry: a code or a panic, with its tags.\<close>

datatype report = Report_code string "(string, string) gomap" | Report_panic "(string, string) gomap"

definition Sentry_Report :: "bool \<Rightarrow> error option \<Rightarrow> (string, string) gomap \<Rightarrow> report list" where
  "Sentry_Report enabled err tags =
     (if \<not> enabled \<or> err = None \<or> (case err of Some e \<Rightarrow> errors_Is e Canceled | None \<Rightarrow> False) then []
      else [Report_code (ErrorCode err) tags])"

definition safeSymbol :: "string \<Rightarrow> bool" where
  "safeSymbol s \<longleftrightarrow> s \<noteq> [] \<and> length s \<le> 64 \<and>
     list_all (\<lambda>r. CHR ''A'' \<le> r \<and> r \<le> CHR ''Z'' \<or> CHR ''0'' \<le> r \<and> r \<le> CHR ''9'' \<or> r = CHR ''_'' \<or> r = CHR ''-'') s"

text \<open>\<open>requestTags\<close>; \<open>query\<close> is the \<open>Get\<close> of the parsed query.\<close>

definition requestTags :: "(string \<Rightarrow> string) \<Rightarrow> (string, string) gomap" where
  "requestTags query =
     (let tags = [(''operation'', ''http.server'')];
          tags = (if Exchange_Valid (query ''exchange'') then AList.update ''exchange'' (query ''exchange'') tags else tags);
          tags = (if Market_Valid (query ''market'') then AList.update ''market'' (query ''market'') tags else tags);
          tags = (if Timeframe_Valid (query ''interval'') then AList.update ''interval'' (query ''interval'') tags else tags)
      in (if safeSymbol (query ''symbol'') then AList.update ''symbol'' (query ''symbol'') tags else tags))"

text \<open>The response writer that remembers the status, and what the wrapped writer received.\<close>

datatype sent = Sent_status int | Sent_body string | Sent_header string string

record statusWriter =
  sw_status :: int
  sw_failureCode :: string
  sw_cause :: "error option"
  sw_sent :: "sent list"

definition ObserveHTTPError :: "string \<Rightarrow> error option \<Rightarrow> statusWriter \<Rightarrow> statusWriter" where
  "ObserveHTTPError code cause w = w\<lparr>sw_failureCode := code, sw_cause := cause\<rparr>"

definition sw_WriteHeader :: "int \<Rightarrow> statusWriter \<Rightarrow> statusWriter" where
  "sw_WriteHeader status w = (if sw_status w \<noteq> 0 then w else w\<lparr>sw_status := status, sw_sent := sw_sent w @ [Sent_status status]\<rparr>)"

definition sw_Write :: "string \<Rightarrow> statusWriter \<Rightarrow> statusWriter" where
  "sw_Write body w =
     (let w = (if sw_status w = 0 then sw_WriteHeader 200 w else w) in w\<lparr>sw_sent := sw_sent w @ [Sent_body body]\<rparr>)"

text \<open>The handler below is the list of what it does with the writer, and whether it then panics.\<close>

datatype writer_call = Call_header string string | Call_status int | Call_body string | Call_error string "error option"

definition writer_step :: "writer_call \<Rightarrow> statusWriter \<Rightarrow> statusWriter" where
  "writer_step call w =
     (case call of
        Call_header k v \<Rightarrow> w\<lparr>sw_sent := sw_sent w @ [Sent_header k v]\<rparr>
      | Call_status status \<Rightarrow> sw_WriteHeader status w
      | Call_body body \<Rightarrow> sw_Write body w
      | Call_error code cause \<Rightarrow> ObserveHTTPError code cause w)"

definition panic_body :: string where
  "panic_body = ''{\"error\":{\"code\":\"internal_error\",\"message\":\"Internal error\"}}''"

definition route_name :: "string list \<Rightarrow> string \<Rightarrow> string" where
  "route_name routes path = (if path \<notin> set routes \<and> path \<noteq> ''/health'' \<and> path \<noteq> ''/ready'' then ''unknown'' else path)"

text \<open>The report on a finished response.\<close>

definition status_report :: "bool \<Rightarrow> error option \<Rightarrow> (string, string) gomap \<Rightarrow> statusWriter \<Rightarrow> report list" where
  "status_report enabled context tags w =
     (let canceled = (case sw_cause w of Some e \<Rightarrow> errors_Is e Canceled
            | None \<Rightarrow> (case context of Some e \<Rightarrow> errors_Is e Canceled | None \<Rightarrow> False)) in
      if sw_status w \<ge> 500 \<and> sw_failureCode w \<noteq> Code ErrDataNotReady \<and> \<not> canceled then
        (let code = (if sw_failureCode w = [] then (if sw_status w = 500 then Code ErrInternal else ''http_error'') else sw_failureCode w)
         in if enabled then [Report_code code (AList.update ''status'' (FormatInt (sw_status w)) tags)] else [])
      else [])"

text \<open>
  The wrapper: the writer at the end, the reports, and whether it aborts the connection. \<open>None\<close> as the answer
  stands for the abort of a response that a panic interrupted.
\<close>

definition Sentry_HTTP :: "bool \<Rightarrow> string list \<Rightarrow> string \<Rightarrow> (string \<Rightarrow> string) \<Rightarrow> error option \<Rightarrow> writer_call list \<Rightarrow> bool
    \<Rightarrow> statusWriter \<times> report list \<times> bool" where
  "Sentry_HTTP enabled routes path query context calls panics =
     (let tags = AList.update ''route'' (route_name routes path) (requestTags query);
          response = fold writer_step calls \<lparr>sw_status = 0, sw_failureCode = [], sw_cause = None, sw_sent = []\<rparr> in
      if panics then
        (let reports = (if enabled then [Report_panic tags] else []) in
         if sw_status response \<noteq> 0 then (response, reports, True)
         else
           (let response = sw_Write panic_body (sw_WriteHeader 500 (response\<lparr>sw_sent := sw_sent response @ [Sent_header ''Content-Type'' ''application/json'']\<rparr>))
            in (response, reports @ status_report enabled context tags response, False)))
      else (response, status_report enabled context tags response, False))"

definition ObserveExchange :: "bool \<Rightarrow> upstream_Event \<Rightarrow> report list" where
  "ObserveExchange enabled ev =
     (let (scope, name) = exchangeScope ev in Sentry_Report enabled (ue_Error ev) (AList.update ''operation'' name (scopeLabels scope)))"

section \<open>Counters of calls\<close>

datatype rpc_op = Rpc_started string | Rpc_finished string rpc_Event

definition rpc_apply :: "'f floats \<Rightarrow> rpc_op \<Rightarrow> 'f RPC \<Rightarrow> 'f RPC" where
  "rpc_apply fl op s = (case op of Rpc_started name \<Rightarrow> RPC_Start name s | Rpc_finished name ev \<Rightarrow> RPC_finish fl name ev s)"

definition starts :: "string \<Rightarrow> rpc_op list \<Rightarrow> nat" where
  "starts name ops = length (filter (\<lambda>op. case op of Rpc_started n \<Rightarrow> metric_method n = name | _ \<Rightarrow> False) ops)"

definition finishes :: "(rpcKey \<Rightarrow> bool) \<Rightarrow> rpc_op list \<Rightarrow> nat" where
  "finishes P ops = length (filter (\<lambda>op. case op of Rpc_finished n ev \<Rightarrow> P (metric_key n ev) | _ \<Rightarrow> False) ops)"

text \<open>The keys there can be, whatever is observed.\<close>

definition metric_codes :: "string list" where
  "metric_codes = map code_String [Code_OK, Code_Canceled, Code_Unknown, Code_InvalidArgument, Code_DeadlineExceeded, Code_NotFound,
     Code_AlreadyExists, Code_PermissionDenied, Code_ResourceExhausted, Code_FailedPrecondition, Code_Aborted, Code_OutOfRange,
     Code_Unimplemented, Code_Internal, Code_Unavailable, Code_DataLoss, Code_Unauthenticated]"

definition metric_keys :: "rpcKey list" where
  "metric_keys = concat (map (\<lambda>m. concat (map (\<lambda>c. map (\<lambda>r. \<lparr>rk_method = m, rk_code = c, rk_reason = r\<rparr>) (''unknown'' # metric_reasons)) metric_codes))
     (''unknown'' # metric_methods))"

lemma product_mem:
  "m \<in> set ms \<Longrightarrow> c \<in> set cs \<Longrightarrow> x \<in> set xs \<Longrightarrow> f m c x \<in> set (concat (map (\<lambda>m. concat (map (\<lambda>c. map (\<lambda>x. f m c x) xs) cs)) ms))"
  by auto

lemma product_length:
  "length (concat (map (\<lambda>m. concat (map (\<lambda>c. map (\<lambda>x. f m c x) xs) cs)) ms)) = length ms * (length cs * length xs)"
  by (simp add: length_concat comp_def sum_list_triv)

lemma metric_keys_product:
  "m \<in> set (''unknown'' # metric_methods) \<Longrightarrow> c \<in> set metric_codes \<Longrightarrow> x \<in> set (''unknown'' # metric_reasons) \<Longrightarrow>
     \<lparr>rk_method = m, rk_code = c, rk_reason = x\<rparr> \<in> set metric_keys"
  unfolding metric_keys_def by (rule product_mem)

lemma metric_key_known: "metric_key name ev \<in> set metric_keys"
proof -
  have "code_String (re_Code ev) \<in> set metric_codes" by (cases "re_Code ev") (simp_all add: metric_codes_def code_String_def)
  then show ?thesis unfolding metric_key_def by (intro metric_keys_product) (simp_all add: metric_method_def)
qed

lemma metric_method_known: "metric_method name \<in> set (''unknown'' # metric_methods)"
  by (simp add: metric_method_def)

definition rpc_metrics_ok :: "'f floats \<Rightarrow> rpc_op list \<Rightarrow> 'f RPC \<Rightarrow> bool" where
  "rpc_metrics_ok fl ops s \<longleftrightarrow> gwf (rpc_active s) \<and> gwf (rpc_totals s)
     \<and> fst ` set (rpc_active s) \<subseteq> set (''unknown'' # metric_methods) \<and> fst ` set (rpc_totals s) \<subseteq> set metric_keys
     \<and> (\<forall>name. gget 0 (rpc_active s) name = int (starts name ops) - int (finishes (\<lambda>key. rk_method key = name) ops))
     \<and> (\<forall>key. rt_count (gget (no_calls fl) (rpc_totals s) key) = of_nat (finishes (\<lambda>k. k = key) ops))"

lemma rpc_metrics_step:
  assumes "rpc_metrics_ok fl ops s"
  shows "rpc_metrics_ok fl (ops @ [op]) (rpc_apply fl op s)"
proof (cases op)
  case (Rpc_started name)
  with assms metric_method_known [of name] show ?thesis
    by (auto simp: rpc_metrics_ok_def rpc_apply_def RPC_Start_def starts_def finishes_def dom_update)
next
  case (Rpc_finished name ev)
  with assms metric_method_known [of name] metric_key_known [of name ev] show ?thesis
    by (auto simp: rpc_metrics_ok_def rpc_apply_def RPC_finish_def Let_def starts_def finishes_def metric_key_def dom_update)
qed

lemma rpc_metrics_run: "rpc_metrics_ok fl ops (fold (rpc_apply fl) ops NewRPC)"
proof (induction ops rule: rev_induct)
  case Nil
  show ?case by (simp add: rpc_metrics_ok_def NewRPC_def starts_def finishes_def gget_def no_calls_def)
next
  case (snoc op ops)
  then show ?case by (simp add: rpc_metrics_step)
qed

lemma metric_keys_length: "length metric_keys = 2040"
proof -
  have "length (''unknown'' # metric_reasons) = 24" "length metric_codes = 17" "length (''unknown'' # metric_methods) = 5"
    by (simp_all add: metric_codes_def metric_methods_def metric_reasons_def)
  then show ?thesis unfolding metric_keys_def product_length by simp
qed

lemma gwf_length: "gwf m \<Longrightarrow> fst ` set m \<subseteq> set xs \<Longrightarrow> length m \<le> length xs"
proof -
  assume wf: "gwf m" and sub: "fst ` set m \<subseteq> set xs"
  have "length m = card (fst ` set m)" using wf by (metis distinct_card gwf_def length_map list.set_map)
  also have "\<dots> \<le> card (set xs)" using sub by (intro card_mono) simp
  also have "\<dots> \<le> length xs" by (rule card_length)
  finally show ?thesis .
qed

section \<open>The wrapper\<close>

definition begins :: "sent \<Rightarrow> bool" where
  "begins x = (case x of Sent_header _ _ \<Rightarrow> False | _ \<Rightarrow> True)"

definition is_status :: "sent \<Rightarrow> bool" where
  "is_status x = (case x of Sent_status _ \<Rightarrow> True | _ \<Rightarrow> False)"

definition bodies :: "sent list \<Rightarrow> string list" where
  "bodies xs = List.map_filter (\<lambda>x. case x of Sent_body b \<Rightarrow> Some b | _ \<Rightarrow> None) xs"

definition writer_ok :: "statusWriter \<Rightarrow> bool" where
  "writer_ok w \<longleftrightarrow> (sw_status w = 0 \<longleftrightarrow> (\<forall>x \<in> set (sw_sent w). \<not> begins x)) \<and> length (filter is_status (sw_sent w)) \<le> 1
     \<and> (sw_status w = 0 \<longrightarrow> filter is_status (sw_sent w) = [] \<and> bodies (sw_sent w) = [])"

definition proper_call :: "writer_call \<Rightarrow> bool" where
  "proper_call call = (case call of Call_status n \<Rightarrow> 100 \<le> n | _ \<Rightarrow> True)"

lemmas writer_defs = writer_step_def sw_Write_def sw_WriteHeader_def ObserveHTTPError_def writer_ok_def begins_def is_status_def
  bodies_def map_filter_simps

lemma writer_step_ok: "writer_ok w \<Longrightarrow> proper_call call \<Longrightarrow> writer_ok (writer_step call w)"
  by (cases call) (auto simp: writer_defs proper_call_def Let_def List.map_filter_def)

lemma writer_run_ok: "list_all proper_call calls \<Longrightarrow> writer_ok w \<Longrightarrow> writer_ok (fold writer_step calls w)"
  by (induction calls arbitrary: w) (simp_all add: writer_step_ok)

definition starts_response :: "writer_call \<Rightarrow> bool" where
  "starts_response call = (case call of Call_status _ \<Rightarrow> True | Call_body _ \<Rightarrow> True | _ \<Rightarrow> False)"

lemma writer_begun:
  "list_all proper_call calls \<Longrightarrow> sw_status (fold writer_step calls w) = 0 \<longleftrightarrow> sw_status w = 0 \<and> \<not> list_ex starts_response calls"
proof (induction calls arbitrary: w)
  case (Cons call calls)
  have "sw_status (writer_step call w) = 0 \<longleftrightarrow> sw_status w = 0 \<and> \<not> starts_response call"
    using Cons.prems by (cases call) (auto simp: writer_defs starts_response_def proper_call_def Let_def)
  with Cons show ?case by simp
qed simp

text \<open>The tags a report may carry.\<close>

definition safe_tag :: "string list \<Rightarrow> string \<times> string \<Rightarrow> bool" where
  "safe_tag routes kv = (case kv of (k, v) \<Rightarrow>
     k = ''operation'' \<and> v = ''http.server'' \<or> k = ''exchange'' \<and> Exchange_Valid v \<or> k = ''market'' \<and> Market_Valid v
     \<or> k = ''interval'' \<and> Timeframe_Valid v \<or> k = ''symbol'' \<and> safeSymbol v
     \<or> k = ''route'' \<and> v \<in> set ([''/health'', ''/ready'', ''unknown''] @ routes) \<or> k = ''status'' \<and> (\<exists>n. v = FormatInt n))"

fun report_tags :: "report \<Rightarrow> (string, string) gomap" where
  "report_tags (Report_code c tags) = tags"
| "report_tags (Report_panic tags) = tags"

lemma safe_update: "list_all (safe_tag routes) tags \<Longrightarrow> safe_tag routes (k, v) \<Longrightarrow> list_all (safe_tag routes) (AList.update k v tags)"
  by (induction tags) auto

lemma requestTags_safe: "list_all (safe_tag routes) (requestTags query)"
  by (simp add: requestTags_def Let_def safe_update safe_tag_def)

lemma status_report_safe:
  "list_all (safe_tag routes) tags \<Longrightarrow> x \<in> set (status_report enabled context tags w) \<Longrightarrow> list_all (safe_tag routes) (report_tags x)"
  by (auto simp: status_report_def Let_def safe_tag_def split: if_splits intro!: safe_update)

section \<open>Properties\<close>

text \<open>
  C39. The counters of calls are exact and their cardinality is bounded. After any sequence of starts and ends, with
  any method names, codes and reasons, the active count of a method is its starts minus its ends, the total of a
  label combination is the number of calls that ended with it (modulo the width of the counter), every combination is
  one of the fixed 2040, and one scrape yields at most twelve thousand samples of calls: no client can make
  the set of metrics grow.
\<close>

theorem rpc_metrics_exact_and_bounded:
  "let s = fold (rpc_apply fl) ops NewRPC in
     (\<forall>name. gget 0 (rpc_active s) name = int (starts name ops) - int (finishes (\<lambda>key. rk_method key = name) ops))
     \<and> (\<forall>key. rt_count (gget (no_calls fl) (rpc_totals s) key) = of_nat (finishes (\<lambda>k. k = key) ops))
     \<and> fst ` set (rpc_totals s) \<subseteq> set metric_keys \<and> length metric_keys = 2040
     \<and> length (RPC_Samples fl (Some s)) \<le> 5 + 6 * 2040"
proof -
  define s where "s = fold (rpc_apply fl) ops NewRPC"
  have ok: "rpc_metrics_ok fl ops s" unfolding s_def by (rule rpc_metrics_run)
  then have "length (rpc_active s) \<le> length (''unknown'' # metric_methods)" and "length (rpc_totals s) \<le> length metric_keys"
    using gwf_length [of "rpc_active s" "''unknown'' # metric_methods"] gwf_length [of "rpc_totals s" metric_keys]
    unfolding rpc_metrics_ok_def by blast+
  then have active: "length (rpc_active s) \<le> 5" and totals: "length (rpc_totals s) \<le> 2040"
    by (simp_all add: metric_methods_def metric_keys_length)
  have "length (RPC_Samples fl (Some s)) = length (rpc_active s) + 6 * length (rpc_totals s)"
    by (simp add: RPC_Samples_def length_concat Let_def comp_def case_prod_unfold sum_list_triv)
  with active totals have "length (RPC_Samples fl (Some s)) \<le> 5 + 6 * 2040" by linarith
  with ok show ?thesis unfolding s_def [symmetric] Let_def rpc_metrics_ok_def using metric_keys_length by blast
qed

text \<open>
  C40. A panic of an operational HTTP handler is contained, and reports carry nothing of the request but safe
  values. With valid status codes a response has at most one status; a panic before the response began is
  answered with status 500 and the fixed error document alone, a panic after it aborts the connection; and every tag of
  every report is a fixed text, a registered route, a valid exchange, market or interval, a symbol of the
  safe alphabet, or the status.
\<close>

theorem http_panic_contained:
  assumes "Sentry_HTTP enabled routes path query context calls panics = (w, reports, aborted)" and "list_all proper_call calls"
  shows "length (filter is_status (sw_sent w)) \<le> 1 \<and> (aborted \<longleftrightarrow> panics \<and> list_ex starts_response calls)
    \<and> (panics \<and> \<not> aborted \<longrightarrow> sw_status w = 500 \<and> Sent_status 500 \<in> set (sw_sent w) \<and> bodies (sw_sent w) = [panic_body])
    \<and> list_all (\<lambda>x. list_all (safe_tag routes) (report_tags x)) reports"
proof -
  define tags where "tags = AList.update ''route'' (route_name routes path) (requestTags query)"
  define resp where "resp = fold writer_step calls \<lparr>sw_status = 0, sw_failureCode = [], sw_cause = None, sw_sent = []\<rparr>"
  define failed where "failed = sw_Write panic_body (sw_WriteHeader 500 (resp\<lparr>sw_sent := sw_sent resp @ [Sent_header ''Content-Type'' ''application/json'']\<rparr>))"
  have safe: "list_all (safe_tag routes) tags"
    unfolding tags_def by (intro safe_update requestTags_safe) (simp add: safe_tag_def route_name_def)
  have ok: "writer_ok resp" unfolding resp_def
    by (rule writer_run_ok [OF assms(2)]) (simp add: writer_defs)
  have begun: "sw_status resp = 0 \<longleftrightarrow> \<not> list_ex starts_response calls"
    unfolding resp_def using writer_begun [OF assms(2)] by simp
  have failed: "sw_status failed = 500 \<and> Sent_status 500 \<in> set (sw_sent failed) \<and> bodies (sw_sent failed) = [panic_body]
      \<and> length (filter is_status (sw_sent failed)) \<le> 1" if "sw_status resp = 0"
    using ok that unfolding failed_def by (simp add: writer_defs Let_def List.map_filter_def)
  have out: "(w, reports, aborted) = (if panics then
      (if sw_status resp \<noteq> 0 then (resp, if enabled then [Report_panic tags] else [], True)
       else (failed, (if enabled then [Report_panic tags] else []) @ status_report enabled context tags failed, False))
     else (resp, status_report enabled context tags resp, False))"
    using assms(1) unfolding Sentry_HTTP_def Let_def tags_def resp_def failed_def by simp
  have reports: "list_all (\<lambda>x. list_all (safe_tag routes) (report_tags x)) reports"
    using out safe status_report_safe [OF safe] by (auto simp: list_all_iff split: if_splits)
  show ?thesis
    using out begun failed ok reports by (auto simp: writer_ok_def split: if_splits)
qed

theorem http_panic_contained_witness:
  "bodies (sw_sent (fst (Sentry_HTTP True [] ''/health'' (\<lambda>_. []) None [Call_header ''A'' ''b''] True))) = [panic_body]"
proof -
  obtain w reports aborted where run: "Sentry_HTTP True [] ''/health'' (\<lambda>_. []) None [Call_header ''A'' ''b''] True = (w, reports, aborted)"
    by (metis prod.collapse)
  have "list_all proper_call [Call_header ''A'' ''b'']" "\<not> list_ex starts_response [Call_header ''A'' ''b'']"
    by (simp_all add: proper_call_def starts_response_def)
  with http_panic_contained [OF run] run show ?thesis by simp
qed

end
